(* ===== verification/Rdbms_Prelude.thy ===== *)
theory Rdbms_Prelude
  imports Main "HOL-Library.Word"
begin

text \<open>
  Shared vocabulary of the development: machine integer types, Rust results as sums with
  their sequencing operator, results that also carry a mutated state, checked arithmetic,
  byte slices of fixed-size buffers and little-endian integers. The lemmas collected in
  \<open>res_simps\<close> decompose a successful or failed sequence of fallible calls; those
  in \<open>buf_simps\<close> read a buffer back after an in-place write.
\<close>

named_theorems res_simps \<open>success and failure of sequenced fallible calls\<close>
named_theorems buf_simps \<open>reading a byte buffer after an in-place write\<close>

section \<open>Machine integers and byte strings\<close>

type_synonym u8 = "8 word"
type_synonym u16 = "16 word"
type_synonym u32 = "32 word"
type_synonym u64 = "64 word"
type_synonym byte_list = "u8 list"

text \<open>
  A Rust \<open>usize\<close> is a natural number below \<open>2 ^ 64\<close>; buffer lengths and
  indices are naturals, and the \<open>checked_add\<close> of the source is written out.
\<close>

definition checked_add_usize :: "nat \<Rightarrow> nat \<Rightarrow> nat option" where
  "checked_add_usize a b = (if a + b < 2 ^ 64 then Some (a + b) else None)"

definition checked_add :: "'a::len word \<Rightarrow> 'a word \<Rightarrow> 'a word option" where
  "checked_add a b = (if unat a + unat b < 2 ^ LENGTH('a) then Some (a + b) else None)"

definition checked_mul :: "'a::len word \<Rightarrow> 'a word \<Rightarrow> 'a word option" where
  "checked_mul a b = (if unat a * unat b < 2 ^ LENGTH('a) then Some (a * b) else None)"

lemma unat_u8_less: "unat (b :: u8) < 256"
  using unsigned_less [of b, where ?'a = nat] by simp

lemma unat_u16_less: "unat (b :: u16) < 65536"
  using unsigned_less [of b, where ?'a = nat] by simp

lemma unat_u32_less: "unat (b :: u32) < 4294967296"
  using unsigned_less [of b, where ?'a = nat] by simp

lemma unat_u64_less: "unat (b :: u64) < 18446744073709551616"
  using unsigned_less [of b, where ?'a = nat] by simp

lemma unat_of_nat_widths [simp]:
  "k < 65536 \<Longrightarrow> unat (of_nat k :: u16) = k"
  "k < 4294967296 \<Longrightarrow> unat (of_nat k :: u32) = k"
  "k < 18446744073709551616 \<Longrightarrow> unat (of_nat k :: u64) = k"
  by (simp_all add: unat_of_nat take_bit_nat_eq_self)

lemma checked_add_Some:
  "checked_add a b = Some c \<longleftrightarrow> unat a + unat b < 2 ^ LENGTH('a) \<and> c = a + b"
  for a b c :: "'a::len word"
  by (auto simp: checked_add_def)

lemma checked_add_unat:
  "checked_add a b = Some c \<Longrightarrow> unat c = unat a + unat b"
  by (auto simp: checked_add_def unat_word_ariths split: if_splits)

lemma checked_mul_unat:
  "checked_mul a b = Some c \<Longrightarrow> unat c = unat a * unat b"
  by (auto simp: checked_mul_def unat_word_ariths split: if_splits)

lemma checked_add_usize_Some [simp]:
  "checked_add_usize a b = Some c \<longleftrightarrow> a + b < 2 ^ 64 \<and> c = a + b"
  by (auto simp: checked_add_usize_def)

section \<open>Results\<close>

text \<open>
  \<open>Result<T, E>\<close> is the sum \<open>'e + 'a\<close> with \<open>Inl\<close> for \<open>Err\<close>.
  \<open>bindR m f\<close> is the source's \<open>let x = m?; f x\<close>.
\<close>

fun bindR :: "'err + 't \<Rightarrow> ('t \<Rightarrow> 'err + 'u) \<Rightarrow> 'err + 'u" where
  "bindR (Inl e) f = Inl e"
| "bindR (Inr x) f = f x"

definition ok_or :: "'a option \<Rightarrow> 'e \<Rightarrow> 'e + 'a" where
  "ok_or m e = (case m of None \<Rightarrow> Inl e | Some x \<Rightarrow> Inr x)"

lemma bindR_eq_Inr [res_simps]:
  "bindR r f = Inr y \<longleftrightarrow> (\<exists>x. r = Inr x \<and> f x = Inr y)"
  by (cases r) auto

lemma bindR_eq_Inl [res_simps]:
  "bindR m f = Inl e \<longleftrightarrow> m = Inl e \<or> (\<exists>x. m = Inr x \<and> f x = Inl e)"
  by (cases m) auto

lemma bindR_return [simp]: "bindR m Inr = m"
  by (cases m) auto

lemma bindR_assoc: "bindR (bindR m f) g = bindR m (\<lambda>x. bindR (f x) g)"
  by (cases m) auto

lemma bindR_cong [fundef_cong]:
  "m = m' \<Longrightarrow> (\<And>x. m' = Inr x \<Longrightarrow> f x = g x) \<Longrightarrow> bindR m f = bindR m' g"
  by (cases m') auto

lemma ok_or_simps [simp]: "ok_or None e = Inl e" "ok_or (Some x) e = Inr x"
  by (simp_all add: ok_or_def)

lemma ok_or_eq_Inr [res_simps]: "ok_or m e = Inr x \<longleftrightarrow> m = Some x"
  by (cases m) auto

lemma ok_or_eq_Inl [res_simps]: "ok_or m e = Inl d \<longleftrightarrow> m = None \<and> d = e"
  by (cases m) auto

text \<open>A loop whose body may return early with an error, and \<open>map(..).collect()\<close>.\<close>

fun for_each :: "('a \<Rightarrow> 'e + unit) \<Rightarrow> 'a list \<Rightarrow> 'e + unit" where
  "for_each f [] = Inr ()"
| "for_each f (x # xs) = bindR (f x) (\<lambda>_. for_each f xs)"

fun collectR :: "('t \<Rightarrow> 'err + 'u) \<Rightarrow> 't list \<Rightarrow> 'err + 'u list" where
  "collectR f [] = Inr []"
| "collectR f (x # xs) = bindR (f x) (\<lambda>y. bindR (collectR f xs) (\<lambda>ys. Inr (y # ys)))"

lemma for_each_eq_Inr [res_simps]:
  "for_each f xs = Inr u \<longleftrightarrow> (\<forall>x \<in> set xs. f x = Inr ())"
  by (induction xs) (auto simp: bindR_eq_Inr)

lemma for_each_eq_Inl:
  "for_each f xs = Inl e \<Longrightarrow> \<exists>x \<in> set xs. f x = Inl e"
  by (induction xs) (auto simp: bindR_eq_Inl)

lemma collectR_eq_Inr:
  "collectR f xs = Inr ys \<longleftrightarrow> list_all2 (\<lambda>x y. f x = Inr y) xs ys"
  by (induction xs arbitrary: ys) (auto simp: bindR_eq_Inr list_all2_Cons1)

lemma collectR_all_Inr:
  "(\<And>x. x \<in> set xs \<Longrightarrow> f x = Inr (g x)) \<Longrightarrow> collectR f xs = Inr (map g xs)"
  by (induction xs) auto

text \<open>
  A method taking \<open>&mut self\<close> returns its result together with the state it leaves
  behind, on the error paths too.
\<close>

type_synonym ('s, 'e, 'a) stres = "('e + 'a) \<times> 's"

definition bindS :: "('s, 'e, 'a) stres \<Rightarrow> ('a \<Rightarrow> 's \<Rightarrow> ('s, 'e, 'b) stres) \<Rightarrow> ('s, 'e, 'b) stres" where
  "bindS m f = (case m of (Inl e, s) \<Rightarrow> (Inl e, s) | (Inr x, s) \<Rightarrow> f x s)"

lemma bindS_simps [simp]:
  "bindS (Inl e, s) f = (Inl e, s)"
  "bindS (Inr x, s) f = f x s"
  by (simp_all add: bindS_def)

lemma bindS_eq_Inr [res_simps]:
  "bindS m f = (Inr y, t) \<longleftrightarrow> (\<exists>x s. m = (Inr x, s) \<and> f x s = (Inr y, t))"
  by (cases m; cases "fst m") auto

lemma bindS_eq_Inl [res_simps]:
  "bindS m f = (Inl e, t) \<longleftrightarrow> m = (Inl e, t) \<or> (\<exists>x s. m = (Inr x, s) \<and> f x s = (Inl e, t))"
  by (cases m; cases "fst m") auto

lemma bindS_cong [fundef_cong]:
  "m = m' \<Longrightarrow> (\<And>x s. m' = (Inr x, s) \<Longrightarrow> f x s = g x s) \<Longrightarrow> bindS m f = bindS m' g"
  by (cases m'; cases "fst m'") auto

text \<open>
  The invariant rule for a sequence of mutating calls: what the first call establishes
  on both its exits, and the continuation keeps.
\<close>

lemma bindS_inv:
  assumes "P (snd m)" and "\<And>x s. m = (Inr x, s) \<Longrightarrow> P s \<Longrightarrow> P (snd (f x s))"
  shows "P (snd (bindS m f))"
  using assms by (cases m; cases "fst m") auto

text \<open>A loop over a list whose body mutates the state and may return early.\<close>

fun for_eachS :: "('a \<Rightarrow> 's \<Rightarrow> ('s, 'e, unit) stres) \<Rightarrow> 'a list \<Rightarrow> 's \<Rightarrow> ('s, 'e, unit) stres" where
  "for_eachS f [] s = (Inr (), s)"
| "for_eachS f (x # xs) s = bindS (f x s) (\<lambda>_ s'. for_eachS f xs s')"

lemma for_eachS_inv:
  assumes "P s" "\<And>x s. x \<in> set xs \<Longrightarrow> P s \<Longrightarrow> P (snd (f x s))"
  shows "P (snd (for_eachS f xs s))"
  using assms
proof (induction xs arbitrary: s)
  case (Cons x xs)
  show ?case
    unfolding for_eachS.simps
  proof (rule bindS_inv)
    show "P (snd (f x s))" using Cons.prems by simp
    show "P (snd (for_eachS f xs t))" if "P t" for t
      using that by (rule Cons.IH) (use Cons.prems in auto)
  qed
qed simp

lemma for_eachS_append:
  "for_eachS f (xs @ ys) s = bindS (for_eachS f xs s) (\<lambda>_. for_eachS f ys)"
proof (induction xs arbitrary: s)
  case (Cons x xs)
  then show ?case by (cases "f x s"; cases "fst (f x s)") auto
qed simp

section \<open>Slices of byte buffers\<close>

definition slice :: "byte_list \<Rightarrow> nat \<Rightarrow> nat \<Rightarrow> byte_list" where
  "slice bs off n = take n (drop off bs)"

text \<open>\<open>bytes[off..off + data.len()].copy_from_slice(data)\<close>\<close>

definition put :: "byte_list \<Rightarrow> nat \<Rightarrow> byte_list \<Rightarrow> byte_list" where
  "put bs off data = take off bs @ data @ drop (off + length data) bs"

lemma length_slice [simp]: "length (slice bs off n) = min n (length bs - off)"
  by (simp add: slice_def)

lemma length_put [simp]:
  "off + length data \<le> length bs \<Longrightarrow> length (put bs off data) = length bs"
  by (simp add: put_def)

lemma nth_put:
  assumes "off + length data \<le> length bs" "i < length bs"
  shows "put bs off data ! i =
    (if off \<le> i \<and> i < off + length data then data ! (i - off) else bs ! i)"
  using assms by (auto simp: put_def nth_append min_def)

lemma slice_nth: "i < n \<Longrightarrow> off + i < length bs \<Longrightarrow> slice bs off n ! i = bs ! (off + i)"
  by (simp add: slice_def)

lemma slice_put_same [buf_simps]:
  "off + length data \<le> length bs \<Longrightarrow> n = length data \<Longrightarrow> slice (put bs off data) off n = data"
  by (simp add: put_def slice_def)

lemma slice_put_other [buf_simps]:
  assumes "off + length data \<le> length bs"
    and "off' + n \<le> off \<or> off + length data \<le> off'"
  shows "slice (put bs off data) off' n = slice bs off' n"
proof (rule nth_equalityI)
  show "length (slice (put bs off data) off' n) = length (slice bs off' n)"
    using assms by simp
next
  fix i assume "i < length (slice (put bs off data) off' n)"
  with assms have "i < n" "off' + i < length bs" by auto
  with assms show "slice (put bs off data) off' n ! i = slice bs off' n ! i"
    by (auto simp: slice_nth nth_put)
qed

lemma put_slice_id:
  "off + n \<le> length bs \<Longrightarrow> put bs off (slice bs off n) = bs"
  by (rule nth_equalityI) (auto simp: nth_put slice_nth)

lemma put_put_same [buf_simps]:
  "off + length d1 \<le> length bs \<Longrightarrow> length d1 = length d2 \<Longrightarrow>
    put (put bs off d1) off d2 = put bs off d2"
  by (simp add: put_def)

lemma put_all: "length data = length bs \<Longrightarrow> put bs 0 data = data"
  by (simp add: put_def)

lemma slice_all [simp]: "slice bs 0 (length bs) = bs"
  by (simp add: slice_def)

lemma slice_append_left: "off + n \<le> length xs \<Longrightarrow> slice (xs @ ys) off n = slice xs off n"
  by (simp add: slice_def)

lemma slice_append_right:
  "slice (xs @ ys) (length xs + off) n = slice ys off n"
  by (simp add: slice_def)

lemma slice_eq_iff_nth:
  assumes "off + n \<le> length bs" "off + n \<le> length cs"
  shows "slice bs off n = slice cs off n \<longleftrightarrow> (\<forall>i<n. bs ! (off + i) = cs ! (off + i))"
  using assms by (auto simp: list_eq_iff_nth_eq slice_nth)

section \<open>Little-endian integers\<close>

fun nat_to_le :: "nat \<Rightarrow> nat \<Rightarrow> byte_list" where
  "nat_to_le 0 k = []"
| "nat_to_le (Suc n) k = of_nat (k mod 256) # nat_to_le n (k div 256)"

fun nat_of_le :: "byte_list \<Rightarrow> nat" where
  "nat_of_le [] = 0"
| "nat_of_le (b # bs) = unat b + 256 * nat_of_le bs"

lemma length_nat_to_le [simp]: "length (nat_to_le n k) = n"
  by (induction n arbitrary: k) auto

lemma nat_of_le_to_le [simp]: "nat_of_le (nat_to_le n k) = k mod 256 ^ n"
  by (induction n arbitrary: k) (simp_all add: unat_of_nat mod_mult2_eq)

lemma nat_to_le_of_le [simp]: "nat_to_le (length bs) (nat_of_le bs) = bs"
proof (induction bs)
  case (Cons b bs)
  then show ?case using unat_u8_less [of b] by simp
qed simp

lemma nat_of_le_less: "nat_of_le bs < 256 ^ length bs"
proof (induction bs)
  case (Cons b bs)
  then show ?case using unat_u8_less [of b] by simp
qed simp

text \<open>\<open>to_le_bytes\<close> and \<open>from_le_bytes\<close> of an integer of \<open>n\<close> bytes.\<close>

definition to_le_bytes :: "nat \<Rightarrow> 'a::len word \<Rightarrow> byte_list" where
  "to_le_bytes n w = nat_to_le n (unat w)"

definition from_le_bytes :: "byte_list \<Rightarrow> 'a::len word" where
  "from_le_bytes bs = of_nat (nat_of_le bs)"

lemma length_to_le_bytes [simp]: "length (to_le_bytes n w) = n"
  by (simp add: to_le_bytes_def)

lemma from_to_le_bytes:
  assumes "LENGTH('a) = 8 * n"
  shows "from_le_bytes (to_le_bytes n w) = (w :: 'a::len word)"
proof -
  have "(256::nat) ^ n = 2 ^ LENGTH('a)"
    by (simp add: assms power_mult)
  then have "unat w < 256 ^ n"
    using unsigned_less [of w, where ?'a = nat] by simp
  then show ?thesis by (simp add: from_le_bytes_def to_le_bytes_def)
qed

lemma to_from_le_bytes:
  assumes "LENGTH('a) = 8 * length bs"
  shows "to_le_bytes (length bs) (from_le_bytes bs :: 'a::len word) = bs"
proof -
  have "(256::nat) ^ length bs = 2 ^ LENGTH('a)"
    by (simp add: assms power_mult)
  then have "unat (from_le_bytes bs :: 'a word) = nat_of_le bs"
    using nat_of_le_less [of bs] by (simp add: from_le_bytes_def unat_of_nat)
  then show ?thesis by (simp add: to_le_bytes_def)
qed

lemma from_le_bytes_inject:
  assumes "LENGTH('a) = 8 * length bs" "length cs = length bs"
  shows "(from_le_bytes bs :: 'a::len word) = from_le_bytes cs \<longleftrightarrow> bs = cs"
  using to_from_le_bytes [where ?'a = 'a, of bs] to_from_le_bytes [where ?'a = 'a, of cs] assms
  by metis

lemma from_to_le_widths [simp]:
  "from_le_bytes (to_le_bytes 2 a) = (a :: u16)"
  "from_le_bytes (to_le_bytes 4 b) = (b :: u32)"
  "from_le_bytes (to_le_bytes 8 c) = (c :: u64)"
  by (simp_all add: from_to_le_bytes)

section \<open>Decimal rendering of numbers in messages\<close>

fun fmt_nat :: "nat \<Rightarrow> string" where
  "fmt_nat n = (if n < 10 then [char_of (48 + n)] else fmt_nat (n div 10) @ [char_of (48 + n mod 10)])"

declare fmt_nat.simps [simp del]

end
