(* ===== verification/Rdbms_Core.thy ===== *)
theory Rdbms_Core
  imports Rdbms_Prelude
begin

text \<open>
  The shared types of \<open>crates/rdbms_core\<close>: the identifier newtypes with the derived
  orders, the typed error boundary, SQL values and execution results. A Rust
  \<open>String\<close> is the HOL string of its UTF-8 bytes, so \<open>length\<close> is the byte
  length \<open>String::len\<close>. A double is represented by its IEEE-754 bit pattern.
\<close>

section \<open>Identifiers\<close>

datatype page_id = PageId (page_no: u64)
datatype relation_id = RelationId (relation_no: u64)
datatype tx_id = TxId (tx_no: u64)
datatype lsn = Lsn (lsn_no: u64)
datatype slot_id = SlotId (slot_no: u16)
datatype row_id = RowId (row_page_id: page_id) (row_slot_id: slot_id)

text \<open>The derived \<open>Ord\<close> instances that ordered containers and comparisons use.\<close>

instantiation page_id :: linorder
begin

definition less_eq_page_id :: "page_id \<Rightarrow> page_id \<Rightarrow> bool" where
  "p \<le> q \<longleftrightarrow> page_no p \<le> page_no q"

definition less_page_id :: "page_id \<Rightarrow> page_id \<Rightarrow> bool" where
  "p < q \<longleftrightarrow> page_no p < page_no q"

instance
  by standard (auto simp: less_eq_page_id_def less_page_id_def intro: page_id.expand)

end

instantiation slot_id :: linorder
begin

definition less_eq_slot_id :: "slot_id \<Rightarrow> slot_id \<Rightarrow> bool" where
  "p \<le> q \<longleftrightarrow> slot_no p \<le> slot_no q"

definition less_slot_id :: "slot_id \<Rightarrow> slot_id \<Rightarrow> bool" where
  "p < q \<longleftrightarrow> slot_no p < slot_no q"

instance
  by standard (auto simp: less_eq_slot_id_def less_slot_id_def intro: slot_id.expand)

end

instantiation row_id :: linorder
begin

definition less_eq_row_id :: "row_id \<Rightarrow> row_id \<Rightarrow> bool" where
  "p \<le> q \<longleftrightarrow> row_page_id p < row_page_id q \<or>
     row_page_id p = row_page_id q \<and> row_slot_id p \<le> row_slot_id q"

definition less_row_id :: "row_id \<Rightarrow> row_id \<Rightarrow> bool" where
  "p < q \<longleftrightarrow> row_page_id p < row_page_id q \<or>
     row_page_id p = row_page_id q \<and> row_slot_id p < row_slot_id q"

instance
  by standard (auto simp: less_eq_row_id_def less_row_id_def intro: row_id.expand)

end

lemma slot_no_eq [simp]: "slot_no s = slot_no t \<longleftrightarrow> s = t"
  by (cases s; cases t) simp

lemma page_no_eq [simp]: "page_no p = page_no q \<longleftrightarrow> p = q"
  by (cases p; cases q) simp

section \<open>Errors\<close>

text \<open>
  The kinds of \<open>std::io::Error\<close> the program itself creates or tests, and any other
  operating-system error by number.
\<close>

datatype io_error = UnexpectedEof | WriteZero | InvalidInput string | Interrupted
  | Unsupported string | OsError nat

datatype db_error = User string | Retryable string | Io io_error | Corruption string
  | InternalInvariant string | Extension string

type_synonym 'a db_result = "db_error + 'a"

definition db_error_display :: "(io_error \<Rightarrow> string) \<Rightarrow> db_error \<Rightarrow> string" where
  "db_error_display show_io e = (case e of
     User message \<Rightarrow> ''user error: '' @ message
   | Retryable message \<Rightarrow> ''retryable error: '' @ message
   | Io err \<Rightarrow> ''io error: '' @ show_io err
   | Corruption message \<Rightarrow> ''corruption: '' @ message
   | InternalInvariant message \<Rightarrow> ''internal invariant violation: '' @ message
   | Extension message \<Rightarrow> ''extension error: '' @ message)"

text \<open>\<open>impl From<std::io::Error> for DbError\<close>, applied by the \<open>?\<close> operator.\<close>

fun from_io :: "io_error + 'a \<Rightarrow> 'a db_result" where
  "from_io (Inl e) = Inl (Io e)"
| "from_io (Inr x) = Inr x"

lemma from_io_eq_Inr [res_simps]: "from_io m = Inr x \<longleftrightarrow> m = Inr x"
  by (cases m) auto

section \<open>Values and results\<close>

datatype sql_value = Null | Text string | Integer u64 | Double u64

record column_info =
  ci_name :: string
  ci_type_name :: string

datatype exec_result =
    StatementComplete (rows_affected: u64)
  | Query (q_columns: "column_info list") (q_rows: "sql_value list list")
  | Explain (plan: string)

end
