(* ===== verification/Rdbms_Page.thy ===== *)
theory Rdbms_Page
  imports Rdbms_Core
begin

text \<open>
  The slotted page of \<open>crates/rdbms_page\<close>: a 4096-byte buffer with a 34-byte header,
  a slot directory growing upwards and record bytes packed downwards from the page end.
  The model works on the bytes themselves, at the offsets of the source. Methods with
  \<open>&mut self\<close> return their result together with the page they leave behind. Slot
  indices (\<open>u16\<close> in the source) are represented by their numeric value. The only
  reachable panic is the underflow of \<open>free_end -= data.len()\<close> in \<open>compact\<close>;
  its model returns \<open>None\<close> there.
\<close>

section \<open>Layout\<close>

definition PAGE_SIZE :: nat where [simp]: "PAGE_SIZE = 4096"
definition PAGE_MAGIC :: u32 where "PAGE_MAGIC = 0x52444250"
definition PAGE_VERSION :: u16 where "PAGE_VERSION = 1"
definition HEADER_SIZE :: nat where [simp]: "HEADER_SIZE = 34"
definition SLOT_SIZE :: nat where [simp]: "SLOT_SIZE = 6"

definition OFF_MAGIC :: nat where [simp]: "OFF_MAGIC = 0"
definition OFF_VERSION :: nat where [simp]: "OFF_VERSION = 4"
definition OFF_PAGE_TYPE :: nat where [simp]: "OFF_PAGE_TYPE = 6"
definition OFF_PAGE_ID :: nat where [simp]: "OFF_PAGE_ID = 8"
definition OFF_PAGE_LSN :: nat where [simp]: "OFF_PAGE_LSN = 16"
definition OFF_FREE_START :: nat where [simp]: "OFF_FREE_START = 24"
definition OFF_FREE_END :: nat where [simp]: "OFF_FREE_END = 26"
definition OFF_SLOT_COUNT :: nat where [simp]: "OFF_SLOT_COUNT = 28"
definition OFF_CHECKSUM :: nat where [simp]: "OFF_CHECKSUM = 30"

definition SLOT_UNUSED :: u16 where [simp]: "SLOT_UNUSED = 0"
definition SLOT_LIVE :: u16 where [simp]: "SLOT_LIVE = 1"
definition SLOT_DEAD :: u16 where [simp]: "SLOT_DEAD = 2"

datatype page_type = FileHeader | Heap | Catalog | FreeMap | Index

fun page_type_to_u16 :: "page_type \<Rightarrow> u16" where
  "page_type_to_u16 FileHeader = 1"
| "page_type_to_u16 Heap = 2"
| "page_type_to_u16 Catalog = 3"
| "page_type_to_u16 FreeMap = 4"
| "page_type_to_u16 Index = 5"

definition msg_unknown_page_type :: "u16 \<Rightarrow> string" where
  "msg_unknown_page_type v = ''unknown page type: '' @ fmt_nat (unat v)"

definition page_type_from_u16 :: "u16 \<Rightarrow> page_type db_result" where
  "page_type_from_u16 v =
     (if v = 1 then Inr FileHeader
      else if v = 2 then Inr Heap
      else if v = 3 then Inr Catalog
      else if v = 4 then Inr FreeMap
      else if v = 5 then Inr Index
      else Inl (Corruption (msg_unknown_page_type v)))"

record page_header =
  h_page_id :: page_id
  h_page_lsn :: lsn
  h_page_type :: page_type
  h_free_start :: u16
  h_free_end :: u16
  h_slot_count :: u16
  h_checksum :: u32

record slot_entry =
  se_offset :: u16
  se_len :: u16
  se_flags :: u16

definition slot_entry_unused :: slot_entry where
  "slot_entry_unused = \<lparr>se_offset = 0, se_len = 0, se_flags = SLOT_UNUSED\<rparr>"

definition slot_is_live :: "slot_entry \<Rightarrow> bool" where
  "slot_is_live s \<longleftrightarrow> se_flags s = SLOT_LIVE"

definition slot_is_dead :: "slot_entry \<Rightarrow> bool" where
  "slot_is_dead s \<longleftrightarrow> se_flags s = SLOT_DEAD"

record page =
  page_bytes :: byte_list

section \<open>Byte access\<close>

definition read_u16 :: "byte_list \<Rightarrow> nat \<Rightarrow> u16" where
  "read_u16 bs offset = from_le_bytes (slice bs offset 2)"

definition read_u32 :: "byte_list \<Rightarrow> nat \<Rightarrow> u32" where
  "read_u32 bs offset = from_le_bytes (slice bs offset 4)"

definition read_u64 :: "byte_list \<Rightarrow> nat \<Rightarrow> u64" where
  "read_u64 bs offset = from_le_bytes (slice bs offset 8)"

definition write_u16 :: "byte_list \<Rightarrow> nat \<Rightarrow> u16 \<Rightarrow> byte_list" where
  "write_u16 bs offset v = put bs offset (to_le_bytes 2 v)"

definition write_u32 :: "byte_list \<Rightarrow> nat \<Rightarrow> u32 \<Rightarrow> byte_list" where
  "write_u32 bs offset v = put bs offset (to_le_bytes 4 v)"

definition write_u64 :: "byte_list \<Rightarrow> nat \<Rightarrow> u64 \<Rightarrow> byte_list" where
  "write_u64 bs offset v = put bs offset (to_le_bytes 8 v)"

section \<open>Checksums\<close>

definition checksum :: "byte_list \<Rightarrow> u32" where
  "checksum bs = fold (\<lambda>byte acc. acc + ucast byte) bs 0"

definition msg_checksum_mismatch :: "u32 \<Rightarrow> u32 \<Rightarrow> string" where
  "msg_checksum_mismatch expected actual =
     ''page checksum mismatch: expected '' @ fmt_nat (unat expected) @ '', got '' @ fmt_nat (unat actual)"

definition validate_checksum :: "byte_list \<Rightarrow> u32 \<Rightarrow> unit db_result" where
  "validate_checksum bs expected =
     (let actual = checksum bs
      in if actual = expected then Inr ()
         else Inl (Corruption (msg_checksum_mismatch expected actual)))"

definition validate_page_checksum :: "byte_list \<Rightarrow> unit db_result" where
  "validate_page_checksum bs =
     (let expected = read_u32 bs OFF_CHECKSUM;
          copy = write_u32 bs OFF_CHECKSUM 0
      in validate_checksum copy expected)"

definition refresh_checksum :: "page \<Rightarrow> page" where
  "refresh_checksum p =
     (let bs = write_u32 (page_bytes p) OFF_CHECKSUM 0;
          v = checksum bs
      in p\<lparr>page_bytes := write_u32 bs OFF_CHECKSUM v\<rparr>)"

section \<open>Formatting, header and slot access\<close>

definition page_zeroed :: page where
  "page_zeroed = \<lparr>page_bytes = replicate PAGE_SIZE 0\<rparr>"

definition page_new :: "page_id \<Rightarrow> page_type \<Rightarrow> page" where
  "page_new pid pty =
     (let b0 = page_bytes page_zeroed;
          b1 = write_u32 b0 OFF_MAGIC PAGE_MAGIC;
          b2 = write_u16 b1 OFF_VERSION PAGE_VERSION;
          b3 = write_u16 b2 OFF_PAGE_TYPE (page_type_to_u16 pty);
          b4 = write_u64 b3 OFF_PAGE_ID (page_no pid);
          b5 = write_u64 b4 OFF_PAGE_LSN 0;
          b6 = write_u16 b5 OFF_FREE_START (of_nat HEADER_SIZE);
          b7 = write_u16 b6 OFF_FREE_END (of_nat PAGE_SIZE);
          b8 = write_u16 b7 OFF_SLOT_COUNT 0
      in refresh_checksum \<lparr>page_bytes = b8\<rparr>)"

definition msg_page_magic :: string where
  "msg_page_magic = ''invalid page magic''"

definition msg_page_version :: "u16 \<Rightarrow> string" where
  "msg_page_version v = ''unsupported page version: '' @ fmt_nat (unat v)"

definition msg_free_start :: "nat \<Rightarrow> u16 \<Rightarrow> string" where
  "msg_free_start expected got =
     ''invalid free_start: expected '' @ fmt_nat expected @ '', got '' @ fmt_nat (unat got)"

definition msg_free_space :: "u16 \<Rightarrow> u16 \<Rightarrow> string" where
  "msg_free_space fs fe =
     ''invalid free space boundaries: free_start='' @ fmt_nat (unat fs) @ '', free_end='' @ fmt_nat (unat fe)"

definition header :: "page \<Rightarrow> page_header db_result" where
  "header p =
     (let bs = page_bytes p
      in if read_u32 bs OFF_MAGIC \<noteq> PAGE_MAGIC then Inl (Corruption msg_page_magic)
         else let version = read_u16 bs OFF_VERSION
         in if version \<noteq> PAGE_VERSION then Inl (Corruption (msg_page_version version))
         else let free_start = read_u16 bs OFF_FREE_START;
                  free_end = read_u16 bs OFF_FREE_END;
                  slot_count = read_u16 bs OFF_SLOT_COUNT;
                  min_free_start = HEADER_SIZE + unat slot_count * SLOT_SIZE
         in if unat free_start \<noteq> min_free_start
            then Inl (Corruption (msg_free_start min_free_start free_start))
         else if free_end < free_start \<or> PAGE_SIZE < unat free_end
            then Inl (Corruption (msg_free_space free_start free_end))
         else bindR (page_type_from_u16 (read_u16 bs OFF_PAGE_TYPE)) (\<lambda>pty.
           Inr \<lparr>h_page_id = PageId (read_u64 bs OFF_PAGE_ID),
                h_page_lsn = Lsn (read_u64 bs OFF_PAGE_LSN),
                h_page_type = pty,
                h_free_start = free_start,
                h_free_end = free_end,
                h_slot_count = slot_count,
                h_checksum = read_u32 bs OFF_CHECKSUM\<rparr>))"

definition msg_slot_overflow :: string where
  "msg_slot_overflow = ''slot offset overflow''"

definition msg_slot_outside :: "nat \<Rightarrow> string" where
  "msg_slot_outside i = ''slot '' @ fmt_nat i @ '' is outside page''"

definition slot_offset :: "nat \<Rightarrow> nat db_result" where
  "slot_offset slot_index =
     bindR (ok_or (checked_add_usize HEADER_SIZE (slot_index * SLOT_SIZE)) (Corruption msg_slot_overflow))
       (\<lambda>offset. if PAGE_SIZE < offset + SLOT_SIZE
                 then Inl (Corruption (msg_slot_outside slot_index)) else Inr offset)"

definition read_slot_entry :: "page \<Rightarrow> nat \<Rightarrow> slot_entry db_result" where
  "read_slot_entry p slot_index =
     bindR (slot_offset slot_index) (\<lambda>offset.
       Inr \<lparr>se_offset = read_u16 (page_bytes p) offset,
            se_len = read_u16 (page_bytes p) (offset + 2),
            se_flags = read_u16 (page_bytes p) (offset + 4)\<rparr>)"

definition write_slot_entry :: "page \<Rightarrow> nat \<Rightarrow> slot_entry \<Rightarrow> unit db_result \<times> page" where
  "write_slot_entry p slot_index slot =
     (case slot_offset slot_index of
        Inl e \<Rightarrow> (Inl e, p)
      | Inr offset \<Rightarrow>
          (let b1 = write_u16 (page_bytes p) offset (se_offset slot);
               b2 = write_u16 b1 (offset + 2) (se_len slot);
               b3 = write_u16 b2 (offset + 4) (se_flags slot)
           in (Inr (), p\<lparr>page_bytes := b3\<rparr>)))"

fun find_dead_slot_from :: "page \<Rightarrow> nat list \<Rightarrow> nat option db_result" where
  "find_dead_slot_from p [] = Inr None"
| "find_dead_slot_from p (i # is) =
     bindR (read_slot_entry p i) (\<lambda>s.
       if slot_is_dead s then Inr (Some i) else find_dead_slot_from p is)"

definition find_dead_slot :: "page \<Rightarrow> u16 \<Rightarrow> nat option db_result" where
  "find_dead_slot p slot_count = find_dead_slot_from p [0..<unat slot_count]"

section \<open>Validation\<close>

definition msg_slot_flags :: "nat \<Rightarrow> u16 \<Rightarrow> string" where
  "msg_slot_flags i fl = ''invalid slot flags at slot '' @ fmt_nat i @ '': '' @ fmt_nat (unat fl)"

definition msg_slot_len :: string where
  "msg_slot_len = ''slot length overflows page''"

definition msg_slot_area :: "nat \<Rightarrow> string" where
  "msg_slot_area i = ''slot '' @ fmt_nat i @ '' points outside record area''"

definition validate_slot :: "page \<Rightarrow> page_header \<Rightarrow> nat \<Rightarrow> unit db_result" where
  "validate_slot p h slot_index =
     bindR (read_slot_entry p slot_index) (\<lambda>slot.
       if se_flags slot \<noteq> SLOT_UNUSED \<and> se_flags slot \<noteq> SLOT_LIVE \<and> se_flags slot \<noteq> SLOT_DEAD
       then Inl (Corruption (msg_slot_flags slot_index (se_flags slot)))
       else if slot_is_live slot
       then let start = unat (se_offset slot)
            in bindR (ok_or (checked_add_usize start (unat (se_len slot))) (Corruption msg_slot_len))
              (\<lambda>end. if start < unat (h_free_end h) \<or> PAGE_SIZE < end
                      then Inl (Corruption (msg_slot_area slot_index)) else Inr ())
       else Inr ())"

definition page_validate :: "page \<Rightarrow> unit db_result" where
  "page_validate p =
     bindR (header p) (\<lambda>h.
     bindR (validate_page_checksum (page_bytes p)) (\<lambda>_.
       for_each (validate_slot p h) [0..<unat (h_slot_count h)]))"

definition page_from_bytes :: "byte_list \<Rightarrow> page db_result" where
  "page_from_bytes bs =
     (let p = \<lparr>page_bytes = bs\<rparr>
      in bindR (page_validate p) (\<lambda>_. Inr p))"

section \<open>Record operations\<close>

definition msg_record_u16 :: string where
  "msg_record_u16 = ''record is larger than u16 length limit''"

definition msg_record_large :: string where
  "msg_record_large = ''record is too large''"

definition msg_no_space :: "nat \<Rightarrow> nat \<Rightarrow> string" where
  "msg_no_space needed free =
     ''not enough free page space: need '' @ fmt_nat needed @ '', have '' @ fmt_nat free"

definition msg_slot_count :: string where
  "msg_slot_count = ''page slot count overflow''"

text \<open>
  The part of \<open>insert_record\<close> after the space check: copy the record below
  \<open>free_end\<close>, take the slot to use and write its directory entry.
\<close>

definition insert_take_slot :: "page \<Rightarrow> page_header \<Rightarrow> nat option \<Rightarrow> nat db_result \<times> page" where
  "insert_take_slot p h reusable =
     (case reusable of
        Some index \<Rightarrow> (Inr index, p)
      | None \<Rightarrow>
          (case checked_add (h_slot_count h) 1 of
             None \<Rightarrow> (Inl (User msg_slot_count), p)
           | Some new_slot_count \<Rightarrow>
               (let b1 = write_u16 (page_bytes p) OFF_SLOT_COUNT new_slot_count;
                    b2 = write_u16 b1 OFF_FREE_START
                           (of_nat HEADER_SIZE + new_slot_count * of_nat SLOT_SIZE)
                in (Inr (unat (h_slot_count h)), p\<lparr>page_bytes := b2\<rparr>))))"

definition insert_place ::
  "page \<Rightarrow> page_header \<Rightarrow> nat option \<Rightarrow> byte_list \<Rightarrow> slot_id db_result \<times> page" where
  "insert_place p h reusable record =
     (let new_offset = unat (h_free_end h) - length record;
          b1 = put (page_bytes p) new_offset record;
          b2 = write_u16 b1 OFF_FREE_END (of_nat new_offset)
      in bindS (insert_take_slot (p\<lparr>page_bytes := b2\<rparr>) h reusable) (\<lambda>slot_index p1.
         bindS (write_slot_entry p1 slot_index
                  \<lparr>se_offset = of_nat new_offset, se_len = of_nat (length record), se_flags = SLOT_LIVE\<rparr>)
           (\<lambda>_ p2. (Inr (SlotId (of_nat slot_index)), refresh_checksum p2))))"

definition insert_record :: "page \<Rightarrow> byte_list \<Rightarrow> slot_id db_result \<times> page" where
  "insert_record p record =
     (if 65535 < length record then (Inl (User msg_record_u16), p)
      else case header p of
        Inl e \<Rightarrow> (Inl e, p)
      | Inr h \<Rightarrow>
     (case find_dead_slot p (h_slot_count h) of
        Inl e \<Rightarrow> (Inl e, p)
      | Inr reusable \<Rightarrow>
     (let slot_bytes = (if reusable = None then SLOT_SIZE else 0)
      in case checked_add_usize (length record) slot_bytes of
        None \<Rightarrow> (Inl (User msg_record_large), p)
      | Some needed \<Rightarrow>
     (let free_bytes = unat (h_free_end h - h_free_start h)
      in if free_bytes < needed then (Inl (User (msg_no_space needed free_bytes)), p)
         else insert_place p h reusable record))))"

definition msg_slot_range :: "slot_id \<Rightarrow> string" where
  "msg_slot_range s = ''slot '' @ fmt_nat (unat (slot_no s)) @ '' is out of range''"

definition msg_slot_past_end :: string where
  "msg_slot_past_end = ''slot points past page end''"

definition read_record :: "page \<Rightarrow> slot_id \<Rightarrow> byte_list option db_result" where
  "read_record p slot_id =
     bindR (header p) (\<lambda>h.
       if h_slot_count h \<le> slot_no slot_id then Inl (User (msg_slot_range slot_id))
       else bindR (read_slot_entry p (unat (slot_no slot_id))) (\<lambda>slot.
         if \<not> slot_is_live slot then Inr None
         else let start = unat (se_offset slot)
              in bindR (ok_or (checked_add_usize start (unat (se_len slot))) (Corruption msg_slot_len))
                (\<lambda>end. if PAGE_SIZE < end then Inl (Corruption msg_slot_past_end)
                        else Inr (Some (slice (page_bytes p) start (end - start))))))"

definition delete_record :: "page \<Rightarrow> slot_id \<Rightarrow> bool db_result \<times> page" where
  "delete_record p slot_id =
     (case header p of
        Inl e \<Rightarrow> (Inl e, p)
      | Inr h \<Rightarrow>
          if h_slot_count h \<le> slot_no slot_id then (Inl (User (msg_slot_range slot_id)), p)
          else (case read_slot_entry p (unat (slot_no slot_id)) of
             Inl e \<Rightarrow> (Inl e, p)
           | Inr slot \<Rightarrow>
               if \<not> slot_is_live slot then (Inr False, p)
               else bindS (write_slot_entry p (unat (slot_no slot_id)) (slot\<lparr>se_flags := SLOT_DEAD\<rparr>))
                 (\<lambda>_ p1. (Inr True, refresh_checksum p1))))"

section \<open>Compaction and page statistics\<close>

definition msg_live_without_data :: string where
  "msg_live_without_data = ''live slot without data''"

fun collect_live :: "page \<Rightarrow> nat list \<Rightarrow> (nat \<times> byte_list) list db_result" where
  "collect_live p [] = Inr []"
| "collect_live p (i # is) =
     bindR (read_slot_entry p i) (\<lambda>slot.
       if slot_is_live slot
       then bindR (read_record p (SlotId (of_nat i))) (\<lambda>r.
            bindR (ok_or r (Corruption msg_live_without_data)) (\<lambda>data.
            bindR (collect_live p is) (\<lambda>rest. Inr ((i, data) # rest))))
       else collect_live p is)"

text \<open>
  The repacking loop. \<open>None\<close> is the panic on the underflow of
  \<open>free_end -= data.len()\<close>.
\<close>

fun repack :: "(nat \<times> byte_list) list \<Rightarrow> nat \<Rightarrow> page \<Rightarrow> (nat db_result \<times> page) option" where
  "repack [] free_end p = Some (Inr free_end, p)"
| "repack ((slot_index, data) # rest) free_end p =
     (if free_end < length data then None
      else let fe = free_end - length data;
               p1 = p\<lparr>page_bytes := put (page_bytes p) fe data\<rparr>
           in case write_slot_entry p1 slot_index
                \<lparr>se_offset = of_nat fe, se_len = of_nat (length data), se_flags = SLOT_LIVE\<rparr> of
                (Inl e, p2) \<Rightarrow> Some (Inl e, p2)
              | (Inr _, p2) \<Rightarrow> repack rest fe p2)"

definition compact :: "page \<Rightarrow> (unit db_result \<times> page) option" where
  "compact p =
     (case header p of
        Inl e \<Rightarrow> Some (Inl e, p)
      | Inr h \<Rightarrow>
     (case collect_live p [0..<unat (h_slot_count h)] of
        Inl e \<Rightarrow> Some (Inl e, p)
      | Inr live_records \<Rightarrow>
     (let free_start = HEADER_SIZE + unat (h_slot_count h) * SLOT_SIZE;
          p1 = p\<lparr>page_bytes := put (page_bytes p) free_start (replicate (PAGE_SIZE - free_start) 0)\<rparr>
      in case repack live_records PAGE_SIZE p1 of
           None \<Rightarrow> None
         | Some (Inl e, p2) \<Rightarrow> Some (Inl e, p2)
         | Some (Inr free_end, p2) \<Rightarrow>
             Some (Inr (), refresh_checksum
               (p2\<lparr>page_bytes := write_u16 (page_bytes p2) OFF_FREE_END (of_nat free_end)\<rparr>)))))"

fun count_live :: "page \<Rightarrow> nat list \<Rightarrow> u16 \<Rightarrow> u16 db_result" where
  "count_live p [] count = Inr count"
| "count_live p (i # is) count =
     bindR (read_slot_entry p i) (\<lambda>slot.
       count_live p is (if slot_is_live slot then count + 1 else count))"

definition live_record_count :: "page \<Rightarrow> u16 db_result" where
  "live_record_count p =
     bindR (header p) (\<lambda>h. count_live p [0..<unat (h_slot_count h)] 0)"

definition free_space :: "page \<Rightarrow> nat db_result" where
  "free_space p = bindR (header p) (\<lambda>h. Inr (unat (h_free_end h - h_free_start h)))"

section \<open>Reading the buffer back\<close>

lemma page_update_bytes [simp]: "(p :: page)\<lparr>page_bytes := bs\<rparr> = \<lparr>page_bytes = bs\<rparr>"
  by (cases p) simp

lemma put_adjacent:
  "off + length d1 + length d2 \<le> length bs \<Longrightarrow> off' = off + length d1 \<Longrightarrow>
    put (put bs off d1) off' d2 = put bs off (d1 @ d2)"
  by (simp add: put_def add.commute add.left_commute)

lemma read_u16_put [buf_simps]:
  "off + 2 \<le> length bs \<Longrightarrow> read_u16 (put bs off (to_le_bytes 2 v)) off = v"
  "o' + length d \<le> length bs \<Longrightarrow> off + 2 \<le> o' \<or> o' + length d \<le> off \<Longrightarrow>
    read_u16 (put bs o' d) off = read_u16 bs off"
  by (simp_all add: read_u16_def slice_put_same slice_put_other)

lemma read_u32_put [buf_simps]:
  "off + 4 \<le> length bs \<Longrightarrow> read_u32 (put bs off (to_le_bytes 4 v)) off = v"
  "o' + length d \<le> length bs \<Longrightarrow> off + 4 \<le> o' \<or> o' + length d \<le> off \<Longrightarrow>
    read_u32 (put bs o' d) off = read_u32 bs off"
  by (simp_all add: read_u32_def slice_put_same slice_put_other)

lemma read_u64_put [buf_simps]:
  "off + 8 \<le> length bs \<Longrightarrow> read_u64 (put bs off (to_le_bytes 8 v)) off = v"
  "o' + length d \<le> length bs \<Longrightarrow> off + 8 \<le> o' \<or> o' + length d \<le> off \<Longrightarrow>
    read_u64 (put bs o' d) off = read_u64 bs off"
  by (simp_all add: read_u64_def slice_put_same slice_put_other)

lemmas write_defs = write_u16_def write_u32_def write_u64_def

section \<open>The header fields and the slot directory of a buffer\<close>

definition slot_at :: "byte_list \<Rightarrow> nat \<Rightarrow> slot_entry" where
  "slot_at bs i = \<lparr>se_offset = read_u16 bs (34 + 6 * i), se_len = read_u16 bs (36 + 6 * i),
                   se_flags = read_u16 bs (38 + 6 * i)\<rparr>"

definition slot_image :: "slot_entry \<Rightarrow> byte_list" where
  "slot_image s = to_le_bytes 2 (se_offset s) @ to_le_bytes 2 (se_len s) @ to_le_bytes 2 (se_flags s)"

definition slot_total :: "byte_list \<Rightarrow> nat" where
  "slot_total bs = unat (read_u16 bs OFF_SLOT_COUNT)"

definition free_end_of :: "byte_list \<Rightarrow> nat" where
  "free_end_of bs = unat (read_u16 bs OFF_FREE_END)"

definition hdr_ok :: "byte_list \<Rightarrow> bool" where
  "hdr_ok bs \<longleftrightarrow>
     read_u32 bs OFF_MAGIC = PAGE_MAGIC \<and> read_u16 bs OFF_VERSION = PAGE_VERSION \<and>
     (\<exists>t. page_type_from_u16 (read_u16 bs OFF_PAGE_TYPE) = Inr t) \<and>
     unat (read_u16 bs OFF_FREE_START) = 34 + 6 * slot_total bs \<and>
     34 + 6 * slot_total bs \<le> free_end_of bs \<and> free_end_of bs \<le> 4096"

definition hdr_of :: "byte_list \<Rightarrow> page_header" where
  "hdr_of bs = \<lparr>h_page_id = PageId (read_u64 bs OFF_PAGE_ID), h_page_lsn = Lsn (read_u64 bs OFF_PAGE_LSN),
     h_page_type = projr (page_type_from_u16 (read_u16 bs OFF_PAGE_TYPE)),
     h_free_start = read_u16 bs OFF_FREE_START, h_free_end = read_u16 bs OFF_FREE_END,
     h_slot_count = read_u16 bs OFF_SLOT_COUNT, h_checksum = read_u32 bs OFF_CHECKSUM\<rparr>"

definition checksum_ok :: "byte_list \<Rightarrow> bool" where
  "checksum_ok bs \<longleftrightarrow> checksum (put bs 30 (to_le_bytes 4 (0::u32))) = read_u32 bs 30"

definition slot_ok :: "byte_list \<Rightarrow> nat \<Rightarrow> bool" where
  "slot_ok bs i \<longleftrightarrow>
     se_flags (slot_at bs i) \<in> {0, 1, 2} \<and>
     (se_flags (slot_at bs i) = 1 \<longrightarrow>
        free_end_of bs \<le> unat (se_offset (slot_at bs i)) \<and>
        unat (se_offset (slot_at bs i)) + unat (se_len (slot_at bs i)) \<le> 4096)"

lemma length_slot_image [simp]: "length (slot_image s) = 6"
  by (simp add: slot_image_def)

lemma page_type_round_trip [simp]: "page_type_from_u16 (page_type_to_u16 t) = Inr t"
  by (cases t) (simp_all add: page_type_from_u16_def)

lemma page_type_from_u16_Inr:
  "page_type_from_u16 v = Inr t \<longleftrightarrow> v = page_type_to_u16 t"
  by (cases t) (auto simp: page_type_from_u16_def)

lemma page_type_from_u16_Inl:
  "page_type_from_u16 v = Inl e \<Longrightarrow> \<exists>m. e = Corruption m"
  by (auto simp: page_type_from_u16_def split: if_splits)

lemma header_Inr:
  "header p = Inr h \<longleftrightarrow> hdr_ok (page_bytes p) \<and> h = hdr_of (page_bytes p)"
  by (auto simp: header_def Let_def hdr_ok_def hdr_of_def slot_total_def free_end_of_def
      bindR_eq_Inr word_less_nat_alt split: if_splits)

lemma header_Inl:
  "header p = Inl e \<Longrightarrow> \<exists>m. e = Corruption m"
  by (auto simp: header_def Let_def bindR_eq_Inl dest: page_type_from_u16_Inl split: if_splits)

lemma slot_offset_Inr [simp]:
  "slot_offset i = Inr off \<longleftrightarrow> off = 34 + 6 * i \<and> 40 + 6 * i \<le> 4096"
  by (auto simp: slot_offset_def bindR_eq_Inr ok_or_eq_Inr)

lemma slot_offset_in: "40 + 6 * i \<le> 4096 \<Longrightarrow> slot_offset i = Inr (34 + 6 * i)"
  by simp

lemma read_slot_entry_in:
  "40 + 6 * i \<le> 4096 \<Longrightarrow> read_slot_entry p i = Inr (slot_at (page_bytes p) i)"
  by (simp add: read_slot_entry_def slot_offset_in slot_at_def add.commute add.left_commute)

lemma write_slot_entry_in:
  assumes "40 + 6 * i \<le> 4096" "length (page_bytes p) = 4096"
  shows "write_slot_entry p i s = (Inr (), p\<lparr>page_bytes := put (page_bytes p) (34 + 6 * i) (slot_image s)\<rparr>)"
  using assms
  by (simp add: write_slot_entry_def slot_offset_in write_defs Let_def put_adjacent slot_image_def)

lemma slot_at_put_slot:
  assumes "40 + 6 * i \<le> length bs" "40 + 6 * j \<le> length bs"
  shows "slot_at (put bs (34 + 6 * i) (slot_image s)) j = (if j = i then s else slot_at bs j)"
proof (cases "j = i")
  case True
  have "put bs (34 + 6 * i) (slot_image s) =
      put (put (put bs (34 + 6 * i) (to_le_bytes 2 (se_offset s))) (36 + 6 * i) (to_le_bytes 2 (se_len s)))
        (38 + 6 * i) (to_le_bytes 2 (se_flags s))"
    using assms by (simp add: slot_image_def put_adjacent)
  with True assms show ?thesis by (simp add: slot_at_def read_u16_put)
next
  case False
  then have "j < i \<or> i < j" by linarith
  with assms show ?thesis by (auto simp: slot_at_def read_u16_put)
qed

lemma slot_at_put_other [buf_simps]:
  "off + length d \<le> length bs \<Longrightarrow> 40 + 6 * i \<le> off \<or> off + length d \<le> 34 + 6 * i \<Longrightarrow>
    slot_at (put bs off d) i = slot_at bs i"
  by (auto simp: slot_at_def read_u16_put)

lemma slot_total_put [buf_simps]:
  "30 \<le> length bs \<Longrightarrow> slot_total (put bs 28 (to_le_bytes 2 (v::u16))) = unat v"
  "off + length d \<le> length bs \<Longrightarrow> 30 \<le> off \<or> off + length d \<le> 28 \<Longrightarrow>
    slot_total (put bs off d) = slot_total bs"
  by (auto simp: slot_total_def read_u16_put)

lemma free_end_of_put [buf_simps]:
  "28 \<le> length bs \<Longrightarrow> free_end_of (put bs 26 (to_le_bytes 2 (v::u16))) = unat v"
  "off + length d \<le> length bs \<Longrightarrow> 28 \<le> off \<or> off + length d \<le> 26 \<Longrightarrow>
    free_end_of (put bs off d) = free_end_of bs"
  by (auto simp: free_end_of_def read_u16_put)

lemma refresh_checksum_bytes:
  "length (page_bytes p) = 4096 \<Longrightarrow>
    page_bytes (refresh_checksum p) =
      put (page_bytes p) 30 (to_le_bytes 4 (checksum (put (page_bytes p) 30 (to_le_bytes 4 (0::u32)))))"
  by (simp add: refresh_checksum_def Let_def write_u32_def put_put_same)

lemma length_refresh_checksum [simp]:
  "length (page_bytes p) = 4096 \<Longrightarrow> length (page_bytes (refresh_checksum p)) = 4096"
  by (simp add: refresh_checksum_bytes)

lemma checksum_ok_refresh [simp]:
  "length (page_bytes p) = 4096 \<Longrightarrow> checksum_ok (page_bytes (refresh_checksum p))"
  by (simp add: refresh_checksum_bytes checksum_ok_def put_put_same read_u32_put)

lemma validate_page_checksum_Inr:
  "validate_page_checksum bs = Inr () \<longleftrightarrow> checksum_ok bs"
  by (simp add: validate_page_checksum_def validate_checksum_def checksum_ok_def Let_def write_u32_def)

lemma validate_slot_Inr:
  assumes "40 + 6 * i \<le> 4096" "h_free_end h = read_u16 (page_bytes p) 26"
  shows "validate_slot p h i = Inr () \<longleftrightarrow> slot_ok (page_bytes p) i"
proof -
  have "unat (se_offset s) + unat (se_len s) < 2 ^ 64" for s :: slot_entry
    using unat_u16_less [of "se_offset s"] unat_u16_less [of "se_len s"] by simp
  then show ?thesis
    using assms
    by (auto simp: validate_slot_def read_slot_entry_in slot_ok_def slot_is_live_def free_end_of_def
        checked_add_usize_def Let_def)
qed

text \<open>Validation accepts exactly the buffers with a well-formed header, checksum and directory.\<close>

lemma page_validate_iff:
  assumes "length (page_bytes p) = 4096"
  shows "page_validate p = Inr () \<longleftrightarrow>
    hdr_ok (page_bytes p) \<and> checksum_ok (page_bytes p) \<and>
    (\<forall>i < slot_total (page_bytes p). slot_ok (page_bytes p) i)"
proof (cases "hdr_ok (page_bytes p)")
  case True
  have bound: "40 + 6 * i \<le> 4096" if "i < slot_total (page_bytes p)" for i
    using that True by (simp add: hdr_ok_def)
  from True have "header p = Inr (hdr_of (page_bytes p))"
    by (simp add: header_Inr)
  moreover have "validate_slot p (hdr_of (page_bytes p)) i = Inr () \<longleftrightarrow> slot_ok (page_bytes p) i"
    if "i < slot_total (page_bytes p)" for i
    using bound [OF that] by (simp add: validate_slot_Inr hdr_of_def)
  ultimately show ?thesis
    using True
    by (auto simp: page_validate_def res_simps validate_page_checksum_Inr slot_total_def hdr_of_def)
next
  case False
  then have "header p \<noteq> Inr h" for h by (simp add: header_Inr)
  with False show ?thesis by (auto simp: page_validate_def bindR_eq_Inr)
qed

end
