(* ===== verification/Rdbms_Page_Spec.thy ===== *)
theory Rdbms_Page_Spec
  imports Rdbms_Page
begin

text \<open>
  The contract of the slotted page: a page is an array of slots, each unused, dead or
  holding a record. \<open>page_slots\<close> abstracts a page to that array; inserting,
  deleting and compacting a well-formed page refine the three one-line operations on the
  array, keep the page well formed and leave its identity alone. Well-formedness adds to
  what \<open>validate\<close> checks the accounting invariant that the live bytes fit above
  \<open>free_end\<close>.
\<close>

section \<open>The slot array\<close>

datatype slot_state = SUnused | SDead | SLive (s_record: byte_list)

definition slot_state_at :: "byte_list \<Rightarrow> nat \<Rightarrow> slot_state" where
  "slot_state_at bs i =
     (let s = slot_at bs i
      in if se_flags s = SLOT_LIVE then SLive (slice bs (unat (se_offset s)) (unat (se_len s)))
         else if se_flags s = SLOT_DEAD then SDead else SUnused)"

definition page_slots :: "page \<Rightarrow> slot_state list" where
  "page_slots p = map (slot_state_at (page_bytes p)) [0..<slot_total (page_bytes p)]"

fun slot_weight :: "slot_state \<Rightarrow> nat" where
  "slot_weight (SLive r) = length r"
| "slot_weight _ = 0"

definition live_bytes :: "slot_state list \<Rightarrow> nat" where
  "live_bytes ss = sum_list (map slot_weight ss)"

definition page_wf :: "page \<Rightarrow> bool" where
  "page_wf p \<longleftrightarrow> length (page_bytes p) = PAGE_SIZE \<and> page_validate p = Inr () \<and>
     live_bytes (page_slots p) + free_end_of (page_bytes p) \<le> PAGE_SIZE"

definition page_room :: "page \<Rightarrow> nat" where
  "page_room p = free_end_of (page_bytes p) - (34 + 6 * slot_total (page_bytes p))"

definition page_ident :: "page \<Rightarrow> page_id \<times> lsn \<times> page_type" where
  "page_ident p = (let h = hdr_of (page_bytes p) in (h_page_id h, h_page_lsn h, h_page_type h))"

fun first_dead :: "slot_state list \<Rightarrow> nat option" where
  "first_dead [] = None"
| "first_dead (s # ss) = (if s = SDead then Some 0 else map_option Suc (first_dead ss))"

definition spec_insert :: "byte_list \<Rightarrow> slot_state list \<Rightarrow> nat \<times> slot_state list" where
  "spec_insert r ss = (case first_dead ss of
     Some i \<Rightarrow> (i, ss[i := SLive r]) | None \<Rightarrow> (length ss, ss @ [SLive r]))"

definition insert_cost :: "byte_list \<Rightarrow> slot_state list \<Rightarrow> nat" where
  "insert_cost r ss = length r + (if first_dead ss = None then 6 else 0)"

definition spec_delete :: "nat \<Rightarrow> slot_state list \<Rightarrow> slot_state list" where
  "spec_delete i ss = ss[i := SDead]"

definition spec_read :: "slot_state list \<Rightarrow> nat \<Rightarrow> byte_list option" where
  "spec_read ss i = (case ss ! i of SLive r \<Rightarrow> Some r | _ \<Rightarrow> None)"

lemma first_dead_Some: "first_dead ss = Some i \<Longrightarrow> i < length ss \<and> ss ! i = SDead"
  by (induction ss arbitrary: i) (auto split: if_splits)

lemma live_bytes_append [simp]: "live_bytes (xs @ ys) = live_bytes xs + live_bytes ys"
  by (simp add: live_bytes_def)

lemma live_bytes_Cons [simp]: "live_bytes (x # xs) = slot_weight x + live_bytes xs"
  by (simp add: live_bytes_def)

lemma live_bytes_Nil [simp]: "live_bytes [] = 0"
  by (simp add: live_bytes_def)

lemma live_bytes_update:
  "i < length ss \<Longrightarrow> live_bytes (ss[i := s]) + slot_weight (ss ! i) = live_bytes ss + slot_weight s"
  by (induction ss arbitrary: i) (auto split: nat.splits)

lemma length_page_slots [simp]: "length (page_slots p) = slot_total (page_bytes p)"
  by (simp add: page_slots_def)

lemma nth_page_slots [simp]:
  "i < slot_total (page_bytes p) \<Longrightarrow> page_slots p ! i = slot_state_at (page_bytes p) i"
  by (simp add: page_slots_def)

section \<open>Facts of a well-formed page\<close>

lemma page_wf_iff:
  "page_wf p \<longleftrightarrow> length (page_bytes p) = 4096 \<and> hdr_ok (page_bytes p) \<and> checksum_ok (page_bytes p) \<and>
     (\<forall>i < slot_total (page_bytes p). slot_ok (page_bytes p) i) \<and>
     live_bytes (page_slots p) + free_end_of (page_bytes p) \<le> 4096"
  by (auto simp: page_wf_def page_validate_iff)

lemma page_wf_length [simp]: "page_wf p \<Longrightarrow> length (page_bytes p) = 4096"
  by (simp add: page_wf_iff)

lemma page_wf_header [simp]: "page_wf p \<Longrightarrow> header p = Inr (hdr_of (page_bytes p))"
  by (simp add: page_wf_iff header_Inr)

lemma page_wf_bounds:
  "page_wf p \<Longrightarrow> 34 + 6 * slot_total (page_bytes p) \<le> free_end_of (page_bytes p)"
  "page_wf p \<Longrightarrow> free_end_of (page_bytes p) \<le> 4096"
  by (simp_all add: page_wf_iff hdr_ok_def)

lemma page_wf_slot_in:
  "page_wf p \<Longrightarrow> i < slot_total (page_bytes p) \<Longrightarrow> 40 + 6 * i \<le> 4096"
  using page_wf_bounds [of p] by linarith

lemma page_wf_read_slot:
  "page_wf p \<Longrightarrow> i < slot_total (page_bytes p) \<Longrightarrow>
    read_slot_entry p i = Inr (slot_at (page_bytes p) i)"
  by (simp add: read_slot_entry_in page_wf_slot_in)

lemma page_wf_validate: "page_wf p \<Longrightarrow> page_validate p = Inr ()"
  by (simp add: page_wf_def)

lemma page_wf_live:
  assumes "page_wf p" "i < slot_total (page_bytes p)" "se_flags (slot_at (page_bytes p) i) = 1"
  shows "free_end_of (page_bytes p) \<le> unat (se_offset (slot_at (page_bytes p) i))"
    and "unat (se_offset (slot_at (page_bytes p) i)) + unat (se_len (slot_at (page_bytes p) i)) \<le> 4096"
  using assms by (auto simp: page_wf_iff slot_ok_def)

lemma hdr_of_simps [simp]:
  "h_slot_count (hdr_of bs) = read_u16 bs 28"
  "h_free_end (hdr_of bs) = read_u16 bs 26"
  "h_free_start (hdr_of bs) = read_u16 bs 24"
  "h_page_id (hdr_of bs) = PageId (read_u64 bs 8)"
  by (simp_all add: hdr_of_def)

lemma page_wf_free_bytes:
  assumes "page_wf p"
  shows "unat (read_u16 (page_bytes p) 26 - read_u16 (page_bytes p) 24) = page_room p"
proof -
  have "read_u16 (page_bytes p) 24 \<le> read_u16 (page_bytes p) 26"
    using assms by (simp add: page_wf_iff hdr_ok_def free_end_of_def word_le_nat_alt)
  then show ?thesis
    using assms
    by (simp add: unat_sub page_room_def page_wf_iff hdr_ok_def free_end_of_def)
qed

lemma page_wf_free_space: "page_wf p \<Longrightarrow> free_space p = Inr (page_room p)"
  by (simp add: free_space_def page_wf_free_bytes)

lemma find_dead_slot_from_eq:
  assumes "page_wf p" "m \<le> slot_total (page_bytes p)"
  shows "find_dead_slot_from p [m..<slot_total (page_bytes p)] =
    Inr (map_option (\<lambda>k. k + m) (first_dead (drop m (page_slots p))))"
  using assms(2)
proof (induction "slot_total (page_bytes p) - m" arbitrary: m)
  case 0
  then show ?case by simp
next
  case (Suc k)
  then have m: "m < slot_total (page_bytes p)" by simp
  then have upt: "[m..<slot_total (page_bytes p)] = m # [Suc m..<slot_total (page_bytes p)]"
    by (simp add: upt_conv_Cons)
  have drop: "drop m (page_slots p) = slot_state_at (page_bytes p) m # drop (Suc m) (page_slots p)"
    using m by (metis Cons_nth_drop_Suc length_page_slots nth_page_slots)
  have IH: "find_dead_slot_from p [Suc m..<slot_total (page_bytes p)] =
      Inr (map_option (\<lambda>k. k + Suc m) (first_dead (drop (Suc m) (page_slots p))))"
    using Suc.hyps(1) [of "Suc m"] Suc.hyps(2) m by simp
  have "slot_state_at (page_bytes p) m = SDead \<longleftrightarrow> slot_is_dead (slot_at (page_bytes p) m)"
    by (simp add: slot_state_at_def slot_is_dead_def Let_def)
  then show ?case
    using assms(1) m IH
    by (simp add: upt drop page_wf_read_slot option.map_comp comp_def)
qed

lemma find_dead_slot_eq:
  "page_wf p \<Longrightarrow> find_dead_slot p (read_u16 (page_bytes p) 28) = Inr (first_dead (page_slots p))"
  using find_dead_slot_from_eq [of p 0]
  by (simp add: find_dead_slot_def slot_total_def option.map_ident)

section \<open>Insertion\<close>

text \<open>
  What any implementation of an insertion has to achieve on the bytes: the header of the
  same page with a lower \<open>free_end\<close>, one directory entry for the new record, every
  other entry and every byte above the old \<open>free_end\<close> as before.
\<close>

definition inserts_into :: "byte_list \<Rightarrow> byte_list \<Rightarrow> nat \<Rightarrow> nat \<Rightarrow> nat \<Rightarrow> byte_list \<Rightarrow> bool" where
  "inserts_into bs r pos idx n' B \<longleftrightarrow>
     pos + length r = free_end_of bs \<and>
     length B = 4096 \<and> checksum_ok B \<and>
     read_u32 B 0 = read_u32 bs 0 \<and> read_u16 B 4 = read_u16 bs 4 \<and> read_u16 B 6 = read_u16 bs 6 \<and>
     read_u64 B 8 = read_u64 bs 8 \<and> read_u64 B 16 = read_u64 bs 16 \<and>
     slot_total B = n' \<and> unat (read_u16 B 24) = 34 + 6 * n' \<and>
     free_end_of B = pos \<and>
     slot_at B idx = \<lparr>se_offset = of_nat pos, se_len = of_nat (length r), se_flags = 1\<rparr> \<and>
     (\<forall>i < slot_total bs. i \<noteq> idx \<longrightarrow> slot_at B i = slot_at bs i) \<and>
     (\<forall>off l. free_end_of bs \<le> off \<longrightarrow> off + l \<le> 4096 \<longrightarrow> slice B off l = slice bs off l) \<and>
     slice B pos (length r) = r"

lemma inserts_into_slots:
  assumes wf: "page_wf p" and ins: "inserts_into (page_bytes p) r pos idx n' B"
    and shape: "idx < n'" "n' = slot_total (page_bytes p) \<or> n' = Suc (slot_total (page_bytes p)) \<and> idx = slot_total (page_bytes p)"
  shows "page_slots \<lparr>page_bytes = B\<rparr> =
    (if n' = slot_total (page_bytes p) then (page_slots p)[idx := SLive r] else page_slots p @ [SLive r])"
proof -
  let ?bs = "page_bytes p"
  have fe: "free_end_of ?bs \<le> 4096" using wf by (rule page_wf_bounds)
  have new: "slot_state_at B idx = SLive r"
    using ins fe by (auto simp: slot_state_at_def inserts_into_def Let_def)
  have old: "slot_state_at B i = slot_state_at ?bs i" if "i < slot_total ?bs" "i \<noteq> idx" for i
    using that ins page_wf_live [OF wf that(1)]
    by (auto simp: slot_state_at_def inserts_into_def Let_def)
  show ?thesis
    using ins new old shape
    by (auto simp: list_eq_iff_nth_eq inserts_into_def nth_list_update nth_append less_Suc_eq page_slots_def)
qed

lemma inserts_into_wf:
  assumes wf: "page_wf p" and ins: "inserts_into (page_bytes p) r pos idx n' B"
    and room: "34 + 6 * n' \<le> pos"
    and shape: "idx < n'"
      "n' = slot_total (page_bytes p) \<and> page_slots p ! idx = SDead \<or>
       n' = Suc (slot_total (page_bytes p)) \<and> idx = slot_total (page_bytes p)"
  shows "page_wf \<lparr>page_bytes = B\<rparr>"
proof -
  let ?bs = "page_bytes p"
  have fe: "free_end_of ?bs \<le> 4096" using wf by (rule page_wf_bounds)
  have slots: "page_slots \<lparr>page_bytes = B\<rparr> =
      (if n' = slot_total ?bs then (page_slots p)[idx := SLive r] else page_slots p @ [SLive r])"
    using shape by (intro inserts_into_slots [OF wf ins]) auto
  have "live_bytes (page_slots \<lparr>page_bytes = B\<rparr>) = live_bytes (page_slots p) + length r"
    using shape live_bytes_update [of idx "page_slots p" "SLive r"] unfolding slots by auto
  then have acct: "live_bytes (page_slots \<lparr>page_bytes = B\<rparr>) + free_end_of B \<le> 4096"
    using wf ins room by (simp add: page_wf_iff inserts_into_def)
  have "slot_ok B i" if "i < n'" for i
  proof (cases "i = idx")
    case True
    then show ?thesis using ins room fe by (simp add: slot_ok_def inserts_into_def)
  next
    case False
    with that shape have "i < slot_total ?bs" by auto
    with wf have "slot_ok ?bs i" by (simp add: page_wf_iff)
    with False ins \<open>i < slot_total ?bs\<close> show ?thesis by (auto simp: slot_ok_def inserts_into_def)
  qed
  with acct show ?thesis
    using wf ins room fe by (auto simp: page_wf_iff hdr_ok_def inserts_into_def)
qed

text \<open>The bytes that \<open>insert_place\<close> produces, for a new and for a reused slot.\<close>

lemma slot_count_successor:
  assumes "page_wf p" "slot_total (page_bytes p) < 1000"
  shows "checked_add (read_u16 (page_bytes p) 28) 1 = Some (read_u16 (page_bytes p) 28 + 1)"
    and "unat (read_u16 (page_bytes p) 28 + 1) = Suc (slot_total (page_bytes p))"
    and "unat ((34::u16) + (read_u16 (page_bytes p) 28 + 1) * 6) = 34 + 6 * Suc (slot_total (page_bytes p))"
  using assms by (simp_all add: checked_add_def slot_total_def unat_word_ariths)

lemma insert_place_new:
  assumes wf: "page_wf p" and room: "length r + 6 \<le> page_room p"
    and pos: "pos + length r = free_end_of (page_bytes p)"
  shows "\<exists>B. insert_place p (hdr_of (page_bytes p)) None r =
      (Inr (SlotId (of_nat (slot_total (page_bytes p)))), \<lparr>page_bytes = B\<rparr>) \<and>
    inserts_into (page_bytes p) r pos (slot_total (page_bytes p)) (Suc (slot_total (page_bytes p))) B"
proof -
  let ?bs = "page_bytes p" and ?n = "slot_total (page_bytes p)"
  note fe = page_wf_bounds [OF wf]
  have len: "length ?bs = 4096" using wf by simp
  have lo: "40 + 6 * ?n \<le> pos" using room pos fe by (simp add: page_room_def)
  have n: "?n < 1000" using fe by simp
  note succ = slot_count_successor [OF wf n]
  define B0 where "B0 = put (put (put (put (put ?bs pos r) 26 (to_le_bytes 2 (of_nat pos :: u16)))
      28 (to_le_bytes 2 (read_u16 ?bs 28 + 1))) 24 (to_le_bytes 2 (34 + (read_u16 ?bs 28 + 1) * 6)))
      (34 + 6 * ?n) (slot_image \<lparr>se_offset = of_nat pos, se_len = of_nat (length r), se_flags = 1\<rparr>)"
  have B0: "length B0 = 4096" using len lo fe pos by (simp add: B0_def)
  have off: "unat (read_u16 ?bs 26) - length r = pos" using pos by (simp add: free_end_of_def)
  have idx: "unat (read_u16 ?bs 28) = ?n" by (simp add: slot_total_def)
  have place: "insert_place p (hdr_of ?bs) None r = (Inr (SlotId (of_nat ?n)), refresh_checksum \<lparr>page_bytes = B0\<rparr>)"
    using len lo fe pos succ(1)
    by (simp add: insert_place_def insert_take_slot_def Let_def write_defs off idx write_slot_entry_in B0_def)
  define B where "B = page_bytes (refresh_checksum \<lparr>page_bytes = B0\<rparr>)"
  have B_eq: "B = put B0 30 (to_le_bytes 4 (checksum (put B0 30 (to_le_bytes 4 (0::u32)))))"
    by (simp add: B_def refresh_checksum_bytes B0)
  have "inserts_into ?bs r pos ?n (Suc ?n) B"
    unfolding inserts_into_def
  proof (intro conjI allI impI)
    show "length B = 4096" by (simp add: B_eq B0)
    show "checksum_ok B" by (simp add: B_def B0)
    show "slot_total B = Suc ?n"
      using len lo fe pos succ(2) by (simp add: B_eq B0_def buf_simps)
    show "free_end_of B = pos"
      using len lo fe pos by (simp add: B_eq B0_def buf_simps)
    show "unat (read_u16 B 24) = 34 + 6 * Suc ?n"
      using len lo fe pos succ(3) by (simp add: B_eq B0_def read_u16_put)
    show "slot_at B ?n = \<lparr>se_offset = of_nat pos, se_len = of_nat (length r), se_flags = 1\<rparr>"
      using len lo fe pos by (simp add: B_eq B0_def slot_at_put_other slot_at_put_slot)
    fix i assume "i < ?n" "i \<noteq> ?n"
    then show "slot_at B i = slot_at ?bs i"
      using len lo fe pos by (simp add: B_eq B0_def slot_at_put_other slot_at_put_slot)
  next
    fix off l assume "free_end_of ?bs \<le> off" "off + l \<le> 4096"
    then show "slice B off l = slice ?bs off l"
      using len lo fe pos by (simp add: B_eq B0_def slice_put_other)
  next
    show "slice B pos (length r) = r"
      using len lo fe pos by (simp add: B_eq B0_def slice_put_other slice_put_same)
  qed (use len lo fe pos in \<open>simp_all add: B_eq B0_def buf_simps\<close>)
  then show ?thesis using place by (auto simp: B_def refresh_checksum_def Let_def)
qed

lemma insert_place_reuse:
  assumes wf: "page_wf p" and room: "length r \<le> page_room p"
    and pos: "pos + length r = free_end_of (page_bytes p)"
    and idx: "idx < slot_total (page_bytes p)"
  shows "\<exists>B. insert_place p (hdr_of (page_bytes p)) (Some idx) r =
      (Inr (SlotId (of_nat idx)), \<lparr>page_bytes = B\<rparr>) \<and>
    inserts_into (page_bytes p) r pos idx (slot_total (page_bytes p)) B"
proof -
  let ?bs = "page_bytes p" and ?n = "slot_total (page_bytes p)"
  note fe = page_wf_bounds [OF wf]
  have len: "length ?bs = 4096" using wf by simp
  have lo: "34 + 6 * ?n \<le> pos" using room pos fe by (simp add: page_room_def)
  define B0 where "B0 = put (put (put ?bs pos r) 26 (to_le_bytes 2 (of_nat pos :: u16)))
      (34 + 6 * idx) (slot_image \<lparr>se_offset = of_nat pos, se_len = of_nat (length r), se_flags = 1\<rparr>)"
  have B0: "length B0 = 4096" using len lo fe pos idx by (simp add: B0_def)
  have off: "unat (read_u16 ?bs 26) - length r = pos" using pos by (simp add: free_end_of_def)
  have place: "insert_place p (hdr_of ?bs) (Some idx) r = (Inr (SlotId (of_nat idx)), refresh_checksum \<lparr>page_bytes = B0\<rparr>)"
    using len lo fe pos idx
    by (simp add: insert_place_def insert_take_slot_def Let_def write_defs off write_slot_entry_in B0_def)
  define B where "B = page_bytes (refresh_checksum \<lparr>page_bytes = B0\<rparr>)"
  have B_eq: "B = put B0 30 (to_le_bytes 4 (checksum (put B0 30 (to_le_bytes 4 (0::u32)))))"
    by (simp add: B_def refresh_checksum_bytes B0)
  have fs: "unat (read_u16 ?bs 24) = 34 + 6 * ?n" using wf by (simp add: page_wf_iff hdr_ok_def)
  have "inserts_into ?bs r pos idx ?n B"
    unfolding inserts_into_def
  proof (intro conjI allI impI)
    show "length B = 4096" by (simp add: B_eq B0)
    show "checksum_ok B" by (simp add: B_def B0)
    show "slot_total B = ?n"
      using len lo fe pos idx by (simp add: B_eq B0_def buf_simps)
    show "free_end_of B = pos"
      using len lo fe pos idx by (simp add: B_eq B0_def buf_simps)
    show "unat (read_u16 B 24) = 34 + 6 * ?n"
      using len lo fe pos idx fs by (simp add: B_eq B0_def read_u16_put)
    show "slot_at B idx = \<lparr>se_offset = of_nat pos, se_len = of_nat (length r), se_flags = 1\<rparr>"
      using len lo fe pos idx by (simp add: B_eq B0_def slot_at_put_other slot_at_put_slot)
    fix i assume "i < ?n" "i \<noteq> idx"
    then show "slot_at B i = slot_at ?bs i"
      using len lo fe pos idx by (simp add: B_eq B0_def slot_at_put_other slot_at_put_slot)
  next
    fix off l assume "free_end_of ?bs \<le> off" "off + l \<le> 4096"
    then show "slice B off l = slice ?bs off l"
      using len lo fe pos idx by (simp add: B_eq B0_def slice_put_other)
  next
    show "slice B pos (length r) = r"
      using len lo fe pos idx by (simp add: B_eq B0_def slice_put_other slice_put_same)
  qed (use len lo fe pos idx in \<open>simp_all add: B_eq B0_def buf_simps\<close>)
  then show ?thesis using place by (auto simp: B_def refresh_checksum_def Let_def)
qed

lemma inserts_into_ident:
  "inserts_into (page_bytes p) r pos idx n' B \<Longrightarrow> page_ident \<lparr>page_bytes = B\<rparr> = page_ident p"
  by (simp add: inserts_into_def page_ident_def hdr_of_def)

lemma page_room_less: "page_room p < 65536"
  using unat_u16_less [of "read_u16 (page_bytes p) 26"] by (simp add: page_room_def free_end_of_def)

text \<open>
  Insertion succeeds exactly when the record and, if no dead slot can be reused, a new
  directory entry fit into the free space; it then refines \<open>spec_insert\<close>.
\<close>

lemma insert_record_fits:
  assumes wf: "page_wf p" and fits: "insert_cost r (page_slots p) \<le> page_room p"
  obtains p' where "insert_record p r = (Inr (SlotId (of_nat (fst (spec_insert r (page_slots p))))), p')"
    and "page_wf p'" and "page_slots p' = snd (spec_insert r (page_slots p))"
    and "page_ident p' = page_ident p" and "page_room p' = page_room p - insert_cost r (page_slots p)"
proof -
  let ?bs = "page_bytes p" and ?n = "slot_total (page_bytes p)"
  note fe = page_wf_bounds [OF wf]
  have small: "length r \<le> page_room p" using fits by (simp add: insert_cost_def split: if_splits)
  then obtain pos where pos: "pos + length r = free_end_of ?bs"
    by (metis diff_add diff_le_self le_trans page_room_def)
  have step: "insert_record p r = insert_place p (hdr_of ?bs) (first_dead (page_slots p)) r"
    using wf small fits page_room_less [of p]
    by (auto simp: insert_record_def find_dead_slot_eq page_wf_free_bytes checked_add_usize_def
        insert_cost_def Let_def)
  show thesis
  proof (cases "first_dead (page_slots p)")
    case None
    with fits have room: "length r + 6 \<le> page_room p" by (simp add: insert_cost_def)
    from insert_place_new [OF wf room pos] obtain B where B:
      "insert_place p (hdr_of ?bs) None r = (Inr (SlotId (of_nat ?n)), \<lparr>page_bytes = B\<rparr>)"
      and ins: "inserts_into ?bs r pos ?n (Suc ?n) B" by blast
    have lo: "34 + 6 * Suc ?n \<le> pos" using room pos fe by (simp add: page_room_def)
    show thesis
    proof (rule that [of "\<lparr>page_bytes = B\<rparr>"])
      show "page_wf \<lparr>page_bytes = B\<rparr>" using inserts_into_wf [OF wf ins lo] by simp
      show "page_slots \<lparr>page_bytes = B\<rparr> = snd (spec_insert r (page_slots p))"
        using inserts_into_slots [OF wf ins] None by (simp add: spec_insert_def)
    qed (use B step None ins inserts_into_ident [OF ins] pos fe in
        \<open>auto simp: spec_insert_def page_room_def inserts_into_def insert_cost_def\<close>)
  next
    case (Some idx)
    with first_dead_Some [of "page_slots p" idx] have idx: "idx < ?n" "page_slots p ! idx = SDead" by auto
    from insert_place_reuse [OF wf small pos idx(1)] obtain B where B:
      "insert_place p (hdr_of ?bs) (Some idx) r = (Inr (SlotId (of_nat idx)), \<lparr>page_bytes = B\<rparr>)"
      and ins: "inserts_into ?bs r pos idx ?n B" by blast
    have lo: "34 + 6 * ?n \<le> pos" using small pos fe by (simp add: page_room_def)
    show thesis
    proof (rule that [of "\<lparr>page_bytes = B\<rparr>"])
      show "page_wf \<lparr>page_bytes = B\<rparr>" using inserts_into_wf [OF wf ins lo] idx by simp
      show "page_slots \<lparr>page_bytes = B\<rparr> = snd (spec_insert r (page_slots p))"
        using inserts_into_slots [OF wf ins] Some idx by (simp add: spec_insert_def)
    qed (use B step Some ins inserts_into_ident [OF ins] pos fe in
        \<open>auto simp: spec_insert_def page_room_def inserts_into_def insert_cost_def\<close>)
  qed
qed

lemma insert_record_full:
  assumes wf: "page_wf p" and full: "page_room p < insert_cost r (page_slots p)"
  shows "\<exists>m. insert_record p r = (Inl (User m), p)"
proof (cases "65535 < length r")
  case True
  then show ?thesis by (simp add: insert_record_def)
next
  case False
  then have "length r + (if first_dead (page_slots p) = None then 6 else 0) < 2 ^ 64" by simp
  with False wf full show ?thesis
    by (auto simp: insert_record_def find_dead_slot_eq page_wf_free_bytes checked_add_usize_def
        insert_cost_def Let_def split: if_splits)
qed

section \<open>Reading and deleting\<close>

lemma read_record_eq:
  assumes wf: "page_wf p"
  shows "read_record p s =
    (if unat (slot_no s) < slot_total (page_bytes p) then Inr (spec_read (page_slots p) (unat (slot_no s)))
     else Inl (User (msg_slot_range s)))"
proof (cases "unat (slot_no s) < slot_total (page_bytes p)")
  case True
  let ?e = "slot_at (page_bytes p) (unat (slot_no s))"
  have "unat (se_offset ?e) + unat (se_len ?e) < 2 ^ 64"
    using unat_u16_less [of "se_offset ?e"] unat_u16_less [of "se_len ?e"] by simp
  then show ?thesis
    using True wf page_wf_live(2) [OF wf True]
    by (auto simp: read_record_def page_wf_read_slot slot_is_live_def slot_state_at_def
        spec_read_def Let_def checked_add_usize_def not_le word_less_nat_alt slot_total_def)
next
  case False
  with wf show ?thesis by (simp add: read_record_def word_le_nat_alt slot_total_def)
qed

text \<open>Deletion rewrites one flag; the directory entry keeps pointing at the old bytes.\<close>

lemma delete_record_live:
  assumes wf: "page_wf p" and i: "i < slot_total (page_bytes p)"
    and live: "page_slots p ! i = SLive r"
  obtains p' where "delete_record p (SlotId (of_nat i)) = (Inr True, p')"
    and "page_wf p'" and "page_slots p' = spec_delete i (page_slots p)"
    and "page_ident p' = page_ident p" and "page_room p' = page_room p"
proof -
  let ?bs = "page_bytes p" and ?e = "slot_at (page_bytes p) i"
  note fe = page_wf_bounds [OF wf]
  have len: "length ?bs = 4096" using wf by simp
  define B0 where "B0 = put ?bs (34 + 6 * i) (slot_image (?e\<lparr>se_flags := 2\<rparr>))"
  define B where "B = page_bytes (refresh_checksum \<lparr>page_bytes = B0\<rparr>)"
  have B0: "length B0 = 4096" using len fe i by (simp add: B0_def)
  have B_eq: "B = put B0 30 (to_le_bytes 4 (checksum (put B0 30 (to_le_bytes 4 (0::u32)))))"
    by (simp add: B_def refresh_checksum_bytes B0)
  have i16: "unat (of_nat i :: u16) = i" using fe i by simp
  have B: "length B = 4096" "checksum_ok B" by (simp_all add: B_def B0)
  have slot: "slot_at B j = (if j = i then ?e\<lparr>se_flags := 2\<rparr> else slot_at ?bs j)" if "j < slot_total ?bs" for j
    using that len fe i by (simp add: B_eq B0_def slot_at_put_other slot_at_put_slot)
  have hdr: "read_u32 B 0 = read_u32 ?bs 0" "read_u16 B 4 = read_u16 ?bs 4" "read_u16 B 6 = read_u16 ?bs 6"
      "read_u64 B 8 = read_u64 ?bs 8" "read_u64 B 16 = read_u64 ?bs 16" "read_u16 B 24 = read_u16 ?bs 24"
      "read_u16 B 26 = read_u16 ?bs 26" "read_u16 B 28 = read_u16 ?bs 28"
    using len fe i by (simp_all add: B_eq B0_def buf_simps)
  have data: "slice B off l = slice ?bs off l" if "free_end_of ?bs \<le> off" "off + l \<le> 4096" for off l
    using that len fe i by (simp add: B_eq B0_def slice_put_other)
  have tot: "slot_total B = slot_total ?bs" and fend: "free_end_of B = free_end_of ?bs"
    by (simp_all add: slot_total_def free_end_of_def hdr)
  have state: "slot_state_at B j = (if j = i then SDead else slot_state_at ?bs j)" if "j < slot_total ?bs" for j
    using slot [OF that] data page_wf_live [OF wf that] by (auto simp: slot_state_at_def Let_def)
  have slots: "page_slots \<lparr>page_bytes = B\<rparr> = spec_delete i (page_slots p)"
    using state by (auto simp: list_eq_iff_nth_eq tot spec_delete_def nth_list_update)
  have "live_bytes (spec_delete i (page_slots p)) \<le> live_bytes (page_slots p)"
    using live_bytes_update [of i "page_slots p" SDead] i by (simp add: spec_delete_def)
  moreover have "slot_ok B j" if "j < slot_total ?bs" for j
    using slot [OF that] wf that by (auto simp: slot_ok_def page_wf_iff fend)
  ultimately have "page_wf \<lparr>page_bytes = B\<rparr>"
    using wf by (auto simp: page_wf_iff slots hdr_ok_def tot fend hdr B)
  moreover have "delete_record p (SlotId (of_nat i)) = (Inr True, \<lparr>page_bytes = B\<rparr>)"
    using wf i len fe live
    by (auto simp: delete_record_def i16 page_wf_read_slot slot_is_live_def write_slot_entry_in B_def B0_def
        word_le_nat_alt slot_total_def refresh_checksum_def Let_def slot_state_at_def split: if_splits)
  ultimately show thesis
    using that slots hdr by (simp add: page_ident_def hdr_of_def page_room_def tot fend)
qed

section \<open>Compaction\<close>

fun live_from :: "nat \<Rightarrow> slot_state list \<Rightarrow> (nat \<times> byte_list) list" where
  "live_from m [] = []"
| "live_from m (s # ss) = (case s of SLive r \<Rightarrow> (m, r) # live_from (Suc m) ss | _ \<Rightarrow> live_from (Suc m) ss)"

lemma live_from_total: "sum_list (map (\<lambda>x. length (snd x)) (live_from m ss)) = live_bytes ss"
  by (induction ss arbitrary: m) (auto split: slot_state.splits)

lemma live_from_mem:
  "(i, r) \<in> set (live_from m ss) \<longleftrightarrow> m \<le> i \<and> i < m + length ss \<and> ss ! (i - m) = SLive r"
proof (induction ss arbitrary: m)
  case (Cons s ss)
  show ?case
  proof (cases "m < i")
    case True
    then have "i - m = Suc (i - Suc m)" by simp
    with True Cons.IH [of "Suc m"] show ?thesis by (auto split: slot_state.splits)
  next
    case False
    with Cons.IH [of "Suc m"] show ?thesis by (auto split: slot_state.splits)
  qed
qed simp

lemma live_from_distinct: "distinct (map fst (live_from m ss))"
  by (induction ss arbitrary: m) (auto simp: live_from_mem split: slot_state.splits)

lemma collect_live_eq:
  assumes "page_wf p" "m \<le> slot_total (page_bytes p)"
  shows "collect_live p [m..<slot_total (page_bytes p)] = Inr (live_from m (drop m (page_slots p)))"
  using assms(2)
proof (induction "slot_total (page_bytes p) - m" arbitrary: m)
  case 0
  then show ?case by simp
next
  case (Suc k)
  then have m: "m < slot_total (page_bytes p)" by simp
  then have upt: "[m..<slot_total (page_bytes p)] = m # [Suc m..<slot_total (page_bytes p)]"
    by (simp add: upt_conv_Cons)
  have drop: "drop m (page_slots p) = slot_state_at (page_bytes p) m # drop (Suc m) (page_slots p)"
    using m by (metis Cons_nth_drop_Suc length_page_slots nth_page_slots)
  have IH: "collect_live p [Suc m..<slot_total (page_bytes p)] = Inr (live_from (Suc m) (drop (Suc m) (page_slots p)))"
    using Suc.hyps(1) [of "Suc m"] Suc.hyps(2) m by simp
  have m16: "unat (of_nat m :: u16) = m" using page_wf_bounds [OF assms(1)] m by simp
  show ?case
    using assms(1) m IH
    by (auto simp: upt drop page_wf_read_slot read_record_eq m16 spec_read_def slot_state_at_def
        slot_is_live_def Let_def)
qed

text \<open>One repacked record: its directory entry and its bytes, inside the given bounds.\<close>

definition packed_at :: "byte_list \<Rightarrow> nat \<Rightarrow> byte_list \<Rightarrow> nat \<Rightarrow> nat \<Rightarrow> bool" where
  "packed_at B i r lo hi \<longleftrightarrow> (\<exists>off. lo \<le> off \<and> off + length r \<le> hi \<and>
     slot_at B i = \<lparr>se_offset = of_nat off, se_len = of_nat (length r), se_flags = 1\<rparr> \<and>
     slice B off (length r) = r)"

lemma packed_at_mono: "packed_at B i r lo hi \<Longrightarrow> lo' \<le> lo \<Longrightarrow> hi \<le> hi' \<Longrightarrow> packed_at B i r lo' hi'"
  unfolding packed_at_def by (meson le_trans)

lemma repack_ok:
  assumes "length bs = 4096" "34 + 6 * n + sum_list (map (\<lambda>x. length (snd x)) L) \<le> fe" "fe \<le> 4096"
    and "\<forall>(i, r) \<in> set L. i < n" "distinct (map fst L)"
  shows "\<exists>B. repack L fe \<lparr>page_bytes = bs\<rparr> =
      Some (Inr (fe - sum_list (map (\<lambda>x. length (snd x)) L)), \<lparr>page_bytes = B\<rparr>) \<and> length B = 4096 \<and>
    (\<forall>off l. off + l \<le> 34 \<longrightarrow> slice B off l = slice bs off l) \<and>
    (\<forall>off l. fe \<le> off \<longrightarrow> off + l \<le> 4096 \<longrightarrow> slice B off l = slice bs off l) \<and>
    (\<forall>i < n. i \<notin> fst ` set L \<longrightarrow> slot_at B i = slot_at bs i) \<and>
    (\<forall>(i, r) \<in> set L. packed_at B i r (fe - sum_list (map (\<lambda>x. length (snd x)) L)) fe)"
  using assms
proof (induction L arbitrary: fe bs)
  case Nil
  then show ?case by (intro exI [of _ bs]) simp
next
  case (Cons x L)
  obtain i r where x: "x = (i, r)" by (cases x)
  let ?T = "sum_list (map (\<lambda>x. length (snd x)) L)"
  define fe1 where "fe1 = fe - length r"
  define e where "e = \<lparr>se_offset = of_nat fe1 :: u16, se_len = of_nat (length r) :: u16, se_flags = 1 :: u16\<rparr>"
  define b1 where "b1 = put (put bs fe1 r) (34 + 6 * i) (slot_image e)"
  have fe1: "fe1 + length r = fe" "34 + 6 * n + ?T \<le> fe1" "i < n" "40 + 6 * i \<le> fe1"
    using Cons.prems unfolding fe1_def x by auto
  have len: "length bs = 4096" "length b1 = 4096" using Cons.prems fe1 by (simp_all add: b1_def)
  obtain B where B: "repack L fe1 \<lparr>page_bytes = b1\<rparr> = Some (Inr (fe1 - ?T), \<lparr>page_bytes = B\<rparr>)" "length B = 4096"
    and lo: "\<And>off l. off + l \<le> 34 \<Longrightarrow> slice B off l = slice b1 off l"
    and hi: "\<And>off l. fe1 \<le> off \<Longrightarrow> off + l \<le> 4096 \<Longrightarrow> slice B off l = slice b1 off l"
    and rest: "\<And>j. j < n \<Longrightarrow> j \<notin> fst ` set L \<Longrightarrow> slot_at B j = slot_at b1 j"
    and pk: "\<forall>(j, q) \<in> set L. packed_at B j q (fe1 - ?T) fe1"
    using Cons.IH [of b1 fe1] Cons.prems len fe1 by (auto simp: x)
  have run: "repack (x # L) fe \<lparr>page_bytes = bs\<rparr> = repack L fe1 \<lparr>page_bytes = b1\<rparr>"
    using Cons.prems fe1 len by (simp add: x fe1_def [symmetric] write_slot_entry_in b1_def e_def)
  have self: "packed_at B i r fe1 fe"
    unfolding packed_at_def
  proof (intro exI [of _ fe1] conjI)
    show "slot_at B i = \<lparr>se_offset = of_nat fe1, se_len = of_nat (length r), se_flags = 1\<rparr>"
      using rest [of i] Cons.prems fe1 len by (auto simp: x b1_def slot_at_put_slot e_def)
    show "slice B fe1 (length r) = r"
      using hi [of fe1 "length r"] fe1 len Cons.prems by (simp add: b1_def slice_put_other slice_put_same)
  qed (use fe1 in auto)
  have diff: "fe1 - ?T = fe - sum_list (map (\<lambda>x. length (snd x)) (x # L))"
    using fe1 by (simp add: x)
  show ?case
  proof (intro exI [of _ B] conjI allI impI)
    show "\<forall>(j, q) \<in> set (x # L). packed_at B j q (fe - sum_list (map (\<lambda>x. length (snd x)) (x # L))) fe"
      using self pk fe1 unfolding diff [symmetric] by (auto simp: x intro: packed_at_mono)
  next
    fix off l :: nat assume "off + l \<le> 34"
    then show "slice B off l = slice bs off l"
      using lo [of off l] fe1 len Cons.prems by (simp add: b1_def slice_put_other)
  next
    fix off l assume "fe \<le> off" "off + l \<le> 4096"
    then show "slice B off l = slice bs off l"
      using hi [of off l] fe1 len Cons.prems by (simp add: b1_def slice_put_other)
  next
    fix j assume "j < n" "j \<notin> fst ` set (x # L)"
    then show "slot_at B j = slot_at bs j"
      using rest [of j] fe1 len Cons.prems(3) by (simp add: x b1_def slot_at_put_slot slot_at_put_other)
  qed (use run B diff in simp_all)
qed

lemma compact_bytes:
  assumes wf: "page_wf p" and E: "E + live_bytes (page_slots p) = 4096"
  shows "\<exists>B. compact p = Some (Inr (), \<lparr>page_bytes = B\<rparr>) \<and> length B = 4096 \<and> checksum_ok B \<and>
    (\<forall>off l. off + l \<le> 26 \<longrightarrow> slice B off l = slice (page_bytes p) off l) \<and>
    slot_total B = slot_total (page_bytes p) \<and> free_end_of B = E \<and>
    (\<forall>i r. i < slot_total (page_bytes p) \<longrightarrow> page_slots p ! i = SLive r \<longrightarrow> packed_at B i r E 4096) \<and>
    (\<forall>i. i < slot_total (page_bytes p) \<longrightarrow> (\<forall>r. page_slots p ! i \<noteq> SLive r) \<longrightarrow>
       slot_at B i = slot_at (page_bytes p) i)"
proof -
  let ?bs = "page_bytes p" and ?n = "slot_total (page_bytes p)" and ?L = "live_from 0 (page_slots p)"
  let ?fs = "34 + 6 * slot_total (page_bytes p)"
  note fe = page_wf_bounds [OF wf]
  have len: "length ?bs = 4096" and acct: "live_bytes (page_slots p) + free_end_of ?bs \<le> 4096"
    using wf by (simp_all add: page_wf_iff)
  define b1 where "b1 = put ?bs ?fs (replicate (4096 - ?fs) 0)"
  have b1: "length b1 = 4096" using len fe by (simp add: b1_def)
  have T: "?fs \<le> E" "E \<le> 4096" "4096 - live_bytes (page_slots p) = E" using fe acct E by simp_all
  obtain B0 where B0: "repack ?L 4096 \<lparr>page_bytes = b1\<rparr> = Some (Inr E, \<lparr>page_bytes = B0\<rparr>)" "length B0 = 4096"
    and lo: "\<And>off l. off + l \<le> 34 \<Longrightarrow> slice B0 off l = slice b1 off l"
    and rest: "\<And>i. i < ?n \<Longrightarrow> i \<notin> fst ` set ?L \<Longrightarrow> slot_at B0 i = slot_at b1 i"
    and pk: "\<And>i r. (i, r) \<in> set ?L \<Longrightarrow> packed_at B0 i r E 4096"
    using repack_ok [of b1 ?n ?L 4096] b1 T E
    by (fastforce simp: live_from_total live_from_mem live_from_distinct)
  define B1 where "B1 = put B0 26 (to_le_bytes 2 (of_nat E :: u16))"
  define B where "B = page_bytes (refresh_checksum \<lparr>page_bytes = B1\<rparr>)"
  have B_eq: "B = put B1 30 (to_le_bytes 4 (checksum (put B1 30 (to_le_bytes 4 (0::u32)))))"
    using B0 by (simp add: B_def B1_def refresh_checksum_bytes)
  have B: "length B = 4096" "checksum_ok B" using B0 by (simp_all add: B_def B1_def)
  have run: "compact p = Some (Inr (), \<lparr>page_bytes = B\<rparr>)"
    using wf B0(1) collect_live_eq [OF wf, of 0]
    by (simp add: compact_def b1_def B_def B1_def Let_def write_defs slot_total_def mult.commute
        refresh_checksum_def)
  have low: "slice B0 off l = slice ?bs off l" if "off + l \<le> 34" for off l
    using that lo [OF that] len fe by (simp add: b1_def slice_put_other)
  have tot: "slot_total B0 = ?n" using low [of 28 2] by (simp add: slot_total_def read_u16_def)
  have slotB: "slot_at B i = slot_at B0 i" and sliceB: "34 \<le> off \<Longrightarrow> slice B off l = slice B0 off l" for i off l
    using B0 by (simp_all add: B_eq B1_def buf_simps)
  have live: "packed_at B i r E 4096" if "i < ?n" "page_slots p ! i = SLive r" for i r
  proof -
    have "packed_at B0 i r E 4096" using that pk [of i r] by (simp add: live_from_mem)
    then obtain off where "E \<le> off" "off + length r \<le> 4096" "slice B0 off (length r) = r"
      "slot_at B0 i = \<lparr>se_offset = of_nat off, se_len = of_nat (length r), se_flags = 1\<rparr>"
      unfolding packed_at_def by blast
    with T(1) show ?thesis unfolding packed_at_def by (intro exI [of _ off]) (simp add: slotB sliceB)
  qed
  have dead: "slot_at B i = slot_at ?bs i" if "i < ?n" "\<And>r. page_slots p ! i \<noteq> SLive r" for i
    using that rest [of i] len fe by (force simp: slotB live_from_mem b1_def slot_at_put_other)
  have "slice B off l = slice ?bs off l" if "off + l \<le> 26" for off l
    using low [of off l] that B0 by (simp add: B_eq B1_def slice_put_other)
  moreover have "slot_total B = ?n" "free_end_of B = E"
    using tot B0 T by (simp_all add: B_eq B1_def buf_simps)
  ultimately show ?thesis using run B live dead by blast
qed

lemma compact_ok:
  assumes wf: "page_wf p"
  obtains p' where "compact p = Some (Inr (), p')" and "page_wf p'"
    and "page_slots p' = page_slots p" and "page_ident p' = page_ident p"
    and "page_room p' + live_bytes (page_slots p) = 4096 - (34 + 6 * slot_total (page_bytes p))"
proof -
  let ?bs = "page_bytes p" and ?n = "slot_total (page_bytes p)"
  note fe = page_wf_bounds [OF wf]
  have acct: "live_bytes (page_slots p) + free_end_of ?bs \<le> 4096" using wf by (simp add: page_wf_iff)
  then obtain E where E: "E + live_bytes (page_slots p) = 4096" by (metis add.commute le_add_diff_inverse add_leD1)
  from compact_bytes [OF wf E] obtain B where run: "compact p = Some (Inr (), \<lparr>page_bytes = B\<rparr>)"
    and B: "length B = 4096" "checksum_ok B" "slot_total B = ?n" "free_end_of B = E"
    and low: "\<And>off l. off + l \<le> 26 \<Longrightarrow> slice B off l = slice ?bs off l"
    and live: "\<And>i r. i < ?n \<Longrightarrow> page_slots p ! i = SLive r \<Longrightarrow> packed_at B i r E 4096"
    and dead: "\<And>i. i < ?n \<Longrightarrow> \<forall>r. page_slots p ! i \<noteq> SLive r \<Longrightarrow> slot_at B i = slot_at ?bs i"
    by blast
  have hdr: "read_u32 B 0 = read_u32 ?bs 0" "read_u16 B 4 = read_u16 ?bs 4" "read_u16 B 6 = read_u16 ?bs 6"
    "read_u64 B 8 = read_u64 ?bs 8" "read_u64 B 16 = read_u64 ?bs 16" "read_u16 B 24 = read_u16 ?bs 24"
    using low by (simp_all add: read_u16_def read_u32_def read_u64_def)
  have state: "slot_state_at B i = slot_state_at ?bs i \<and> slot_ok B i" if i: "i < ?n" for i
  proof (cases "\<exists>r. page_slots p ! i = SLive r")
    case True
    then obtain r where r: "page_slots p ! i = SLive r" by blast
    with live [OF i] obtain off where "E \<le> off" "off + length r \<le> 4096"
      "slot_at B i = \<lparr>se_offset = of_nat off, se_len = of_nat (length r), se_flags = 1\<rparr>"
      "slice B off (length r) = r" unfolding packed_at_def by blast
    with r i show ?thesis by (simp add: slot_state_at_def slot_ok_def B Let_def)
  next
    case False
    with dead [OF i] i wf show ?thesis
      by (auto simp: slot_state_at_def slot_ok_def Let_def page_wf_iff)
  qed
  have slots: "page_slots \<lparr>page_bytes = B\<rparr> = page_slots p"
    using state by (simp add: list_eq_iff_nth_eq B)
  have "page_wf \<lparr>page_bytes = B\<rparr>"
    using wf acct E fe state B by (auto simp: page_wf_iff hdr_ok_def slots hdr)
  with run slots hdr B E acct fe show thesis
    by (intro that [of "\<lparr>page_bytes = B\<rparr>"]) (auto simp: page_ident_def hdr_of_def page_room_def)
qed

section \<open>Fresh pages\<close>

lemma page_new_bytes_facts:
  fixes pid :: page_id and t :: page_type
  defines "bs \<equiv> page_bytes (page_new pid t)"
  shows "length bs = 4096" "checksum_ok bs" "hdr_ok bs" "slot_total bs = 0" "free_end_of bs = 4096"
    "read_u64 bs 8 = page_no pid" "read_u64 bs 16 = 0" "read_u16 bs 6 = page_type_to_u16 t"
proof -
  let ?b = "put (put (put (put (put (put (put (put (replicate 4096 (0::u8)) 0 (to_le_bytes 4 PAGE_MAGIC))
      4 (to_le_bytes 2 PAGE_VERSION)) 6 (to_le_bytes 2 (page_type_to_u16 t))) 8 (to_le_bytes 8 (page_no pid)))
      16 (to_le_bytes 8 (0::u64))) 24 (to_le_bytes 2 (34::u16))) 26 (to_le_bytes 2 (4096::u16))) 28 (to_le_bytes 2 (0::u16))"
  have len: "length ?b = 4096" by simp
  have new: "page_new pid t = refresh_checksum \<lparr>page_bytes = ?b\<rparr>"
    by (simp add: page_new_def page_zeroed_def Let_def write_defs)
  have bs: "bs = put ?b 30 (to_le_bytes 4 (checksum (put ?b 30 (to_le_bytes 4 (0::u32)))))"
    unfolding bs_def new by (rule refresh_checksum_bytes [where p = "\<lparr>page_bytes = ?b\<rparr>", simplified])
  show "length bs = 4096" by (simp add: bs)
  show "checksum_ok bs" unfolding bs_def new by (rule checksum_ok_refresh) simp
  show tot: "slot_total bs = 0" and fe: "free_end_of bs = 4096" and ty: "read_u16 bs 6 = page_type_to_u16 t"
    by (simp_all add: bs buf_simps)
  show "read_u64 bs 8 = page_no pid" "read_u64 bs 16 = 0" by (simp_all add: bs buf_simps)
  have "read_u32 bs 0 = PAGE_MAGIC" "read_u16 bs 4 = PAGE_VERSION" "read_u16 bs 24 = 34"
    by (simp_all add: bs buf_simps)
  then show "hdr_ok bs" by (simp add: hdr_ok_def tot fe ty)
qed

lemma page_new_slots [simp]: "page_slots (page_new pid t) = []"
  by (simp add: page_slots_def page_new_bytes_facts)

lemma page_new_wf [simp]: "page_wf (page_new pid t)"
  by (simp add: page_wf_iff page_new_bytes_facts)

lemma page_new_ident [simp]: "page_ident (page_new pid t) = (pid, Lsn 0, t)"
  by (simp add: page_ident_def hdr_of_def page_new_bytes_facts)

lemma page_new_room [simp]: "page_room (page_new pid t) = 4062"
  by (simp add: page_room_def page_new_bytes_facts)

lemma page_from_bytes_wf: "page_wf p \<Longrightarrow> page_from_bytes (page_bytes p) = Inr p"
  by (cases p) (simp add: page_from_bytes_def page_wf_def)

section \<open>Corruption detection\<close>

lemma checksum_sum: "checksum bs = of_nat (sum_list (map unat bs))"
proof -
  have "fold (\<lambda>byte acc. acc + ucast byte) bs acc = acc + (of_nat (sum_list (map unat bs)) :: u32)" for acc
    by (induction bs arbitrary: acc) (simp_all add: add.assoc)
  then show ?thesis by (simp add: checksum_def)
qed

lemma sum_list_bytes_bound: "sum_list (map unat (bs :: byte_list)) \<le> 255 * length bs"
proof (induction bs)
  case (Cons b bs)
  then show ?case using unat_u8_less [of b] by simp
qed simp

text \<open>The sum does not wrap for any buffer of page or record size, so one changed byte changes it.\<close>

lemma checksum_update:
  assumes "length bs < 16777216" "i < length bs" "b \<noteq> bs ! i"
  shows "checksum (bs[i := b]) \<noteq> checksum bs"
proof
  assume eq: "checksum (bs[i := b]) = checksum bs"
  have b1: "sum_list (map unat bs) < 4294967296" and b2: "sum_list (map unat (bs[i := b])) < 4294967296"
    using sum_list_bytes_bound [of bs] sum_list_bytes_bound [of "bs[i := b]"] assms(1) by simp_all
  from arg_cong [OF eq, of unat] have "sum_list (map unat (bs[i := b])) = sum_list (map unat bs)"
    using b1 b2 by (simp only: checksum_sum unat_of_nat_widths)
  moreover have "sum_list (map unat (bs[i := b])) + unat (bs ! i) = sum_list (map unat bs) + unat b"
    using assms(2) by (induction bs arbitrary: i) (auto split: nat.splits)
  ultimately show False using assms(3) by (simp add: word_unat_eq_iff)
qed

lemma slot_errors:
  "slot_offset i = Inl e \<Longrightarrow> \<exists>m. e = Corruption m"
  "validate_slot p h i = Inl e \<Longrightarrow> \<exists>m. e = Corruption m"
proof -
  show 1: "slot_offset i = Inl e \<Longrightarrow> \<exists>m. e = Corruption m" for e
    by (auto simp: slot_offset_def res_simps split: if_splits)
  show "validate_slot p h i = Inl e \<Longrightarrow> \<exists>m. e = Corruption m"
    by (auto simp: validate_slot_def read_slot_entry_def res_simps Let_def dest: 1 split: if_splits)
qed

text \<open>Every rejection of a page by validation is reported as corruption.\<close>

lemma page_validate_Inl: "page_validate p = Inl e \<Longrightarrow> \<exists>m. e = Corruption m"
  by (auto simp: page_validate_def res_simps validate_page_checksum_def validate_checksum_def Let_def
      dest!: header_Inl slot_errors(2) for_each_eq_Inl split: if_splits)

lemma checksum_ok_update:
  assumes len: "length bs = 4096" and ok: "checksum_ok bs" and i: "i < 4096" "b \<noteq> bs ! i"
  shows "\<not> checksum_ok (bs[i := b])"
proof (cases "30 \<le> i \<and> i < 34")
  case True
  have "put (bs[i := b]) 30 (to_le_bytes 4 (0::u32)) = put bs 30 (to_le_bytes 4 (0::u32))"
    using True len by (intro nth_equalityI) (auto simp: nth_put)
  moreover have "read_u32 (bs[i := b]) 30 \<noteq> read_u32 bs 30"
  proof -
    have "i - 30 < 4" "30 + (i - 30) = i" using True by auto
    then have "slice (bs[i := b]) 30 4 ! (i - 30) \<noteq> slice bs 30 4 ! (i - 30)"
      using len i by (simp add: slice_nth)
    then have "slice (bs[i := b]) 30 4 \<noteq> slice bs 30 4" by metis
    then show ?thesis using len by (simp add: read_u32_def from_le_bytes_inject)
  qed
  ultimately show ?thesis using ok by (simp add: checksum_ok_def)
next
  case False
  have same: "put (bs[i := b]) 30 (to_le_bytes 4 (0::u32)) = (put bs 30 (to_le_bytes 4 (0::u32)))[i := b]"
    using False len i by (intro nth_equalityI) (auto simp: nth_put nth_list_update)
  have "read_u32 (bs[i := b]) 30 = read_u32 bs 30"
  proof -
    have "slice (bs[i := b]) 30 4 = slice bs 30 4"
      using False len by (auto simp: list_eq_iff_nth_eq slice_nth nth_list_update)
    then show ?thesis by (simp add: read_u32_def)
  qed
  moreover have "checksum ((put bs 30 (to_le_bytes 4 (0::u32)))[i := b]) \<noteq> checksum (put bs 30 (to_le_bytes 4 (0::u32)))"
    using False len i by (intro checksum_update) (auto simp: nth_put)
  ultimately show ?thesis using ok by (simp add: checksum_ok_def same)
qed

section \<open>The contract as an interface\<close>

text \<open>
  What the heap, catalog and index layers rely on, stated once for any page
  implementation; the model's page is an instance of it.
\<close>

locale slotted_page =
  fixes wf :: "'p \<Rightarrow> bool"
    and slots :: "'p \<Rightarrow> slot_state list"
    and room :: "'p \<Rightarrow> nat"
    and ins :: "'p \<Rightarrow> byte_list \<Rightarrow> slot_id db_result \<times> 'p"
    and del :: "'p \<Rightarrow> slot_id \<Rightarrow> bool db_result \<times> 'p"
    and rd :: "'p \<Rightarrow> slot_id \<Rightarrow> byte_list option db_result"
  assumes slots_bound: "wf p \<Longrightarrow> length (slots p) < 65535"
    and insert_fits: "wf p \<Longrightarrow> insert_cost r (slots p) \<le> room p \<Longrightarrow>
      \<exists>p'. ins p r = (Inr (SlotId (of_nat (fst (spec_insert r (slots p))))), p') \<and> wf p' \<and>
        slots p' = snd (spec_insert r (slots p))"
    and insert_full: "wf p \<Longrightarrow> room p < insert_cost r (slots p) \<Longrightarrow> \<exists>m. ins p r = (Inl (User m), p)"
    and read_slot: "wf p \<Longrightarrow> rd p s =
      (if unat (slot_no s) < length (slots p) then Inr (spec_read (slots p) (unat (slot_no s)))
       else Inl (User (msg_slot_range s)))"
    and delete_live: "wf p \<Longrightarrow> unat (slot_no s) < length (slots p) \<Longrightarrow>
      slots p ! unat (slot_no s) = SLive r \<Longrightarrow>
      \<exists>p'. del p s = (Inr True, p') \<and> wf p' \<and> slots p' = spec_delete (unat (slot_no s)) (slots p)"
begin

lemma spec_insert_bound:
  "wf p \<Longrightarrow> fst (spec_insert r (slots p)) < 65535 \<and>
    fst (spec_insert r (slots p)) < length (snd (spec_insert r (slots p)))"
  using slots_bound [of p] first_dead_Some [of "slots p"]
  by (fastforce simp: spec_insert_def split: option.splits)

text \<open>The insertion of a record that was accepted, as a step on the slot array.\<close>

lemma insert_accepted:
  assumes "wf p" "ins p r = (Inr s, p')"
  shows "wf p'" "slots p' = snd (spec_insert r (slots p))"
    "unat (slot_no s) = fst (spec_insert r (slots p))"
proof -
  have "insert_cost r (slots p) \<le> room p"
    using insert_full [OF assms(1), of r] assms(2) by (cases "insert_cost r (slots p) \<le> room p") auto
  from insert_fits [OF assms(1) this] assms spec_insert_bound [OF assms(1), of r]
  show "wf p'" "slots p' = snd (spec_insert r (slots p))"
    "unat (slot_no s) = fst (spec_insert r (slots p))" by auto
qed

lemma insert_rejected:
  assumes "wf p" "ins p r = (Inl e, p')"
  shows "p' = p" "\<exists>m. e = User m" "room p < insert_cost r (slots p)"
  using assms insert_fits [OF assms(1), of r] insert_full [OF assms(1), of r]
  by (cases "insert_cost r (slots p) \<le> room p"; auto)+

lemma read_inserted:
  assumes "wf p" "ins p r = (Inr s, p')"
  shows "rd p' s = Inr (Some r)"
  using insert_accepted [OF assms] spec_insert_bound [OF assms(1), of r] first_dead_Some [of "slots p"]
  by (auto simp: read_slot spec_read_def spec_insert_def split: option.splits)

lemma read_others_after_insert:
  assumes "wf p" "ins p r = (Inr s, p')" "s' \<noteq> s" "rd p s' = Inr v"
  shows "rd p' s' = Inr v"
proof -
  have ne: "unat (slot_no s') \<noteq> unat (slot_no s)"
    using assms(3) by (simp add: word_unat_eq_iff [symmetric])
  from assms have lt: "unat (slot_no s') < length (slots p)" "v = spec_read (slots p) (unat (slot_no s'))"
    by (auto simp: read_slot split: if_splits)
  with insert_accepted [OF assms(1,2)] ne show ?thesis
    by (auto simp: read_slot spec_read_def spec_insert_def nth_append split: option.splits)
qed

lemma live_after_insert:
  assumes "wf p" "ins p r = (Inr s, p')" "rd p t = Inr (Some q)"
  shows "rd p' t = Inr (Some q)"
proof -
  have "t \<noteq> s"
  proof
    assume "t = s"
    with assms have "unat (slot_no s) < length (slots p)" "spec_read (slots p) (unat (slot_no s)) = Some q"
      by (auto simp: read_slot split: if_splits)
    with insert_accepted(3) [OF assms(1,2)] first_dead_Some [of "slots p"] show False
      by (auto simp: spec_insert_def spec_read_def split: option.splits)
  qed
  with assms show ?thesis by (blast intro: read_others_after_insert)
qed

lemma read_after_delete:
  assumes "wf p" "rd p s = Inr (Some r)"
  shows "\<exists>p'. del p s = (Inr True, p') \<and> wf p' \<and> rd p' s = Inr None \<and>
    (\<forall>t. t \<noteq> s \<longrightarrow> rd p' t = rd p t)"
proof -
  from assms have s: "unat (slot_no s) < length (slots p)" "slots p ! unat (slot_no s) = SLive r"
    by (auto simp: read_slot spec_read_def split: if_splits slot_state.splits)
  from delete_live [OF assms(1) this] obtain p' where p': "del p s = (Inr True, p')" "wf p'"
    "slots p' = spec_delete (unat (slot_no s)) (slots p)" by blast
  have "rd p' t = rd p t" if "t \<noteq> s" for t
  proof -
    have "unat (slot_no t) \<noteq> unat (slot_no s)"
      using that by (simp add: word_unat_eq_iff [symmetric])
    with p' assms(1) show ?thesis by (simp add: read_slot spec_delete_def spec_read_def)
  qed
  with p' s show ?thesis by (auto simp: read_slot spec_delete_def spec_read_def)
qed

end

interpretation heap_page: slotted_page page_wf page_slots page_room insert_record delete_record read_record
proof unfold_locales
  fix p :: page and s :: slot_id and r :: byte_list
  assume wf: "page_wf p"
  show "length (page_slots p) < 65535" using page_wf_bounds [OF wf] by simp
  show "read_record p s =
      (if unat (slot_no s) < length (page_slots p) then Inr (spec_read (page_slots p) (unat (slot_no s)))
       else Inl (User (msg_slot_range s)))" using wf by (simp add: read_record_eq)
  show "\<exists>p'. insert_record p r = (Inr (SlotId (of_nat (fst (spec_insert r (page_slots p))))), p') \<and> page_wf p' \<and>
      page_slots p' = snd (spec_insert r (page_slots p))" if "insert_cost r (page_slots p) \<le> page_room p"
    by (rule insert_record_fits [OF wf that]) blast
  show "\<exists>m. insert_record p r = (Inl (User m), p)" if "page_room p < insert_cost r (page_slots p)"
    using insert_record_full [OF wf that] .
  show "\<exists>p'. delete_record p s = (Inr True, p') \<and> page_wf p' \<and> page_slots p' = spec_delete (unat (slot_no s)) (page_slots p)"
    if "unat (slot_no s) < length (page_slots p)" "page_slots p ! unat (slot_no s) = SLive r"
    by (rule delete_record_live [OF wf _ that(2)]) (use that(1) in \<open>auto simp: slot_id.expand\<close>)
qed

section \<open>Pages reachable through the interface\<close>

text \<open>
  The pages a client can produce: a fresh page, and whatever any insertion, deletion or
  compaction leaves behind, failed calls included.
\<close>

inductive page_reachable :: "page \<Rightarrow> bool" where
  fresh: "page_reachable (page_new pid t)"
| inserted: "page_reachable p \<Longrightarrow> insert_record p r = (res, p') \<Longrightarrow> page_reachable p'"
| deleted: "page_reachable p \<Longrightarrow> delete_record p s = (dres, p') \<Longrightarrow> page_reachable p'"
| compacted: "page_reachable p \<Longrightarrow> compact p = Some (cres, p') \<Longrightarrow> page_reachable p'"

lemma insert_record_wf:
  assumes "page_wf p" "insert_record p r = (res, p')"
  shows "page_wf p'"
  using assms heap_page.insert_accepted(1) [of p r] heap_page.insert_rejected(1) [of p r] by (cases res) auto

lemma delete_record_not_live:
  assumes wf: "page_wf p" and "\<forall>r. read_record p s \<noteq> Inr (Some r)"
  shows "\<exists>res. delete_record p s = (res, p) \<and> res \<noteq> Inr True"
proof (cases "unat (slot_no s) < slot_total (page_bytes p)")
  case True
  with assms have "\<not> slot_is_live (slot_at (page_bytes p) (unat (slot_no s)))"
    by (auto simp: read_record_eq spec_read_def slot_state_at_def slot_is_live_def Let_def)
  with True wf show ?thesis
    by (simp add: delete_record_def page_wf_read_slot)
next
  case False
  with wf show ?thesis by (simp add: delete_record_def word_le_nat_alt slot_total_def)
qed

lemma delete_record_wf:
  assumes "page_wf p" "delete_record p s = (res, p')"
  shows "page_wf p'"
proof (cases "\<exists>r. read_record p s = Inr (Some r)")
  case True
  with assms heap_page.read_after_delete [OF assms(1)] show ?thesis by fastforce
next
  case False
  with assms delete_record_not_live [OF assms(1), of s] show ?thesis by fastforce
qed

lemma page_reachable_wf: "page_reachable p \<Longrightarrow> page_wf p"
proof (induction rule: page_reachable.induct)
  case (compacted p cres p')
  from compact_ok [OF compacted.IH] obtain q where "compact p = Some (Inr (), q)" "page_wf q" .
  with compacted.hyps show ?case by simp
qed (simp, blast intro: insert_record_wf, blast intro: delete_record_wf)

lemma insert_fresh:
  assumes "length r \<le> 4056"
  shows "\<exists>p. insert_record (page_new pid t) r = (Inr (SlotId 0), p) \<and> page_wf p \<and>
    page_slots p = [SLive r] \<and> page_ident p = (pid, Lsn 0, t)"
proof -
  have "insert_cost r (page_slots (page_new pid t)) \<le> page_room (page_new pid t)"
    using assms by (simp add: insert_cost_def)
  from insert_record_fits [OF page_new_wf this] obtain p
    where "insert_record (page_new pid t) r = (Inr (SlotId (of_nat (fst (spec_insert r [])))), p)" "page_wf p"
      "page_slots p = snd (spec_insert r [])" "page_ident p = (pid, Lsn 0, t)" by simp blast
  then show ?thesis by (simp add: spec_insert_def)
qed

section \<open>Properties\<close>

text \<open>C5: inserting into a well-formed page refines the insertion into the slot array. If the
  record (plus a directory entry when no dead slot is reusable) fits, the record goes into
  the first dead slot or a new last slot, the page identity is kept and the free space
  shrinks by exactly that cost; otherwise a user error is returned and no byte changes.\<close>

theorem insert_record_refines:
  assumes "page_wf p"
  shows "if insert_cost r (page_slots p) \<le> page_room p
    then \<exists>p'. insert_record p r = (Inr (SlotId (of_nat (fst (spec_insert r (page_slots p))))), p') \<and>
      page_wf p' \<and> page_slots p' = snd (spec_insert r (page_slots p)) \<and> page_ident p' = page_ident p \<and>
      page_room p' = page_room p - insert_cost r (page_slots p)
    else \<exists>m. insert_record p r = (Inl (User m), p)"
proof (cases "insert_cost r (page_slots p) \<le> page_room p")
  case True
  from insert_record_fits [OF assms True] show ?thesis using True by auto
next
  case False
  with insert_record_full [OF assms] show ?thesis by simp
qed

theorem insert_record_refines_witness:
  "\<exists>p'. insert_record (page_new (PageId 7) Heap) [1, 2, 3] = (Inr (SlotId 0), p') \<and>
     page_slots p' = [SLive [1, 2, 3]] \<and> page_room p' = 4053"
  using insert_record_refines [of "page_new (PageId 7) Heap" "[1, 2, 3]"]
  by (auto simp: insert_cost_def spec_insert_def)

text \<open>The slot returned by a successful insertion reads back the inserted record, and every
  record that was live before is still read unchanged from its own slot.\<close>

theorem insert_then_read:
  assumes "page_wf p" and "insert_record p r = (Inr s, p')"
  shows "read_record p' s = Inr (Some r) \<and>
    (\<forall>t q. read_record p t = Inr (Some q) \<longrightarrow> t \<noteq> s \<and> read_record p' t = Inr (Some q))"
proof -
  have "t \<noteq> s" if "read_record p t = Inr (Some q)" for t q
  proof
    assume "t = s"
    with that assms(1) have "unat (slot_no s) < length (page_slots p)"
      "spec_read (page_slots p) (unat (slot_no s)) = Some q"
      by (auto simp: read_record_eq split: if_splits)
    with heap_page.insert_accepted(3) [OF assms] first_dead_Some [of "page_slots p"] show False
      by (auto simp: spec_insert_def spec_read_def split: option.splits)
  qed
  with heap_page.read_inserted [OF assms] heap_page.live_after_insert [OF assms] show ?thesis by blast
qed

theorem insert_then_read_witness:
  "\<exists>s p'. insert_record (page_new (PageId 7) Heap) [9] = (Inr s, p') \<and> read_record p' s = Inr (Some [9])"
proof -
  obtain s p' where ins: "insert_record (page_new (PageId 7) Heap) [9] = (Inr s, p')"
    using insert_fresh [of "[9]" "PageId 7" Heap] by auto
  with insert_then_read [OF page_new_wf ins] show ?thesis by blast
qed

text \<open>Deleting a live record makes exactly its slot read as absent; every other slot,
  including out-of-range ones, reads as before, and the page stays well formed.\<close>

theorem delete_hides_only_its_slot:
  assumes "page_wf p" and "read_record p s = Inr (Some r)"
  shows "\<exists>p'. delete_record p s = (Inr True, p') \<and> page_wf p' \<and> read_record p' s = Inr None \<and>
    (\<forall>t. t \<noteq> s \<longrightarrow> read_record p' t = read_record p t)"
  by (rule heap_page.read_after_delete [OF assms])

theorem delete_hides_only_its_slot_witness:
  "\<exists>p p'. page_wf p \<and> delete_record p (SlotId 0) = (Inr True, p') \<and> read_record p' (SlotId 0) = Inr None"
proof -
  obtain p where p: "insert_record (page_new (PageId 7) Heap) [9] = (Inr (SlotId 0), p)" "page_wf p"
    using insert_fresh [of "[9]" "PageId 7" Heap] by auto
  with delete_hides_only_its_slot [OF p(2)] heap_page.read_inserted [OF page_new_wf p(1)] show ?thesis by blast
qed

text \<open>C27: a page built only through the interface always validates, survives a round trip
  through its bytes, and can be compacted: compaction neither panics nor fails, keeps every
  slot with its record, keeps the page identity, and leaves all space not used by the
  header, the directory and live records in one free block, at least as large as before.\<close>

theorem reachable_page_compacts:
  assumes "page_reachable p"
  shows "page_from_bytes (page_bytes p) = Inr p \<and>
    (\<exists>p'. compact p = Some (Inr (), p') \<and> page_wf p' \<and> page_slots p' = page_slots p \<and>
       page_ident p' = page_ident p \<and> page_room p \<le> page_room p' \<and>
       page_room p' + live_bytes (page_slots p) = 4062 - 6 * length (page_slots p))"
proof -
  have wf: "page_wf p" using assms by (rule page_reachable_wf)
  obtain p' where p': "compact p = Some (Inr (), p')" "page_wf p'" "page_slots p' = page_slots p"
    "page_ident p' = page_ident p"
    "page_room p' + live_bytes (page_slots p) = 4096 - (34 + 6 * slot_total (page_bytes p))"
    using compact_ok [OF wf] by blast
  moreover have "live_bytes (page_slots p) + free_end_of (page_bytes p) \<le> 4096" using wf by (simp add: page_wf_iff)
  then have "page_room p \<le> page_room p'"
    using p'(5) page_wf_bounds [OF wf] unfolding page_room_def [of p] by arith
  ultimately show ?thesis using page_from_bytes_wf [OF wf] by auto
qed

theorem reachable_page_compacts_witness:
  "\<exists>p p'. insert_record (page_new (PageId 9) Heap) [5, 5] = (Inr (SlotId 0), p) \<and>
     compact p = Some (Inr (), p') \<and> page_slots p' = [SLive [5, 5]]"
proof -
  obtain p where p: "insert_record (page_new (PageId 9) Heap) [5, 5] = (Inr (SlotId 0), p)"
    "page_slots p = [SLive [5, 5]]"
    using insert_fresh [of "[5, 5]" "PageId 9" Heap] by auto
  have "page_reachable p" by (rule page_reachable.inserted [OF page_reachable.fresh p(1)])
  from reachable_page_compacts [OF this] p show ?thesis by auto
qed

text \<open>C34: changing any single byte of a valid page, in the header, the directory, the records or
  the checksum itself, is detected when the page is parsed again, and reported as corruption.\<close>

theorem single_byte_corruption_detected:
  assumes "length bs = PAGE_SIZE" and "page_from_bytes bs = Inr p" and "i < PAGE_SIZE" and "b \<noteq> bs ! i"
  shows "\<exists>m. page_from_bytes (bs[i := b]) = Inl (Corruption m)"
proof -
  have "page_validate \<lparr>page_bytes = bs\<rparr> = Inr ()" using assms(2) by (auto simp: page_from_bytes_def res_simps Let_def)
  with assms(1) have "checksum_ok bs" by (simp add: page_validate_iff)
  with assms have "\<not> checksum_ok (bs[i := b])" by (intro checksum_ok_update) auto
  with assms(1) have "page_validate \<lparr>page_bytes = bs[i := b]\<rparr> \<noteq> Inr ()" by (simp add: page_validate_iff)
  then obtain e where e: "page_validate \<lparr>page_bytes = bs[i := b]\<rparr> = Inl e"
    by (cases "page_validate \<lparr>page_bytes = bs[i := b]\<rparr>") auto
  with page_validate_Inl [OF e] show ?thesis by (auto simp: page_from_bytes_def)
qed

theorem single_byte_corruption_detected_witness:
  "\<exists>m. page_from_bytes ((page_bytes (page_new (PageId 10) Heap))[4095 :=
     page_bytes (page_new (PageId 10) Heap) ! 4095 + 0x55]) = Inl (Corruption m)"
  by (rule single_byte_corruption_detected [where p = "page_new (PageId 10) Heap"])
    (simp_all add: page_from_bytes_wf)

end
