(* ===== verification/Rdbms_Vfs.thy ===== *)
theory Rdbms_Vfs
  imports Rdbms_Page_Spec
begin

text \<open>
  The storage boundary of \<open>crates/rdbms_vfs\<close>. An open file is its current bytes, the
  bytes that survived the last successful \<open>sync_data\<close>, and a script of what the
  operating system answers: a read or write call may transfer fewer bytes than asked, be
  interrupted, or fail. The scripts are finite, which is the assumption that the system
  does not interrupt a call forever; an exhausted script transfers everything. On top of
  it stand the retry loops \<open>read_exact_at\<close> and \<open>write_all_at\<close>, the
  standard VFS and the page file, which maps page \<open>N\<close> to offset
  \<open>N * PAGE_SIZE\<close> and validates every page it reads or writes. The abstraction
  \<open>page_at\<close> reads a page file as a partial map from page ids to pages.
\<close>

section \<open>Files and the operating system\<close>

datatype io_answer = Transfer nat | Fail io_error

record vfs_file =
  fl_bytes :: byte_list
  fl_durable :: byte_list
  fl_reads :: "u64 \<Rightarrow> nat \<Rightarrow> io_answer list"
  fl_writes :: "io_answer list"
  fl_syncs :: "io_error option list"
  fl_meta :: "io_error option"

text \<open>
  The system refuses to grow a file beyond the largest signed 64-bit offset
  (\<open>EFBIG\<close>, error 27); a write past the end fills the gap with zeros.
\<close>

definition MAX_FILE_SIZE :: nat where
  "MAX_FILE_SIZE = 9223372036854775807"

definition file_put :: "byte_list \<Rightarrow> nat \<Rightarrow> byte_list \<Rightarrow> byte_list" where
  "file_put bs off data =
     (if data = [] then bs else put (bs @ replicate (off - length bs) 0) off data)"

text \<open>One call of \<open>read_at\<close>: the bytes it delivers, for the answer the system gives.\<close>

fun read_at :: "vfs_file \<Rightarrow> io_answer \<Rightarrow> nat \<Rightarrow> u64 \<Rightarrow> io_error + byte_list" where
  "read_at f (Fail e) n offset = Inl e"
| "read_at f (Transfer k) n offset = Inr (slice (fl_bytes f) (unat offset) (min k n))"

text \<open>One call of \<open>write_at\<close>: the number of bytes it took.\<close>

definition write_at :: "vfs_file \<Rightarrow> byte_list \<Rightarrow> u64 \<Rightarrow> (vfs_file, io_error, nat) stres" where
  "write_at f buf offset =
     (let (answer, rest) = (case fl_writes f of [] \<Rightarrow> (Transfer (length buf), []) | a # r \<Rightarrow> (a, r));
          f1 = f\<lparr>fl_writes := rest\<rparr>
      in case answer of
           Fail e \<Rightarrow> (Inl e, f1)
         | Transfer k \<Rightarrow>
             if MAX_FILE_SIZE \<le> unat offset then (Inl (OsError 27), f1)
             else let n = min k (min (length buf) (MAX_FILE_SIZE - unat offset))
                  in (Inr n, f1\<lparr>fl_bytes := file_put (fl_bytes f) (unat offset) (take n buf)\<rparr>))"

section \<open>The retry loops\<close>

definition msg_read_overflow :: string where
  "msg_read_overflow = ''read offset overflow''"

definition msg_write_overflow :: string where
  "msg_write_overflow = ''write offset overflow''"

text \<open>
  The loop asks for the remaining \<open>n\<close> bytes at each turn; the source fills the
  caller's buffer, the model returns its contents.
\<close>

function read_exact_from :: "vfs_file \<Rightarrow> io_answer list \<Rightarrow> u64 \<Rightarrow> nat \<Rightarrow> io_error + byte_list" where
  "read_exact_from f answers offset n =
     (if n = 0 then Inr []
      else let (answer, rest) = (case answers of [] \<Rightarrow> (Transfer n, []) | a # r \<Rightarrow> (a, r))
      in case read_at f answer n offset of
           Inl e \<Rightarrow> if e = Interrupted then read_exact_from f rest offset n else Inl e
         | Inr chunk \<Rightarrow>
             if length chunk = 0 then Inl UnexpectedEof
             else (case checked_add offset (of_nat (length chunk)) of
                     None \<Rightarrow> Inl (InvalidInput msg_read_overflow)
                   | Some offset' \<Rightarrow>
                       bindR (read_exact_from f rest offset' (n - length chunk))
                         (\<lambda>tail. Inr (chunk @ tail))))"
  by pat_completeness auto

termination
  by (relation "measure (\<lambda>(f, answers, offset, n). n + length answers)") (auto split: list.splits)

declare read_exact_from.simps [simp del]

definition read_exact_at :: "vfs_file \<Rightarrow> u64 \<Rightarrow> nat \<Rightarrow> io_error + byte_list" where
  "read_exact_at f offset n = read_exact_from f (fl_reads f offset n) offset n"

lemma write_at_shrinks:
  assumes "write_at f buf offset = (r, f')"
  shows "length (fl_writes f') \<le> length (fl_writes f)"
    and "fl_writes f \<noteq> [] \<Longrightarrow> length (fl_writes f') < length (fl_writes f)"
    and "r = Inl Interrupted \<Longrightarrow> fl_writes f \<noteq> []"
  using assms by (auto simp: write_at_def Let_def split: list.splits io_answer.splits if_splits)

function write_all_at :: "vfs_file \<Rightarrow> u64 \<Rightarrow> byte_list \<Rightarrow> (vfs_file, io_error, unit) stres" where
  "write_all_at f offset buf =
     (if buf = [] then (Inr (), f)
      else case write_at f buf offset of
        (Inl e, f') \<Rightarrow> if e = Interrupted then write_all_at f' offset buf else (Inl e, f')
      | (Inr n, f') \<Rightarrow>
          if n = 0 then (Inl WriteZero, f')
          else (case checked_add offset (of_nat n) of
                  None \<Rightarrow> (Inl (InvalidInput msg_write_overflow), f')
                | Some offset' \<Rightarrow> write_all_at f' offset' (drop n buf)))"
  by pat_completeness auto

termination
proof (relation "measure (\<lambda>(f, offset, buf). length buf + length (fl_writes f))", goal_cases)
  case (2 f offset buf a f' e)
  then show ?case using write_at_shrinks(2,3) [of f buf offset "Inl e" f'] by auto
next
  case (3 f offset buf a f' n off')
  then show ?case using write_at_shrinks(1) [of f buf offset "Inr n" f'] by (cases buf) auto
qed simp

declare write_all_at.simps [simp del]

section \<open>The standard VFS\<close>

definition vfs_read_exact_at :: "vfs_file \<Rightarrow> u64 \<Rightarrow> nat \<Rightarrow> byte_list db_result" where
  "vfs_read_exact_at f offset n = from_io (read_exact_at f offset n)"

definition vfs_write_all_at :: "vfs_file \<Rightarrow> u64 \<Rightarrow> byte_list \<Rightarrow> (vfs_file, db_error, unit) stres" where
  "vfs_write_all_at f offset buf =
     (case write_all_at f offset buf of (r, f') \<Rightarrow> (from_io r, f'))"

definition vfs_len :: "vfs_file \<Rightarrow> u64 db_result" where
  "vfs_len f = (case fl_meta f of
     Some e \<Rightarrow> Inl (Io e) | None \<Rightarrow> Inr (of_nat (length (fl_bytes f))))"

definition vfs_sync_data :: "vfs_file \<Rightarrow> (vfs_file, db_error, unit) stres" where
  "vfs_sync_data f = (case fl_syncs f of
     Some e # rest \<Rightarrow> (Inl (Io e), f\<lparr>fl_syncs := rest\<rparr>)
   | answers \<Rightarrow> (Inr (), f\<lparr>fl_syncs := tl answers, fl_durable := fl_bytes f\<rparr>))"

text \<open>
  A directory of files by path. Opening creates a missing file, empty; \<open>sv_created\<close>
  says how the system will answer on it.
\<close>

record std_vfs =
  sv_files :: "string \<Rightarrow> vfs_file option"
  sv_created :: "string \<Rightarrow> vfs_file"
  sv_open_error :: "string \<Rightarrow> io_error option"

definition vfs_open_database :: "std_vfs \<Rightarrow> string \<Rightarrow> (std_vfs, db_error, vfs_file) stres" where
  "vfs_open_database v path =
     (case sv_open_error v path of
        Some e \<Rightarrow> (Inl (Io e), v)
      | None \<Rightarrow> (case sv_files v path of
           Some f \<Rightarrow> (Inr f, v)
         | None \<Rightarrow> (let f = (sv_created v path)\<lparr>fl_bytes := [], fl_durable := []\<rparr>
                   in (Inr f, v\<lparr>sv_files := (sv_files v)(path \<mapsto> f)\<rparr>))))"

section \<open>The page file\<close>

record page_file =
  pf_file :: vfs_file

definition msg_page_offset :: string where
  "msg_page_offset = ''page offset overflow''"

definition page_offset :: "page_id \<Rightarrow> u64 db_result" where
  "page_offset pid = ok_or (checked_mul (page_no pid) (of_nat PAGE_SIZE)) (User msg_page_offset)"

definition msg_write_id :: "page_id \<Rightarrow> page_id \<Rightarrow> string" where
  "msg_write_id target got =
     ''page id mismatch on write: target='' @ fmt_nat (unat (page_no target)) @
     '', page_header='' @ fmt_nat (unat (page_no got))"

definition write_page_at :: "page_file \<Rightarrow> page_id \<Rightarrow> page \<Rightarrow> (page_file, db_error, unit) stres" where
  "write_page_at pf pid p =
     (case bindR (page_validate p) (\<lambda>_. header p) of
        Inl e \<Rightarrow> (Inl e, pf)
      | Inr h \<Rightarrow>
          if h_page_id h \<noteq> pid then (Inl (User (msg_write_id pid (h_page_id h))), pf)
          else (case page_offset pid of
             Inl e \<Rightarrow> (Inl e, pf)
           | Inr offset \<Rightarrow>
               (case vfs_write_all_at (pf_file pf) offset (page_bytes p) of
                  (r, f') \<Rightarrow> (r, pf\<lparr>pf_file := f'\<rparr>))))"

definition write_page :: "page_file \<Rightarrow> page \<Rightarrow> (page_file, db_error, unit) stres" where
  "write_page pf p =
     (case header p of Inl e \<Rightarrow> (Inl e, pf) | Inr h \<Rightarrow> write_page_at pf (h_page_id h) p)"

definition msg_read_id :: "page_id \<Rightarrow> page_id \<Rightarrow> string" where
  "msg_read_id requested got =
     ''page id mismatch on read: requested='' @ fmt_nat (unat (page_no requested)) @
     '', page_header='' @ fmt_nat (unat (page_no got))"

definition read_page :: "page_file \<Rightarrow> page_id \<Rightarrow> page db_result" where
  "read_page pf pid =
     bindR (page_offset pid) (\<lambda>offset.
     bindR (vfs_read_exact_at (pf_file pf) offset PAGE_SIZE) (\<lambda>bytes.
     bindR (page_from_bytes bytes) (\<lambda>p.
     bindR (header p) (\<lambda>h.
       if h_page_id h \<noteq> pid then Inl (Corruption (msg_read_id pid (h_page_id h)))
       else Inr p))))"

definition page_file_len :: "page_file \<Rightarrow> u64 db_result" where
  "page_file_len pf = vfs_len (pf_file pf)"

definition page_file_sync_data :: "page_file \<Rightarrow> (page_file, db_error, unit) stres" where
  "page_file_sync_data pf =
     (case vfs_sync_data (pf_file pf) of (r, f') \<Rightarrow> (r, pf\<lparr>pf_file := f'\<rparr>))"

definition open_page_file :: "std_vfs \<Rightarrow> string \<Rightarrow> (std_vfs, db_error, page_file) stres" where
  "open_page_file v path =
     bindS (vfs_open_database v path) (\<lambda>f v'. (Inr \<lparr>pf_file = f\<rparr>, v'))"

section \<open>The loops transfer exactly what was asked\<close>

text \<open>
  An answer is benign when it makes progress or only interrupts. Files whose scripts are
  benign never fail within the size limit, however the system splits the transfers.
\<close>

fun benign_answer :: "io_answer \<Rightarrow> bool" where
  "benign_answer (Transfer k) \<longleftrightarrow> 0 < k"
| "benign_answer (Fail e) \<longleftrightarrow> e = Interrupted"

definition reads_ok :: "vfs_file \<Rightarrow> bool" where
  "reads_ok f \<longleftrightarrow> fl_meta f = None \<and> (\<forall>offset n. list_all benign_answer (fl_reads f offset n))"

definition writes_ok :: "vfs_file \<Rightarrow> bool" where
  "writes_ok f \<longleftrightarrow> list_all benign_answer (fl_writes f) \<and> list_all (\<lambda>a. a = None) (fl_syncs f)"

definition file_wf :: "vfs_file \<Rightarrow> bool" where
  "file_wf f \<longleftrightarrow> length (fl_bytes f) \<le> MAX_FILE_SIZE"

lemma slice_add: "slice bs off (m + n) = slice bs off m @ slice bs (off + m) n"
  by (simp add: slice_def take_add add.commute)

lemma checked_add_chunk:
  assumes "checked_add off (of_nat k :: u64) = Some off'" "k < 2 ^ 64"
  shows "unat off' = unat off + k"
  using checked_add_unat [OF assms(1)] assms(2) by simp

lemma MAX_FILE_SIZE_less: "MAX_FILE_SIZE < 2 ^ 64" "MAX_FILE_SIZE < 18446744073709551616"
  by (simp_all add: MAX_FILE_SIZE_def)

lemma read_exact_from_Inr:
  assumes "read_exact_from f answers offset n = Inr bs" "file_wf f"
  shows "bs = slice (fl_bytes f) (unat offset) n \<and> length bs = n"
  using assms
proof (induction f answers offset n arbitrary: bs rule: read_exact_from.induct)
  case (1 f answers offset n)
  show ?case
  proof (cases "n = 0")
    case True
    with "1.prems" show ?thesis by (simp add: read_exact_from.simps slice_def)
  next
    case n: False
    obtain answer rest where a: "(case answers of [] \<Rightarrow> (Transfer n, []) | a # r \<Rightarrow> (a, r)) = (answer, rest)"
      by fastforce
    show ?thesis
    proof (cases "read_at f answer n offset")
      case (Inl e)
      with "1.prems" n a have "e = Interrupted" "read_exact_from f rest offset n = Inr bs"
        by (auto simp: read_exact_from.simps [of f answers] split: if_splits)
      with "1.IH"(1) [OF n a [symmetric] refl Inl] "1.prems"(2) show ?thesis by blast
    next
      case (Inr chunk)
      from "1.prems" n a Inr obtain offset' tail where
        ne: "length chunk \<noteq> 0" and off': "checked_add offset (of_nat (length chunk)) = Some offset'"
        and tail: "read_exact_from f rest offset' (n - length chunk) = Inr tail" and bs: "bs = chunk @ tail"
        by (auto simp: read_exact_from.simps [of f answers] bindR_eq_Inr split: if_splits option.splits)
      obtain k where k: "answer = Transfer k" "chunk = slice (fl_bytes f) (unat offset) (min k n)"
        using Inr by (cases answer) auto
      then have chunk: "chunk = slice (fl_bytes f) (unat offset) (length chunk)" "length chunk \<le> n"
        by (auto simp: slice_def min_def)
      have "length chunk < 2 ^ 64"
        using k(2) "1.prems"(2) MAX_FILE_SIZE_less by (auto simp: file_wf_def)
      from checked_add_chunk [OF off' this] have u: "unat offset' = unat offset + length chunk" .
      from "1.IH"(2) [OF n a [symmetric] refl Inr ne off' tail "1.prems"(2)]
      have "tail = slice (fl_bytes f) (unat offset + length chunk) (n - length chunk)" "length tail = n - length chunk"
        unfolding u by blast+
      with chunk bs show ?thesis
        using slice_add [of "fl_bytes f" "unat offset" "length chunk" "n - length chunk"] by simp
    qed
  qed
qed

lemma read_exact_from_benign:
  assumes "list_all benign_answer answers" "file_wf f"
  shows "read_exact_from f answers offset n =
    (if n = 0 \<or> unat offset + n \<le> length (fl_bytes f) then Inr (slice (fl_bytes f) (unat offset) n)
     else Inl UnexpectedEof)"
  using assms
proof (induction f answers offset n rule: read_exact_from.induct)
  case (1 f answers offset n)
  show ?case
  proof (cases "n = 0")
    case True
    then show ?thesis by (simp add: read_exact_from.simps slice_def)
  next
    case n: False
    obtain answer rest where a: "(case answers of [] \<Rightarrow> (Transfer n, []) | a # r \<Rightarrow> (a, r)) = (answer, rest)"
      by fastforce
    with n "1.prems"(1) have ok: "benign_answer answer" "list_all benign_answer rest"
      by (auto split: list.splits)
    show ?thesis
    proof (cases answer)
      case (Fail e)
      with ok have "read_at f answer n offset = Inl Interrupted" by simp
      with "1.IH"(1) [OF n a [symmetric] refl this refl ok(2) "1.prems"(2)] n a show ?thesis
        by (simp add: read_exact_from.simps [of f answers])
    next
      case (Transfer k)
      define chunk where "chunk = slice (fl_bytes f) (unat offset) (min k n)"
      have r: "read_at f answer n offset = Inr chunk" by (simp add: Transfer chunk_def)
      have k: "0 < k" using ok Transfer by simp
      have len: "length (fl_bytes f) < 2 ^ 64"
        using "1.prems"(2) MAX_FILE_SIZE_less by (simp add: file_wf_def)
      show ?thesis
      proof (cases "length chunk = 0")
        case True
        then have "length (fl_bytes f) \<le> unat offset" using n k by (auto simp: chunk_def slice_def)
        with n a r True show ?thesis by (simp add: read_exact_from.simps [of f answers])
      next
        case False
        then have bound: "unat offset + length chunk \<le> length (fl_bytes f)" by (auto simp: chunk_def slice_def)
        with len have less: "length chunk < 2 ^ 64" "unat offset + length chunk < 2 ^ 64" by simp_all
        then obtain offset' where off': "checked_add offset (of_nat (length chunk)) = Some offset'"
          by (simp add: checked_add_def)
        have u: "unat offset' = unat offset + length chunk"
          using checked_add_chunk [OF off' less(1)] .
        have chunk: "chunk = slice (fl_bytes f) (unat offset) (length chunk)" "length chunk \<le> n"
          by (auto simp: chunk_def slice_def min_def)
        have split: "slice (fl_bytes f) (unat offset) n =
            chunk @ slice (fl_bytes f) (unat offset + length chunk) (n - length chunk)"
          using slice_add [of "fl_bytes f" "unat offset" "length chunk" "n - length chunk"] chunk by simp
        from "1.IH"(2) [OF n a [symmetric] refl r False off' ok(2) "1.prems"(2)]
        show ?thesis using n a r False off' u split chunk(2) bound
          by (cases "n = length chunk") (auto simp: read_exact_from.simps [of f answers] slice_def)
      qed
    qed
  qed
qed

lemma read_exact_at_Inr:
  "read_exact_at f offset n = Inr bs \<Longrightarrow> file_wf f \<Longrightarrow>
    bs = slice (fl_bytes f) (unat offset) n \<and> length bs = n"
  unfolding read_exact_at_def by (rule read_exact_from_Inr)

lemma read_exact_at_benign:
  "reads_ok f \<Longrightarrow> file_wf f \<Longrightarrow> read_exact_at f offset n =
    (if n = 0 \<or> unat offset + n \<le> length (fl_bytes f) then Inr (slice (fl_bytes f) (unat offset) n)
     else Inl UnexpectedEof)"
  unfolding read_exact_at_def reads_ok_def by (intro read_exact_from_benign) auto

lemma file_put_Nil [simp]: "file_put bs off [] = bs"
  by (simp add: file_put_def)

lemma length_file_put:
  "length (file_put bs off d) = (if d = [] then length bs else max (length bs) (off + length d))"
  by (auto simp: file_put_def put_def)

lemma file_put_file_put:
  "file_put (file_put bs off d1) (off + length d1) d2 = file_put bs off (d1 @ d2)"
proof (cases "d1 = [] \<or> d2 = []")
  case False
  then have "off + length d1 \<le> length (file_put bs off d1)" by (simp add: length_file_put)
  moreover have "off - length bs + min (length bs) off = off" by simp
  ultimately show ?thesis using False by (simp add: file_put_def put_def add.commute add.left_commute)
qed auto

lemma file_put_inside: "off + length d \<le> length bs \<Longrightarrow> file_put bs off d = put bs off d"
  by (cases d) (simp_all add: file_put_def put_def)

text \<open>What a write leaves alone: the durable bytes and the other answers of the system.\<close>

definition file_frame :: "vfs_file \<Rightarrow> vfs_file \<Rightarrow> bool" where
  "file_frame f f' \<longleftrightarrow> fl_durable f' = fl_durable f \<and> fl_reads f' = fl_reads f \<and> fl_meta f' = fl_meta f \<and>
     fl_syncs f' = fl_syncs f \<and> (list_all benign_answer (fl_writes f) \<longrightarrow> list_all benign_answer (fl_writes f'))"

lemma file_frame_refl [simp]: "file_frame f f"
  by (simp add: file_frame_def)

lemma file_frame_trans [trans]: "file_frame f g \<Longrightarrow> file_frame g h \<Longrightarrow> file_frame f h"
  by (auto simp: file_frame_def)

lemma file_frame_ok: "file_frame f f' \<Longrightarrow> reads_ok f \<Longrightarrow> reads_ok f'"
  "file_frame f f' \<Longrightarrow> writes_ok f \<Longrightarrow> writes_ok f'"
  by (auto simp: file_frame_def reads_ok_def writes_ok_def)

lemma write_at_Inr:
  assumes "write_at f buf offset = (Inr n, f')"
  shows "n \<le> length buf" "unat offset + n \<le> MAX_FILE_SIZE"
    "fl_bytes f' = file_put (fl_bytes f) (unat offset) (take n buf)" "file_frame f f'"
  using assms by (auto simp: write_at_def Let_def file_frame_def split: list.splits io_answer.splits if_splits)

lemma write_at_Inl:
  assumes "write_at f buf offset = (Inl e, f')"
  shows "fl_bytes f' = fl_bytes f" "file_frame f f'"
  using assms by (auto simp: write_at_def Let_def file_frame_def split: list.splits io_answer.splits if_splits)

lemma write_at_benign:
  assumes "list_all benign_answer (fl_writes f)" "buf \<noteq> []" "unat offset + length buf \<le> MAX_FILE_SIZE"
  shows "\<exists>f'. write_at f buf offset = (Inl Interrupted, f') \<or>
    (\<exists>n. write_at f buf offset = (Inr n, f') \<and> 0 < n)"
proof -
  have "unat offset < MAX_FILE_SIZE" "0 < length buf" using assms(2,3) by (cases buf; simp)+
  then show ?thesis using assms(1)
    by (cases "fl_writes f"; cases "hd (fl_writes f)") (auto simp: write_at_def Let_def)
qed

text \<open>
  Success writes the whole buffer, failure a prefix of it; nothing else of the file changes.
\<close>

lemma write_all_at_prefix:
  assumes "write_all_at f offset buf = (r, f')"
  shows "\<exists>n \<le> length buf. fl_bytes f' = file_put (fl_bytes f) (unat offset) (take n buf) \<and>
    (n = 0 \<or> unat offset + n \<le> MAX_FILE_SIZE) \<and> (r = Inr () \<longleftrightarrow> n = length buf) \<and> file_frame f f'"
  using assms
proof (induction f offset buf arbitrary: r f' rule: write_all_at.induct)
  case (1 f offset buf)
  show ?case
  proof (cases "buf = []")
    case True
    with "1.prems" show ?thesis by (auto simp: write_all_at.simps)
  next
    case ne: False
    obtain w g where w: "write_at f buf offset = (w, g)" by fastforce
    show ?thesis
    proof (cases w)
      case (Inl e)
      note g = write_at_Inl [OF w [unfolded Inl]]
      show ?thesis
      proof (cases "e = Interrupted")
        case True
        with "1.prems" ne w Inl have "write_all_at g offset buf = (r, f')"
          by (simp add: write_all_at.simps [of f])
        from "1.IH"(1) [OF ne w [symmetric] Inl True this] g show ?thesis
          by (auto intro: file_frame_trans)
      next
        case False
        with "1.prems" ne w Inl g show ?thesis
          by (intro exI [of _ 0]) (auto simp: write_all_at.simps [of f])
      qed
    next
      case (Inr n)
      note g = write_at_Inr [OF w [unfolded Inr]]
      show ?thesis
      proof (cases "n = 0")
        case True
        with "1.prems" ne w Inr g show ?thesis
          by (intro exI [of _ n]) (auto simp: write_all_at.simps [of f] split: if_splits)
      next
        case n0: False
        have less: "n < 2 ^ 64" "unat offset + n < 2 ^ 64" using g(2) MAX_FILE_SIZE_less by simp_all
        then obtain offset' where off': "checked_add offset (of_nat n) = Some offset'" by (simp add: checked_add_def)
        from checked_add_chunk [OF off' less(1)] have u: "unat offset' = unat offset + n" .
        from "1.prems" ne w Inr n0 off' have "write_all_at g offset' (drop n buf) = (r, f')"
          by (simp add: write_all_at.simps [of f])
        from "1.IH"(2) [OF ne w [symmetric] Inr n0 off' this] obtain m where
          m: "m \<le> length (drop n buf)" "fl_bytes f' = file_put (fl_bytes g) (unat offset') (take m (drop n buf))"
          "m = 0 \<or> unat offset' + m \<le> MAX_FILE_SIZE" "r = Inr () \<longleftrightarrow> m = length (drop n buf)" "file_frame g f'"
          by blast
        have "take (n + m) buf = take n buf @ take m (drop n buf)" by (simp add: take_add)
        then have "fl_bytes f' = file_put (fl_bytes f) (unat offset) (take (n + m) buf)"
          using m(2) g(1,3) file_put_file_put [of "fl_bytes f" "unat offset" "take n buf" "take m (drop n buf)"]
          by (simp add: u min_absorb2)
        with m g n0 show ?thesis
          by (intro exI [of _ "n + m"]) (auto simp: u intro: file_frame_trans)
      qed
    qed
  qed
qed

lemma write_all_at_benign:
  assumes "list_all benign_answer (fl_writes f)" "unat offset + length buf \<le> MAX_FILE_SIZE"
  shows "\<exists>f'. write_all_at f offset buf = (Inr (), f')"
  using assms
proof (induction f offset buf rule: write_all_at.induct)
  case (1 f offset buf)
  show ?case
  proof (cases "buf = []")
    case ne: False
    from write_at_benign [OF "1.prems"(1) ne "1.prems"(2)] obtain g where
      "write_at f buf offset = (Inl Interrupted, g) \<or> (\<exists>n. write_at f buf offset = (Inr n, g) \<and> 0 < n)" by blast
    then show ?thesis
    proof (elim disjE exE conjE)
      assume w: "write_at f buf offset = (Inl Interrupted, g)"
      from write_at_Inl [OF w] "1.prems"(1) have "list_all benign_answer (fl_writes g)" by (simp add: file_frame_def)
      from "1.IH"(1) [OF ne w [symmetric] refl refl this "1.prems"(2)] w ne show ?thesis
        by (simp add: write_all_at.simps [of f])
    next
      fix n assume w: "write_at f buf offset = (Inr n, g)" and n: "0 < n"
      note g = write_at_Inr [OF w]
      then have ok: "list_all benign_answer (fl_writes g)" using "1.prems"(1) by (simp add: file_frame_def)
      have less: "n < 2 ^ 64" "unat offset + n < 2 ^ 64" using g(2) MAX_FILE_SIZE_less by simp_all
      then obtain offset' where off': "checked_add offset (of_nat n) = Some offset'" by (simp add: checked_add_def)
      have "unat offset' + length (drop n buf) \<le> MAX_FILE_SIZE"
        using checked_add_chunk [OF off' less(1)] g(1) "1.prems"(2) by simp
      from "1.IH"(2) [OF ne w [symmetric] refl _ off' ok this] n w ne off' show ?thesis
        by (simp add: write_all_at.simps [of f])
    qed
  qed (simp add: write_all_at.simps)
qed

section \<open>A page file as a map of pages\<close>

definition page_id_of :: "page \<Rightarrow> page_id" where
  "page_id_of p = h_page_id (hdr_of (page_bytes p))"

definition page_valid :: "page \<Rightarrow> bool" where
  "page_valid p \<longleftrightarrow> length (page_bytes p) = PAGE_SIZE \<and> page_validate p = Inr ()"

definition page_at :: "byte_list \<Rightarrow> page_id \<Rightarrow> page option" where
  "page_at bs pid =
     (let off = unat (page_no pid) * PAGE_SIZE;
          p = \<lparr>page_bytes = slice bs off PAGE_SIZE\<rparr>
      in if off + PAGE_SIZE \<le> length bs \<and> page_validate p = Inr () \<and> page_id_of p = pid
         then Some p else None)"

definition pf_pages :: "page_file \<Rightarrow> page_id \<Rightarrow> page option" where
  "pf_pages pf = page_at (fl_bytes (pf_file pf))"

definition pf_wf :: "page_file \<Rightarrow> bool" where
  "pf_wf pf \<longleftrightarrow> file_wf (pf_file pf) \<and> PAGE_SIZE dvd length (fl_bytes (pf_file pf))"

lemma page_valid_header:
  "page_validate p = Inr () \<Longrightarrow> header p = Inr (hdr_of (page_bytes p))"
  by (auto simp: page_validate_def bindR_eq_Inr header_Inr)

lemma page_wf_valid [simp]: "page_wf p \<Longrightarrow> page_valid p"
  by (simp add: page_wf_def page_valid_def)

lemma page_new_id [simp]: "page_id_of (page_new pid t) = pid"
  using page_new_ident [of pid t] by (simp add: page_ident_def page_id_of_def Let_def)

lemma page_from_bytes_Inr:
  "page_from_bytes bs = Inr p \<longleftrightarrow> p = \<lparr>page_bytes = bs\<rparr> \<and> page_validate p = Inr ()"
  by (auto simp: page_from_bytes_def bindR_eq_Inr Let_def)

lemma page_offset_Inr:
  "page_offset pid = Inr off \<longleftrightarrow>
    unat (page_no pid) * 4096 < 2 ^ 64 \<and> unat off = unat (page_no pid) * 4096"
proof -
  have "unat (page_no pid * 4096) = unat (page_no pid) * 4096" if "unat (page_no pid) * 4096 < 2 ^ 64"
    using that by (simp add: unat_word_ariths)
  then show ?thesis
    by (auto simp: page_offset_def ok_or_eq_Inr checked_mul_def word_unat_eq_iff)
qed

lemma page_offset_in:
  assumes "unat (page_no pid) * 4096 < 2 ^ 64"
  obtains off where "page_offset pid = Inr off" "unat off = unat (page_no pid) * 4096"
proof -
  have "unat (of_nat (unat (page_no pid) * 4096) :: u64) = unat (page_no pid) * 4096"
    using assms by (intro unat_of_nat_widths(3)) simp
  with assms have "page_offset pid = Inr (of_nat (unat (page_no pid) * 4096))"
    unfolding page_offset_Inr by blast
  then show ?thesis using that page_offset_Inr by blast
qed

lemma read_page_pages:
  assumes "file_wf (pf_file pf)" "read_page pf pid = Inr p"
  shows "pf_pages pf pid = Some p"
proof -
  from assms(2) obtain off bs h where off: "page_offset pid = Inr off"
    and bs: "read_exact_at (pf_file pf) off 4096 = Inr bs"
    and p: "page_from_bytes bs = Inr p" and h: "header p = Inr h" "h_page_id h = pid"
    by (auto simp: read_page_def res_simps vfs_read_exact_at_def split: if_splits)
  from read_exact_at_Inr [OF bs assms(1)] have sl: "bs = slice (fl_bytes (pf_file pf)) (unat off) 4096" "length bs = 4096"
    by auto
  then have "unat off + 4096 \<le> length (fl_bytes (pf_file pf))" by auto
  with sl p h off show ?thesis
    by (auto simp: pf_pages_def page_at_def page_offset_Inr page_from_bytes_Inr header_Inr page_id_of_def Let_def)
qed

lemma read_page_benign:
  assumes "reads_ok (pf_file pf)" "file_wf (pf_file pf)" "pf_pages pf pid = Some p"
  shows "read_page pf pid = Inr p"
proof -
  let ?bs = "fl_bytes (pf_file pf)" let ?off = "unat (page_no pid) * 4096"
  from assms(3) have p: "p = \<lparr>page_bytes = slice ?bs ?off 4096\<rparr>" "?off + 4096 \<le> length ?bs"
    "page_validate p = Inr ()" "page_id_of p = pid"
    by (auto simp: pf_pages_def page_at_def Let_def split: if_splits)
  have "?off < 2 ^ 64" using p(2) assms(2) MAX_FILE_SIZE_less by (simp add: file_wf_def)
  from page_offset_in [OF this] obtain off where off: "page_offset pid = Inr off" "unat off = ?off" .
  have "read_exact_at (pf_file pf) off 4096 = Inr (page_bytes p)"
    using p off assms by (simp add: read_exact_at_benign)
  with off p page_valid_header [OF p(3)] show ?thesis
    by (simp add: read_page_def vfs_read_exact_at_def page_from_bytes_def page_id_of_def)
qed

lemma read_page_iff:
  assumes "reads_ok (pf_file pf)" "file_wf (pf_file pf)"
  shows "read_page pf pid = Inr p \<longleftrightarrow> pf_pages pf pid = Some p"
  using read_page_benign [OF assms] read_page_pages [OF assms(2)] by blast

lemma nth_file_put:
  assumes "i < length (file_put bs off d)"
  shows "file_put bs off d ! i =
    (if off \<le> i \<and> i < off + length d then d ! (i - off) else if i < length bs then bs ! i else 0)"
proof (cases "d = []")
  case False
  define T where "T = take off (bs @ replicate (off - length bs) 0)"
  have f: "file_put bs off d = T @ d @ drop (off + length d) bs"
    using False by (simp add: file_put_def put_def T_def)
  have l: "length T = off" by (auto simp: T_def)
  consider "i < off" | "off \<le> i" "i < off + length d" | "off + length d \<le> i" by linarith
  then show ?thesis
  proof cases
    case 1
    then have "T ! i = (if i < length bs then bs ! i else 0)" by (auto simp: T_def nth_append)
    with 1 l show ?thesis by (simp add: f nth_append)
  next
    case 2
    then have "i - off < length d" by linarith
    with 2 l show ?thesis by (simp add: f nth_append)
  next
    case 3
    with assms False have "i < length bs" by (auto simp: length_file_put)
    moreover have "\<not> i - off < length d" using 3 by linarith
    ultimately show ?thesis using 3 l by (simp add: f nth_append)
  qed
qed (use assms in auto)

lemma slice_file_put: "slice (file_put bs off d) off (length d) = d"
proof (cases "d = []")
  case False
  then have "off + length d \<le> length (file_put bs off d)" by (simp add: length_file_put)
  then show ?thesis by (intro nth_equalityI) (auto simp: slice_nth nth_file_put)
qed (simp add: slice_def)

lemma zero_page_invalid: "page_validate \<lparr>page_bytes = replicate 4096 0\<rparr> \<noteq> Inr ()"
proof -
  have "slice (replicate 4096 0) 0 4 = replicate 4 (0 :: u8)" by (simp add: slice_def)
  moreover have "nat_of_le (replicate 4 0) = 0" by (simp add: numeral_eq_Suc)
  ultimately have "read_u32 (replicate 4096 0) 0 = 0"
    by (simp add: read_u32_def from_le_bytes_def)
  then have "\<not> hdr_ok (replicate 4096 0)" by (simp add: hdr_ok_def PAGE_MAGIC_def)
  then show ?thesis using page_valid_header [of "\<lparr>page_bytes = replicate 4096 0\<rparr>"]
    by (auto simp: header_Inr)
qed

lemma write_page_at_Inr:
  assumes "write_page_at pf pid p = (Inr (), pf')" "length (page_bytes p) = 4096"
  shows "page_valid p" "page_id_of p = pid" "file_frame (pf_file pf) (pf_file pf')"
    "unat (page_no pid) * 4096 + 4096 \<le> MAX_FILE_SIZE"
    "fl_bytes (pf_file pf') = file_put (fl_bytes (pf_file pf)) (unat (page_no pid) * 4096) (page_bytes p)"
proof -
  from assms(1) obtain h off f' where v: "page_validate p = Inr ()" and h: "header p = Inr h" "h_page_id h = pid"
    and off: "page_offset pid = Inr off" and w: "write_all_at (pf_file pf) off (page_bytes p) = (Inr (), f')"
    and pf': "pf' = pf\<lparr>pf_file := f'\<rparr>"
    by (auto simp: write_page_at_def vfs_write_all_at_def res_simps split: sum.splits if_splits prod.splits)
  show "page_valid p" using v assms(2) by (simp add: page_valid_def)
  show "page_id_of p = pid" using h by (auto simp: page_id_of_def header_Inr)
  from write_all_at_prefix [OF w] off assms(2) pf'
  show "file_frame (pf_file pf) (pf_file pf')" "unat (page_no pid) * 4096 + 4096 \<le> MAX_FILE_SIZE"
    "fl_bytes (pf_file pf') = file_put (fl_bytes (pf_file pf)) (unat (page_no pid) * 4096) (page_bytes p)"
    by (auto simp: page_offset_Inr)
qed

lemma write_page_at_Inl:
  assumes "write_page_at pf pid p = (Inl e, pf')" "length (page_bytes p) = 4096"
  shows "\<exists>n \<le> 4096. fl_bytes (pf_file pf') =
      file_put (fl_bytes (pf_file pf)) (unat (page_no pid) * 4096) (take n (page_bytes p)) \<and>
    (n = 0 \<or> unat (page_no pid) * 4096 + n \<le> MAX_FILE_SIZE)"
    and "file_frame (pf_file pf) (pf_file pf')"
proof -
  from assms(1) have "pf' = pf \<or> (\<exists>off f' r. page_offset pid = Inr off \<and>
      write_all_at (pf_file pf) off (page_bytes p) = (r, f') \<and> pf' = pf\<lparr>pf_file := f'\<rparr>)"
    by (auto simp: write_page_at_def vfs_write_all_at_def split: sum.splits if_splits prod.splits)
  then show "\<exists>n \<le> 4096. fl_bytes (pf_file pf') =
      file_put (fl_bytes (pf_file pf)) (unat (page_no pid) * 4096) (take n (page_bytes p)) \<and>
    (n = 0 \<or> unat (page_no pid) * 4096 + n \<le> MAX_FILE_SIZE)"
    and "file_frame (pf_file pf) (pf_file pf')"
    using assms(2) by (auto dest!: write_all_at_prefix simp: page_offset_Inr intro: exI [of _ 0])
qed

lemma write_page_at_benign:
  assumes "page_valid p" "page_id_of p = pid" "writes_ok (pf_file pf)"
    and "unat (page_no pid) * 4096 + 4096 \<le> MAX_FILE_SIZE"
  shows "\<exists>pf'. write_page_at pf pid p = (Inr (), pf')"
proof -
  have "unat (page_no pid) * 4096 < 2 ^ 64" using assms(4) MAX_FILE_SIZE_less by simp
  from page_offset_in [OF this] obtain off where off: "page_offset pid = Inr off" "unat off = unat (page_no pid) * 4096" .
  have "\<exists>f'. write_all_at (pf_file pf) off (page_bytes p) = (Inr (), f')"
    using assms off by (intro write_all_at_benign) (simp_all add: writes_ok_def page_valid_def)
  with off assms page_valid_header [of p] show ?thesis
    by (auto simp: write_page_at_def vfs_write_all_at_def page_valid_def page_id_of_def)
qed

lemma write_page_eq:
  "page_valid p \<Longrightarrow> write_page pf p = write_page_at pf (page_id_of p) p"
  by (simp add: write_page_def page_valid_def page_valid_header page_id_of_def)

lemma write_page_invalid:
  assumes "length (page_bytes p) = 4096" "\<not> page_valid p"
  shows "\<exists>e. write_page pf p = (Inl e, pf)"
  using assms
  by (auto simp: write_page_def write_page_at_def page_valid_def split: sum.splits)
    (metis bindR_eq_Inr old.unit.exhaust)

text \<open>
  Pages occupy disjoint aligned ranges, so a write, complete or torn, cannot touch another
  page. The one exception is a page whose first bytes are the unaligned end of the file:
  growing the file completes it with zeros. \<open>tail_clean\<close> excludes it.
\<close>

definition tail_clean :: "byte_list \<Rightarrow> page_id \<Rightarrow> bool" where
  "tail_clean bs q \<longleftrightarrow> PAGE_SIZE dvd length bs \<or> unat (page_no q) \<noteq> length bs div PAGE_SIZE"

lemma tail_clean_out:
  assumes "tail_clean bs q" "\<not> unat (page_no q) * 4096 + 4096 \<le> length bs"
  shows "length bs \<le> unat (page_no q) * 4096"
proof (rule ccontr)
  assume "\<not> length bs \<le> unat (page_no q) * 4096"
  with assms(2) have "unat (page_no q) * 4096 < length bs" "length bs < unat (page_no q) * 4096 + 4096" by simp_all
  moreover from this have "length bs div 4096 = unat (page_no q)" by (intro div_nat_eqI) simp_all
  ultimately show False using assms(1) by (auto simp: tail_clean_def elim!: dvdE)
qed

lemma page_at_put_other:
  assumes "q \<noteq> pid" "length d \<le> 4096" "tail_clean bs q"
  shows "page_at (file_put bs (unat (page_no pid) * 4096) d) q = page_at bs q"
proof -
  let ?o = "unat (page_no pid) * 4096" let ?q = "unat (page_no q) * 4096" let ?n = "file_put bs ?o d"
  have ne: "unat (page_no q) \<noteq> unat (page_no pid)" using assms(1) by (simp add: word_unat_eq_iff [symmetric])
  have disj: "?q + 4096 \<le> ?o \<or> ?o + length d \<le> ?q"
    using ne assms(2) by (cases "unat (page_no q) < unat (page_no pid)") auto
  have le: "length bs \<le> length ?n" by (simp add: length_file_put)
  show ?thesis
  proof (cases "?q + 4096 \<le> length bs")
    case True
    then have "slice ?n ?q 4096 = slice bs ?q 4096"
      using disj le by (subst slice_eq_iff_nth) (auto simp: nth_file_put)
    with True le show ?thesis by (simp add: page_at_def)
  next
    case False
    note out = tail_clean_out [OF assms(3) False]
    have "slice ?n ?q 4096 = replicate 4096 0" if "?q + 4096 \<le> length ?n"
      using that disj out by (intro nth_equalityI) (auto simp: slice_nth nth_file_put)
    with False zero_page_invalid show ?thesis by (auto simp: page_at_def Let_def)
  qed
qed

lemma tail_clean_put_other:
  assumes "q \<noteq> pid" "length d \<le> 4096" "tail_clean bs q"
  shows "tail_clean (file_put bs (unat (page_no pid) * 4096) d) q"
proof (cases "length (file_put bs (unat (page_no pid) * 4096) d) = length bs")
  case True
  with assms(3) show ?thesis by (simp add: tail_clean_def)
next
  case False
  then have "length (file_put bs (unat (page_no pid) * 4096) d) = unat (page_no pid) * 4096 + length d"
    by (auto simp: length_file_put max_def split: if_splits)
  moreover have "4096 dvd unat (page_no pid) * 4096 + length d \<or> (unat (page_no pid) * 4096 + length d) div 4096 = unat (page_no pid)"
    using assms(2) by (cases "length d = 4096") auto
  moreover have "unat (page_no q) \<noteq> unat (page_no pid)" using assms(1) by (simp add: word_unat_eq_iff [symmetric])
  ultimately show ?thesis by (auto simp: tail_clean_def)
qed

lemma tail_clean_put_same:
  assumes "length d = 4096"
  shows "tail_clean (file_put bs (unat (page_no pid) * 4096) d) pid"
proof -
  let ?n = "length (file_put bs (unat (page_no pid) * 4096) d)"
  have "?n = max (length bs) (unat (page_no pid) * 4096 + 4096)" using assms by (auto simp: length_file_put)
  then have "?n = unat (page_no pid) * 4096 + 4096 \<or> unat (page_no pid) < ?n div 4096" by (auto simp: max_def)
  then show ?thesis by (auto simp: tail_clean_def)
qed

lemma page_at_put_same:
  assumes "page_valid p" "page_id_of p = pid"
  shows "page_at (file_put bs (unat (page_no pid) * 4096) (page_bytes p)) pid = Some p"
proof -
  let ?n = "file_put bs (unat (page_no pid) * 4096) (page_bytes p)"
  have l: "length (page_bytes p) = 4096" using assms by (simp add: page_valid_def)
  then have "unat (page_no pid) * 4096 + 4096 \<le> length ?n" by (auto simp: length_file_put)
  moreover from this l have "slice ?n (unat (page_no pid) * 4096) 4096 = page_bytes p"
    by (intro nth_equalityI) (auto simp: slice_nth nth_file_put)
  ultimately show ?thesis using assms by (cases p) (simp add: page_at_def page_valid_def)
qed

lemma aligned_file_put:
  assumes "4096 dvd length bs" "length d = 4096"
  shows "4096 dvd length (file_put bs (k * 4096) d)"
  using assms by (auto simp: length_file_put max_def)

section \<open>The file contract\<close>

text \<open>
  What a client of the trait \<open>VfsFile\<close> relies on: a read that succeeds delivers the
  bytes of the file, a write that succeeds puts its bytes there, a write that fails put a
  prefix of them there.
\<close>

locale random_access_file =
  fixes sane :: "'f \<Rightarrow> bool"
    and contents :: "'f \<Rightarrow> byte_list"
    and fread :: "'f \<Rightarrow> u64 \<Rightarrow> nat \<Rightarrow> byte_list db_result"
    and fwrite :: "'f \<Rightarrow> u64 \<Rightarrow> byte_list \<Rightarrow> ('f, db_error, unit) stres"
  assumes read_sound: "sane f \<Longrightarrow> fread f off n = Inr bs \<Longrightarrow>
      bs = slice (contents f) (unat off) n \<and> length bs = n"
    and write_sound: "sane f \<Longrightarrow> fwrite f off d = (Inr u, f') \<Longrightarrow>
      sane f' \<and> contents f' = file_put (contents f) (unat off) d"
    and write_torn: "sane f \<Longrightarrow> fwrite f off d = (Inl e, f') \<Longrightarrow>
      sane f' \<and> (\<exists>n < length d. contents f' = file_put (contents f) (unat off) (take n d))"
begin

lemma read_back:
  assumes "sane f" "fwrite f off d = (Inr u, f')" "fread f' off (length d) = Inr bs"
  shows "bs = d"
proof -
  from write_sound [OF assms(1,2)] have f': "sane f'" "contents f' = file_put (contents f) (unat off) d"
    by auto
  from read_sound [OF f'(1) assms(3)] f'(2) show ?thesis by (simp add: slice_file_put)
qed

lemma append_sound:
  assumes "sane f" "fwrite f off d = (r, f')" "unat off = length (contents f)"
  shows "sane f' \<and> (\<exists>n \<le> length d. contents f' = contents f @ take n d \<and> (r = Inr () \<longleftrightarrow> n = length d))"
proof (cases r)
  case (Inl e)
  with write_torn [of f off d e f'] assms obtain n where
    "n < length d" "contents f' = file_put (contents f) (unat off) (take n d)" "sane f'" by auto
  with Inl assms(3) show ?thesis by (intro conjI exI [of _ n]) (auto simp: file_put_def put_def)
next
  case (Inr u)
  with write_sound [of f off d u f'] assms show ?thesis
    by (intro conjI exI [of _ "length d"]) (auto simp: file_put_def put_def)
qed

end

lemma file_wf_put:
  "file_wf f \<Longrightarrow> fl_bytes f' = file_put (fl_bytes f) off (take n d) \<Longrightarrow>
    n = 0 \<or> off + n \<le> MAX_FILE_SIZE \<Longrightarrow> file_wf f'"
  by (auto simp: file_wf_def length_file_put)

interpretation std_file: random_access_file file_wf fl_bytes vfs_read_exact_at vfs_write_all_at
proof (unfold_locales, goal_cases)
  case (1 f off n bs)
  then show ?case by (auto simp: vfs_read_exact_at_def from_io_eq_Inr dest: read_exact_at_Inr)
next
  case (2 f off d u f')
  then have w: "write_all_at f off d = (Inr (), f')"
    by (auto simp: vfs_write_all_at_def from_io_eq_Inr split: prod.splits)
  from write_all_at_prefix [OF w] 2(1) show ?case
    using file_wf_put [of f f' "unat off" "length d" d] by auto
next
  case (3 f off d e f')
  then obtain r where w: "write_all_at f off d = (r, f')"
    by (auto simp: vfs_write_all_at_def split: prod.splits)
  moreover from 3(2) w have "r \<noteq> Inr ()" by (auto simp: vfs_write_all_at_def)
  ultimately show ?case
    using write_all_at_prefix [OF w] 3(1) by (auto simp: order.order_iff_strict intro: file_wf_put)
qed

section \<open>The page-store contract\<close>

text \<open>
  What recovery, the catalog and the transaction layer rely on when they write pages: a
  successful store updates the map of pages at one id, a failed one leaves every other id
  alone. The client lemmas are about loops that store a list of pages.
\<close>

locale page_store =
  fixes inv :: "'s \<Rightarrow> bool"
    and clean :: "'s \<Rightarrow> page_id \<Rightarrow> bool"
    and pages :: "'s \<Rightarrow> page_id \<Rightarrow> page option"
    and store :: "'s \<Rightarrow> page \<Rightarrow> ('s, db_error, unit) stres"
    and storable :: "page \<Rightarrow> bool"
  assumes store_inv: "inv s \<Longrightarrow> storable p \<Longrightarrow> inv (snd (store s p))"
    and store_same: "inv s \<Longrightarrow> storable p \<Longrightarrow> store s p = (Inr (), s') \<Longrightarrow>
      pages s' (page_id_of p) = Some p \<and> clean s' (page_id_of p)"
    and store_other: "inv s \<Longrightarrow> storable p \<Longrightarrow> q \<noteq> page_id_of p \<Longrightarrow> clean s q \<Longrightarrow>
      pages (snd (store s p)) q = pages s q \<and> clean (snd (store s p)) q"
begin

lemma store_all_inv:
  assumes "inv s" "\<forall>p \<in> set ps. storable p"
  shows "inv (snd (for_eachS (\<lambda>p s. store s p) ps s))"
  using assms(1) by (rule for_eachS_inv [where P = inv]) (use assms(2) store_inv in blast)

lemma store_all_other:
  assumes "inv s" "\<forall>p \<in> set ps. storable p" "q \<notin> page_id_of ` set ps" "clean s q"
  shows "pages (snd (for_eachS (\<lambda>p s. store s p) ps s)) q = pages s q \<and>
    clean (snd (for_eachS (\<lambda>p s. store s p) ps s)) q"
proof -
  have "inv t \<and> pages t q = pages s q \<and> clean t q"
    if "t = snd (for_eachS (\<lambda>p s. store s p) ps s)" for t
    unfolding that
  proof (rule for_eachS_inv [where P = "\<lambda>t. inv t \<and> pages t q = pages s q \<and> clean t q"])
    fix p t assume "p \<in> set ps" "inv t \<and> pages t q = pages s q \<and> clean t q"
    then show "inv (snd (store t p)) \<and> pages (snd (store t p)) q = pages s q \<and> clean (snd (store t p)) q"
      using assms(2,3) store_inv [of t p] store_other [of t p q] by auto
  qed (use assms in simp)
  then show ?thesis by blast
qed

lemma store_all_Inr:
  assumes "inv s" "\<forall>p \<in> set ps. storable p" "for_eachS (\<lambda>p s. store s p) ps s = (Inr (), s')"
    "q \<in> page_id_of ` set ps \<or> clean s q"
  shows "pages s' q = (pages s ++ map_of (rev (map (\<lambda>p. (page_id_of p, p)) ps))) q \<and> clean s' q"
  using assms
proof (induction ps arbitrary: s)
  case (Cons p ps)
  then obtain s1 where s1: "store s p = (Inr (), s1)" and rest: "for_eachS (\<lambda>p s. store s p) ps s1 = (Inr (), s')"
    by (auto simp: bindS_eq_Inr)
  have inv1: "inv s1" using store_inv [of s p] Cons.prems s1 by simp
  have q: "q \<in> page_id_of ` set ps \<or> clean s1 q \<and> pages s1 q = (if q = page_id_of p then Some p else pages s q)"
    using Cons.prems store_same [of s p s1] store_other [of s p q] s1 by auto
  with Cons.IH [OF inv1 _ rest] Cons.prems(2)
  have IH: "pages s' q = (pages s1 ++ map_of (rev (map (\<lambda>p. (page_id_of p, p)) ps))) q \<and> clean s' q" by auto
  show ?case
  proof (cases "map_of (rev (map (\<lambda>p. (page_id_of p, p)) ps)) q")
    case None
    then have "q \<notin> page_id_of ` set ps" by (auto simp: map_of_eq_None_iff image_image)
    with q IH None show ?thesis by (auto simp: map_add_def split: option.splits)
  qed (use IH in \<open>auto simp: map_add_def\<close>)
qed simp

end

locale reliable_page_store = page_store +
  fixes healthy :: "'s \<Rightarrow> bool"
    and fits :: "page \<Rightarrow> bool"
  assumes store_succeeds: "healthy s \<Longrightarrow> fits p \<Longrightarrow> \<exists>s'. store s p = (Inr (), s') \<and> healthy s'"
begin

lemma store_all_succeeds:
  assumes "healthy s" "\<forall>p \<in> set ps. fits p"
  shows "\<exists>s'. for_eachS (\<lambda>p s. store s p) ps s = (Inr (), s') \<and> healthy s'"
  using assms
proof (induction ps arbitrary: s)
  case (Cons p ps)
  from Cons.prems store_succeeds obtain s1 where "store s p = (Inr (), s1)" "healthy s1" by fastforce
  with Cons show ?case by auto
qed simp

end

definition page_fits :: "page \<Rightarrow> bool" where
  "page_fits p \<longleftrightarrow> page_valid p \<and> unat (page_no (page_id_of p)) * PAGE_SIZE + PAGE_SIZE \<le> MAX_FILE_SIZE"

lemma write_page_Inr:
  assumes "write_page pf p = (Inr u, pf')" "length (page_bytes p) = 4096"
  shows "page_valid p \<and> write_page_at pf (page_id_of p) p = (Inr u, pf')"
proof -
  from assms(1) obtain h where h: "header p = Inr h" "write_page_at pf (h_page_id h) p = (Inr u, pf')"
    by (auto simp: write_page_def split: sum.splits)
  with write_page_at_Inr [of pf "h_page_id h" p pf'] assms(2) show ?thesis by (cases u) simp
qed

lemma write_page_prefix:
  assumes "length (page_bytes p) = 4096" "write_page pf p = (r, pf')"
  shows "\<exists>n \<le> 4096. fl_bytes (pf_file pf') =
      file_put (fl_bytes (pf_file pf)) (unat (page_no (page_id_of p)) * 4096) (take n (page_bytes p)) \<and>
    (n = 0 \<or> unat (page_no (page_id_of p)) * 4096 + n \<le> MAX_FILE_SIZE) \<and> (r = Inr () \<longrightarrow> n = 4096 \<and> page_valid p)"
    and "file_frame (pf_file pf) (pf_file pf')"
proof -
  have "(\<exists>n \<le> 4096. fl_bytes (pf_file pf') =
      file_put (fl_bytes (pf_file pf)) (unat (page_no (page_id_of p)) * 4096) (take n (page_bytes p)) \<and>
    (n = 0 \<or> unat (page_no (page_id_of p)) * 4096 + n \<le> MAX_FILE_SIZE) \<and> (r = Inr () \<longrightarrow> n = 4096 \<and> page_valid p))
    \<and> file_frame (pf_file pf) (pf_file pf')"
  proof (cases "page_valid p")
    case False
    with write_page_invalid [OF assms(1), of pf] assms(2) show ?thesis by (auto intro!: exI [of _ 0])
  next
    case True
    with assms(2) have w: "write_page_at pf (page_id_of p) p = (r, pf')" by (simp add: write_page_eq)
    show ?thesis
    proof (cases r)
      case (Inl e)
      from write_page_at_Inl [OF w [unfolded Inl] assms(1)] Inl show ?thesis by auto
    next
      case (Inr u)
      then have "write_page_at pf (page_id_of p) p = (Inr (), pf')" using w by simp
      from write_page_at_Inr [OF this assms(1)] assms(1) show ?thesis by (auto intro!: exI [of _ 4096])
    qed
  qed
  then show "\<exists>n \<le> 4096. fl_bytes (pf_file pf') =
      file_put (fl_bytes (pf_file pf)) (unat (page_no (page_id_of p)) * 4096) (take n (page_bytes p)) \<and>
    (n = 0 \<or> unat (page_no (page_id_of p)) * 4096 + n \<le> MAX_FILE_SIZE) \<and> (r = Inr () \<longrightarrow> n = 4096 \<and> page_valid p)"
    and "file_frame (pf_file pf) (pf_file pf')" by auto
qed

definition pf_clean :: "page_file \<Rightarrow> page_id \<Rightarrow> bool" where
  "pf_clean pf = tail_clean (fl_bytes (pf_file pf))"

lemma pf_wf_clean [simp]: "pf_wf pf \<Longrightarrow> pf_clean pf q"
  by (simp add: pf_wf_def pf_clean_def tail_clean_def)

lemma pf_clean_wf:
  assumes "file_wf (pf_file pf)" "\<And>q. pf_clean pf q"
  shows "pf_wf pf"
proof -
  let ?n = "length (fl_bytes (pf_file pf)) div PAGE_SIZE"
  have "?n < 2 ^ 64" using assms(1) by (simp add: file_wf_def MAX_FILE_SIZE_def)
  then have "unat (page_no (PageId (of_nat ?n))) = ?n" by (simp add: unat_of_nat)
  with assms(2) [of "PageId (of_nat ?n)"] assms(1) show ?thesis by (auto simp: pf_wf_def pf_clean_def tail_clean_def)
qed

interpretation pf_store: reliable_page_store "\<lambda>pf. file_wf (pf_file pf)" pf_clean pf_pages write_page
  "\<lambda>p. length (page_bytes p) = 4096" "\<lambda>pf. writes_ok (pf_file pf)" page_fits
proof (unfold_locales, goal_cases)
  case (1 s p)
  obtain r s' where w: "write_page s p = (r, s')" by fastforce
  from write_page_prefix(1) [OF 1(2) w] 1(1) w show ?case by (auto intro: file_wf_put)
next
  case (2 s p s')
  from write_page_prefix(1) [OF 2(2,3)] 2(2) show ?case
    by (auto simp: pf_pages_def pf_clean_def page_at_put_same tail_clean_put_same)
next
  case (3 s p q)
  obtain r s' where w: "write_page s p = (r, s')" by fastforce
  from write_page_prefix(1) [OF 3(2) w] 3 w show ?case
    by (auto simp: pf_pages_def pf_clean_def page_at_put_other tail_clean_put_other)
next
  case (4 s p)
  then have v: "page_valid p" by (simp add: page_fits_def)
  with 4 write_page_at_benign [OF v refl, of s] obtain s' where s': "write_page_at s (page_id_of p) p = (Inr (), s')"
    by (auto simp: page_fits_def)
  moreover have "file_frame (pf_file s) (pf_file s')"
    using write_page_at_Inr(3) [OF s'] v by (simp add: page_valid_def)
  ultimately show ?case using v 4(1) by (auto simp: write_page_eq dest: file_frame_ok)
qed

lemma write_page_wf:
  assumes "write_page pf p = (Inr u, pf')" "length (page_bytes p) = 4096" "pf_wf pf"
  shows "pf_wf pf'" "pf_pages pf' = (pf_pages pf)(page_id_of p \<mapsto> p)" "file_frame (pf_file pf) (pf_file pf')"
proof -
  have w: "write_page pf p = (Inr (), pf')" using assms(1) by simp
  from write_page_prefix(1) [OF assms(2) w] assms(2,3) show "pf_wf pf'"
    using aligned_file_put [of "fl_bytes (pf_file pf)" "page_bytes p"]
      file_wf_put [of "pf_file pf" "pf_file pf'" _ 4096 "page_bytes p"]
    by (auto simp: pf_wf_def)
  have inv: "file_wf (pf_file pf)" using assms(3) by (simp add: pf_wf_def)
  show "pf_pages pf' = (pf_pages pf)(page_id_of p \<mapsto> p)"
    using pf_store.store_same [OF inv assms(2) w] pf_store.store_other [OF inv assms(2)] assms(3) w
    by (intro ext) (metis fun_upd_apply pf_wf_clean snd_conv)
  show "file_frame (pf_file pf) (pf_file pf')" by (rule write_page_prefix(2) [OF assms(2,1)])
qed

section \<open>Properties\<close>

text \<open>A file whose calls all transfer everything at once.\<close>

definition quiet_file :: "byte_list \<Rightarrow> vfs_file" where
  "quiet_file bs = \<lparr>fl_bytes = bs, fl_durable = bs, fl_reads = \<lambda>_ _. [], fl_writes = [], fl_syncs = [], fl_meta = None\<rparr>"

lemma quiet_file_ok [simp]:
  "reads_ok (quiet_file bs)" "writes_ok (quiet_file bs)" "fl_bytes (quiet_file bs) = bs"
  "fl_writes (quiet_file bs) = []" "fl_syncs (quiet_file bs) = []"
  "length bs \<le> MAX_FILE_SIZE \<Longrightarrow> file_wf (quiet_file bs)"
  by (simp_all add: quiet_file_def reads_ok_def writes_ok_def file_wf_def)

lemma pf_empty_wf [simp]: "pf_wf \<lparr>pf_file = quiet_file []\<rparr>"
  by (simp add: pf_wf_def file_wf_def)

lemma replicate_two: "replicate 2 x = [x, x]"
  by (simp add: numeral_eq_Suc)

lemma page_new_bytes_ne [simp]: "page_bytes (page_new pid t) \<noteq> []"
proof
  assume "page_bytes (page_new pid t) = []"
  then have "length (page_bytes (page_new pid t)) = 0" by (simp only: list.size)
  then show False using page_wf_length [OF page_new_wf [of pid t]] by linarith
qed

lemma page_new_fits: "unat (page_no pid) < 1000 \<Longrightarrow> page_fits (page_new pid t)"
  by (simp add: page_fits_def MAX_FILE_SIZE_def)

text \<open>C33: however the system splits or interrupts the transfers, \<open>write_all_at\<close> returns
  with the whole buffer in the file and everything else in place (zeros fill a gap), and
  \<open>read_exact_at\<close> returns exactly the requested bytes, or \<open>UnexpectedEof\<close> when
  the file is too short.\<close>

theorem io_loops_transfer_everything:
  assumes "file_wf f" and "reads_ok f" and "writes_ok f" and "unat off + length buf \<le> MAX_FILE_SIZE"
  shows "\<exists>f'. write_all_at f off buf = (Inr (), f') \<and> file_wf f' \<and>
      fl_bytes f' = file_put (fl_bytes f) (unat off) buf \<and> fl_durable f' = fl_durable f \<and>
      read_exact_at f' off (length buf) = Inr buf \<and>
      (\<forall>o2 n. read_exact_at f' o2 n =
        (if n = 0 \<or> unat o2 + n \<le> length (fl_bytes f') then Inr (slice (fl_bytes f') (unat o2) n)
         else Inl UnexpectedEof))"
proof -
  from write_all_at_benign [of f off buf] assms obtain f' where w: "write_all_at f off buf = (Inr (), f')"
    by (auto simp: writes_ok_def)
  from write_all_at_prefix [OF w] have f': "fl_bytes f' = file_put (fl_bytes f) (unat off) buf" "file_frame f f'"
    by auto
  have wf: "file_wf f'" using file_wf_put [of f f' "unat off" "length buf" buf] f' assms by simp
  note reads = read_exact_at_benign [OF file_frame_ok(1) [OF f'(2) assms(2)] wf]
  have "read_exact_at f' off (length buf) = Inr buf"
    by (simp add: reads f'(1) length_file_put slice_file_put)
  with w f' wf reads show ?thesis by (auto simp: file_frame_def)
qed

theorem io_loops_transfer_everything_witness:
  "\<exists>f'. write_all_at ((quiet_file [7])\<lparr>fl_writes := [Transfer 1, Fail Interrupted, Transfer 1]\<rparr>) 3 [1, 2, 3]
     = (Inr (), f') \<and> fl_bytes f' = [7, 0, 0, 1, 2, 3] \<and> read_exact_at f' 3 3 = Inr [1, 2, 3]"
  using io_loops_transfer_everything
    [of "(quiet_file [7])\<lparr>fl_writes := [Transfer 1, Fail Interrupted, Transfer 1]\<rparr>" 3 "[1, 2, 3]"]
  by (auto simp: file_wf_def reads_ok_def writes_ok_def quiet_file_def MAX_FILE_SIZE_def file_put_def put_def
      slice_def replicate_two)

text \<open>Storing a valid page and reading it back gives that page; every other page id reads
  exactly as before, although the file may have grown over a gap of zeros.\<close>

theorem write_page_then_read:
  assumes "pf_wf pf" and "reads_ok (pf_file pf)" and "writes_ok (pf_file pf)" and "page_fits p"
  shows "\<exists>pf'. write_page pf p = (Inr (), pf') \<and> pf_wf pf' \<and> reads_ok (pf_file pf') \<and> writes_ok (pf_file pf') \<and>
    (\<forall>q r. read_page pf' q = Inr r \<longleftrightarrow> (if q = page_id_of p then r = p else read_page pf q = Inr r))"
proof -
  from pf_store.store_succeeds [OF assms(3,4)] obtain pf' where
    w: "write_page pf p = (Inr (), pf')" "writes_ok (pf_file pf')" by blast
  have len: "length (page_bytes p) = 4096" using assms(4) by (simp add: page_fits_def page_valid_def)
  note f' = write_page_wf [OF w(1) len assms(1)]
  have ok: "reads_ok (pf_file pf')" by (rule file_frame_ok(1) [OF f'(3) assms(2)])
  have "read_page pf' q = Inr r \<longleftrightarrow> (if q = page_id_of p then r = p else read_page pf q = Inr r)" for q r
    using f'(1,2) ok assms(1,2) by (auto simp: read_page_iff pf_wf_def)
  with w f' ok show ?thesis by blast
qed

theorem write_page_then_read_witness:
  "\<exists>pf'. write_page \<lparr>pf_file = quiet_file []\<rparr> (page_new (PageId 2) Heap) = (Inr (), pf') \<and>
     read_page pf' (PageId 2) = Inr (page_new (PageId 2) Heap)"
  using write_page_then_read [of "\<lparr>pf_file = quiet_file []\<rparr>" "page_new (PageId 2) Heap"]
  by (auto simp: page_new_fits)

text \<open>C32: a page write that fails half way, at any byte, changes neither what any other page id
  reads nor the durable contents of the file.\<close>

theorem torn_page_write_is_contained:
  assumes "pf_wf pf" and "reads_ok (pf_file pf)" and "length (page_bytes p) = PAGE_SIZE"
    and "write_page pf p = (Inl e, pf')" and "q \<noteq> page_id_of p"
  shows "(read_page pf' q = Inr r \<longleftrightarrow> read_page pf q = Inr r) \<and>
    fl_durable (pf_file pf') = fl_durable (pf_file pf)"
proof -
  have len: "length (page_bytes p) = 4096" using assms(3) by simp
  note frame = write_page_prefix(2) [OF len assms(4)]
  have ok: "reads_ok (pf_file pf')" using frame assms(2) by (rule file_frame_ok)
  have wf: "file_wf (pf_file pf)" "file_wf (pf_file pf')"
    using assms(1,4) pf_store.store_inv [of pf p] len by (simp_all add: pf_wf_def)
  have "pf_pages pf' q = pf_pages pf q"
    using pf_store.store_other [OF wf(1) len assms(5)] assms(1,4) by simp
  with ok wf assms(2) frame show ?thesis by (simp add: read_page_iff file_frame_def)
qed

theorem torn_page_write_is_contained_witness:
  "\<exists>pf'. write_page \<lparr>pf_file = (quiet_file [])\<lparr>fl_writes := [Fail (OsError 28)]\<rparr>\<rparr> (page_new (PageId 2) Heap)
       = (Inl (Io (OsError 28)), pf') \<and>
     (read_page pf' (PageId 1) = Inr (page_new (PageId 1) Heap) \<longleftrightarrow>
      read_page \<lparr>pf_file = (quiet_file [])\<lparr>fl_writes := [Fail (OsError 28)]\<rparr>\<rparr> (PageId 1) = Inr (page_new (PageId 1) Heap))"
proof -
  let ?pf = "\<lparr>pf_file = (quiet_file [])\<lparr>fl_writes := [Fail (OsError 28)]\<rparr>\<rparr>" let ?p = "page_new (PageId 2) Heap"
  have v: "page_validate ?p = Inr ()" "header ?p = Inr (hdr_of (page_bytes ?p))" "h_page_id (hdr_of (page_bytes ?p)) = PageId 2"
    using page_wf_validate [of ?p] page_new_id [of "PageId 2" Heap]
    by (simp_all add: page_id_of_def)
  have off: "page_offset (PageId 2) = Inr 8192" by (simp add: page_offset_Inr)
  have "write_page ?pf ?p = (Inl (Io (OsError 28)), \<lparr>pf_file = quiet_file []\<rparr>)"
    using v off
    by (simp add: write_page_def write_page_at_def vfs_write_all_at_def write_all_at.simps write_at_def quiet_file_def)
  moreover from torn_page_write_is_contained [OF _ _ _ this, of "PageId 1" "page_new (PageId 1) Heap"]
  have "read_page \<lparr>pf_file = quiet_file []\<rparr> (PageId 1) = Inr (page_new (PageId 1) Heap) \<longleftrightarrow>
      read_page ?pf (PageId 1) = Inr (page_new (PageId 1) Heap)"
    by (simp add: pf_wf_def file_wf_def reads_ok_def quiet_file_def)
  ultimately show ?thesis by blast
qed

text \<open>If one byte of a stored page is changed on disk, reading the page reports corruption.\<close>

theorem disk_corruption_detected:
  assumes "file_wf (pf_file pf)" and "reads_ok (pf_file pf)" and "read_page pf pid = Inr p"
    and "i < PAGE_SIZE" and "j = unat (page_no pid) * PAGE_SIZE + i" and "b \<noteq> fl_bytes (pf_file pf) ! j"
  shows "\<exists>m. read_page (pf\<lparr>pf_file := (pf_file pf)\<lparr>fl_bytes := (fl_bytes (pf_file pf))[j := b]\<rparr>\<rparr>) pid
    = Inl (Corruption m)"
proof -
  let ?bs = "fl_bytes (pf_file pf)" let ?o = "unat (page_no pid) * 4096"
  let ?f = "(pf_file pf)\<lparr>fl_bytes := ?bs[j := b]\<rparr>"
  from read_page_pages [OF assms(1,3)] have p: "?o + 4096 \<le> length ?bs" "p = \<lparr>page_bytes = slice ?bs ?o 4096\<rparr>"
    "page_validate p = Inr ()" by (auto simp: pf_pages_def page_at_def Let_def split: if_splits)
  have "?o < 2 ^ 64" using p(1) assms(1) MAX_FILE_SIZE_less by (simp add: file_wf_def)
  from page_offset_in [OF this] obtain off where off: "page_offset pid = Inr off" "unat off = ?o" .
  have sl: "slice (?bs[j := b]) ?o 4096 = (slice ?bs ?o 4096)[i := b]"
    using p(1) assms(4,5) by (intro nth_equalityI) (auto simp: slice_nth nth_list_update)
  have "file_wf ?f" "reads_ok ?f" using assms(1,2) by (simp_all add: file_wf_def reads_ok_def)
  then have rd: "read_exact_at ?f off 4096 = Inr ((slice ?bs ?o 4096)[i := b])"
    using p(1) off sl by (simp add: read_exact_at_benign)
  have "checksum_ok (slice ?bs ?o 4096)" "length (slice ?bs ?o 4096) = 4096"
    using p by (simp_all add: page_validate_iff)
  then have "\<not> checksum_ok ((slice ?bs ?o 4096)[i := b])"
    using assms(4-6) p(1) by (intro checksum_ok_update) (simp_all add: slice_nth)
  then have "page_validate \<lparr>page_bytes = (slice ?bs ?o 4096)[i := b]\<rparr> \<noteq> Inr ()"
    using p(1) by (simp add: page_validate_iff)
  then obtain e where e: "page_validate \<lparr>page_bytes = (slice ?bs ?o 4096)[i := b]\<rparr> = Inl e"
    by (cases "page_validate \<lparr>page_bytes = (slice ?bs ?o 4096)[i := b]\<rparr>") auto
  with page_validate_Inl [OF e] off rd show ?thesis
    by (auto simp: read_page_def vfs_read_exact_at_def page_from_bytes_def)
qed

theorem disk_corruption_detected_witness:
  "\<exists>m. read_page \<lparr>pf_file = (quiet_file (page_bytes (page_new (PageId 0) Heap)))\<lparr>fl_bytes :=
       (page_bytes (page_new (PageId 0) Heap))[128 := page_bytes (page_new (PageId 0) Heap) ! 128 + 0xA5]\<rparr>\<rparr>
       (PageId 0) = Inl (Corruption m)"
proof -
  let ?p = "page_new (PageId 0) Heap" let ?pf = "\<lparr>pf_file = quiet_file (page_bytes ?p)\<rparr>"
  have "pf_pages ?pf (PageId 0) = Some ?p"
    using page_at_put_same [of ?p "PageId 0" "[]"] by (simp add: pf_pages_def file_put_def put_def)
  then have "read_page ?pf (PageId 0) = Inr ?p"
    by (intro read_page_benign) (simp_all add: file_wf_def MAX_FILE_SIZE_def)
  from disk_corruption_detected [OF _ _ this, of 128 128 "page_bytes ?p ! 128 + 0xA5"]
  show ?thesis by (simp add: file_wf_def MAX_FILE_SIZE_def quiet_file_def reads_ok_def)
qed

end
