(* ===== verification/Rdbms_Wal.thy ===== *)
theory Rdbms_Wal
  imports Rdbms_Vfs
begin

text \<open>
  The write-ahead log of \<open>crates/rdbms_wal\<close>: the binary record envelope (40-byte
  header, optional page image, additive checksum), the LSN allocator, the append-only
  writer, the sequential reader that validates every record and its position, and the
  redo pass over committed page images. The pass is a function of the receiver's
  operation \<open>redo_page_image\<close>, as in the source.
\<close>

section \<open>Records\<close>

definition WAL_MAGIC :: u32 where "WAL_MAGIC = 0x52444257"
definition WAL_VERSION :: u16 where "WAL_VERSION = 1"
definition WAL_HEADER_SIZE :: nat where [simp]: "WAL_HEADER_SIZE = 40"

definition WAL_OFF_MAGIC :: nat where [simp]: "WAL_OFF_MAGIC = 0"
definition WAL_OFF_VERSION :: nat where [simp]: "WAL_OFF_VERSION = 4"
definition WAL_OFF_KIND :: nat where [simp]: "WAL_OFF_KIND = 6"
definition WAL_OFF_LSN :: nat where [simp]: "WAL_OFF_LSN = 8"
definition WAL_OFF_TX_ID :: nat where [simp]: "WAL_OFF_TX_ID = 16"
definition WAL_OFF_PAGE_ID :: nat where [simp]: "WAL_OFF_PAGE_ID = 24"
definition WAL_OFF_PAYLOAD_LEN :: nat where [simp]: "WAL_OFF_PAYLOAD_LEN = 32"
definition WAL_OFF_CHECKSUM :: nat where [simp]: "WAL_OFF_CHECKSUM = 36"

definition KIND_BEGIN_TX :: u16 where [simp]: "KIND_BEGIN_TX = 1"
definition KIND_PAGE_IMAGE :: u16 where [simp]: "KIND_PAGE_IMAGE = 2"
definition KIND_COMMIT_TX :: u16 where [simp]: "KIND_COMMIT_TX = 3"
definition KIND_ABORT_TX :: u16 where [simp]: "KIND_ABORT_TX = 4"
definition KIND_CHECKPOINT :: u16 where [simp]: "KIND_CHECKPOINT = 5"
definition ABSENT_ID :: u64 where [simp]: "ABSENT_ID = 0xFFFFFFFFFFFFFFFF"

datatype wal_record_kind = BeginTx tx_id | PageImage tx_id page_id byte_list
  | CommitTx tx_id | AbortTx tx_id | Checkpoint

record wal_record =
  wr_lsn :: lsn
  wr_kind :: wal_record_kind

definition wal_page_image :: "tx_id \<Rightarrow> page \<Rightarrow> wal_record_kind db_result" where
  "wal_page_image tx p =
     bindR (page_validate p) (\<lambda>_.
     bindR (header p) (\<lambda>h.
       Inr (PageImage tx (h_page_id h) (page_bytes p))))"

fun kind_metadata :: "wal_record_kind \<Rightarrow> u16 \<times> u64 \<times> u64" where
  "kind_metadata (BeginTx tx) = (KIND_BEGIN_TX, tx_no tx, ABSENT_ID)"
| "kind_metadata (PageImage tx pid img) = (KIND_PAGE_IMAGE, tx_no tx, page_no pid)"
| "kind_metadata (CommitTx tx) = (KIND_COMMIT_TX, tx_no tx, ABSENT_ID)"
| "kind_metadata (AbortTx tx) = (KIND_ABORT_TX, tx_no tx, ABSENT_ID)"
| "kind_metadata Checkpoint = (KIND_CHECKPOINT, ABSENT_ID, ABSENT_ID)"

fun kind_payload :: "wal_record_kind \<Rightarrow> byte_list" where
  "kind_payload (PageImage tx pid img) = img"
| "kind_payload _ = []"

section \<open>The envelope\<close>

definition wal_checksum :: "byte_list \<Rightarrow> u32" where
  "wal_checksum bs =
     fold (\<lambda>(index, byte) acc.
       if WAL_OFF_CHECKSUM \<le> index \<and> index < WAL_OFF_CHECKSUM + 4 then acc else acc + ucast byte)
       (enumerate 0 bs) 0"

definition msg_wal_payload_len :: string where
  "msg_wal_payload_len = ''wal payload length overflow''"

definition msg_wal_record_len :: string where
  "msg_wal_record_len = ''wal record length overflow''"

definition encoded_len_for_kind :: "wal_record_kind \<Rightarrow> u64 db_result" where
  "encoded_len_for_kind k =
     (if length (kind_payload k) < 2 ^ 64
      then ok_or (checked_add (of_nat WAL_HEADER_SIZE) (of_nat (length (kind_payload k))))
             (User msg_wal_record_len)
      else Inl (User msg_wal_payload_len))"

definition encode_record :: "wal_record \<Rightarrow> byte_list db_result" where
  "encode_record r =
     (let payload = kind_payload (wr_kind r)
      in if 2 ^ 32 \<le> length payload then Inl (User msg_wal_payload_len)
         else let (kind, tx, pid) = kind_metadata (wr_kind r);
                  b0 = replicate (WAL_HEADER_SIZE + length payload) 0;
                  b1 = write_u32 b0 WAL_OFF_MAGIC WAL_MAGIC;
                  b2 = write_u16 b1 WAL_OFF_VERSION WAL_VERSION;
                  b3 = write_u16 b2 WAL_OFF_KIND kind;
                  b4 = write_u64 b3 WAL_OFF_LSN (lsn_no (wr_lsn r));
                  b5 = write_u64 b4 WAL_OFF_TX_ID tx;
                  b6 = write_u64 b5 WAL_OFF_PAGE_ID pid;
                  b7 = write_u32 b6 WAL_OFF_PAYLOAD_LEN (of_nat (length payload));
                  b8 = write_u32 b7 WAL_OFF_CHECKSUM 0;
                  b9 = put b8 WAL_HEADER_SIZE payload
         in Inr (write_u32 b9 WAL_OFF_CHECKSUM (wal_checksum b9)))"

definition msg_unexpected_payload :: "string \<Rightarrow> nat \<Rightarrow> string" where
  "msg_unexpected_payload record_name n =
     record_name @ '' wal record has unexpected payload length: '' @ fmt_nat n"

definition require_empty_payload :: "byte_list \<Rightarrow> string \<Rightarrow> unit db_result" where
  "require_empty_payload payload record_name =
     (if payload = [] then Inr ()
      else Inl (Corruption (msg_unexpected_payload record_name (length payload))))"

definition msg_wal_truncated_header :: string where
  "msg_wal_truncated_header = ''truncated wal record header''"

definition msg_wal_magic :: string where
  "msg_wal_magic = ''invalid wal magic''"

definition msg_wal_version :: "u16 \<Rightarrow> string" where
  "msg_wal_version v = ''unsupported wal version: '' @ fmt_nat (unat v)"

definition msg_wal_len_mismatch :: "nat \<Rightarrow> nat \<Rightarrow> string" where
  "msg_wal_len_mismatch expected got =
     ''wal record length mismatch: expected='' @ fmt_nat expected @ '', got='' @ fmt_nat got"

definition msg_wal_checksum :: "u32 \<Rightarrow> u32 \<Rightarrow> string" where
  "msg_wal_checksum stored actual =
     ''wal checksum mismatch: stored='' @ fmt_nat (unat stored) @ '', actual='' @ fmt_nat (unat actual)"

definition msg_wal_image_len :: "nat \<Rightarrow> string" where
  "msg_wal_image_len n = ''invalid page image payload length: '' @ fmt_nat n"

definition msg_wal_kind :: "u16 \<Rightarrow> string" where
  "msg_wal_kind other = ''unknown wal record kind: '' @ fmt_nat (unat other)"

definition decode_kind :: "u16 \<Rightarrow> tx_id \<Rightarrow> page_id \<Rightarrow> byte_list \<Rightarrow> wal_record_kind db_result" where
  "decode_kind kind tx pid payload =
     (if kind = KIND_BEGIN_TX
      then bindR (require_empty_payload payload ''BeginTx'') (\<lambda>_. Inr (BeginTx tx))
      else if kind = KIND_PAGE_IMAGE
      then (if length payload \<noteq> PAGE_SIZE then Inl (Corruption (msg_wal_image_len (length payload)))
            else Inr (PageImage tx pid payload))
      else if kind = KIND_COMMIT_TX
      then bindR (require_empty_payload payload ''CommitTx'') (\<lambda>_. Inr (CommitTx tx))
      else if kind = KIND_ABORT_TX
      then bindR (require_empty_payload payload ''AbortTx'') (\<lambda>_. Inr (AbortTx tx))
      else if kind = KIND_CHECKPOINT
      then bindR (require_empty_payload payload ''Checkpoint'') (\<lambda>_. Inr Checkpoint)
      else Inl (Corruption (msg_wal_kind kind)))"

definition decode_record :: "byte_list \<Rightarrow> wal_record db_result" where
  "decode_record bs =
     (if length bs < WAL_HEADER_SIZE then Inl (Corruption msg_wal_truncated_header)
      else if read_u32 bs WAL_OFF_MAGIC \<noteq> WAL_MAGIC then Inl (Corruption msg_wal_magic)
      else let version = read_u16 bs WAL_OFF_VERSION
      in if version \<noteq> WAL_VERSION then Inl (Corruption (msg_wal_version version))
      else let payload_len = unat (read_u32 bs WAL_OFF_PAYLOAD_LEN)
      in bindR (ok_or (checked_add_usize WAL_HEADER_SIZE payload_len) (Corruption msg_wal_record_len))
        (\<lambda>expected_len.
          if length bs \<noteq> expected_len
          then Inl (Corruption (msg_wal_len_mismatch expected_len (length bs)))
          else let stored_checksum = read_u32 bs WAL_OFF_CHECKSUM;
                   actual_checksum = wal_checksum bs
          in if stored_checksum \<noteq> actual_checksum
             then Inl (Corruption (msg_wal_checksum stored_checksum actual_checksum))
             else bindR (decode_kind (read_u16 bs WAL_OFF_KIND) (TxId (read_u64 bs WAL_OFF_TX_ID))
                          (PageId (read_u64 bs WAL_OFF_PAGE_ID)) (drop WAL_HEADER_SIZE bs))
               (\<lambda>kind. Inr \<lparr>wr_lsn = Lsn (read_u64 bs WAL_OFF_LSN), wr_kind = kind\<rparr>)))"

section \<open>Appending\<close>

record lsn_allocator =
  la_next :: lsn

definition msg_lsn_overflow :: string where
  "msg_lsn_overflow = ''wal lsn overflow''"

definition lsn_allocate :: "lsn_allocator \<Rightarrow> u64 \<Rightarrow> (lsn_allocator, db_error, lsn) stres" where
  "lsn_allocate a encoded_len =
     (case checked_add (lsn_no (la_next a)) encoded_len of
        None \<Rightarrow> (Inl (User msg_lsn_overflow), a)
      | Some n \<Rightarrow> (Inr (la_next a), a\<lparr>la_next := Lsn n\<rparr>))"

record wal_writer =
  ww_file :: vfs_file
  ww_allocator :: lsn_allocator

definition wal_writer_new :: "vfs_file \<Rightarrow> wal_writer db_result" where
  "wal_writer_new f =
     bindR (vfs_len f) (\<lambda>len. Inr \<lparr>ww_file = f, ww_allocator = \<lparr>la_next = Lsn len\<rparr>\<rparr>)"

definition wal_next_lsn :: "wal_writer \<Rightarrow> lsn" where
  "wal_next_lsn w = la_next (ww_allocator w)"

definition wal_append :: "wal_writer \<Rightarrow> wal_record_kind \<Rightarrow> (wal_writer, db_error, lsn) stres" where
  "wal_append w kind =
     (case encoded_len_for_kind kind of
        Inl e \<Rightarrow> (Inl e, w)
      | Inr encoded_len \<Rightarrow>
     (case lsn_allocate (ww_allocator w) encoded_len of
        (Inl e, a) \<Rightarrow> (Inl e, w\<lparr>ww_allocator := a\<rparr>)
      | (Inr l, a) \<Rightarrow>
     (let w1 = w\<lparr>ww_allocator := a\<rparr>
      in case encode_record \<lparr>wr_lsn = l, wr_kind = kind\<rparr> of
           Inl e \<Rightarrow> (Inl e, w1)
         | Inr bytes \<Rightarrow>
             (case vfs_write_all_at (ww_file w1) (lsn_no l) bytes of
                (Inl e, f') \<Rightarrow> (Inl e, w1\<lparr>ww_file := f'\<rparr>)
              | (Inr _, f') \<Rightarrow> (Inr l, w1\<lparr>ww_file := f'\<rparr>)))))"

definition wal_sync_data :: "wal_writer \<Rightarrow> (wal_writer, db_error, unit) stres" where
  "wal_sync_data w =
     (case vfs_sync_data (ww_file w) of (r, f') \<Rightarrow> (r, w\<lparr>ww_file := f'\<rparr>))"

section \<open>Reading\<close>

definition msg_wal_truncated :: "u64 \<Rightarrow> u64 \<Rightarrow> string" where
  "msg_wal_truncated offset remaining =
     ''truncated wal record at offset '' @ fmt_nat (unat offset) @
     '': remaining bytes='' @ fmt_nat (unat remaining)"

definition truncated_wal :: "u64 \<Rightarrow> u64 \<Rightarrow> db_error" where
  "truncated_wal offset remaining = Corruption (msg_wal_truncated offset remaining)"

definition msg_wal_lsn :: "u64 \<Rightarrow> lsn \<Rightarrow> string" where
  "msg_wal_lsn offset l =
     ''wal lsn mismatch: offset='' @ fmt_nat (unat offset) @ '', record_lsn='' @ fmt_nat (unat (lsn_no l))"

definition msg_wal_offset :: string where
  "msg_wal_offset = ''wal offset overflow''"

text \<open>
  One turn of the loop of \<open>read_all\<close>: the record at \<open>offset\<close> and its encoded
  length. The conversion to \<open>usize\<close> cannot fail on a 64-bit platform.
\<close>

definition read_record_at :: "vfs_file \<Rightarrow> u64 \<Rightarrow> u64 \<Rightarrow> (wal_record \<times> u64) db_result" where
  "read_record_at f len offset =
     (let remaining = len - offset
      in if remaining < of_nat WAL_HEADER_SIZE then Inl (truncated_wal offset remaining)
      else bindR (vfs_read_exact_at f offset WAL_HEADER_SIZE) (\<lambda>hd.
        let payload_len = ucast (read_u32 hd WAL_OFF_PAYLOAD_LEN)
        in bindR (ok_or (checked_add (of_nat WAL_HEADER_SIZE) payload_len) (Corruption msg_wal_record_len))
          (\<lambda>record_len.
            if remaining < record_len then Inl (truncated_wal offset remaining)
            else bindR (if 0 < payload_len
                        then vfs_read_exact_at f (offset + of_nat WAL_HEADER_SIZE)
                               (unat record_len - WAL_HEADER_SIZE)
                        else Inr [])
              (\<lambda>payload.
                bindR (decode_record (hd @ payload)) (\<lambda>r.
                  if wr_lsn r \<noteq> Lsn offset then Inl (Corruption (msg_wal_lsn offset (wr_lsn r)))
                  else Inr (r, record_len))))))"

lemma read_record_at_len:
  assumes "read_record_at f len offset = Inr (r, record_len)"
  shows "40 \<le> unat record_len" "record_len \<le> len - offset"
proof -
  from assms obtain p where p: "checked_add (40 :: u64) p = Some record_len" and "\<not> len - offset < record_len"
    by (auto simp: read_record_at_def Let_def res_simps split: if_splits)
  then show "40 \<le> unat record_len" "record_len \<le> len - offset"
    using checked_add_unat [OF p] by simp_all
qed

function read_records :: "vfs_file \<Rightarrow> u64 \<Rightarrow> u64 \<Rightarrow> wal_record list db_result" where
  "read_records f len offset =
     (if offset < len
      then bindR (read_record_at f len offset) (\<lambda>(r, record_len).
           bindR (ok_or (checked_add offset record_len) (Corruption msg_wal_offset)) (\<lambda>offset'.
           bindR (read_records f len offset') (\<lambda>rs. Inr (r # rs))))
      else Inr [])"
  by pat_completeness auto

termination
proof (relation "measure (\<lambda>(f, len, offset). unat len - unat offset)", goal_cases)
  case (2 f len offset rl r record_len offset')
  then have "checked_add offset record_len = Some offset'" by (simp add: res_simps)
  from checked_add_unat [OF this] read_record_at_len(1) [of f len offset r record_len] 2
  show ?case by (simp add: word_less_nat_alt)
qed simp

declare read_records.simps [simp del]

definition read_all :: "vfs_file \<Rightarrow> wal_record list db_result" where
  "read_all f = bindR (vfs_len f) (\<lambda>len. read_records f len 0)"

section \<open>Redo of committed page images\<close>

text \<open>The transactions with a commit marker and those with an abort marker.\<close>

definition tx_outcomes :: "wal_record list \<Rightarrow> tx_id set \<times> tx_id set" where
  "tx_outcomes records =
     fold (\<lambda>r (committed, aborted). case wr_kind r of
         CommitTx tx \<Rightarrow> (insert tx committed, aborted)
       | AbortTx tx \<Rightarrow> (committed, insert tx aborted)
       | _ \<Rightarrow> (committed, aborted)) records ({}, {})"

definition msg_wal_image_id :: "page_id \<Rightarrow> page_id \<Rightarrow> string" where
  "msg_wal_image_id recorded img =
     ''wal page image id mismatch: record='' @ fmt_nat (unat (page_no recorded)) @
     '', image='' @ fmt_nat (unat (page_no img))"

definition redo_record ::
  "('r \<Rightarrow> lsn \<Rightarrow> tx_id \<Rightarrow> page_id \<Rightarrow> byte_list \<Rightarrow> ('r, db_error, unit) stres) \<Rightarrow>
    tx_id set \<times> tx_id set \<Rightarrow> wal_record \<Rightarrow> 'r \<Rightarrow> ('r, db_error, unit) stres" where
  "redo_record redo_page_image outcomes r s =
     (case wr_kind r of
        PageImage tx pid img \<Rightarrow>
          if tx \<in> fst outcomes \<and> tx \<notin> snd outcomes
          then (case bindR (page_from_bytes img) header of
                  Inl e \<Rightarrow> (Inl e, s)
                | Inr h \<Rightarrow>
                    if h_page_id h \<noteq> pid then (Inl (Corruption (msg_wal_image_id pid (h_page_id h))), s)
                    else redo_page_image s (wr_lsn r) tx pid img)
          else (Inr (), s)
      | _ \<Rightarrow> (Inr (), s))"

definition redo_committed_page_images ::
  "('r \<Rightarrow> lsn \<Rightarrow> tx_id \<Rightarrow> page_id \<Rightarrow> byte_list \<Rightarrow> ('r, db_error, unit) stres) \<Rightarrow>
    wal_record list \<Rightarrow> 'r \<Rightarrow> ('r, db_error, unit) stres" where
  "redo_committed_page_images redo_page_image records s =
     for_eachS (redo_record redo_page_image (tx_outcomes records)) records s"

section \<open>The checksum of a record\<close>

lemma wal_checksum_split:
  assumes "40 \<le> length bs"
  shows "wal_checksum bs = checksum (take 36 bs @ drop 40 bs)"
proof -
  let ?F = "\<lambda>(index :: nat, byte :: u8) (acc :: u32). if 36 \<le> index \<and> index < 40 then acc else acc + ucast byte"
  have skip: "fold ?F (enumerate n ys) acc = acc" if "36 \<le> n" "n + length ys \<le> 40" for n ys acc
    using that by (induction ys arbitrary: n acc) auto
  have keep: "fold ?F (enumerate n ys) acc = fold (\<lambda>byte acc. acc + ucast byte) ys acc"
    if "n + length ys \<le> 36 \<or> 40 \<le> n" for n ys acc
    using that by (induction ys arbitrary: n acc) auto
  have "drop 36 bs = slice bs 36 4 @ drop 40 bs"
    using append_take_drop_id [of 4 "drop 36 bs"] by (simp add: slice_def)
  then have bs: "bs = take 36 bs @ slice bs 36 4 @ drop 40 bs"
    using append_take_drop_id [of 36 bs] by simp
  have "enumerate 0 (take 36 bs @ slice bs 36 4 @ drop 40 bs) =
      enumerate 0 (take 36 bs) @ enumerate 36 (slice bs 36 4) @ enumerate 40 (drop 40 bs)"
    using assms by (simp add: enumerate_append_eq)
  with bs have "enumerate 0 bs = enumerate 0 (take 36 bs) @ enumerate 36 (slice bs 36 4) @ enumerate 40 (drop 40 bs)"
    by simp
  then show ?thesis
    using assms by (simp add: wal_checksum_def checksum_def keep skip)
qed

lemma wal_checksum_put:
  assumes "40 \<le> length bs" "length d = 4"
  shows "wal_checksum (put bs 36 d) = wal_checksum bs"
proof -
  have "take 36 (put bs 36 d) = take 36 bs" "drop 40 (put bs 36 d) = drop 40 bs"
    using assms by (simp_all add: put_def)
  with assms show ?thesis by (simp add: wal_checksum_split)
qed

lemma wal_checksum_update:
  assumes "40 \<le> length bs" "length bs < 16777216" "i < length bs" "i < 36 \<or> 40 \<le> i" "b \<noteq> bs ! i"
  shows "wal_checksum (bs[i := b]) \<noteq> wal_checksum bs"
proof -
  let ?j = "if i < 36 then i else i - 4" let ?cs = "take 36 bs @ drop 40 bs"
  have "take 36 (bs[i := b]) @ drop 40 (bs[i := b]) = ?cs[?j := b]" "?cs ! ?j = bs ! i" "?j < length ?cs"
    using assms by (auto simp: take_update_swap drop_update_swap list_update_append nth_append list_update_beyond)
  then show ?thesis
    using checksum_update [of ?cs ?j b] assms by (simp add: wal_checksum_split)
qed

section \<open>Encoding and decoding\<close>

definition kind_wf :: "wal_record_kind \<Rightarrow> bool" where
  "kind_wf k \<longleftrightarrow> (case k of PageImage tx pid img \<Rightarrow> length img = PAGE_SIZE | _ \<Rightarrow> True)"

definition record_bytes :: "wal_record \<Rightarrow> byte_list" where
  "record_bytes r = projr (encode_record r)"

lemma kind_payload_length: "kind_wf k \<Longrightarrow> length (kind_payload k) \<le> 4096"
  by (cases k) (simp_all add: kind_wf_def)

lemma drop_put_below: "off + length d \<le> n \<Longrightarrow> off \<le> length bs \<Longrightarrow> drop n (put bs off d) = drop n bs"
  by (simp add: put_def)

text \<open>What the fields of an encoded record read back as.\<close>

lemma encode_record_fields:
  assumes "kind_wf (wr_kind r)" and m: "kind_metadata (wr_kind r) = (kind, tx, pid)"
  obtains bs where "encode_record r = Inr bs" "length bs = 40 + length (kind_payload (wr_kind r))"
    "read_u32 bs 0 = WAL_MAGIC" "read_u16 bs 4 = WAL_VERSION" "read_u16 bs 6 = kind"
    "read_u64 bs 8 = lsn_no (wr_lsn r)" "read_u64 bs 16 = tx" "read_u64 bs 24 = pid"
    "read_u32 bs 32 = of_nat (length (kind_payload (wr_kind r)))" "read_u32 bs 36 = wal_checksum bs"
    "drop 40 bs = kind_payload (wr_kind r)"
proof -
  define payload where "payload = kind_payload (wr_kind r)"
  define B where "B = put (put (put (put (put (put (put (put (put (replicate (40 + length payload) 0)
    0 (to_le_bytes 4 WAL_MAGIC)) 4 (to_le_bytes 2 WAL_VERSION)) 6 (to_le_bytes 2 kind))
    8 (to_le_bytes 8 (lsn_no (wr_lsn r)))) 16 (to_le_bytes 8 tx)) 24 (to_le_bytes 8 pid))
    32 (to_le_bytes 4 (of_nat (length payload) :: u32))) 36 (to_le_bytes 4 (0 :: u32))) 40 payload"
  have len: "length B = 40 + length payload" by (simp add: B_def)
  have pl: "length payload < 4294967296"
    using kind_payload_length [OF assms(1)] by (simp add: payload_def)
  let ?bs = "put B 36 (to_le_bytes 4 (wal_checksum B))"
  have "encode_record r = Inr ?bs"
    using m pl by (simp add: encode_record_def B_def payload_def write_defs Let_def)
  moreover have "read_u32 ?bs 0 = WAL_MAGIC" "read_u16 ?bs 4 = WAL_VERSION" "read_u16 ?bs 6 = kind"
    "read_u64 ?bs 8 = lsn_no (wr_lsn r)" "read_u64 ?bs 16 = tx" "read_u64 ?bs 24 = pid"
    "read_u32 ?bs 32 = of_nat (length payload)"
    by (simp_all add: len buf_simps) (simp_all add: B_def buf_simps)
  moreover have "read_u32 ?bs 36 = wal_checksum ?bs"
    using len by (simp add: read_u32_put wal_checksum_put)
  moreover have "drop 40 ?bs = payload"
  proof -
    have "drop 40 ?bs = drop 40 B" using len by (simp add: drop_put_below)
    also have "\<dots> = payload" by (subst B_def, subst put_def) simp
    finally show ?thesis .
  qed
  ultimately show ?thesis using that [of ?bs] len by (simp add: payload_def)
qed

lemma decode_kind_metadata:
  assumes "kind_wf k" "kind_metadata k = (kind, tx, pid)"
  shows "decode_kind kind (TxId tx) (PageId pid) (kind_payload k) = Inr k"
  using assms by (cases k) (auto simp: decode_kind_def require_empty_payload_def kind_wf_def)

lemma encode_record_Inr:
  assumes "kind_wf (wr_kind r)"
  shows "encode_record r = Inr (record_bytes r)"
    "length (record_bytes r) = 40 + length (kind_payload (wr_kind r))"
    "read_u32 (record_bytes r) 32 = of_nat (length (kind_payload (wr_kind r)))"
    "decode_record (record_bytes r) = Inr r"
proof -
  obtain kind tx pid where m: "kind_metadata (wr_kind r) = (kind, tx, pid)" by (metis prod_cases3)
  from encode_record_fields [OF assms m] obtain bs where bs: "encode_record r = Inr bs"
    "length bs = 40 + length (kind_payload (wr_kind r))"
    "read_u32 bs 0 = WAL_MAGIC" "read_u16 bs 4 = WAL_VERSION" "read_u16 bs 6 = kind"
    "read_u64 bs 8 = lsn_no (wr_lsn r)" "read_u64 bs 16 = tx" "read_u64 bs 24 = pid"
    "read_u32 bs 32 = of_nat (length (kind_payload (wr_kind r)))" "read_u32 bs 36 = wal_checksum bs"
    "drop 40 bs = kind_payload (wr_kind r)" .
  have rb: "record_bytes r = bs" using bs(1) by (simp add: record_bytes_def)
  show "encode_record r = Inr (record_bytes r)"
    "length (record_bytes r) = 40 + length (kind_payload (wr_kind r))"
    "read_u32 (record_bytes r) 32 = of_nat (length (kind_payload (wr_kind r)))"
    using bs rb by simp_all
  have pl: "length (kind_payload (wr_kind r)) < 4294967296"
    using kind_payload_length [OF assms] by simp
  have "decode_record bs = Inr \<lparr>wr_lsn = Lsn (lsn_no (wr_lsn r)), wr_kind = wr_kind r\<rparr>"
    using bs pl decode_kind_metadata [OF assms m] by (simp add: decode_record_def Let_def checked_add_usize_def)
  then show "decode_record (record_bytes r) = Inr r" by (simp add: rb)
qed

lemma decode_record_Inl: "decode_record bs = Inl e \<Longrightarrow> \<exists>m. e = Corruption m"
  by (auto simp: decode_record_def decode_kind_def require_empty_payload_def Let_def res_simps split: if_splits)

lemma decode_record_checksum:
  assumes "decode_record bs = Inr r"
  shows "40 \<le> length bs" "read_u32 bs 36 = wal_checksum bs" "length bs = 40 + unat (read_u32 bs 32)"
    "kind_wf (wr_kind r)"
  using assms
  by (auto simp: decode_record_def decode_kind_def require_empty_payload_def kind_wf_def Let_def res_simps
      split: if_splits)

section \<open>Reading a log back\<close>

lemma unat_ucast_u64 [simp]: "unat (ucast (x :: u32) :: u64) = unat x"
  using unat_u32_less [of x] by (simp add: unsigned_ucast_eq take_bit_nat_eq_self)

text \<open>One turn of the reader on a file that answers: what it does is determined by the bytes.\<close>

lemma read_record_at_benign:
  assumes "reads_ok f" "file_wf f" "unat off + R = length (fl_bytes f)" "len = of_nat (length (fl_bytes f))"
  shows "read_record_at f len off =
    (let rl = 40 + unat (read_u32 (slice (fl_bytes f) (unat off) 40) 32)
     in if R < 40 \<or> R < rl then Inl (truncated_wal off (of_nat R))
        else bindR (decode_record (slice (fl_bytes f) (unat off) rl)) (\<lambda>r.
          if wr_lsn r \<noteq> Lsn off then Inl (Corruption (msg_wal_lsn off (wr_lsn r)))
          else Inr (r, of_nat rl)))"
proof -
  let ?bs = "fl_bytes f"
  have small: "length ?bs < 18446744073709551616"
    using assms(2) MAX_FILE_SIZE_less by (simp add: file_wf_def)
  have ulen: "unat len = unat off + R" using assms(3,4) small by simp
  then have rem: "len - off = of_nat R" "unat (of_nat R :: u64) = R"
  proof -
    show "unat (of_nat R :: u64) = R" using assms(3) small by simp
    moreover have "unat (len - off) = R" using ulen by (simp add: unat_sub word_le_nat_alt)
    ultimately show "len - off = of_nat R" by (simp add: word_unat_eq_iff)
  qed
  show ?thesis
  proof (cases "R < 40")
    case True
    then show ?thesis using rem by (simp add: read_record_at_def word_less_nat_alt)
  next
    case False
    define h where "h = slice ?bs (unat off) 40"
    have hd: "vfs_read_exact_at f off 40 = Inr h"
      using assms False by (simp add: vfs_read_exact_at_def read_exact_at_benign h_def)
    define pl :: u64 where "pl = ucast (read_u32 h 32)"
    have upl: "unat pl = unat (read_u32 h 32)" by (simp add: pl_def)
    have pl32: "unat pl < 4294967296" by (simp add: upl unat_u32_less)
    then have u40: "unat (40 + pl) = 40 + unat pl" by (simp add: unat_word_ariths)
    have add: "checked_add 40 pl = Some (40 + pl)" using pl32 by (simp add: checked_add_def)
    have rl: "of_nat (40 + unat pl) = 40 + pl" by simp
    have pay: "(if 0 < pl then vfs_read_exact_at f (off + 40) (unat (40 + pl) - 40) else Inr []) =
        Inr (slice ?bs (unat off + 40) (unat pl))" if "40 + unat pl \<le> R"
    proof (cases "0 < pl")
      case True
      have "unat (off + 40) = unat off + 40" using that assms(3) small by (simp add: unat_word_ariths)
      with True that assms u40 show ?thesis by (simp add: vfs_read_exact_at_def read_exact_at_benign)
    qed (simp add: slice_def word_gt_0)
    have "read_record_at f len off =
      (if R < 40 + unat pl then Inl (truncated_wal off (of_nat R))
       else bindR (decode_record (h @ slice ?bs (unat off + 40) (unat pl))) (\<lambda>r.
          if wr_lsn r \<noteq> Lsn off then Inl (Corruption (msg_wal_lsn off (wr_lsn r)))
          else Inr (r, 40 + pl)))"
      using False hd add pay rem u40
      by (auto simp: read_record_at_def Let_def word_less_nat_alt pl_def [symmetric])
    moreover have "h @ slice ?bs (unat off + 40) (unat pl) = slice ?bs (unat off) (40 + unat pl)"
      by (simp add: h_def slice_add)
    ultimately show ?thesis using False
      unfolding h_def [symmetric] Let_def upl [symmetric] rl by simp
  qed
qed

lemma vfs_len_benign: "reads_ok f \<Longrightarrow> vfs_len f = Inr (of_nat (length (fl_bytes f)))"
  by (simp add: vfs_len_def reads_ok_def)

lemma read_record_at_extend:
  assumes ok: "reads_ok f" "file_wf f" "reads_ok f'" "file_wf f'"
    and ext: "fl_bytes f' = fl_bytes f @ t" and le: "unat off \<le> length (fl_bytes f)"
    and r: "read_record_at f (of_nat (length (fl_bytes f))) off = Inr (r, rl)"
  shows "read_record_at f' (of_nat (length (fl_bytes f'))) off = Inr (r, rl)"
    "unat off + unat rl \<le> length (fl_bytes f)" "checked_add off rl = Some (off + rl)"
proof -
  let ?n = "40 + unat (read_u32 (slice (fl_bytes f) (unat off) 40) 32)"
  obtain R where R: "unat off + R = length (fl_bytes f)" using le le_Suc_ex by metis
  have R': "unat off + (R + length t) = length (fl_bytes f')" using R ext by simp
  from r have b: "40 \<le> R" "?n \<le> R" "decode_record (slice (fl_bytes f) (unat off) ?n) = Inr r"
    "wr_lsn r = Lsn off" "rl = of_nat ?n"
    unfolding read_record_at_benign [OF ok(1,2) R refl]
    by (auto simp: Let_def res_simps split: if_splits)
  have sl: "slice (fl_bytes f') (unat off) 40 = slice (fl_bytes f) (unat off) 40"
    "slice (fl_bytes f') (unat off) ?n = slice (fl_bytes f) (unat off) ?n"
    using b R by (simp_all add: ext slice_append_left)
  show "read_record_at f' (of_nat (length (fl_bytes f'))) off = Inr (r, rl)"
    unfolding read_record_at_benign [OF ok(3,4) R' refl] using b sl by (simp add: Let_def)
  have small: "length (fl_bytes f) < 18446744073709551616"
    using ok(2) MAX_FILE_SIZE_less by (simp add: file_wf_def)
  have "unat (of_nat ?n :: u64) = ?n" using b(2) R small by (intro unat_of_nat_widths(3)) linarith
  then have u: "unat rl = ?n" unfolding b(5) .
  then show "unat off + unat rl \<le> length (fl_bytes f)" using b(2) R by linarith
  with small show "checked_add off rl = Some (off + rl)" by (simp add: checked_add_def)
qed

text \<open>The reader of a longer log first returns what it returned before, then continues.\<close>

lemma read_records_extend:
  assumes ok: "reads_ok f" "file_wf f" "reads_ok f'" "file_wf f'" and ext: "fl_bytes f' = fl_bytes f @ t"
    and "read_records f (of_nat (length (fl_bytes f))) off = Inr rs" "unat off \<le> length (fl_bytes f)"
  shows "read_records f' (of_nat (length (fl_bytes f'))) off =
    bindR (read_records f' (of_nat (length (fl_bytes f'))) (of_nat (length (fl_bytes f)))) (\<lambda>ts. Inr (rs @ ts))"
  using assms
proof (induction f "of_nat (length (fl_bytes f)) :: u64" off arbitrary: rs rule: read_records.induct)
  case (1 f off)
  let ?L = "of_nat (length (fl_bytes f)) :: u64" let ?L' = "of_nat (length (fl_bytes f')) :: u64"
  have len: "unat ?L = length (fl_bytes f)" "unat ?L' = length (fl_bytes f')"
    using "1.prems"(2,4) MAX_FILE_SIZE_less by (simp_all add: file_wf_def)
  show ?case
  proof (cases "off < ?L")
    case False
    with "1.prems"(7) len have "off = ?L" by (simp add: word_less_nat_alt word_unat_eq_iff)
    moreover from False "1.prems"(6) have "rs = []" by (simp add: read_records.simps [of f])
    ultimately show ?thesis by simp
  next
    case True
    from True "1.prems"(6) obtain r rl off' rs' where r: "read_record_at f ?L off = Inr (r, rl)"
      and off': "checked_add off rl = Some off'" and rest: "read_records f ?L off' = Inr rs'" and rs: "rs = r # rs'"
      by (auto simp: read_records.simps [of f] res_simps)
    note e = read_record_at_extend [OF "1.prems"(1-5) "1.prems"(7) r]
    have le: "unat off' \<le> length (fl_bytes f)" using checked_add_unat [OF off'] e(2) by simp
    have lt: "off < ?L'" using True len "1.prems"(5) by (simp add: word_less_nat_alt)
    have "ok_or (checked_add off rl) (Corruption msg_wal_offset) = Inr off'" using off' by simp
    from "1.hyps" [OF True r refl this "1.prems"(1-5) rest le] e(1) off' lt rs show ?thesis
      by (cases "read_records f' ?L' ?L") (simp_all add: read_records.simps [of f' _ off])
  qed
qed

end
