(* ===== verification/Rdbms_Wal_Spec.thy ===== *)
theory Rdbms_Wal_Spec
  imports Rdbms_Wal
begin

text \<open>
  What the log promises: the reader returns exactly the appended records, in order and at
  their positions; a torn append is reported as corruption; the redo pass hands the images
  of committed transactions to its receiver, in log order. \<open>wal_wf\<close> is the writer's
  invariant that the next LSN is the end of the file.
\<close>

lemma page_eta [simp]: "\<lparr>page_bytes = page_bytes p\<rparr> = (p :: page)"
  by (cases p) simp

section \<open>The writer\<close>

definition wal_wf :: "wal_writer \<Rightarrow> bool" where
  "wal_wf w \<longleftrightarrow> file_wf (ww_file w) \<and>
     unat (lsn_no (la_next (ww_allocator w))) = length (fl_bytes (ww_file w))"

lemma encoded_len_wf:
  assumes "kind_wf k"
  shows "encoded_len_for_kind k = Inr (of_nat (40 + length (kind_payload k)))"
proof -
  have "length (kind_payload k) \<le> 4096" by (rule kind_payload_length [OF assms])
  then show ?thesis by (simp add: encoded_len_for_kind_def checked_add_def)
qed

lemma wal_append_cases:
  assumes "wal_wf w" "kind_wf k" "wal_append w k = (r, w')"
  defines "rec \<equiv> \<lparr>wr_lsn = wal_next_lsn w, wr_kind = k\<rparr>"
  shows "w' = w \<and> (\<exists>e. r = Inl e) \<or>
    (\<exists>n \<le> length (record_bytes rec). fl_bytes (ww_file w') = fl_bytes (ww_file w) @ take n (record_bytes rec) \<and>
       file_wf (ww_file w') \<and> file_frame (ww_file w) (ww_file w') \<and>
       unat (lsn_no (wal_next_lsn w')) = length (fl_bytes (ww_file w)) + length (record_bytes rec) \<and>
       (if n = length (record_bytes rec) then r = Inr (wal_next_lsn w) else \<exists>e. r = Inl e))"
proof -
  let ?l = "la_next (ww_allocator w)" let ?n = "40 + length (kind_payload k)"
  have n: "length (record_bytes rec) = ?n" "encode_record rec = Inr (record_bytes rec)"
    using encode_record_Inr [of rec] assms(2) by (simp_all add: rec_def)
  have small: "?n < 18446744073709551616" using kind_payload_length [OF assms(2)] by simp
  show ?thesis
  proof (cases "checked_add (lsn_no ?l) (of_nat ?n)")
    case None
    then have "wal_append w k = (Inl (User msg_lsn_overflow), w)"
      using encoded_len_wf [OF assms(2)] by (simp add: wal_append_def lsn_allocate_def)
    then show ?thesis using assms(3) by auto
  next
    case (Some nx)
    obtain q f' where wr: "vfs_write_all_at (ww_file w) (lsn_no ?l) (record_bytes rec) = (q, f')" by fastforce
    have "wal_append w k = (case q of Inl e \<Rightarrow> Inl e | Inr _ \<Rightarrow> Inr ?l,
        w\<lparr>ww_allocator := (ww_allocator w)\<lparr>la_next := Lsn nx\<rparr>, ww_file := f'\<rparr>)"
      using n(2) wr unfolding rec_def wal_next_lsn_def
      by (cases q) (simp_all add: wal_append_def encoded_len_wf [OF assms(2)] lsn_allocate_def Some del: of_nat_add)
    then have w': "r = (case q of Inl e \<Rightarrow> Inl e | Inr _ \<Rightarrow> Inr ?l)" "ww_file w' = f'"
      "la_next (ww_allocator w') = Lsn nx"
      using assms(3) by simp_all
    have un: "unat nx = unat (lsn_no ?l) + ?n"
      using checked_add_chunk [OF Some] small by simp
    have app: "file_wf f' \<and> (\<exists>m \<le> length (record_bytes rec). fl_bytes f' = fl_bytes (ww_file w) @ take m (record_bytes rec) \<and>
        (q = Inr () \<longleftrightarrow> m = length (record_bytes rec)))"
      using std_file.append_sound [OF _ wr] assms(1) by (simp add: wal_wf_def)
    have frame: "file_frame (ww_file w) f'"
      using wr by (auto simp: vfs_write_all_at_def dest!: write_all_at_prefix split: prod.splits)
    from app obtain m where m: "m \<le> length (record_bytes rec)" "file_wf f'"
      "fl_bytes f' = fl_bytes (ww_file w) @ take m (record_bytes rec)" "q = Inr () \<longleftrightarrow> m = length (record_bytes rec)"
      by blast
    have "if m = length (record_bytes rec) then r = Inr (wal_next_lsn w) else \<exists>e. r = Inl e"
      using m(4) w'(1) by (cases q) (auto simp: wal_next_lsn_def)
    then show ?thesis
      using m w' frame un n(1) assms(1) by (intro disjI2 exI [of _ m]) (simp add: wal_wf_def wal_next_lsn_def)
  qed
qed

lemma wal_append_Inr:
  assumes "wal_wf w" "kind_wf k" "wal_append w k = (Inr l, w')"
  shows "l = wal_next_lsn w" "wal_wf w'" "file_frame (ww_file w) (ww_file w')"
    "fl_bytes (ww_file w') = fl_bytes (ww_file w) @ record_bytes \<lparr>wr_lsn = wal_next_lsn w, wr_kind = k\<rparr>"
  using wal_append_cases [OF assms] by (auto simp: wal_wf_def wal_next_lsn_def split: if_splits)

lemma wal_append_Inl:
  assumes "wal_wf w" "kind_wf k" "wal_append w k = (Inl e, w')"
  shows "\<exists>n < length (record_bytes \<lparr>wr_lsn = wal_next_lsn w, wr_kind = k\<rparr>).
      fl_bytes (ww_file w') = fl_bytes (ww_file w) @ take n (record_bytes \<lparr>wr_lsn = wal_next_lsn w, wr_kind = k\<rparr>)"
    "file_frame (ww_file w) (ww_file w')" "file_wf (ww_file w')"
proof -
  have len: "0 < length (record_bytes \<lparr>wr_lsn = wal_next_lsn w, wr_kind = k\<rparr>)"
    using encode_record_Inr(2) [of "\<lparr>wr_lsn = wal_next_lsn w, wr_kind = k\<rparr>"] assms(2) by simp
  show "\<exists>n < length (record_bytes \<lparr>wr_lsn = wal_next_lsn w, wr_kind = k\<rparr>).
      fl_bytes (ww_file w') = fl_bytes (ww_file w) @ take n (record_bytes \<lparr>wr_lsn = wal_next_lsn w, wr_kind = k\<rparr>)"
    "file_frame (ww_file w) (ww_file w')" "file_wf (ww_file w')"
    using wal_append_cases [OF assms] len assms(1)
    by (auto simp: wal_wf_def order.order_iff_strict split: if_splits intro: exI [of _ 0])
qed

lemma wal_append_benign:
  assumes "wal_wf w" "kind_wf k" "writes_ok (ww_file w)" "length (fl_bytes (ww_file w)) + 4136 \<le> MAX_FILE_SIZE"
  shows "\<exists>w'. wal_append w k = (Inr (wal_next_lsn w), w') \<and> writes_ok (ww_file w')"
proof -
  let ?rec = "\<lparr>wr_lsn = wal_next_lsn w, wr_kind = k\<rparr>" let ?l = "la_next (ww_allocator w)"
  have n: "length (record_bytes ?rec) = 40 + length (kind_payload k)" "encode_record ?rec = Inr (record_bytes ?rec)"
    using encode_record_Inr [of ?rec] assms(2) by simp_all
  have pl: "length (kind_payload k) \<le> 4096" by (rule kind_payload_length [OF assms(2)])
  have "checked_add (lsn_no ?l) (of_nat (40 + length (kind_payload k))) \<noteq> None"
  proof -
    have "unat (of_nat (40 + length (kind_payload k)) :: u64) = 40 + length (kind_payload k)"
      using pl by (intro unat_of_nat_widths(3)) simp
    then show ?thesis
      using pl assms(1,4) MAX_FILE_SIZE_less by (simp add: checked_add_def wal_wf_def)
  qed
  then obtain nx where nx: "checked_add (lsn_no ?l) (of_nat (40 + length (kind_payload k))) = Some nx" by auto
  have "\<exists>f'. write_all_at (ww_file w) (lsn_no ?l) (record_bytes ?rec) = (Inr (), f')"
    using assms n(1) pl by (intro write_all_at_benign) (simp_all add: writes_ok_def wal_wf_def)
  then obtain f' where f': "write_all_at (ww_file w) (lsn_no ?l) (record_bytes ?rec) = (Inr (), f')" by blast
  then have "file_frame (ww_file w) f'" by (auto dest: write_all_at_prefix)
  then have "writes_ok f'" using assms(3) by (rule file_frame_ok)
  with f' nx n(2) encoded_len_wf [OF assms(2)] show ?thesis
    by (simp add: wal_append_def lsn_allocate_def vfs_write_all_at_def wal_next_lsn_def)
qed

section \<open>Reading after appending\<close>

lemma read_all_benign: "reads_ok f \<Longrightarrow> read_all f = read_records f (of_nat (length (fl_bytes f))) 0"
  by (simp add: read_all_def vfs_len_benign)

lemma read_all_tail:
  assumes "reads_ok f" "file_wf f" "reads_ok f'" "file_wf f'" "fl_bytes f' = fl_bytes f @ t" "read_all f = Inr rs"
  shows "read_all f' =
    bindR (read_records f' (of_nat (length (fl_bytes f'))) (of_nat (length (fl_bytes f)))) (\<lambda>ts. Inr (rs @ ts))"
  using read_records_extend [OF assms(1-5), of 0 rs] assms by (simp add: read_all_benign)

lemma read_tail_record:
  assumes "reads_ok f'" "file_wf f'" "fl_bytes f' = bs @ take n (record_bytes r)" "kind_wf (wr_kind r)"
    "wr_lsn r = Lsn (of_nat (length bs))" "0 < n" "n \<le> length (record_bytes r)"
  shows "read_record_at f' (of_nat (length (fl_bytes f'))) (of_nat (length bs)) =
    (if n = length (record_bytes r) then Inr (r, of_nat n)
     else Inl (truncated_wal (of_nat (length bs)) (of_nat n)))"
proof -
  let ?off = "of_nat (length bs) :: u64" let ?rb = "record_bytes r"
  note enc = encode_record_Inr [OF assms(4)]
  have "length (fl_bytes f') < 18446744073709551616"
    using assms(2) MAX_FILE_SIZE_less by (simp add: file_wf_def)
  then have off: "unat ?off = length bs" using assms(3) by simp
  have R: "unat ?off + n = length (fl_bytes f')" using off assms(3,7) by simp
  have sl: "slice (fl_bytes f') (unat ?off) m = take m (take n ?rb)" for m
    using off assms(3) slice_append_right [of bs "take n ?rb" 0 m] by (simp add: slice_def)
  have pl: "unat (of_nat (length (kind_payload (wr_kind r))) :: u32) = length (kind_payload (wr_kind r))"
    using kind_payload_length [OF assms(4)] by simp
  have rl: "40 + unat (read_u32 (slice (fl_bytes f') (unat ?off) 40) 32) = length ?rb" if "40 \<le> n"
  proof -
    have "slice (take 40 (take n ?rb)) 32 4 = slice ?rb 32 4" using that by (simp add: slice_def drop_take)
    then have "read_u32 (slice (fl_bytes f') (unat ?off) 40) 32 = read_u32 ?rb 32"
      unfolding sl by (simp add: read_u32_def)
    then show ?thesis using enc(2,3) pl by simp
  qed
  show ?thesis
  proof (cases "n < 40")
    case True
    with enc(2) show ?thesis
      unfolding read_record_at_benign [OF assms(1,2) R refl] by (simp add: Let_def)
  next
    case False
    then have "40 \<le> n" by simp
    note rl = rl [OF this]
    show ?thesis
      unfolding read_record_at_benign [OF assms(1,2) R refl] Let_def rl
      using False assms(5,7) enc by (simp add: sl)
  qed
qed

lemma read_all_append:
  assumes "reads_ok f" "file_wf f" "reads_ok f'" "file_wf f'" "read_all f = Inr rs" "kind_wf (wr_kind r)"
    "fl_bytes f' = fl_bytes f @ record_bytes r" "wr_lsn r = Lsn (of_nat (length (fl_bytes f)))"
  shows "read_all f' = Inr (rs @ [r])"
proof -
  let ?L = "of_nat (length (fl_bytes f)) :: u64" let ?L' = "of_nat (length (fl_bytes f')) :: u64"
  let ?n = "length (record_bytes r)"
  have n: "0 < ?n" using encode_record_Inr(2) [OF assms(6)] by simp
  have small: "length (fl_bytes f') < 18446744073709551616"
    using assms(4) MAX_FILE_SIZE_less by (simp add: file_wf_def)
  have u: "unat ?L = length (fl_bytes f)" "unat (of_nat ?n :: u64) = ?n" using small assms(7) by simp_all
  have u': "unat ?L' = length (fl_bytes f) + ?n" using unat_of_nat_widths(3) [OF small] assms(7) by simp
  have r: "read_record_at f' ?L' ?L = Inr (r, of_nat ?n)"
    using read_tail_record [of f' "fl_bytes f" ?n r] assms n by simp
  have "checked_add ?L (of_nat ?n) = Some (?L + of_nat ?n)"
    using small u assms(7) by (simp add: checked_add_def)
  moreover have "?L + of_nat ?n = ?L'" using assms(7) by simp
  moreover have "?L < ?L'" using u u' n by (simp add: word_less_nat_alt)
  moreover have "read_records f' ?L' ?L' = Inr []" by (simp add: read_records.simps)
  ultimately have "read_records f' ?L' ?L = Inr [r]"
    using r by (simp add: read_records.simps [of f' ?L' ?L])
  then show ?thesis using read_all_tail [OF assms(1-4,7,5)] by simp
qed

lemma read_all_torn:
  assumes "reads_ok f" "file_wf f" "reads_ok f'" "file_wf f'" "read_all f = Inr rs" "kind_wf (wr_kind r)"
    "fl_bytes f' = fl_bytes f @ take n (record_bytes r)" "0 < n" "n < length (record_bytes r)"
    "wr_lsn r = Lsn (of_nat (length (fl_bytes f)))"
  shows "read_all f' = Inl (truncated_wal (of_nat (length (fl_bytes f))) (of_nat n))"
proof -
  let ?L = "of_nat (length (fl_bytes f)) :: u64" let ?L' = "of_nat (length (fl_bytes f')) :: u64"
  have small: "length (fl_bytes f') < 18446744073709551616"
    using assms(4) MAX_FILE_SIZE_less by (simp add: file_wf_def)
  have "unat ?L = length (fl_bytes f)" using small assms(7) by simp
  moreover have "unat ?L' = length (fl_bytes f) + n"
    using unat_of_nat_widths(3) [OF small] assms(7,9) by simp
  ultimately have "?L < ?L'" using assms(8) by (simp add: word_less_nat_alt)
  moreover have "read_record_at f' ?L' ?L = Inl (truncated_wal ?L (of_nat n))"
    using read_tail_record [of f' "fl_bytes f" n r] assms by simp
  ultimately have "read_records f' ?L' ?L = Inl (truncated_wal ?L (of_nat n))"
    by (simp add: read_records.simps [of f' ?L' ?L])
  then show ?thesis using read_all_tail [OF assms(1-4,7,5)] by simp
qed

lemma decode_record_payload:
  "decode_record bs = Inr r \<Longrightarrow> unat (read_u32 bs 32) \<le> 4096"
  by (auto simp: decode_record_def decode_kind_def require_empty_payload_def Let_def res_simps split: if_splits)

section \<open>Appending several records\<close>

definition wal_append_all :: "wal_writer \<Rightarrow> wal_record_kind list \<Rightarrow> (wal_writer, db_error, unit) stres" where
  "wal_append_all w ks = for_eachS (\<lambda>k w. bindS (wal_append w k) (\<lambda>_ w'. (Inr (), w'))) ks w"

lemma wal_append_all_simps [simp]:
  "wal_append_all w [] = (Inr (), w)"
  "wal_append_all w (k # ks) = bindS (wal_append w k) (\<lambda>_ w'. wal_append_all w' ks)"
  by (simp_all add: wal_append_all_def) (cases "wal_append w k"; cases "fst (wal_append w k)"; simp)

lemma wal_next_lsn_end:
  assumes "wal_wf w"
  shows "wal_next_lsn w = Lsn (of_nat (length (fl_bytes (ww_file w))))"
proof -
  have "length (fl_bytes (ww_file w)) = unat (lsn_no (la_next (ww_allocator w)))"
    using assms by (simp add: wal_wf_def)
  then have "of_nat (length (fl_bytes (ww_file w))) = (of_nat (unat (lsn_no (la_next (ww_allocator w)))) :: u64)"
    by (rule arg_cong)
  also have "\<dots> = lsn_no (la_next (ww_allocator w))" by simp
  finally show ?thesis by (simp add: wal_next_lsn_def)
qed

lemma wal_append_read_all:
  assumes "wal_wf w" "reads_ok (ww_file w)" "kind_wf k" "read_all (ww_file w) = Inr rs" "wal_append w k = (Inr l, w')"
  shows "read_all (ww_file w') = Inr (rs @ [\<lparr>wr_lsn = wal_next_lsn w, wr_kind = k\<rparr>])"
    "wal_wf w'" "reads_ok (ww_file w')" "file_frame (ww_file w) (ww_file w')"
proof -
  note a = wal_append_Inr [OF assms(1,3,5)]
  show ok: "reads_ok (ww_file w')" using a(3) assms(2) by (rule file_frame_ok)
  from wal_next_lsn_end [OF assms(1)] show "read_all (ww_file w') = Inr (rs @ [\<lparr>wr_lsn = wal_next_lsn w, wr_kind = k\<rparr>])"
    using assms a ok by (intro read_all_append [of "ww_file w"]) (simp_all add: wal_wf_def)
qed (rule wal_append_Inr [OF assms(1,3,5)])+

lemma wal_append_all_read_all:
  assumes "wal_wf w" "reads_ok (ww_file w)" "\<forall>k \<in> set ks. kind_wf k" "read_all (ww_file w) = Inr rs"
    "wal_append_all w ks = (Inr (), w')"
  shows "\<exists>rs'. read_all (ww_file w') = Inr (rs @ rs') \<and> map wr_kind rs' = ks \<and> wal_wf w' \<and>
    file_frame (ww_file w) (ww_file w')"
  using assms
proof (induction ks arbitrary: w rs)
  case (Cons k ks)
  then obtain l w1 where w1: "wal_append w k = (Inr l, w1)" "wal_append_all w1 ks = (Inr (), w')"
    by (auto simp: bindS_eq_Inr)
  note a = wal_append_read_all [OF Cons.prems(1,2) _ Cons.prems(4) w1(1)]
  from Cons.IH [OF a(2,3) _ a(1) w1(2)] Cons.prems(3) obtain rs' where
    "read_all (ww_file w') = Inr (rs @ \<lparr>wr_lsn = wal_next_lsn w, wr_kind = k\<rparr> # rs')" "map wr_kind rs' = ks"
    "wal_wf w'" "file_frame (ww_file w1) (ww_file w')" by auto
  then show ?case using a(4) Cons.prems(3)
    by (intro exI [of _ "\<lparr>wr_lsn = wal_next_lsn w, wr_kind = k\<rparr> # rs'"]) (auto intro: file_frame_trans)
qed auto

lemma wal_append_all_benign:
  assumes "wal_wf w" "\<forall>k \<in> set ks. kind_wf k" "writes_ok (ww_file w)"
    "length (fl_bytes (ww_file w)) + 4136 * length ks \<le> MAX_FILE_SIZE"
  shows "\<exists>w'. wal_append_all w ks = (Inr (), w') \<and> writes_ok (ww_file w')"
  using assms
proof (induction ks arbitrary: w)
  case (Cons k ks)
  then obtain w1 where w1: "wal_append w k = (Inr (wal_next_lsn w), w1)" "writes_ok (ww_file w1)"
    using wal_append_benign [of w k] by auto
  note a = wal_append_Inr [OF Cons.prems(1) _ w1(1)]
  have "length (fl_bytes (ww_file w1)) + 4136 * length ks \<le> MAX_FILE_SIZE"
    using a(4) Cons.prems(2,4) encode_record_Inr(2) [of "\<lparr>wr_lsn = wal_next_lsn w, wr_kind = k\<rparr>"]
      kind_payload_length [of k] by simp
  from Cons.IH [OF a(2) _ w1(2) this] w1(1) Cons.prems(2) show ?case by simp
qed auto

section \<open>What redo replays\<close>

lemma tx_outcomes_eq:
  "tx_outcomes rs = ({tx. CommitTx tx \<in> wr_kind ` set rs}, {tx. AbortTx tx \<in> wr_kind ` set rs})"
proof -
  let ?F = "\<lambda>r (committed, aborted). case wr_kind r of
       CommitTx tx \<Rightarrow> (insert tx committed, aborted)
     | AbortTx tx \<Rightarrow> (committed, insert tx aborted)
     | _ \<Rightarrow> (committed, aborted)"
  have "fold ?F rs (C, A) = (C \<union> {tx. CommitTx tx \<in> wr_kind ` set rs}, A \<union> {tx. AbortTx tx \<in> wr_kind ` set rs})" for C A
    by (induction rs arbitrary: C A) (auto split: wal_record_kind.splits)
  then show ?thesis by (simp add: tx_outcomes_def)
qed

text \<open>The images of the transactions that committed and never aborted, in log order.\<close>

fun winning_images :: "tx_id set \<times> tx_id set \<Rightarrow> wal_record list \<Rightarrow> (lsn \<times> tx_id \<times> page_id \<times> byte_list) list" where
  "winning_images W [] = []"
| "winning_images W (r # rs) = (case wr_kind r of
     PageImage tx pid img \<Rightarrow>
       (if tx \<in> fst W \<and> tx \<notin> snd W then [(wr_lsn r, tx, pid, img)] else []) @ winning_images W rs
   | _ \<Rightarrow> winning_images W rs)"

definition image_ok :: "lsn \<times> tx_id \<times> page_id \<times> byte_list \<Rightarrow> bool" where
  "image_ok i = (case i of (l, tx, pid, img) \<Rightarrow>
     page_valid \<lparr>page_bytes = img\<rparr> \<and> page_id_of \<lparr>page_bytes = img\<rparr> = pid)"

definition image_page :: "lsn \<times> tx_id \<times> page_id \<times> byte_list \<Rightarrow> page" where
  "image_page i = (case i of (l, tx, pid, img) \<Rightarrow> \<lparr>page_bytes = img\<rparr>)"

lemma winning_images_append [simp]:
  "winning_images W (rs @ rs') = winning_images W rs @ winning_images W rs'"
  by (induction rs) (auto split: wal_record_kind.splits)

lemma redo_record_image:
  assumes "wr_kind r = PageImage tx pid img" "tx \<in> fst W" "tx \<notin> snd W" "image_ok (wr_lsn r, tx, pid, img)"
  shows "redo_record redo W r s = redo s (wr_lsn r) tx pid img"
  using assms
  by (simp add: redo_record_def image_ok_def page_valid_def page_from_bytes_def page_valid_header page_id_of_def)

lemma redo_winning:
  assumes "\<forall>i \<in> set (winning_images W rs). image_ok i"
  shows "for_eachS (redo_record redo W) rs s =
    for_eachS (\<lambda>(l, tx, pid, img) s. redo s l tx pid img) (winning_images W rs) s"
  using assms
proof (induction rs arbitrary: s)
  case (Cons r rs)
  show ?case
  proof (cases "\<exists>tx pid img. wr_kind r = PageImage tx pid img \<and> tx \<in> fst W \<and> tx \<notin> snd W")
    case True
    then obtain tx pid img where k: "wr_kind r = PageImage tx pid img" "tx \<in> fst W" "tx \<notin> snd W" by blast
    with Cons.prems have "image_ok (wr_lsn r, tx, pid, img)" by simp
    from redo_record_image [OF k this, of redo s] k Cons show ?thesis by (simp cong: bindS_cong)
  next
    case False
    then have "redo_record redo W r s = (Inr (), s)" "winning_images W (r # rs) = winning_images W rs"
      by (auto simp: redo_record_def split: wal_record_kind.splits)
    with Cons show ?thesis by simp
  qed
qed simp

lemma redo_Inr_images_ok:
  assumes "for_eachS (redo_record redo W) rs s = (Inr (), s')" "\<forall>r \<in> set rs. kind_wf (wr_kind r)"
  shows "\<forall>i \<in> set (winning_images W rs). image_ok i"
  using assms
proof (induction rs arbitrary: s)
  case (Cons r rs)
  then obtain s1 where s1: "redo_record redo W r s = (Inr (), s1)" "for_eachS (redo_record redo W) rs s1 = (Inr (), s')"
    by (auto simp: bindS_eq_Inr)
  have "image_ok (wr_lsn r, tx, pid, img)"
    if k: "wr_kind r = PageImage tx pid img" "tx \<in> fst W" "tx \<notin> snd W" for tx pid img
  proof -
    from s1(1) k obtain h where h: "bindR (page_from_bytes img) header = Inr h" "h_page_id h = pid"
      by (auto simp: redo_record_def split: sum.splits if_splits)
    then show ?thesis using Cons.prems(2) k
      by (auto simp: image_ok_def page_valid_def page_from_bytes_Inr bindR_eq_Inr header_Inr page_id_of_def kind_wf_def)
  qed
  with Cons.IH [OF s1(2)] Cons.prems(2) show ?case by (auto split: wal_record_kind.splits if_splits)
qed simp

lemma winning_images_eq:
  "winning_images (tx_outcomes rs0) rs =
    concat (map (\<lambda>r. case wr_kind r of
        PageImage tx pid img \<Rightarrow>
          if CommitTx tx \<in> wr_kind ` set rs0 \<and> AbortTx tx \<notin> wr_kind ` set rs0 then [(wr_lsn r, tx, pid, img)] else []
      | _ \<Rightarrow> []) rs)"
  by (induction rs) (auto simp: tx_outcomes_eq split: wal_record_kind.splits)

lemma wal_append_torn:
  assumes "wal_wf w" and "reads_ok (ww_file w)" and "kind_wf k" and "read_all (ww_file w) = Inr rs"
    and "wal_append w k = (Inl e, w')"
  shows "read_all (ww_file w') = Inr rs \<and> fl_bytes (ww_file w') = fl_bytes (ww_file w) \<or>
    (\<exists>m. read_all (ww_file w') = Inl (Corruption m))"
proof -
  let ?r = "\<lparr>wr_lsn = wal_next_lsn w, wr_kind = k\<rparr>"
  from wal_append_Inl [OF assms(1,3,5)] obtain n where n: "n < length (record_bytes ?r)"
    "fl_bytes (ww_file w') = fl_bytes (ww_file w) @ take n (record_bytes ?r)"
    and fr: "file_frame (ww_file w) (ww_file w')" "file_wf (ww_file w')" by blast
  have ok: "reads_ok (ww_file w')" using fr(1) assms(2) by (rule file_frame_ok)
  show ?thesis
  proof (cases "n = 0")
    case True
    with n have same: "fl_bytes (ww_file w') = fl_bytes (ww_file w)" by simp
    then show ?thesis
      using read_all_tail [of "ww_file w" "ww_file w'" "[]" rs] ok fr assms
      by (simp add: wal_wf_def read_records.simps [of _ x x for x])
  next
    case False
    have "wal_next_lsn w = Lsn (of_nat (length (fl_bytes (ww_file w))))"
      by (rule wal_next_lsn_end [OF assms(1)])
    with False n ok fr assms have "read_all (ww_file w') =
        Inl (truncated_wal (of_nat (length (fl_bytes (ww_file w)))) (of_nat n))"
      by (intro read_all_torn [of "ww_file w" _ rs ?r]) (simp_all add: wal_wf_def)
    then show ?thesis by (simp add: truncated_wal_def)
  qed
qed

section \<open>A hole in the log\<close>

lemma replicate_zero_read:
  "off + 4 \<le> n \<Longrightarrow> read_u32 (replicate n 0) off = 0"
proof -
  assume "off + 4 \<le> n"
  then have "slice (replicate n (0 :: u8)) off 4 = replicate 4 0"
    by (intro nth_equalityI) (auto simp: slice_nth)
  moreover have "nat_of_le (replicate 4 0) = 0" by (simp add: numeral_eq_Suc)
  ultimately show ?thesis by (simp add: read_u32_def from_le_bytes_def)
qed

lemma read_all_hole:
  assumes ok: "reads_ok f" "file_wf f" "reads_ok f'" "file_wf f'" and rs: "read_all f = Inr rs"
    and bytes: "fl_bytes f' = fl_bytes f @ replicate n 0 @ t" and n: "40 \<le> n"
  shows "read_all f' = Inl (Corruption msg_wal_magic)"
proof -
  let ?L = "of_nat (length (fl_bytes f)) :: u64" let ?L' = "of_nat (length (fl_bytes f')) :: u64"
  have small: "length (fl_bytes f') < 18446744073709551616"
    using ok(4) MAX_FILE_SIZE_less by (simp add: file_wf_def)
  have uL: "unat ?L = length (fl_bytes f)" using small bytes by simp
  have R: "unat ?L + (n + length t) = length (fl_bytes f')" using uL bytes by simp
  have sl: "slice (fl_bytes f') (unat ?L) 40 = replicate 40 0"
    using uL bytes n slice_append_right [of "fl_bytes f" "replicate n 0 @ t" 0 40] by (simp add: slice_def min_def)
  have "read_record_at f' ?L' ?L = Inl (Corruption msg_wal_magic)"
    unfolding read_record_at_benign [OF ok(3,4) R refl] Let_def sl
    using n by (simp add: replicate_zero_read sl decode_record_def WAL_MAGIC_def)
  moreover have "?L < ?L'"
    using unat_of_nat_widths(3) [OF small] uL bytes n by (simp add: word_less_nat_alt)
  ultimately have "read_records f' ?L' ?L = Inl (Corruption msg_wal_magic)"
    by (simp add: read_records.simps [of f' ?L' ?L])
  then show ?thesis using read_all_tail [OF ok bytes rs] by simp
qed

section \<open>Properties\<close>

text \<open>Every record a writer can produce encodes to its 40-byte header and payload, and
  decoding those bytes gives the record back.\<close>

theorem wal_record_round_trip:
  assumes "kind_wf (wr_kind r)"
  shows "\<exists>bs. encode_record r = Inr bs \<and> length bs = WAL_HEADER_SIZE + length (kind_payload (wr_kind r)) \<and>
    decode_record bs = Inr r"
  using encode_record_Inr [OF assms] by simp

theorem wal_record_round_trip_witness:
  "\<exists>bs. encode_record \<lparr>wr_lsn = Lsn 40, wr_kind = PageImage (TxId 7) (PageId 3) (replicate 4096 1)\<rparr> = Inr bs \<and>
     length bs = 4136 \<and>
     decode_record bs = Inr \<lparr>wr_lsn = Lsn 40, wr_kind = PageImage (TxId 7) (PageId 3) (replicate 4096 1)\<rparr>"
  using wal_record_round_trip
    [of "\<lparr>wr_lsn = Lsn 40, wr_kind = PageImage (TxId 7) (PageId 3) (replicate 4096 1)\<rparr>"]
  by (simp add: kind_wf_def)

text \<open>C35: changing any single byte of a valid record makes its decoding fail, with a corruption
  error.\<close>

theorem wal_corruption_detected:
  assumes "decode_record bs = Inr r" and "i < length bs" and "b \<noteq> bs ! i"
  shows "\<exists>m. decode_record (bs[i := b]) = Inl (Corruption m)"
proof (cases "decode_record (bs[i := b])")
  case (Inl e)
  then show ?thesis using decode_record_Inl [OF Inl] by blast
next
  case (Inr r')
  note old = decode_record_checksum [OF assms(1)] and new = decode_record_checksum [OF Inr]
  have sum: "read_u32 (bs[i := b]) 36 = wal_checksum (bs[i := b])" by (rule new)
  show ?thesis
  proof (cases "36 \<le> i \<and> i < 40")
    case True
    then have "wal_checksum (bs[i := b]) = wal_checksum bs"
      using old(1) by (simp add: wal_checksum_split)
    moreover have "read_u32 (bs[i := b]) 36 \<noteq> read_u32 bs 36"
    proof -
      have "i - 36 < 4" "36 + (i - 36) = i" using True by auto
      then have "slice (bs[i := b]) 36 4 ! (i - 36) \<noteq> slice bs 36 4 ! (i - 36)"
        using assms(2,3) by (simp add: slice_nth)
      then have "slice (bs[i := b]) 36 4 \<noteq> slice bs 36 4" by metis
      then show ?thesis using old(1) by (simp add: read_u32_def from_le_bytes_inject)
    qed
    ultimately show ?thesis using sum old(2) by simp
  next
    case False
    have "length bs < 16777216"
      using old(3) decode_record_payload [OF assms(1)] by simp
    with False have "wal_checksum (bs[i := b]) \<noteq> wal_checksum bs"
      using old(1) assms(2,3) by (intro wal_checksum_update) auto
    moreover have "slice (bs[i := b]) 36 4 = slice bs 36 4"
      using False by (auto simp: list_eq_iff_nth_eq slice_nth nth_list_update)
    ultimately show ?thesis using sum old(2) by (simp add: read_u32_def)
  qed
qed

theorem wal_corruption_detected_witness:
  "\<exists>m. decode_record ((record_bytes \<lparr>wr_lsn = Lsn 0, wr_kind = CommitTx (TxId 1)\<rparr>)[17 :=
      record_bytes \<lparr>wr_lsn = Lsn 0, wr_kind = CommitTx (TxId 1)\<rparr> ! 17 + 1]) = Inl (Corruption m)"
proof (rule wal_corruption_detected)
  let ?r = "\<lparr>wr_lsn = Lsn 0, wr_kind = CommitTx (TxId 1)\<rparr>"
  have wf: "kind_wf (wr_kind ?r)" by (simp add: kind_wf_def)
  show "decode_record (record_bytes ?r) = Inr ?r" by (rule encode_record_Inr(4) [OF wf])
  show "17 < length (record_bytes ?r)" using encode_record_Inr(2) [OF wf] by simp
qed simp

text \<open>C30: records appended to a log are read back by the recovery scan, in order and after the
  records that were there, and appending them succeeds as long as the file may grow.\<close>

theorem appended_records_are_read_back:
  assumes "wal_wf w" and "reads_ok (ww_file w)" and "writes_ok (ww_file w)" and "read_all (ww_file w) = Inr rs"
    and "list_all kind_wf ks" and "length (fl_bytes (ww_file w)) + 4136 * length ks \<le> MAX_FILE_SIZE"
  shows "\<exists>w' rs'. wal_append_all w ks = (Inr (), w') \<and> wal_wf w' \<and>
    read_all (ww_file w') = Inr (rs @ rs') \<and> map wr_kind rs' = ks"
proof -
  have ks: "\<forall>k \<in> set ks. kind_wf k" using assms(5) by (simp add: list_all_iff)
  from wal_append_all_benign [OF assms(1) ks assms(3,6)] obtain w' where w': "wal_append_all w ks = (Inr (), w')" by blast
  with wal_append_all_read_all [OF assms(1,2) ks assms(4)] show ?thesis by blast
qed

definition empty_wal :: wal_writer where
  "empty_wal = \<lparr>ww_file = quiet_file [], ww_allocator = \<lparr>la_next = Lsn 0\<rparr>\<rparr>"

lemma empty_wal_ok [simp]:
  "wal_wf empty_wal" "reads_ok (ww_file empty_wal)" "writes_ok (ww_file empty_wal)"
  "read_all (ww_file empty_wal) = Inr []" "fl_bytes (ww_file empty_wal) = []" "wal_next_lsn empty_wal = Lsn 0"
  by (simp_all add: empty_wal_def wal_wf_def wal_next_lsn_def read_all_benign read_records.simps file_wf_def)

theorem appended_records_are_read_back_witness:
  "\<exists>w' rs'. wal_append_all empty_wal [BeginTx (TxId 1), CommitTx (TxId 1)] = (Inr (), w') \<and>
     read_all (ww_file w') = Inr rs' \<and> map wr_kind rs' = [BeginTx (TxId 1), CommitTx (TxId 1)]"
  using appended_records_are_read_back [of empty_wal "[]" "[BeginTx (TxId 1), CommitTx (TxId 1)]"]
  by (auto simp: kind_wf_def MAX_FILE_SIZE_def)

text \<open>A writer whose next write call fails with \<open>ENOSPC\<close>.\<close>

definition full_wal :: wal_writer where
  "full_wal = empty_wal\<lparr>ww_file := (quiet_file [])\<lparr>fl_writes := [Fail (OsError 28)]\<rparr>\<rparr>"

lemma full_wal_ok [simp]: "wal_wf full_wal" "reads_ok (ww_file full_wal)" "read_all (ww_file full_wal) = Inr []"
  "fl_bytes (ww_file full_wal) = []" "wal_next_lsn full_wal = Lsn 0"
  by (simp_all add: full_wal_def empty_wal_def wal_wf_def file_wf_def quiet_file_def reads_ok_def read_all_def
      vfs_len_def read_records.simps wal_next_lsn_def)

lemma full_wal_append:
  "wal_append full_wal (CommitTx tx) =
    (Inl (Io (OsError 28)), \<lparr>ww_file = quiet_file [], ww_allocator = \<lparr>la_next = Lsn 40\<rparr>\<rparr>)"
proof -
  have wf: "kind_wf (CommitTx tx)" by (simp add: kind_wf_def)
  have "record_bytes \<lparr>wr_lsn = Lsn 0, wr_kind = CommitTx tx\<rparr> \<noteq> []"
    using encode_record_Inr(2) [of "\<lparr>wr_lsn = Lsn 0, wr_kind = CommitTx tx\<rparr>"] wf by auto
  then show ?thesis
    using encode_record_Inr(1) [of "\<lparr>wr_lsn = Lsn 0, wr_kind = CommitTx tx\<rparr>"] wf
    by (simp add: wal_append_def encoded_len_wf lsn_allocate_def checked_add_def empty_wal_def full_wal_def
        vfs_write_all_at_def write_all_at.simps write_at_def quiet_file_def)
qed

text \<open>After an append that failed, the log either reads as before (nothing was written) or the
  scan reports the torn record as corruption; a torn record is never taken for a record.\<close>

theorem torn_append_is_detected:
  assumes "wal_wf w" and "reads_ok (ww_file w)" and "kind_wf k" and "read_all (ww_file w) = Inr rs"
    and "wal_append w k = (Inl e, w')"
  shows "read_all (ww_file w') = Inr rs \<and> fl_bytes (ww_file w') = fl_bytes (ww_file w) \<or>
    (\<exists>m. read_all (ww_file w') = Inl (Corruption m))"
  by (rule wal_append_torn [OF assms])

theorem torn_append_is_detected_witness:
  "\<exists>w'. wal_append full_wal (CommitTx (TxId 1)) = (Inl (Io (OsError 28)), w') \<and>
     (read_all (ww_file w') = Inr [] \<and> fl_bytes (ww_file w') = [] \<or> (\<exists>m. read_all (ww_file w') = Inl (Corruption m)))"
  using torn_append_is_detected [OF _ _ _ _ full_wal_append, of "TxId 1" "[]"] full_wal_append
  by (auto simp: kind_wf_def)

text \<open>C26: a redo pass succeeds exactly when every page image of a committed and never aborted
  transaction is a valid page filed under its own id and the receiver accepts it; the receiver is
  then called with those images, in log order, and with nothing else.\<close>

theorem redo_replays_committed_images:
  fixes redo :: "'r \<Rightarrow> lsn \<Rightarrow> tx_id \<Rightarrow> page_id \<Rightarrow> byte_list \<Rightarrow> ('r, db_error, unit) stres"
  assumes "list_all (\<lambda>r. kind_wf (wr_kind r)) rs"
    and "imgs = concat (map (\<lambda>r. case wr_kind r of
        PageImage tx pid img \<Rightarrow>
          if CommitTx tx \<in> wr_kind ` set rs \<and> AbortTx tx \<notin> wr_kind ` set rs then [(wr_lsn r, tx, pid, img)] else []
      | _ \<Rightarrow> []) rs)"
  shows "redo_committed_page_images redo rs s = (Inr (), s') \<longleftrightarrow>
    list_all image_ok imgs \<and> for_eachS (\<lambda>(l, tx, pid, img) s. redo s l tx pid img) imgs s = (Inr (), s')"
proof -
  have imgs: "imgs = winning_images (tx_outcomes rs) rs" by (simp add: assms(2) winning_images_eq)
  show ?thesis
    using redo_winning [of "tx_outcomes rs" rs redo s] redo_Inr_images_ok [of redo "tx_outcomes rs" rs s s'] assms(1)
    by (auto simp: redo_committed_page_images_def imgs list_all_iff)
qed

theorem redo_replays_committed_images_witness:
  "redo_committed_page_images (\<lambda>pids l tx pid img. (Inr (), pids @ [pid]))
     [\<lparr>wr_lsn = Lsn 0, wr_kind = PageImage (TxId 1) (PageId 4) (page_bytes (page_new (PageId 4) Heap))\<rparr>,
      \<lparr>wr_lsn = Lsn 4136, wr_kind = PageImage (TxId 2) (PageId 5) (page_bytes (page_new (PageId 5) Heap))\<rparr>,
      \<lparr>wr_lsn = Lsn 8272, wr_kind = CommitTx (TxId 1)\<rparr>] [] = (Inr (), [PageId 4])"
  by (subst redo_replays_committed_images [OF _ refl])
    (auto simp: kind_wf_def image_ok_def)

text \<open>C39: the allocator is advanced before the write. When an append fails before its first byte
  reached the file, the next successful append leaves a hole of zeros, and from then on the scan of
  the log fails with a corruption error.\<close>

theorem failed_append_leaves_hole:
  assumes "wal_wf w" and "reads_ok (ww_file w)" and "read_all (ww_file w) = Inr rs"
    and "kind_wf k1" and "wal_append w k1 = (Inl e, w1)" and "fl_bytes (ww_file w1) = fl_bytes (ww_file w)"
    and "wal_next_lsn w1 \<noteq> wal_next_lsn w"
    and "kind_wf k2" and "wal_append w1 k2 = (Inr l, w2)"
  shows "read_all (ww_file w2) = Inl (Corruption msg_wal_magic)"
proof -
  let ?r1 = "\<lparr>wr_lsn = wal_next_lsn w, wr_kind = k1\<rparr>" let ?r2 = "\<lparr>wr_lsn = wal_next_lsn w1, wr_kind = k2\<rparr>"
  have w1: "unat (lsn_no (wal_next_lsn w1)) = length (fl_bytes (ww_file w)) + length (record_bytes ?r1)"
    "file_wf (ww_file w1)" "file_frame (ww_file w) (ww_file w1)"
    using wal_append_cases [OF assms(1,4,5)] assms(7) by (auto simp: wal_wf_def)
  have len: "40 \<le> length (record_bytes ?r1)" using encode_record_Inr(2) [of ?r1] assms(4) by simp
  from assms(9) obtain bs f' where bs: "encode_record ?r2 = Inr bs"
    and wr: "vfs_write_all_at (ww_file w1) (lsn_no (wal_next_lsn w1)) bs = (Inr (), f')" and w2: "ww_file w2 = f'"
    by (auto simp: wal_append_def lsn_allocate_def wal_next_lsn_def Let_def
        split: sum.splits option.splits prod.splits)
  have ne: "bs \<noteq> []" using encode_record_Inr(1,2) [of ?r2] assms(8) bs by auto
  have f': "file_wf f'" "fl_bytes f' = file_put (fl_bytes (ww_file w1)) (unat (lsn_no (wal_next_lsn w1))) bs"
    using std_file.write_sound [OF w1(2) wr] by simp_all
  then have "fl_bytes f' = fl_bytes (ww_file w) @ replicate (length (record_bytes ?r1)) 0 @ bs"
    using ne by (simp add: assms(6) w1(1) file_put_def put_def)
  moreover have "file_frame (ww_file w1) f'"
    using wr by (auto simp: vfs_write_all_at_def dest!: write_all_at_prefix split: prod.splits)
  then have "reads_ok f'" using w1(3) assms(2) by (blast intro: file_frame_ok)
  ultimately show ?thesis
    unfolding w2 using assms(1-3) f'(1) len by (intro read_all_hole [of "ww_file w" _ rs]) (simp_all add: wal_wf_def)
qed

theorem failed_append_leaves_hole_witness:
  "\<exists>w1 l w2. wal_append full_wal (CommitTx (TxId 1)) = (Inl (Io (OsError 28)), w1) \<and>
     wal_append w1 (CommitTx (TxId 2)) = (Inr l, w2) \<and> read_all (ww_file w2) = Inl (Corruption msg_wal_magic)"
proof -
  let ?w1 = "\<lparr>ww_file = quiet_file [], ww_allocator = \<lparr>la_next = Lsn 40\<rparr>\<rparr>" let ?k = "CommitTx (TxId 2)"
  let ?r = "\<lparr>wr_lsn = Lsn 40, wr_kind = ?k\<rparr>"
  have wf: "kind_wf ?k" "kind_wf (CommitTx (TxId 1))" by (simp_all add: kind_wf_def)
  have enc: "encode_record ?r = Inr (record_bytes ?r)" "length (record_bytes ?r) = 40"
    using encode_record_Inr(1,2) [of ?r] wf by simp_all
  have "\<exists>f'. write_all_at (quiet_file []) 40 (record_bytes ?r) = (Inr (), f')"
    by (rule write_all_at_benign) (simp_all add: enc MAX_FILE_SIZE_def)
  then obtain f' where "write_all_at (quiet_file []) 40 (record_bytes ?r) = (Inr (), f')" by blast
  with enc wf have w2: "wal_append ?w1 ?k = (Inr (Lsn 40), \<lparr>ww_file = f', ww_allocator = \<lparr>la_next = Lsn 80\<rparr>\<rparr>)"
    by (simp add: wal_append_def encoded_len_wf lsn_allocate_def checked_add_def vfs_write_all_at_def)
  have "read_all f' = Inl (Corruption msg_wal_magic)"
    using failed_append_leaves_hole [OF _ _ _ wf(2) full_wal_append _ _ wf(1) w2] full_wal_ok(5)
    by (simp add: wal_next_lsn_def)
  with w2 full_wal_append show ?thesis by auto
qed

end
