(* ===== verification/Rdbms_Recovery.thy ===== *)
theory Rdbms_Recovery
  imports Rdbms_Wal_Spec
begin

text \<open>
  The recovery pass of \<open>crates/rdbms_recovery\<close>: open the data file and the log, scan
  the log, redo the committed page images into the page file, sync it. The model returns
  the page file as the pass leaves it on every exit, so that a failed or interrupted pass
  can be studied. \<open>committed_page\<close> is the specification: the last image of a page
  that a committed transaction logged.
\<close>

section \<open>The pass\<close>

record database_paths =
  data_path :: string
  wal_path :: string

record recovery_report =
  scanned_wal_records :: nat
  redone_page_images :: nat

record recovered_database =
  rd_page_file :: page_file
  rd_report :: recovery_report

record page_file_redo =
  pr_page_file :: page_file
  pr_redone :: nat

definition redo_page_image ::
  "page_file_redo \<Rightarrow> lsn \<Rightarrow> tx_id \<Rightarrow> page_id \<Rightarrow> byte_list \<Rightarrow> (page_file_redo, db_error, unit) stres" where
  "redo_page_image s l tx pid img =
     (case page_from_bytes img of
        Inl e \<Rightarrow> (Inl e, s)
      | Inr p \<Rightarrow> (case write_page_at (pr_page_file s) pid p of
           (Inl e, pf') \<Rightarrow> (Inl e, s\<lparr>pr_page_file := pf'\<rparr>)
         | (Inr _, pf') \<Rightarrow> (Inr (), s\<lparr>pr_page_file := pf', pr_redone := pr_redone s + 1\<rparr>)))"

definition recover_page_file :: "page_file \<Rightarrow> vfs_file \<Rightarrow> (page_file, db_error, recovered_database) stres" where
  "recover_page_file pf wal_file =
     (case read_all wal_file of
        Inl e \<Rightarrow> (Inl e, pf)
      | Inr records \<Rightarrow>
     (case redo_committed_page_images redo_page_image records \<lparr>pr_page_file = pf, pr_redone = 0\<rparr> of
        (Inl e, s) \<Rightarrow> (Inl e, pr_page_file s)
      | (Inr _, s) \<Rightarrow>
     (case page_file_sync_data (pr_page_file s) of
        (Inl e, pf') \<Rightarrow> (Inl e, pf')
      | (Inr _, pf') \<Rightarrow>
          (Inr \<lparr>rd_page_file = pf',
                rd_report = \<lparr>scanned_wal_records = length records, redone_page_images = pr_redone s\<rparr>\<rparr>,
           pf'))))"

text \<open>The data file of the directory is the page file as the pass leaves it.\<close>

definition open_database :: "std_vfs \<Rightarrow> database_paths \<Rightarrow> (std_vfs, db_error, recovered_database) stres" where
  "open_database v paths =
     bindS (vfs_open_database v (data_path paths)) (\<lambda>data_file v1.
     bindS (vfs_open_database v1 (wal_path paths)) (\<lambda>wal_file v2.
       case recover_page_file \<lparr>pf_file = data_file\<rparr> wal_file of
         (r, pf') \<Rightarrow> (r, v2\<lparr>sv_files := (sv_files v2)(data_path paths \<mapsto> pf_file pf')\<rparr>)))"

section \<open>The committed contents of a log\<close>

definition log_pages :: "wal_record list \<Rightarrow> page list" where
  "log_pages rs = map image_page (winning_images (tx_outcomes rs) rs)"

definition log_ok :: "wal_record list \<Rightarrow> bool" where
  "log_ok rs \<longleftrightarrow> list_all image_ok (winning_images (tx_outcomes rs) rs)"

definition committed_page :: "wal_record list \<Rightarrow> page_id \<Rightarrow> page option" where
  "committed_page rs = map_of (rev (map (\<lambda>p. (page_id_of p, p)) (log_pages rs)))"

lemma committed_page_None: "committed_page rs q = None \<longleftrightarrow> q \<notin> page_id_of ` set (log_pages rs)"
  by (auto simp: committed_page_def map_of_eq_None_iff image_image)

text \<open>Only the kinds of the records matter, not their positions.\<close>

definition kind_wins :: "wal_record_kind list \<Rightarrow> wal_record_kind \<Rightarrow> bool" where
  "kind_wins ks k = (case k of
     PageImage tx pid img \<Rightarrow> CommitTx tx \<in> set ks \<and> AbortTx tx \<notin> set ks | _ \<Rightarrow> False)"

fun kind_page :: "wal_record_kind \<Rightarrow> page" where
  "kind_page (PageImage tx pid img) = \<lparr>page_bytes = img\<rparr>"
| "kind_page _ = page_zeroed"

definition kind_ok :: "wal_record_kind \<Rightarrow> bool" where
  "kind_ok k = (case k of
     PageImage tx pid img \<Rightarrow> page_valid \<lparr>page_bytes = img\<rparr> \<and> page_id_of \<lparr>page_bytes = img\<rparr> = pid | _ \<Rightarrow> True)"

lemma log_pages_kinds:
  "log_pages rs = map kind_page (filter (kind_wins (map wr_kind rs)) (map wr_kind rs))"
proof -
  have "map image_page (winning_images (tx_outcomes rs0) rs) =
      map kind_page (filter (kind_wins (map wr_kind rs0)) (map wr_kind rs))" for rs0
    by (induction rs) (auto simp: tx_outcomes_eq kind_wins_def image_page_def split: wal_record_kind.splits)
  then show ?thesis by (simp add: log_pages_def)
qed

lemma log_ok_kinds:
  "log_ok rs \<longleftrightarrow> (\<forall>k \<in> set (filter (kind_wins (map wr_kind rs)) (map wr_kind rs)). kind_ok k)"
proof -
  have "list_all image_ok (winning_images (tx_outcomes rs0) rs) \<longleftrightarrow>
      (\<forall>k \<in> set (filter (kind_wins (map wr_kind rs0)) (map wr_kind rs)). kind_ok k)" for rs0
    by (induction rs)
      (auto simp: tx_outcomes_eq kind_wins_def kind_ok_def image_ok_def split: wal_record_kind.splits)
  then show ?thesis by (simp add: log_ok_def)
qed

lemma log_ok_length: "log_ok rs \<Longrightarrow> \<forall>p \<in> set (log_pages rs). length (page_bytes p) = 4096"
  by (auto simp: log_ok_def log_pages_def image_page_def image_ok_def page_valid_def list_all_iff)

lemma redo_image_write:
  assumes "image_ok (l, tx, pid, img)"
  shows "redo_page_image s l tx pid img =
    (case write_page (pr_page_file s) (image_page (l, tx, pid, img)) of
       (Inl e, pf') \<Rightarrow> (Inl e, s\<lparr>pr_page_file := pf'\<rparr>)
     | (Inr _, pf') \<Rightarrow> (Inr (), s\<lparr>pr_page_file := pf', pr_redone := pr_redone s + 1\<rparr>))"
  using assms
  by (simp add: redo_page_image_def image_page_def image_ok_def page_from_bytes_def page_valid_def write_page_eq)

text \<open>The redo loop writes the images as pages and counts them.\<close>

lemma redo_loop:
  assumes "\<forall>i \<in> set imgs. image_ok i"
    and "for_eachS (\<lambda>(l, tx, pid, img) s. redo_page_image s l tx pid img) imgs s = (r, s')"
  shows "for_eachS (\<lambda>p pf. write_page pf p) (map image_page imgs) (pr_page_file s) = (r, pr_page_file s') \<and>
    (r = Inr () \<longrightarrow> pr_redone s' = pr_redone s + length imgs)"
  using assms
proof (induction imgs arbitrary: s)
  case (Cons i imgs)
  obtain l tx pid img where i: "i = (l, tx, pid, img)" by (metis prod_cases4)
  with Cons.prems(1) have ok: "image_ok (l, tx, pid, img)" "\<forall>i \<in> set imgs. image_ok i" by auto
  obtain q pf1 where w: "write_page (pr_page_file s) (image_page i) = (q, pf1)" by fastforce
  show ?case
  proof (cases q)
    case (Inl e)
    with ok w Cons.prems(2) show ?thesis by (auto simp: i redo_image_write)
  next
    case (Inr u)
    let ?s = "s\<lparr>pr_page_file := pf1, pr_redone := pr_redone s + 1\<rparr>"
    from Inr ok w Cons.prems(2)
    have "for_eachS (\<lambda>(l, tx, pid, img) s. redo_page_image s l tx pid img) imgs ?s = (r, s')"
      by (simp add: i redo_image_write)
    from Cons.IH [OF ok(2) this] Inr w show ?thesis by simp
  qed
qed auto

lemma redo_log:
  assumes "log_ok rs" and "redo_committed_page_images redo_page_image rs \<lparr>pr_page_file = pf, pr_redone = 0\<rparr> = (r, s')"
  shows "for_eachS (\<lambda>p pf. write_page pf p) (log_pages rs) pf = (r, pr_page_file s')"
    and "r = Inr () \<Longrightarrow> pr_redone s' = length (log_pages rs)"
proof -
  have ok: "\<forall>i \<in> set (winning_images (tx_outcomes rs) rs). image_ok i"
    using assms(1) by (simp add: log_ok_def list_all_iff)
  note loop = redo_loop [OF ok assms(2) [unfolded redo_committed_page_images_def redo_winning [OF ok]]]
  show "for_eachS (\<lambda>p pf. write_page pf p) (log_pages rs) pf = (r, pr_page_file s')"
    using loop by (simp add: log_pages_def)
  show "r = Inr () \<Longrightarrow> pr_redone s' = length (log_pages rs)"
    using loop by (simp add: log_pages_def)
qed

lemma sync_pages:
  assumes "page_file_sync_data pf = (r, pf')"
  shows "pf_pages pf' = pf_pages pf" "pf_clean pf' = pf_clean pf" "fl_bytes (pf_file pf') = fl_bytes (pf_file pf)"
    "fl_reads (pf_file pf') = fl_reads (pf_file pf)" "fl_meta (pf_file pf') = fl_meta (pf_file pf)"
    "r = Inr () \<Longrightarrow> fl_durable (pf_file pf') = fl_bytes (pf_file pf)"
  using assms
  by (auto simp: page_file_sync_data_def vfs_sync_data_def pf_pages_def pf_clean_def
      split: list.splits option.splits)

lemma sync_benign:
  assumes "writes_ok (pf_file pf)"
  shows "\<exists>pf'. page_file_sync_data pf = (Inr (), pf') \<and> writes_ok (pf_file pf')"
  using assms
  by (cases "fl_syncs (pf_file pf)") (auto simp: page_file_sync_data_def vfs_sync_data_def writes_ok_def)

lemma recover_cases:
  assumes "recover_page_file pf wal = (r, pf')" "read_all wal = Inr rs" "log_ok rs"
  obtains q pf1 where "for_eachS (\<lambda>p pf. write_page pf p) (log_pages rs) pf = (q, pf1)"
    "pf_pages pf' = pf_pages pf1" "pf_clean pf' = pf_clean pf1" "fl_bytes (pf_file pf') = fl_bytes (pf_file pf1)"
    "\<And>db. r = Inr db \<Longrightarrow> q = Inr () \<and> fl_durable (pf_file pf') = fl_bytes (pf_file pf') \<and>
      db = \<lparr>rd_page_file = pf', rd_report =
        \<lparr>scanned_wal_records = length rs, redone_page_images = length (log_pages rs)\<rparr>\<rparr>"
proof -
  obtain q s where s: "redo_committed_page_images redo_page_image rs \<lparr>pr_page_file = pf, pr_redone = 0\<rparr> = (q, s)"
    by fastforce
  note log = redo_log [OF assms(3) s]
  obtain t pf2 where sync: "page_file_sync_data (pr_page_file s) = (t, pf2)" by fastforce
  note sp = sync_pages [OF sync]
  show ?thesis
  proof (rule that [OF log(1)])
    show "pf_pages pf' = pf_pages (pr_page_file s)" "pf_clean pf' = pf_clean (pr_page_file s)"
      "fl_bytes (pf_file pf') = fl_bytes (pf_file (pr_page_file s))"
      using assms(1,2) s sync sp by (auto simp: recover_page_file_def split: sum.splits)
    show "q = Inr () \<and> fl_durable (pf_file pf') = fl_bytes (pf_file pf') \<and>
      db = \<lparr>rd_page_file = pf', rd_report =
        \<lparr>scanned_wal_records = length rs, redone_page_images = length (log_pages rs)\<rparr>\<rparr>"
      if "r = Inr db" for db
      using that assms(1,2) s sync sp log(2) by (auto simp: recover_page_file_def split: sum.splits)
  qed
qed

text \<open>Recovery gives every logged page its last committed image, whatever was there before.\<close>

lemma recover_heals:
  assumes "recover_page_file pf wal = (Inr db, pf')" "read_all wal = Inr rs" "log_ok rs" "file_wf (pf_file pf)"
    "committed_page rs q \<noteq> None \<or> pf_clean pf q"
  shows "pf_pages pf' q = (pf_pages pf ++ committed_page rs) q" "pf_clean pf' q"
proof -
  from recover_cases [OF assms(1-3)] obtain k pf1 where
    w: "for_eachS (\<lambda>p pf. write_page pf p) (log_pages rs) pf = (k, pf1)"
    and pf': "pf_pages pf' = pf_pages pf1" "pf_clean pf' = pf_clean pf1" and k: "k = Inr ()" by metis
  have "q \<in> page_id_of ` set (log_pages rs) \<or> pf_clean pf q" using assms(5) by (auto simp: committed_page_None)
  from pf_store.store_all_Inr [OF assms(4) log_ok_length [OF assms(3)] w [unfolded k] this] pf'
  show "pf_pages pf' q = (pf_pages pf ++ committed_page rs) q" "pf_clean pf' q"
    by (simp_all add: committed_page_def)
qed

lemma recover_other:
  assumes "recover_page_file pf wal = (r, pf')" "read_all wal = Inr rs" "log_ok rs" "file_wf (pf_file pf)"
    "committed_page rs q = None" "pf_clean pf q"
  shows "pf_pages pf' q = pf_pages pf q" "pf_clean pf' q"
proof -
  from recover_cases [OF assms(1-3)] obtain k pf1 where
    w: "for_eachS (\<lambda>p pf. write_page pf p) (log_pages rs) pf = (k, pf1)"
    and pf': "pf_pages pf' = pf_pages pf1" "pf_clean pf' = pf_clean pf1" by metis
  from pf_store.store_all_other [OF assms(4) log_ok_length [OF assms(3)] _ assms(6)] assms(5) w pf'
  show "pf_pages pf' q = pf_pages pf q" "pf_clean pf' q"
    by (auto simp: committed_page_None)
qed

lemma recover_file_wf:
  assumes "recover_page_file pf wal = (r, pf')" "read_all wal = Inr rs" "log_ok rs" "file_wf (pf_file pf)"
  shows "file_wf (pf_file pf')"
proof -
  from recover_cases [OF assms(1-3)] obtain k pf1 where
    w: "for_eachS (\<lambda>p pf. write_page pf p) (log_pages rs) pf = (k, pf1)"
    and pf': "fl_bytes (pf_file pf') = fl_bytes (pf_file pf1)" by metis
  from pf_store.store_all_inv [OF assms(4) log_ok_length [OF assms(3)]] w pf' show ?thesis
    by (simp add: file_wf_def)
qed

lemma recover_succeeds:
  assumes "read_all wal = Inr rs" "log_ok rs" "\<forall>p \<in> set (log_pages rs). page_fits p" "writes_ok (pf_file pf)"
  shows "\<exists>db pf'. recover_page_file pf wal = (Inr db, pf')"
proof -
  obtain q s where s: "redo_committed_page_images redo_page_image rs \<lparr>pr_page_file = pf, pr_redone = 0\<rparr> = (q, s)"
    by fastforce
  from pf_store.store_all_succeeds [OF assms(4,3)] redo_log(1) [OF assms(2) s]
  have q: "q = Inr ()" "writes_ok (pf_file (pr_page_file s))" by auto
  from sync_benign [OF q(2)] s q(1) assms(1) show ?thesis by (auto simp: recover_page_file_def)
qed

section \<open>Properties\<close>

text \<open>A log holding one committed page image.\<close>

definition sample_kinds :: "wal_record_kind list" where
  "sample_kinds = [BeginTx (TxId 1), PageImage (TxId 1) (PageId 2) (page_bytes (page_new (PageId 2) Heap)),
     CommitTx (TxId 1)]"

lemma sample_log:
  obtains w rs where "wal_append_all empty_wal sample_kinds = (Inr (), w)" "read_all (ww_file w) = Inr rs"
    "log_pages rs = [page_new (PageId 2) Heap]" "log_ok rs" "length rs = 3"
proof -
  have wf: "\<forall>k \<in> set sample_kinds. kind_wf k" by (simp add: sample_kinds_def kind_wf_def)
  have "length (fl_bytes (ww_file empty_wal)) + 4136 * length sample_kinds \<le> MAX_FILE_SIZE"
    by (simp add: sample_kinds_def MAX_FILE_SIZE_def)
  with wal_append_all_benign [OF _ wf, of empty_wal] obtain w where w: "wal_append_all empty_wal sample_kinds = (Inr (), w)" by auto
  from wal_append_all_read_all [OF _ _ wf _ w, of "[]"] obtain rs where
    rs: "read_all (ww_file w) = Inr rs" "map wr_kind rs = sample_kinds" by auto
  have "length rs = 3" using arg_cong [OF rs(2), of length] by (simp add: sample_kinds_def)
  with rs w show ?thesis
    by (intro that [of w rs])
      (simp_all add: log_pages_kinds log_ok_kinds sample_kinds_def kind_wins_def kind_ok_def)
qed

text \<open>C4: on a readable log whose committed images are valid, recovery of a sound data file
  succeeds; afterwards every page reads as the last image a committed transaction logged for it, or
  as before when there is none; the result is durable and the report counts the scanned records and
  the replayed images.\<close>

theorem recovery_installs_committed_pages:
  assumes "pf_wf pf" and "reads_ok (pf_file pf)" and "writes_ok (pf_file pf)"
    and "read_all wal = Inr rs" and "log_ok rs" and "list_all page_fits (log_pages rs)"
  shows "\<exists>db pf'. recover_page_file pf wal = (Inr db, pf') \<and> rd_page_file db = pf' \<and>
    (\<forall>q. pf_pages pf' q = (case committed_page rs q of Some p \<Rightarrow> Some p | None \<Rightarrow> pf_pages pf q)) \<and>
    fl_durable (pf_file pf') = fl_bytes (pf_file pf') \<and>
    rd_report db = \<lparr>scanned_wal_records = length rs, redone_page_images = length (log_pages rs)\<rparr>"
proof -
  have "\<forall>p \<in> set (log_pages rs). page_fits p" using assms(6) by (simp add: list_all_iff)
  from recover_succeeds [OF assms(4,5) this assms(3)] obtain db pf' where
    r: "recover_page_file pf wal = (Inr db, pf')" by blast
  have wf: "file_wf (pf_file pf)" using assms(1) by (simp add: pf_wf_def)
  have "pf_pages pf' q = (case committed_page rs q of Some p \<Rightarrow> Some p | None \<Rightarrow> pf_pages pf q)" for q
    using recover_heals(1) [OF r assms(4,5) wf, of q] assms(1) by (simp add: map_add_def)
  moreover from recover_cases [OF r assms(4,5)] have "fl_durable (pf_file pf') = fl_bytes (pf_file pf') \<and>
      db = \<lparr>rd_page_file = pf', rd_report =
        \<lparr>scanned_wal_records = length rs, redone_page_images = length (log_pages rs)\<rparr>\<rparr>" by metis
  ultimately show ?thesis using r by simp
qed

theorem recovery_installs_committed_pages_witness:
  "\<exists>w db pf'. wal_append_all empty_wal sample_kinds = (Inr (), w) \<and>
     recover_page_file \<lparr>pf_file = quiet_file []\<rparr> (ww_file w) = (Inr db, pf') \<and>
     pf_pages pf' (PageId 2) = Some (page_new (PageId 2) Heap)"
proof -
  from sample_log obtain w rs where w: "wal_append_all empty_wal sample_kinds = (Inr (), w)"
    and rs: "read_all (ww_file w) = Inr rs" "log_pages rs = [page_new (PageId 2) Heap]" "log_ok rs" .
  have "committed_page rs (PageId 2) = Some (page_new (PageId 2) Heap)"
    by (simp add: committed_page_def rs(2))
  with recovery_installs_committed_pages [of "\<lparr>pf_file = quiet_file []\<rparr>", OF _ _ _ rs(1,3)] w show ?thesis
    by (fastforce simp: rs(2) page_new_fits)
qed

text \<open>C14: a recovery pass that stops at any point (failed write, torn page, failed sync) can be
  run again: the second pass over the file it left leads to exactly the pages an undisturbed pass
  would have produced. Only logged pages are ever touched.\<close>

theorem interrupted_recovery_restarts:
  assumes "pf_wf pf" and "read_all wal = Inr rs" and "log_ok rs"
    and "recover_page_file pf wal = (r, pf1)"
    and "fl_bytes (pf_file pf2) = fl_bytes (pf_file pf1)"
    and "recover_page_file pf2 wal = (Inr db, pf3)"
  shows "(\<forall>q. committed_page rs q = None \<longrightarrow> pf_pages pf1 q = pf_pages pf q) \<and>
    pf_pages pf3 = pf_pages pf ++ committed_page rs"
proof -
  have wf: "file_wf (pf_file pf)" using assms(1) by (simp add: pf_wf_def)
  have wf2: "file_wf (pf_file pf2)"
    using recover_file_wf [OF assms(4,2,3) wf] assms(5) by (simp add: file_wf_def)
  have same: "pf_pages pf2 = pf_pages pf1" "pf_clean pf2 = pf_clean pf1"
    using assms(5) by (simp_all add: pf_pages_def pf_clean_def)
  have other: "pf_pages pf1 q = pf_pages pf q \<and> pf_clean pf1 q" if "committed_page rs q = None" for q
    using recover_other [OF assms(4,2,3) wf that] assms(1) by simp
  have "pf_pages pf3 q = (pf_pages pf ++ committed_page rs) q" for q
    using recover_heals(1) [OF assms(6,2,3) wf2, of q] other [of q] same
    by (cases "committed_page rs q") (auto simp: map_add_def)
  with other show ?thesis by blast
qed

theorem interrupted_recovery_restarts_witness:
  "\<exists>w r pf1 db pf3. wal_append_all empty_wal sample_kinds = (Inr (), w) \<and>
     recover_page_file \<lparr>pf_file = (quiet_file [])\<lparr>fl_writes := [Transfer 100, Fail (OsError 5)]\<rparr>\<rparr> (ww_file w) = (r, pf1) \<and>
     recover_page_file \<lparr>pf_file = quiet_file (fl_bytes (pf_file pf1))\<rparr> (ww_file w) = (Inr db, pf3) \<and>
     pf_pages pf3 (PageId 2) = Some (page_new (PageId 2) Heap)"
proof -
  let ?pf = "\<lparr>pf_file = (quiet_file [])\<lparr>fl_writes := [Transfer 100, Fail (OsError 5)]\<rparr>\<rparr>"
  from sample_log obtain w rs where w: "wal_append_all empty_wal sample_kinds = (Inr (), w)"
    and rs: "read_all (ww_file w) = Inr rs" "log_pages rs = [page_new (PageId 2) Heap]" "log_ok rs" .
  have com: "committed_page rs (PageId 2) = Some (page_new (PageId 2) Heap)"
    by (simp add: committed_page_def rs(2))
  obtain r pf1 where r1: "recover_page_file ?pf (ww_file w) = (r, pf1)" by fastforce
  have "\<exists>db pf3. recover_page_file \<lparr>pf_file = quiet_file (fl_bytes (pf_file pf1))\<rparr> (ww_file w) = (Inr db, pf3)"
    by (rule recover_succeeds [OF rs(1,3)]) (simp_all add: rs(2) page_new_fits)
  then obtain db pf3 where r2: "recover_page_file \<lparr>pf_file = quiet_file (fl_bytes (pf_file pf1))\<rparr> (ww_file w) = (Inr db, pf3)"
    by blast
  have "pf_wf ?pf" by (simp add: pf_wf_def file_wf_def quiet_file_def)
  from interrupted_recovery_restarts [OF this rs(1,3) r1 _ r2] com
  have "pf_pages pf3 (PageId 2) = Some (page_new (PageId 2) Heap)" by (simp add: map_add_def)
  with w r1 r2 show ?thesis by blast
qed

text \<open>C36: when the process dies while appending a record, so that the log ends in part of it,
  the next recovery reports corruption and does not touch the data file.\<close>

theorem torn_log_blocks_recovery:
  assumes "wal_wf w" and "reads_ok (ww_file w)" and "read_all (ww_file w) = Inr rs" and "kind_wf k"
    and "wal_append w k = (Inl e, w')" and "fl_bytes (ww_file w') \<noteq> fl_bytes (ww_file w)"
  shows "\<exists>m. recover_page_file pf (ww_file w') = (Inl (Corruption m), pf)"
proof -
  from wal_append_torn [OF assms(1,2,4,3,5)] assms(6) obtain m where "read_all (ww_file w') = Inl (Corruption m)"
    by blast
  then show ?thesis by (simp add: recover_page_file_def)
qed

theorem torn_log_blocks_recovery_witness:
  "\<exists>w' e m. wal_append (empty_wal\<lparr>ww_file := (quiet_file [])\<lparr>fl_writes := [Transfer 10, Fail (OsError 28)]\<rparr>\<rparr>)
       (CommitTx (TxId 1)) = (Inl e, w') \<and>
     recover_page_file \<lparr>pf_file = quiet_file []\<rparr> (ww_file w') = (Inl (Corruption m), \<lparr>pf_file = quiet_file []\<rparr>)"
proof -
  let ?w = "empty_wal\<lparr>ww_file := (quiet_file [])\<lparr>fl_writes := [Transfer 10, Fail (OsError 28)]\<rparr>\<rparr>"
  let ?k = "CommitTx (TxId 1)" let ?r = "\<lparr>wr_lsn = Lsn 0, wr_kind = ?k\<rparr>"
  have wf: "kind_wf ?k" by (simp add: kind_wf_def)
  have len: "length (record_bytes ?r) = 40" using encode_record_Inr(2) [of ?r] wf by simp
  then have ne: "record_bytes ?r \<noteq> []" "drop 10 (record_bytes ?r) \<noteq> []" "take 10 (record_bytes ?r) \<noteq> []" by auto
  have "\<exists>w'. wal_append ?w ?k = (Inl (Io (OsError 28)), w') \<and> fl_bytes (ww_file w') \<noteq> []"
    using encode_record_Inr(1) [of ?r] wf ne len
    by (simp add: wal_append_def encoded_len_wf lsn_allocate_def checked_add_def empty_wal_def quiet_file_def
        vfs_write_all_at_def write_all_at.simps write_at_def MAX_FILE_SIZE_def file_put_def put_def)
  then obtain w' where w': "wal_append ?w ?k = (Inl (Io (OsError 28)), w')" "fl_bytes (ww_file w') \<noteq> []" by blast
  have "wal_wf ?w" "reads_ok (ww_file ?w)" "read_all (ww_file ?w) = Inr []"
    by (simp_all add: empty_wal_def wal_wf_def file_wf_def quiet_file_def reads_ok_def read_all_def vfs_len_def
        read_records.simps)
  from torn_log_blocks_recovery [OF this wf w'(1), of "\<lparr>pf_file = quiet_file []\<rparr>"] w' show ?thesis
    by (auto simp: quiet_file_def)
qed

end
