(* ===== verification/Rdbms_Codec.thy ===== *)
theory Rdbms_Codec
  imports Rdbms_Core
begin

text \<open>
  The byte codec that the catalog, the index nodes and the SQL rows share: the little-endian
  writers, which append to a vector, and the decoding cursor. The source repeats both in each
  crate with other error texts; here the texts are an argument. An encoder returns the bytes
  it appends. The predicate \<open>reads\<close> says that a decoder, started anywhere inside a
  buffer, consumes exactly the given bytes and returns the given value; the locale
  \<open>codec\<close> is the contract between an encoder and its decoder.
\<close>

section \<open>Strings and their bytes\<close>

definition byte_of_char :: "char \<Rightarrow> u8" where
  "byte_of_char c = of_nat (of_char c)"

definition char_of_byte :: "u8 \<Rightarrow> char" where
  "char_of_byte b = char_of (unat b)"

definition string_bytes :: "string \<Rightarrow> byte_list" where
  "string_bytes s = map byte_of_char s"

definition bytes_string :: "byte_list \<Rightarrow> string" where
  "bytes_string bs = map char_of_byte bs"

lemma char_of_byte_of_char [simp]: "char_of_byte (byte_of_char c) = c"
  using of_char_mod_256 [of c, where ?'a = nat]
  by (simp add: char_of_byte_def byte_of_char_def unat_of_nat)

lemma bytes_string_bytes [simp]: "bytes_string (string_bytes s) = s"
  by (simp add: bytes_string_def string_bytes_def comp_def)

lemma length_string_bytes [simp]: "length (string_bytes s) = length s"
  by (simp add: string_bytes_def)

text \<open>The well-formed UTF-8 sequences that \<open>String::from_utf8\<close> accepts.\<close>

definition utf8_cont :: "u8 \<Rightarrow> bool" where
  "utf8_cont b \<longleftrightarrow> 0x80 \<le> b \<and> b \<le> 0xBF"

fun valid_utf8 :: "byte_list \<Rightarrow> bool" where
  "valid_utf8 [] = True"
| "valid_utf8 (a # bs) =
     (if a < 0x80 then valid_utf8 bs
      else if 0xC2 \<le> a \<and> a \<le> 0xDF then
        (case bs of b # r \<Rightarrow> utf8_cont b \<and> valid_utf8 r | _ \<Rightarrow> False)
      else if 0xE0 \<le> a \<and> a \<le> 0xEF then
        (case bs of b # c # r \<Rightarrow>
             utf8_cont b \<and> (a = 0xE0 \<longrightarrow> 0xA0 \<le> b) \<and> (a = 0xED \<longrightarrow> b \<le> 0x9F) \<and>
             utf8_cont c \<and> valid_utf8 r | _ \<Rightarrow> False)
      else if 0xF0 \<le> a \<and> a \<le> 0xF4 then
        (case bs of b # c # d # r \<Rightarrow>
             utf8_cont b \<and> (a = 0xF0 \<longrightarrow> 0x90 \<le> b) \<and> (a = 0xF4 \<longrightarrow> b \<le> 0x8F) \<and>
             utf8_cont c \<and> utf8_cont d \<and> valid_utf8 r | _ \<Rightarrow> False)
      else False)"

text \<open>What the type \<open>String\<close> guarantees of its bytes.\<close>

definition str_ok :: "string \<Rightarrow> bool" where
  "str_ok s \<longleftrightarrow> valid_utf8 (string_bytes s)"

section \<open>Writers\<close>

definition push_u16 :: "u16 \<Rightarrow> byte_list" where
  "push_u16 v = to_le_bytes 2 v"

definition push_u32 :: "u32 \<Rightarrow> byte_list" where
  "push_u32 v = to_le_bytes 4 v"

definition push_u64 :: "u64 \<Rightarrow> byte_list" where
  "push_u64 v = to_le_bytes 8 v"

definition write_u16_len :: "nat \<Rightarrow> string \<Rightarrow> byte_list db_result" where
  "write_u16_len v field =
     (if v < 2 ^ 16 then Inr (push_u16 (of_nat v)) else Inl (User (field @ '' does not fit into u16'')))"

definition write_u32_len :: "nat \<Rightarrow> string \<Rightarrow> byte_list db_result" where
  "write_u32_len v field =
     (if v < 2 ^ 32 then Inr (push_u32 (of_nat v)) else Inl (User (field @ '' does not fit into u32'')))"

definition write_string :: "string \<Rightarrow> byte_list db_result" where
  "write_string s =
     bindR (write_u16_len (length s) ''string length'') (\<lambda>n. Inr (n @ string_bytes s))"

text \<open>A loop that encodes every element of a vector.\<close>

fun encode_each :: "('a \<Rightarrow> byte_list db_result) \<Rightarrow> 'a list \<Rightarrow> byte_list db_result" where
  "encode_each enc [] = Inr []"
| "encode_each enc (x # xs) = bindR (enc x) (\<lambda>b. bindR (encode_each enc xs) (\<lambda>bs. Inr (b @ bs)))"

section \<open>The decoding cursor\<close>

record decode_cursor =
  dc_bytes :: byte_list
  dc_offset :: nat

record cursor_texts =
  ct_overflow :: string
  ct_truncated :: string
  ct_trailing :: string

type_synonym 'a decoder = "decode_cursor \<Rightarrow> ('a \<times> decode_cursor) db_result"

definition cursor_new :: "byte_list \<Rightarrow> decode_cursor" where
  "cursor_new bs = \<lparr>dc_bytes = bs, dc_offset = 0\<rparr>"

definition cursor_read_bytes :: "cursor_texts \<Rightarrow> nat \<Rightarrow> byte_list decoder" where
  "cursor_read_bytes t len c =
     bindR (ok_or (checked_add_usize (dc_offset c) len) (Corruption (ct_overflow t))) (\<lambda>end.
       if length (dc_bytes c) < end then Inl (Corruption (ct_truncated t))
       else Inr (slice (dc_bytes c) (dc_offset c) (end - dc_offset c), c\<lparr>dc_offset := end\<rparr>))"

definition cursor_read_u8 :: "cursor_texts \<Rightarrow> u8 decoder" where
  "cursor_read_u8 t c = bindR (cursor_read_bytes t 1 c) (\<lambda>(bs, c'). Inr (bs ! 0, c'))"

definition cursor_read_u16 :: "cursor_texts \<Rightarrow> u16 decoder" where
  "cursor_read_u16 t c = bindR (cursor_read_bytes t 2 c) (\<lambda>(bs, c'). Inr (from_le_bytes bs, c'))"

definition cursor_read_u32 :: "cursor_texts \<Rightarrow> u32 decoder" where
  "cursor_read_u32 t c = bindR (cursor_read_bytes t 4 c) (\<lambda>(bs, c'). Inr (from_le_bytes bs, c'))"

definition cursor_read_u64 :: "cursor_texts \<Rightarrow> u64 decoder" where
  "cursor_read_u64 t c = bindR (cursor_read_bytes t 8 c) (\<lambda>(bs, c'). Inr (from_le_bytes bs, c'))"

text \<open>A length-prefixed string; \<open>utf8\<close> is the text reported for bytes that are not UTF-8.\<close>

definition cursor_read_string :: "cursor_texts \<Rightarrow> string \<Rightarrow> string decoder" where
  "cursor_read_string t utf8 c =
     bindR (cursor_read_u16 t c) (\<lambda>(len, c1).
     bindR (cursor_read_bytes t (unat len) c1) (\<lambda>(bs, c2).
       if valid_utf8 bs then Inr (bytes_string bs, c2) else Inl (Corruption utf8)))"

definition cursor_is_finished :: "decode_cursor \<Rightarrow> bool" where
  "cursor_is_finished c \<longleftrightarrow> dc_offset c = length (dc_bytes c)"

definition cursor_finish :: "cursor_texts \<Rightarrow> decode_cursor \<Rightarrow> unit db_result" where
  "cursor_finish t c =
     (if dc_offset c = length (dc_bytes c) then Inr () else Inl (Corruption (ct_trailing t)))"

text \<open>\<open>for _ in 0..n\<close> with one decoded element per turn.\<close>

fun decode_many :: "nat \<Rightarrow> 'a decoder \<Rightarrow> 'a list decoder" where
  "decode_many 0 d c = Inr ([], c)"
| "decode_many (Suc n) d c =
     bindR (d c) (\<lambda>(x, c1). bindR (decode_many n d c1) (\<lambda>(xs, c2). Inr (x # xs, c2)))"

section \<open>Decoders consume what encoders wrote\<close>

definition reads :: "'a decoder \<Rightarrow> byte_list \<Rightarrow> 'a \<Rightarrow> bool" where
  "reads d bs x \<longleftrightarrow> (\<forall>pre post. length (pre @ bs @ post) < 2 ^ 64 \<longrightarrow>
     d \<lparr>dc_bytes = pre @ bs @ post, dc_offset = length pre\<rparr> =
       Inr (x, \<lparr>dc_bytes = pre @ bs @ post, dc_offset = length pre + length bs\<rparr>))"

lemma reads_bind:
  assumes "reads d1 b1 x" "reads (d2 x) b2 y"
  shows "reads (\<lambda>c. bindR (d1 c) (\<lambda>(v, c'). d2 v c')) (b1 @ b2) y"
  unfolding reads_def
proof (intro allI impI)
  fix pre post :: byte_list
  assume len: "length (pre @ (b1 @ b2) @ post) < 2 ^ 64"
  have "d1 \<lparr>dc_bytes = pre @ b1 @ b2 @ post, dc_offset = length pre\<rparr> =
      Inr (x, \<lparr>dc_bytes = pre @ b1 @ b2 @ post, dc_offset = length pre + length b1\<rparr>)"
    using assms(1) [unfolded reads_def, rule_format, of pre "b2 @ post"] len by simp
  moreover have "d2 x \<lparr>dc_bytes = (pre @ b1) @ b2 @ post, dc_offset = length (pre @ b1)\<rparr> =
      Inr (y, \<lparr>dc_bytes = (pre @ b1) @ b2 @ post, dc_offset = length (pre @ b1) + length b2\<rparr>)"
    using assms(2) [unfolded reads_def, rule_format, of "pre @ b1" post] len by simp
  ultimately show "bindR (d1 \<lparr>dc_bytes = pre @ (b1 @ b2) @ post, dc_offset = length pre\<rparr>) (\<lambda>(v, c'). d2 v c') =
      Inr (y, \<lparr>dc_bytes = pre @ (b1 @ b2) @ post, dc_offset = length pre + length (b1 @ b2)\<rparr>)"
    by (simp add: add.assoc)
qed

lemma reads_return: "reads (\<lambda>c. Inr (x, c)) [] x"
  by (simp add: reads_def)

lemma reads_map: "reads d bs x \<Longrightarrow> y = f x \<Longrightarrow> reads (\<lambda>c. bindR (d c) (\<lambda>(v, c'). Inr (f v, c'))) bs y"
  by (simp add: reads_def)

lemma reads_done:
  "reads d bs x \<Longrightarrow> (\<And>c. g x c = Inr (y, c)) \<Longrightarrow> reads (\<lambda>c. bindR (d c) (\<lambda>(v, c'). g v c')) bs y"
  by (simp add: reads_def)

lemma reads_bytes: "n = length bs \<Longrightarrow> reads (cursor_read_bytes t n) bs bs"
  by (simp add: reads_def cursor_read_bytes_def checked_add_usize_def slice_def)

lemma reads_u8: "reads (cursor_read_u8 t) [b] b"
  unfolding cursor_read_u8_def [abs_def] by (rule reads_map [OF reads_bytes]) simp_all

lemma reads_u16: "reads (cursor_read_u16 t) (push_u16 v) v"
  unfolding cursor_read_u16_def [abs_def] push_u16_def by (rule reads_map [OF reads_bytes]) simp_all

lemma reads_u32: "reads (cursor_read_u32 t) (push_u32 v) v"
  unfolding cursor_read_u32_def [abs_def] push_u32_def by (rule reads_map [OF reads_bytes]) simp_all

lemma reads_u64: "reads (cursor_read_u64 t) (push_u64 v) v"
  unfolding cursor_read_u64_def [abs_def] push_u64_def by (rule reads_map [OF reads_bytes]) simp_all

lemma reads_string:
  assumes "str_ok s" "write_string s = Inr bs"
  shows "reads (cursor_read_string t u) bs s"
proof -
  from assms(2) have len: "length s < 65536" and bs: "bs = push_u16 (of_nat (length s)) @ string_bytes s"
    by (auto simp: write_string_def write_u16_len_def res_simps split: if_splits)
  have body: "reads (\<lambda>c. bindR (cursor_read_bytes t (unat (of_nat (length s) :: u16)) c)
      (\<lambda>(bs, c'). if valid_utf8 bs then Inr (bytes_string bs, c') else Inl (Corruption u))) (string_bytes s) s"
    using reads_bytes [of "length s" "string_bytes s" t] assms(1) len
    by (simp add: reads_def str_ok_def)
  show ?thesis
    unfolding cursor_read_string_def [abs_def] bs by (rule reads_bind [OF reads_u16]) (rule body)
qed

text \<open>The contract of a pair of an encoder and a decoder, and what it gives for vectors.\<close>

locale codec =
  fixes valid :: "'a \<Rightarrow> bool"
    and enc :: "'a \<Rightarrow> byte_list db_result"
    and dec :: "'a decoder"
  assumes round_trip: "valid x \<Longrightarrow> enc x = Inr bs \<Longrightarrow> reads dec bs x"
begin

lemma many_round_trip:
  "list_all valid xs \<Longrightarrow> encode_each enc xs = Inr bs \<Longrightarrow> reads (decode_many (length xs) dec) bs xs"
proof (induction xs arbitrary: bs)
  case Nil
  then show ?case by (simp add: reads_def)
next
  case (Cons x xs)
  from Cons.prems obtain b bs' where b: "enc x = Inr b" "encode_each enc xs = Inr bs'" "bs = b @ bs'"
    by (auto simp: res_simps)
  have "reads (\<lambda>c. bindR (decode_many (length xs) dec c) (\<lambda>(ys, c'). Inr (x # ys, c'))) bs' (x # xs)"
    using Cons b by (intro reads_map) auto
  moreover have "reads dec b x" using Cons.prems b(1) by (intro round_trip) auto
  ultimately have "reads (\<lambda>c. bindR (dec c) (\<lambda>(v, c'). bindR (decode_many (length xs) dec c')
      (\<lambda>(ys, c'). Inr (v # ys, c')))) (b @ bs') (x # xs)"
    by (intro reads_bind)
  then show ?case by (simp add: decode_many.simps(2) [abs_def] b(3))
qed

end

interpretation u64_codec: codec "\<lambda>_. True" "\<lambda>v. Inr (push_u64 v)" "cursor_read_u64 t" for t
  by unfold_locales (auto intro: reads_u64)

interpretation string_codec: codec str_ok write_string "cursor_read_string t u" for t u
  by unfold_locales (rule reads_string)

lemma decode_top:
  assumes "reads d bs x" "length bs < 2 ^ 64"
  shows "d (cursor_new bs) = Inr (x, \<lparr>dc_bytes = bs, dc_offset = length bs\<rparr>)"
  using assms by (auto simp: reads_def cursor_new_def dest!: spec [of _ "[]"])

end
