(* ===== verification/Rdbms_Catalog.thy ===== *)
theory Rdbms_Catalog
  imports Rdbms_Vfs Rdbms_Codec
begin

text \<open>
  The catalog and heap tables of \<open>crates/rdbms_catalog\<close>. The catalog is kept in memory
  and stored as one record of page 0; heap tables are slotted pages listed by the catalog.
  Methods with \<open>&mut self\<close> return the state they leave behind on every exit, so the
  model shows what an error leaves half done. Constructors that clash with those of the page
  types carry a prefix (\<open>RelTable\<close>, \<open>StorageHeap\<close>).
\<close>

section \<open>Data\<close>

definition CATALOG_PAGE_ID :: page_id where [simp]: "CATALOG_PAGE_ID = PageId 0"
definition CATALOG_MAGIC :: byte_list where "CATALOG_MAGIC = string_bytes ''RDBC''"
definition CATALOG_VERSION :: u16 where "CATALOG_VERSION = 1"
definition STORAGE_HEAP :: u8 where [simp]: "STORAGE_HEAP = 1"
definition STORAGE_INDEX :: u8 where [simp]: "STORAGE_INDEX = 2"

datatype relation_kind = RelTable | RelIndex | RelSystem

fun relation_kind_to_u8 :: "relation_kind \<Rightarrow> u8" where
  "relation_kind_to_u8 RelTable = 1"
| "relation_kind_to_u8 RelIndex = 2"
| "relation_kind_to_u8 RelSystem = 3"

definition msg_relation_kind :: "u8 \<Rightarrow> string" where
  "msg_relation_kind v = ''unknown catalog relation kind: '' @ fmt_nat (unat v)"

definition relation_kind_from_u8 :: "u8 \<Rightarrow> relation_kind db_result" where
  "relation_kind_from_u8 v =
     (if v = 1 then Inr RelTable
      else if v = 2 then Inr RelIndex
      else if v = 3 then Inr RelSystem
      else Inl (Corruption (msg_relation_kind v)))"

record column_def =
  cd_name :: string
  cd_type_name :: string

record extension_info =
  ei_name :: string
  ei_abi_version :: u32
  ei_kind :: string

record heap_storage =
  hs_pages :: "page_id list"

record index_storage =
  is_table_id :: relation_id
  is_column_name :: string
  is_root_page_id :: page_id

datatype storage_object = StorageHeap heap_storage | StorageBPlusTree index_storage

fun storage_heap_pages :: "storage_object \<Rightarrow> page_id list" where
  "storage_heap_pages (StorageHeap h) = hs_pages h"
| "storage_heap_pages (StorageBPlusTree i) = []"

fun storage_index :: "storage_object \<Rightarrow> index_storage option" where
  "storage_index (StorageHeap h) = None"
| "storage_index (StorageBPlusTree i) = Some i"

record relation_info =
  ri_id :: relation_id
  ri_name :: string
  ri_kind :: relation_kind
  ri_storage :: storage_object
  ri_columns :: "column_def list"

definition relation_heap_pages :: "relation_info \<Rightarrow> page_id list" where
  "relation_heap_pages r = storage_heap_pages (ri_storage r)"

definition is_heap_table :: "relation_info \<Rightarrow> bool" where
  "is_heap_table r \<longleftrightarrow> ri_kind r = RelTable"

definition relation_index_storage :: "relation_info \<Rightarrow> index_storage option" where
  "relation_index_storage r = storage_index (ri_storage r)"

record catalog =
  cat_next_relation_id :: u64
  cat_next_page_id :: u64
  cat_relations :: "relation_info list"
  cat_extensions :: "extension_info list"

definition catalog_empty :: catalog where
  "catalog_empty = \<lparr>cat_next_relation_id = 1, cat_next_page_id = 1, cat_relations = [], cat_extensions = []\<rparr>"

section \<open>Validation of names and columns\<close>

definition msg_name_empty :: "string \<Rightarrow> string" where
  "msg_name_empty kind = kind @ '' name must not be empty''"

definition msg_name_long :: "string \<Rightarrow> string" where
  "msg_name_long kind = kind @ '' name is too long''"

definition msg_duplicate_column :: "string \<Rightarrow> string" where
  "msg_duplicate_column name = ''duplicate column name: '' @ name"

definition msg_too_many_columns :: string where
  "msg_too_many_columns = ''too many columns''"

definition validate_name :: "string \<Rightarrow> string \<Rightarrow> unit db_result" where
  "validate_name kind name =
     (if name = [] then Inl (User (msg_name_empty kind))
      else if 65535 < length name then Inl (User (msg_name_long kind))
      else Inr ())"

fun validate_columns_from :: "column_def list \<Rightarrow> column_def list \<Rightarrow> unit db_result" where
  "validate_columns_from previous [] = Inr ()"
| "validate_columns_from previous (c # cs) =
     bindR (validate_name ''column'' (cd_name c)) (\<lambda>_.
     bindR (validate_name ''type'' (cd_type_name c)) (\<lambda>_.
       if list_ex (\<lambda>p. cd_name p = cd_name c) previous
       then Inl (User (msg_duplicate_column (cd_name c)))
       else validate_columns_from (previous @ [c]) cs))"

definition validate_columns :: "column_def list \<Rightarrow> unit db_result" where
  "validate_columns columns =
     (if 65535 < length columns then Inl (User msg_too_many_columns)
      else validate_columns_from [] columns)"

section \<open>Lookups\<close>

definition extension_by_name :: "catalog \<Rightarrow> string \<Rightarrow> extension_info option" where
  "extension_by_name c name = find (\<lambda>e. ei_name e = name) (cat_extensions c)"

definition relation_by_id :: "catalog \<Rightarrow> relation_id \<Rightarrow> relation_info option" where
  "relation_by_id c rid = find (\<lambda>r. ri_id r = rid) (cat_relations c)"

definition relation_by_name :: "catalog \<Rightarrow> string \<Rightarrow> relation_info option" where
  "relation_by_name c name = find (\<lambda>r. ri_name r = name) (cat_relations c)"

definition indexes_on_table :: "catalog \<Rightarrow> relation_id \<Rightarrow> relation_info list" where
  "indexes_on_table c table_id =
     filter (\<lambda>r. ri_kind r = RelIndex \<and>
       (case relation_index_storage r of Some s \<Rightarrow> is_table_id s = table_id | None \<Rightarrow> False))
       (cat_relations c)"

section \<open>Changes of the catalog\<close>

definition msg_relation_overflow :: string where
  "msg_relation_overflow = ''relation id overflow''"

definition msg_page_overflow :: string where
  "msg_page_overflow = ''page id overflow''"

definition msg_extension_differs :: "string \<Rightarrow> string" where
  "msg_extension_differs name = ''extension already registered with different metadata: '' @ name"

definition msg_relation_exists :: "string \<Rightarrow> string" where
  "msg_relation_exists name = ''relation already exists: '' @ name"

definition msg_table_without_heap :: string where
  "msg_table_without_heap = ''table relation without heap storage''"

definition msg_index_without_storage :: string where
  "msg_index_without_storage = ''index relation without index storage''"

definition allocate_relation_id :: "catalog \<Rightarrow> (catalog, db_error, relation_id) stres" where
  "allocate_relation_id c =
     (case checked_add (cat_next_relation_id c) 1 of
        None \<Rightarrow> (Inl (User msg_relation_overflow), c)
      | Some n \<Rightarrow> (Inr (RelationId (cat_next_relation_id c)), c\<lparr>cat_next_relation_id := n\<rparr>))"

definition allocate_page_id :: "catalog \<Rightarrow> (catalog, db_error, page_id) stres" where
  "allocate_page_id c =
     (case checked_add (cat_next_page_id c) 1 of
        None \<Rightarrow> (Inl (User msg_page_overflow), c)
      | Some n \<Rightarrow> (Inr (PageId (cat_next_page_id c)), c\<lparr>cat_next_page_id := n\<rparr>))"

definition register_extension_metadata ::
  "catalog \<Rightarrow> string \<Rightarrow> u32 \<Rightarrow> string \<Rightarrow> (catalog, db_error, bool) stres" where
  "register_extension_metadata c name abi_version kind =
     (case bindR (validate_name ''extension'' name) (\<lambda>_. validate_name ''extension kind'' kind) of
        Inl e \<Rightarrow> (Inl e, c)
      | Inr _ \<Rightarrow> (case extension_by_name c name of
           Some existing \<Rightarrow>
             if ei_abi_version existing = abi_version \<and> ei_kind existing = kind then (Inr False, c)
             else (Inl (User (msg_extension_differs name)), c)
         | None \<Rightarrow> (Inr True, c\<lparr>cat_extensions := cat_extensions c @
               [\<lparr>ei_name = name, ei_abi_version = abi_version, ei_kind = kind\<rparr>]\<rparr>)))"

definition create_table_metadata ::
  "catalog \<Rightarrow> string \<Rightarrow> column_def list \<Rightarrow> (catalog, db_error, relation_id \<times> page_id) stres" where
  "create_table_metadata c name columns =
     (case bindR (validate_name ''relation'' name) (\<lambda>_. validate_columns columns) of
        Inl e \<Rightarrow> (Inl e, c)
      | Inr _ \<Rightarrow>
          if relation_by_name c name \<noteq> None then (Inl (User (msg_relation_exists name)), c)
          else bindS (allocate_relation_id c) (\<lambda>rid c1.
               bindS (allocate_page_id c1) (\<lambda>pid c2.
                 (Inr (rid, pid), c2\<lparr>cat_relations := cat_relations c2 @
                   [\<lparr>ri_id = rid, ri_name = name, ri_kind = RelTable,
                     ri_storage = StorageHeap \<lparr>hs_pages = [pid]\<rparr>, ri_columns = columns\<rparr>]\<rparr>))))"

text \<open>\<open>iter_mut().find(..)\<close>: the first match is updated by a step that may fail.\<close>

fun update_first :: "('a \<Rightarrow> bool) \<Rightarrow> ('a \<Rightarrow> db_error + 'a) \<Rightarrow> db_error \<Rightarrow> 'a list \<Rightarrow> db_error + 'a list" where
  "update_first P f missing [] = Inl missing"
| "update_first P f missing (x # xs) =
     (if P x then bindR (f x) (\<lambda>y. Inr (y # xs))
      else bindR (update_first P f missing xs) (\<lambda>ys. Inr (x # ys)))"

definition msg_unknown_relation :: "relation_id \<Rightarrow> string" where
  "msg_unknown_relation rid = ''unknown relation id: '' @ fmt_nat (unat (relation_no rid))"

definition msg_not_heap :: "relation_id \<Rightarrow> string" where
  "msg_not_heap rid = ''relation is not a heap table: '' @ fmt_nat (unat (relation_no rid))"

definition push_heap_page :: "relation_id \<Rightarrow> page_id \<Rightarrow> relation_info \<Rightarrow> relation_info db_result" where
  "push_heap_page rid pid r =
     (if ri_kind r \<noteq> RelTable then Inl (User (msg_not_heap rid))
      else case ri_storage r of
        StorageHeap h \<Rightarrow> Inr (r\<lparr>ri_storage := StorageHeap (h\<lparr>hs_pages := hs_pages h @ [pid]\<rparr>)\<rparr>)
      | StorageBPlusTree _ \<Rightarrow> Inl (InternalInvariant msg_table_without_heap))"

definition append_heap_page :: "catalog \<Rightarrow> relation_id \<Rightarrow> page_id \<Rightarrow> (catalog, db_error, unit) stres" where
  "append_heap_page c rid pid =
     (case update_first (\<lambda>r. ri_id r = rid) (push_heap_page rid pid) (User (msg_unknown_relation rid))
             (cat_relations c) of
        Inl e \<Rightarrow> (Inl e, c)
      | Inr rs \<Rightarrow> (Inr (), c\<lparr>cat_relations := rs\<rparr>))"

definition msg_unknown_table :: "relation_id \<Rightarrow> string" where
  "msg_unknown_table rid = ''unknown table relation id: '' @ fmt_nat (unat (relation_no rid))"

definition msg_indexed_not_heap :: "relation_id \<Rightarrow> string" where
  "msg_indexed_not_heap rid = ''indexed relation is not a heap table: '' @ fmt_nat (unat (relation_no rid))"

definition msg_indexed_column :: "string \<Rightarrow> string \<Rightarrow> string" where
  "msg_indexed_column column_name table_name =
     ''unknown indexed column '' @ [char_of (39::nat)] @ column_name @ [char_of (39::nat)] @
     '' on relation '' @ [char_of (39::nat)] @ table_name @ [char_of (39::nat)]"

definition msg_index_exists :: "relation_id \<Rightarrow> string \<Rightarrow> string" where
  "msg_index_exists rid column_name =
     ''index already exists on relation '' @ fmt_nat (unat (relation_no rid)) @ '' column '' @ column_name"

definition check_new_index :: "catalog \<Rightarrow> string \<Rightarrow> relation_id \<Rightarrow> string \<Rightarrow> unit db_result" where
  "check_new_index c name table_id column_name =
     bindR (validate_name ''index'' name) (\<lambda>_.
     bindR (validate_name ''column'' column_name) (\<lambda>_.
       if relation_by_name c name \<noteq> None then Inl (User (msg_relation_exists name))
       else bindR (ok_or (relation_by_id c table_id) (User (msg_unknown_table table_id))) (\<lambda>table.
         if \<not> is_heap_table table then Inl (User (msg_indexed_not_heap table_id))
         else if list_all (\<lambda>col. cd_name col \<noteq> column_name) (ri_columns table)
         then Inl (User (msg_indexed_column column_name (ri_name table)))
         else if list_ex (\<lambda>r. case relation_index_storage r of
                   Some s \<Rightarrow> is_column_name s = column_name | None \<Rightarrow> False) (indexes_on_table c table_id)
         then Inl (User (msg_index_exists table_id column_name))
         else Inr ())))"

definition create_index_metadata ::
  "catalog \<Rightarrow> string \<Rightarrow> relation_id \<Rightarrow> string \<Rightarrow> (catalog, db_error, relation_id \<times> page_id) stres" where
  "create_index_metadata c name table_id column_name =
     (case check_new_index c name table_id column_name of
        Inl e \<Rightarrow> (Inl e, c)
      | Inr _ \<Rightarrow>
          bindS (allocate_relation_id c) (\<lambda>rid c1.
          bindS (allocate_page_id c1) (\<lambda>root c2.
            (Inr (rid, root), c2\<lparr>cat_relations := cat_relations c2 @
              [\<lparr>ri_id = rid, ri_name = name, ri_kind = RelIndex,
                ri_storage = StorageBPlusTree
                  \<lparr>is_table_id = table_id, is_column_name = column_name, is_root_page_id = root\<rparr>,
                ri_columns = [\<lparr>cd_name = column_name, cd_type_name = ''INDEX_KEY''\<rparr>]\<rparr>]\<rparr>))))"

definition msg_unknown_index :: "relation_id \<Rightarrow> string" where
  "msg_unknown_index rid = ''unknown index relation id: '' @ fmt_nat (unat (relation_no rid))"

definition msg_not_index :: "relation_id \<Rightarrow> string" where
  "msg_not_index rid = ''relation is not an index: '' @ fmt_nat (unat (relation_no rid))"

definition set_root_page_id :: "relation_id \<Rightarrow> page_id \<Rightarrow> relation_info \<Rightarrow> relation_info db_result" where
  "set_root_page_id rid root r =
     (if ri_kind r \<noteq> RelIndex then Inl (User (msg_not_index rid))
      else case ri_storage r of
        StorageBPlusTree i \<Rightarrow> Inr (r\<lparr>ri_storage := StorageBPlusTree (i\<lparr>is_root_page_id := root\<rparr>)\<rparr>)
      | StorageHeap _ \<Rightarrow> Inl (InternalInvariant msg_index_without_storage))"

definition set_index_root_page :: "catalog \<Rightarrow> relation_id \<Rightarrow> page_id \<Rightarrow> (catalog, db_error, unit) stres" where
  "set_index_root_page c rid root =
     (case update_first (\<lambda>r. ri_id r = rid) (set_root_page_id rid root) (User (msg_unknown_index rid))
             (cat_relations c) of
        Inl e \<Rightarrow> (Inl e, c)
      | Inr rs \<Rightarrow> (Inr (), c\<lparr>cat_relations := rs\<rparr>))"

section \<open>The record of the catalog page\<close>

definition encode_storage_object :: "storage_object \<Rightarrow> byte_list db_result" where
  "encode_storage_object s = (case s of
     StorageHeap h \<Rightarrow>
       bindR (write_u32_len (length (hs_pages h)) ''heap page count'') (\<lambda>n.
       bindR (encode_each (\<lambda>pid. Inr (push_u64 (page_no pid))) (hs_pages h)) (\<lambda>ps.
         Inr ([STORAGE_HEAP] @ n @ ps)))
   | StorageBPlusTree i \<Rightarrow>
       bindR (write_string (is_column_name i)) (\<lambda>name.
         Inr ([STORAGE_INDEX] @ push_u64 (relation_no (is_table_id i)) @ push_u64 (page_no (is_root_page_id i)) @ name)))"

definition encode_column :: "column_def \<Rightarrow> byte_list db_result" where
  "encode_column col =
     bindR (write_string (cd_name col)) (\<lambda>a. bindR (write_string (cd_type_name col)) (\<lambda>b. Inr (a @ b)))"

definition encode_relation :: "relation_info \<Rightarrow> byte_list db_result" where
  "encode_relation r =
     bindR (encode_storage_object (ri_storage r)) (\<lambda>st.
     bindR (write_string (ri_name r)) (\<lambda>name.
     bindR (write_u16_len (length (ri_columns r)) ''column count'') (\<lambda>n.
     bindR (encode_each encode_column (ri_columns r)) (\<lambda>cols.
       Inr (push_u64 (relation_no (ri_id r)) @ [relation_kind_to_u8 (ri_kind r)] @ st @ name @ n @ cols)))))"

definition encode_extension :: "extension_info \<Rightarrow> byte_list db_result" where
  "encode_extension e =
     bindR (write_string (ei_name e)) (\<lambda>name.
     bindR (write_string (ei_kind e)) (\<lambda>kind.
       Inr (name @ push_u32 (ei_abi_version e) @ kind)))"

definition encode_catalog :: "catalog \<Rightarrow> byte_list db_result" where
  "encode_catalog c =
     bindR (write_u32_len (length (cat_relations c)) ''relation count'') (\<lambda>n.
     bindR (encode_each encode_relation (cat_relations c)) (\<lambda>rels.
     bindR (write_u32_len (length (cat_extensions c)) ''extension count'') (\<lambda>m.
     bindR (encode_each encode_extension (cat_extensions c)) (\<lambda>exts.
       Inr (CATALOG_MAGIC @ push_u16 CATALOG_VERSION @ push_u64 (cat_next_relation_id c) @
            push_u64 (cat_next_page_id c) @ n @ rels @ m @ exts)))))"

definition catalog_texts :: cursor_texts where
  "catalog_texts = \<lparr>ct_overflow = ''catalog offset overflow'', ct_truncated = ''catalog record is truncated'',
     ct_trailing = ''catalog record has trailing bytes''\<rparr>"

definition catalog_read_string :: "string decoder" where
  "catalog_read_string = cursor_read_string catalog_texts ''catalog string is not valid UTF-8''"

definition msg_storage_kind :: "u8 \<Rightarrow> string" where
  "msg_storage_kind v = ''unknown catalog storage object kind: '' @ fmt_nat (unat v)"

definition decode_storage_object :: "storage_object decoder" where
  "decode_storage_object cur =
     bindR (cursor_read_u8 catalog_texts cur) (\<lambda>(storage_kind, c1).
       if storage_kind = STORAGE_HEAP then
         bindR (cursor_read_u32 catalog_texts c1) (\<lambda>(page_count, c2).
         bindR (decode_many (unat page_count) (\<lambda>c. bindR (cursor_read_u64 catalog_texts c) (\<lambda>(v, c'). Inr (PageId v, c'))) c2)
           (\<lambda>(pages, c3). if pages = [] then Inl (Corruption ''heap storage has no pages'')
                          else Inr (StorageHeap \<lparr>hs_pages = pages\<rparr>, c3)))
       else if storage_kind = STORAGE_INDEX then
         bindR (cursor_read_u64 catalog_texts c1) (\<lambda>(table_id, c2).
         bindR (cursor_read_u64 catalog_texts c2) (\<lambda>(root, c3).
         bindR (catalog_read_string c3) (\<lambda>(column_name, c4).
           Inr (StorageBPlusTree \<lparr>is_table_id = RelationId table_id, is_column_name = column_name,
                                  is_root_page_id = PageId root\<rparr>, c4))))
       else Inl (Corruption (msg_storage_kind storage_kind)))"

definition decode_column :: "column_def decoder" where
  "decode_column cur =
     bindR (catalog_read_string cur) (\<lambda>(name, c1).
     bindR (catalog_read_string c1) (\<lambda>(type_name, c2).
       Inr (\<lparr>cd_name = name, cd_type_name = type_name\<rparr>, c2)))"

definition decode_relation :: "relation_info decoder" where
  "decode_relation cur =
     bindR (cursor_read_u64 catalog_texts cur) (\<lambda>(rid, c1).
     bindR (cursor_read_u8 catalog_texts c1) (\<lambda>(k, c2).
     bindR (relation_kind_from_u8 k) (\<lambda>kind.
     bindR (decode_storage_object c2) (\<lambda>(storage, c3).
     bindR (catalog_read_string c3) (\<lambda>(name, c4).
     bindR (cursor_read_u16 catalog_texts c4) (\<lambda>(column_count, c5).
     bindR (decode_many (unat column_count) decode_column c5) (\<lambda>(columns, c6).
       Inr (\<lparr>ri_id = RelationId rid, ri_name = name, ri_kind = kind, ri_storage = storage,
              ri_columns = columns\<rparr>, c6))))))))"

definition decode_extension :: "extension_info decoder" where
  "decode_extension cur =
     bindR (catalog_read_string cur) (\<lambda>(name, c1).
     bindR (cursor_read_u32 catalog_texts c1) (\<lambda>(abi_version, c2).
     bindR (catalog_read_string c2) (\<lambda>(kind, c3).
       Inr (\<lparr>ei_name = name, ei_abi_version = abi_version, ei_kind = kind\<rparr>, c3))))"

text \<open>The extension section is absent in catalogs written before it existed.\<close>

definition decode_extensions :: "extension_info list decoder" where
  "decode_extensions cur =
     (if cursor_is_finished cur then Inr ([], cur)
      else bindR (cursor_read_u32 catalog_texts cur) (\<lambda>(extension_count, c1).
        decode_many (unat extension_count) decode_extension c1))"

definition msg_catalog_version :: "u16 \<Rightarrow> string" where
  "msg_catalog_version v = ''unsupported catalog version: '' @ fmt_nat (unat v)"

definition decode_catalog_body :: "catalog decoder" where
  "decode_catalog_body cur =
     bindR (cursor_read_bytes catalog_texts 4 cur) (\<lambda>(magic, c1).
       if magic \<noteq> CATALOG_MAGIC then Inl (Corruption ''invalid catalog magic'')
       else bindR (cursor_read_u16 catalog_texts c1) (\<lambda>(version, c2).
         if version \<noteq> CATALOG_VERSION then Inl (Corruption (msg_catalog_version version))
         else bindR (cursor_read_u64 catalog_texts c2) (\<lambda>(next_relation_id, c3).
              bindR (cursor_read_u64 catalog_texts c3) (\<lambda>(next_page_id, c4).
              bindR (cursor_read_u32 catalog_texts c4) (\<lambda>(relation_count, c5).
              bindR (decode_many (unat relation_count) decode_relation c5) (\<lambda>(relations, c6).
              bindR (decode_extensions c6) (\<lambda>(extensions, c7).
                Inr (\<lparr>cat_next_relation_id = next_relation_id, cat_next_page_id = next_page_id,
                      cat_relations = relations, cat_extensions = extensions\<rparr>, c7))))))))"

definition decode_catalog :: "byte_list \<Rightarrow> catalog db_result" where
  "decode_catalog bs =
     bindR (decode_catalog_body (cursor_new bs)) (\<lambda>(c, cur).
     bindR (cursor_finish catalog_texts cur) (\<lambda>_. Inr c))"

section \<open>Loading and saving\<close>

definition to_page :: "catalog \<Rightarrow> page db_result" where
  "to_page c =
     bindR (encode_catalog c) (\<lambda>bs.
       case insert_record (page_new CATALOG_PAGE_ID Catalog) bs of
         (Inl e, _) \<Rightarrow> Inl e
       | (Inr _, p) \<Rightarrow> Inr p)"

definition catalog_save :: "catalog \<Rightarrow> page_file \<Rightarrow> (page_file, db_error, unit) stres" where
  "catalog_save c pf = (case to_page c of Inl e \<Rightarrow> (Inl e, pf) | Inr p \<Rightarrow> write_page pf p)"

definition msg_short_file :: "u64 \<Rightarrow> string" where
  "msg_short_file len = ''database file is too short for catalog page: '' @ fmt_nat (unat len) @ '' bytes''"

definition catalog_load :: "page_file \<Rightarrow> catalog db_result" where
  "catalog_load pf =
     bindR (read_page pf CATALOG_PAGE_ID) (\<lambda>p.
     bindR (header p) (\<lambda>h.
       if h_page_type h \<noteq> Catalog then Inl (Corruption ''page 0 is not a catalog page'')
       else bindR (read_record p (SlotId 0)) (\<lambda>r.
            bindR (ok_or r (Corruption ''catalog record is missing'')) decode_catalog)))"

definition load_or_bootstrap :: "page_file \<Rightarrow> (page_file, db_error, catalog) stres" where
  "load_or_bootstrap pf =
     (case page_file_len pf of
        Inl e \<Rightarrow> (Inl e, pf)
      | Inr len \<Rightarrow>
          if len = 0 then bindS (catalog_save catalog_empty pf) (\<lambda>_ pf'. (Inr catalog_empty, pf'))
          else if len < of_nat PAGE_SIZE then (Inl (Corruption (msg_short_file len)), pf)
          else (catalog_load pf, pf))"

section \<open>The catalog store\<close>

record heap_row =
  hr_row_id :: row_id
  hr_bytes :: byte_list

record catalog_store =
  cs_page_file :: page_file
  cs_catalog :: catalog

definition store_open :: "page_file \<Rightarrow> (page_file, db_error, catalog_store) stres" where
  "store_open pf = bindS (load_or_bootstrap pf) (\<lambda>c pf'. (Inr \<lparr>cs_page_file = pf', cs_catalog = c\<rparr>, pf'))"

definition open_catalog_store :: "std_vfs \<Rightarrow> string \<Rightarrow> (std_vfs, db_error, catalog_store) stres" where
  "open_catalog_store v path =
     bindS (open_page_file v path) (\<lambda>pf v'.
       case store_open pf of
         (r, pf') \<Rightarrow> (r, v'\<lparr>sv_files := (sv_files v')(path \<mapsto> pf_file pf')\<rparr>))"

definition replace_catalog :: "catalog_store \<Rightarrow> catalog \<Rightarrow> catalog_store" where
  "replace_catalog s c = s\<lparr>cs_catalog := c\<rparr>"

definition store_save :: "catalog_store \<Rightarrow> (catalog_store, db_error, unit) stres" where
  "store_save s =
     (case catalog_save (cs_catalog s) (cs_page_file s) of (r, pf') \<Rightarrow> (r, s\<lparr>cs_page_file := pf'\<rparr>))"

definition store_write_page :: "catalog_store \<Rightarrow> page \<Rightarrow> (catalog_store, db_error, unit) stres" where
  "store_write_page s p = (case write_page (cs_page_file s) p of (r, pf') \<Rightarrow> (r, s\<lparr>cs_page_file := pf'\<rparr>))"

definition store_create_table ::
  "catalog_store \<Rightarrow> string \<Rightarrow> column_def list \<Rightarrow> (catalog_store, db_error, relation_id) stres" where
  "store_create_table s name columns =
     (case create_table_metadata (cs_catalog s) name columns of
        (Inl e, c) \<Rightarrow> (Inl e, s\<lparr>cs_catalog := c\<rparr>)
      | (Inr (rid, first_page_id), c) \<Rightarrow>
          bindS (store_write_page (s\<lparr>cs_catalog := c\<rparr>) (page_new first_page_id Heap)) (\<lambda>_ s1.
          bindS (store_save s1) (\<lambda>_ s2. (Inr rid, s2))))"

definition ensure_heap_relation :: "catalog \<Rightarrow> relation_id \<Rightarrow> unit db_result" where
  "ensure_heap_relation c rid =
     bindR (ok_or (relation_by_id c rid) (User (msg_unknown_relation rid))) (\<lambda>r.
       if ri_kind r \<noteq> RelTable then Inl (User (msg_not_heap rid)) else Inr ())"

definition heap_pages :: "catalog \<Rightarrow> relation_id \<Rightarrow> page_id list db_result" where
  "heap_pages c rid =
     bindR (ok_or (relation_by_id c rid) (User (msg_unknown_relation rid))) (\<lambda>r. Inr (relation_heap_pages r))"

text \<open>The loop over the pages of the table: the first page that has room takes the record.\<close>

fun insert_into_pages :: "catalog_store \<Rightarrow> byte_list \<Rightarrow> page_id list \<Rightarrow> (catalog_store, db_error, row_id option) stres" where
  "insert_into_pages s bytes [] = (Inr None, s)"
| "insert_into_pages s bytes (pid # rest) =
     (case read_page (cs_page_file s) pid of
        Inl e \<Rightarrow> (Inl e, s)
      | Inr p \<Rightarrow> (case insert_record p bytes of
           (Inr slot, p') \<Rightarrow> bindS (store_write_page s p') (\<lambda>_ s'. (Inr (Some (RowId pid slot)), s'))
         | (Inl (User _), _) \<Rightarrow> insert_into_pages s bytes rest
         | (Inl e, _) \<Rightarrow> (Inl e, s)))"

definition insert_into_new_page :: "catalog_store \<Rightarrow> relation_id \<Rightarrow> byte_list \<Rightarrow> (catalog_store, db_error, row_id) stres" where
  "insert_into_new_page s rid bytes =
     (case allocate_page_id (cs_catalog s) of
        (Inl e, c) \<Rightarrow> (Inl e, s\<lparr>cs_catalog := c\<rparr>)
      | (Inr pid, c) \<Rightarrow>
     (case insert_record (page_new pid Heap) bytes of
        (Inl e, _) \<Rightarrow> (Inl e, s\<lparr>cs_catalog := c\<rparr>)
      | (Inr slot, p) \<Rightarrow>
          bindS (store_write_page (s\<lparr>cs_catalog := c\<rparr>) p) (\<lambda>_ s1.
            case append_heap_page (cs_catalog s1) rid pid of
              (Inl e, c2) \<Rightarrow> (Inl e, s1\<lparr>cs_catalog := c2\<rparr>)
            | (Inr _, c2) \<Rightarrow>
                bindS (store_save (s1\<lparr>cs_catalog := c2\<rparr>)) (\<lambda>_ s2. (Inr (RowId pid slot), s2)))))"

definition store_insert_row :: "catalog_store \<Rightarrow> relation_id \<Rightarrow> byte_list \<Rightarrow> (catalog_store, db_error, row_id) stres" where
  "store_insert_row s rid bytes =
     (case bindR (ensure_heap_relation (cs_catalog s) rid) (\<lambda>_. heap_pages (cs_catalog s) rid) of
        Inl e \<Rightarrow> (Inl e, s)
      | Inr page_ids \<Rightarrow>
          bindS (insert_into_pages s bytes page_ids) (\<lambda>r s1.
            case r of Some row_id \<Rightarrow> (Inr row_id, s1) | None \<Rightarrow> insert_into_new_page s1 rid bytes))"

definition msg_not_heap_page :: "page_id \<Rightarrow> string" where
  "msg_not_heap_page pid = ''relation page is not a heap page: '' @ fmt_nat (unat (page_no pid))"

fun scan_slots :: "page \<Rightarrow> page_id \<Rightarrow> nat list \<Rightarrow> heap_row list db_result" where
  "scan_slots p pid [] = Inr []"
| "scan_slots p pid (i # is) =
     bindR (read_record p (SlotId (of_nat i))) (\<lambda>r.
     bindR (scan_slots p pid is) (\<lambda>rows.
       Inr (case r of
              Some bytes \<Rightarrow> \<lparr>hr_row_id = RowId pid (SlotId (of_nat i)), hr_bytes = bytes\<rparr> # rows
            | None \<Rightarrow> rows)))"

definition scan_page :: "page_id \<Rightarrow> page \<Rightarrow> heap_row list db_result" where
  "scan_page pid p =
     bindR (header p) (\<lambda>h.
       if h_page_type h \<noteq> Heap then Inl (Corruption (msg_not_heap_page pid))
       else scan_slots p pid [0..<unat (h_slot_count h)])"

text \<open>The scan of a list of pages, for a given way of loading a page.\<close>

definition scan_pages :: "(page_id \<Rightarrow> page db_result) \<Rightarrow> page_id list \<Rightarrow> heap_row list db_result" where
  "scan_pages load pids =
     bindR (collectR (\<lambda>pid. bindR (load pid) (scan_page pid)) pids) (\<lambda>rows. Inr (concat rows))"

definition store_full_scan :: "catalog_store \<Rightarrow> relation_id \<Rightarrow> heap_row list db_result" where
  "store_full_scan s rid =
     bindR (ensure_heap_relation (cs_catalog s) rid) (\<lambda>_.
     bindR (heap_pages (cs_catalog s) rid) (\<lambda>pids. scan_pages (read_page (cs_page_file s)) pids))"

definition msg_row_page :: "page_id \<Rightarrow> relation_id \<Rightarrow> string" where
  "msg_row_page pid rid =
     ''row page '' @ fmt_nat (unat (page_no pid)) @ '' does not belong to relation '' @ fmt_nat (unat (relation_no rid))"

definition store_read_row :: "catalog_store \<Rightarrow> relation_id \<Rightarrow> row_id \<Rightarrow> heap_row option db_result" where
  "store_read_row s rid row =
     bindR (ensure_heap_relation (cs_catalog s) rid) (\<lambda>_.
     bindR (heap_pages (cs_catalog s) rid) (\<lambda>pids.
       if row_page_id row \<notin> set pids then Inl (User (msg_row_page (row_page_id row) rid))
       else bindR (read_page (cs_page_file s) (row_page_id row)) (\<lambda>p.
            bindR (header p) (\<lambda>h.
              if h_page_type h \<noteq> Heap then Inl (Corruption (msg_not_heap_page (row_page_id row)))
              else bindR (read_record p (row_slot_id row)) (\<lambda>r.
                Inr (map_option (\<lambda>bytes. \<lparr>hr_row_id = row, hr_bytes = bytes\<rparr>) r))))))"

definition store_sync_data :: "catalog_store \<Rightarrow> (catalog_store, db_error, unit) stres" where
  "store_sync_data s =
     (case page_file_sync_data (cs_page_file s) of (r, pf') \<Rightarrow> (r, s\<lparr>cs_page_file := pf'\<rparr>))"

end
