(* ===== verification/Rdbms_Catalog_Spec.thy ===== *)
theory Rdbms_Catalog_Spec
  imports Rdbms_Catalog
begin

text \<open>
  What the catalog promises: its record decodes to the catalog it was encoded from, saving
  and reopening a store preserves it, its identifiers stay unique and fresh under every
  operation, and rows inserted into a heap table are found again while all other rows stay
  where they are.
\<close>

section \<open>The catalog record\<close>

definition column_ok :: "column_def \<Rightarrow> bool" where
  "column_ok c \<longleftrightarrow> str_ok (cd_name c) \<and> str_ok (cd_type_name c)"

definition storage_ok :: "storage_object \<Rightarrow> bool" where
  "storage_ok s = (case s of
     StorageHeap h \<Rightarrow> hs_pages h \<noteq> [] | StorageBPlusTree i \<Rightarrow> str_ok (is_column_name i))"

definition relation_ok :: "relation_info \<Rightarrow> bool" where
  "relation_ok r \<longleftrightarrow> str_ok (ri_name r) \<and> storage_ok (ri_storage r) \<and> list_all column_ok (ri_columns r)"

definition extension_ok :: "extension_info \<Rightarrow> bool" where
  "extension_ok e \<longleftrightarrow> str_ok (ei_name e) \<and> str_ok (ei_kind e)"

definition catalog_ok :: "catalog \<Rightarrow> bool" where
  "catalog_ok c \<longleftrightarrow> list_all relation_ok (cat_relations c) \<and> list_all extension_ok (cat_extensions c)"

lemma relation_kind_round_trip [simp]: "relation_kind_from_u8 (relation_kind_to_u8 k) = Inr k"
  by (cases k) (simp_all add: relation_kind_from_u8_def)

lemma write_u32_len_Inr:
  "write_u32_len n f = Inr bs \<Longrightarrow> bs = push_u32 (of_nat n) \<and> unat (of_nat n :: u32) = n"
  by (auto simp: write_u32_len_def split: if_splits)

lemma write_u16_len_Inr:
  "write_u16_len n f = Inr bs \<Longrightarrow> bs = push_u16 (of_nat n) \<and> unat (of_nat n :: u16) = n"
  by (auto simp: write_u16_len_def split: if_splits)

interpretation page_id_codec: codec "\<lambda>_. True" "\<lambda>pid. Inr (push_u64 (page_no pid))"
  "\<lambda>c. bindR (cursor_read_u64 catalog_texts c) (\<lambda>(v, c'). Inr (PageId v, c'))"
  by unfold_locales (auto intro: reads_map [OF reads_u64])

interpretation column_codec: codec column_ok encode_column decode_column
proof
  fix x bs assume x: "column_ok x" "encode_column x = Inr bs"
  then obtain a b where ab: "write_string (cd_name x) = Inr a" "write_string (cd_type_name x) = Inr b" "bs = a @ b"
    by (auto simp: encode_column_def res_simps)
  show "reads decode_column bs x"
    unfolding decode_column_def [abs_def] ab(3) catalog_read_string_def
    by (rule reads_bind [OF reads_string [OF _ ab(1)]], use x(1) in \<open>simp add: column_ok_def\<close>,
        rule reads_done [OF reads_string [OF _ ab(2)]]) (use x(1) in \<open>simp_all add: column_ok_def\<close>)
qed

interpretation extension_codec: codec extension_ok encode_extension decode_extension
proof
  fix x bs assume x: "extension_ok x" "encode_extension x = Inr bs"
  then obtain a b where ab: "write_string (ei_name x) = Inr a" "write_string (ei_kind x) = Inr b"
    "bs = a @ push_u32 (ei_abi_version x) @ b"
    by (auto simp: encode_extension_def res_simps)
  show "reads decode_extension bs x"
    unfolding decode_extension_def [abs_def] ab(3) catalog_read_string_def
    by (rule reads_bind [OF reads_string [OF _ ab(1)]], use x(1) in \<open>simp add: extension_ok_def\<close>,
        rule reads_bind [OF reads_u32], rule reads_done [OF reads_string [OF _ ab(2)]])
      (use x(1) in \<open>simp_all add: extension_ok_def\<close>)
qed

interpretation storage_codec: codec storage_ok encode_storage_object decode_storage_object
proof
  fix x bs assume x: "storage_ok x" "encode_storage_object x = Inr bs"
  show "reads decode_storage_object bs x"
  proof (cases x)
    case (StorageHeap h)
    with x obtain ps where n: "unat (of_nat (length (hs_pages h)) :: u32) = length (hs_pages h)"
      and ps: "encode_each (\<lambda>pid. Inr (push_u64 (page_no pid))) (hs_pages h) = Inr ps"
      and bs: "bs = [1] @ push_u32 (of_nat (length (hs_pages h))) @ ps"
      by (auto simp: encode_storage_object_def res_simps dest!: write_u32_len_Inr)
    have many: "reads (decode_many (length (hs_pages h))
        (\<lambda>c. bindR (cursor_read_u64 catalog_texts c) (\<lambda>(v, c'). Inr (PageId v, c')))) ps (hs_pages h)"
      by (rule page_id_codec.many_round_trip [OF _ ps]) (simp add: list_all_iff)
    show ?thesis
      unfolding decode_storage_object_def [abs_def] bs StorageHeap
      by (rule reads_bind [OF reads_u8], simp, rule reads_bind [OF reads_u32], rule reads_done, unfold n, rule many)
        (use x(1) StorageHeap in \<open>simp add: storage_ok_def\<close>)
  next
    case (StorageBPlusTree i)
    with x obtain a where a: "write_string (is_column_name i) = Inr a"
      and bs: "bs = [2] @ push_u64 (relation_no (is_table_id i)) @ push_u64 (page_no (is_root_page_id i)) @ a"
      by (auto simp: encode_storage_object_def res_simps)
    show ?thesis
      unfolding decode_storage_object_def [abs_def] bs StorageBPlusTree catalog_read_string_def
      by (rule reads_bind [OF reads_u8], simp, rule reads_bind [OF reads_u64], rule reads_bind [OF reads_u64],
          rule reads_done [OF reads_string [OF _ a]])
        (use x(1) StorageBPlusTree in \<open>simp_all add: storage_ok_def\<close>)
  qed
qed

interpretation relation_codec: codec relation_ok encode_relation decode_relation
proof
  fix x bs assume x: "relation_ok x" "encode_relation x = Inr bs"
  then obtain st name cols where st: "encode_storage_object (ri_storage x) = Inr st"
    and name: "write_string (ri_name x) = Inr name"
    and n: "unat (of_nat (length (ri_columns x)) :: u16) = length (ri_columns x)"
    and cols: "encode_each encode_column (ri_columns x) = Inr cols"
    and bs: "bs = push_u64 (relation_no (ri_id x)) @ [relation_kind_to_u8 (ri_kind x)] @ st @ name @
      push_u16 (of_nat (length (ri_columns x))) @ cols"
    by (auto simp: encode_relation_def res_simps dest!: write_u16_len_Inr)
  have ok: "storage_ok (ri_storage x)" "str_ok (ri_name x)" "list_all column_ok (ri_columns x)"
    using x(1) by (simp_all add: relation_ok_def)
  show "reads decode_relation bs x"
    unfolding decode_relation_def [abs_def] bs catalog_read_string_def
    by (rule reads_bind [OF reads_u64], rule reads_bind [OF reads_u8], simp,
        rule reads_bind [OF storage_codec.round_trip [OF ok(1) st]], rule reads_bind [OF reads_string [OF ok(2) name]],
        rule reads_bind [OF reads_u16], unfold n, rule reads_done [OF column_codec.many_round_trip [OF ok(3) cols]]) simp
qed

lemma reads_extensions:
  assumes "list_all extension_ok es" "encode_each encode_extension es = Inr bs"
    "unat (of_nat (length es) :: u32) = length es"
  shows "reads decode_extensions (push_u32 (of_nat (length es)) @ bs) es"
proof -
  have "reads (\<lambda>c. bindR (cursor_read_u32 catalog_texts c) (\<lambda>(n, c1). decode_many (unat n) decode_extension c1))
      (push_u32 (of_nat (length es)) @ bs) es"
    by (rule reads_bind [OF reads_u32], unfold assms(3)) (rule extension_codec.many_round_trip [OF assms(1,2)])
  then show ?thesis
    by (simp add: reads_def decode_extensions_def cursor_is_finished_def push_u32_def)
qed

lemma encode_decode_catalog:
  assumes "catalog_ok c" "encode_catalog c = Inr bs" "length bs < 2 ^ 64"
  shows "decode_catalog bs = Inr c"
proof -
  from assms(2) obtain rels exts where
    n: "unat (of_nat (length (cat_relations c)) :: u32) = length (cat_relations c)"
      "unat (of_nat (length (cat_extensions c)) :: u32) = length (cat_extensions c)"
    and rels: "encode_each encode_relation (cat_relations c) = Inr rels"
    and exts: "encode_each encode_extension (cat_extensions c) = Inr exts"
    and bs: "bs = CATALOG_MAGIC @ push_u16 CATALOG_VERSION @ push_u64 (cat_next_relation_id c) @
      push_u64 (cat_next_page_id c) @ push_u32 (of_nat (length (cat_relations c))) @ rels @
      push_u32 (of_nat (length (cat_extensions c))) @ exts"
    by (auto simp: encode_catalog_def res_simps dest!: write_u32_len_Inr)
  have ok: "list_all relation_ok (cat_relations c)" "list_all extension_ok (cat_extensions c)"
    using assms(1) by (simp_all add: catalog_ok_def)
  have magic: "4 = length CATALOG_MAGIC" by (simp add: CATALOG_MAGIC_def)
  have "reads decode_catalog_body bs c"
    unfolding decode_catalog_body_def [abs_def] bs
    by (rule reads_bind [OF reads_bytes [OF magic]], simp, rule reads_bind [OF reads_u16], simp,
        rule reads_bind [OF reads_u64], rule reads_bind [OF reads_u64], rule reads_bind [OF reads_u32], unfold n(1),
        rule reads_bind [OF relation_codec.many_round_trip [OF ok(1) rels]],
        rule reads_done [OF reads_extensions [OF ok(2) exts n(2)]]) simp
  from decode_top [OF this assms(3)] show ?thesis by (simp add: decode_catalog_def cursor_finish_def)
qed

section \<open>Saving and loading\<close>

lemma insert_fresh_len:
  assumes "insert_record (page_new pid t) r = (Inr slot, p)"
  shows "length r \<le> 4056"
proof (rule ccontr)
  assume "\<not> length r \<le> 4056"
  then have "page_room (page_new pid t) < insert_cost r (page_slots (page_new pid t))" by (simp add: insert_cost_def)
  from insert_record_full [OF page_new_wf this] assms show False by auto
qed

lemma insert_fresh_page:
  assumes "insert_record (page_new pid t) r = (Inr slot, p)"
  shows "length r \<le> 4056" "slot = SlotId 0" "page_wf p" "page_slots p = [SLive r]" "page_ident p = (pid, Lsn 0, t)"
    "page_id_of p = pid" "h_page_type (hdr_of (page_bytes p)) = t"
proof -
  show len: "length r \<le> 4056" by (rule insert_fresh_len [OF assms])
  from insert_fresh [OF len, of pid t] obtain q where q: "insert_record (page_new pid t) r = (Inr (SlotId 0), q)"
    "page_wf q" "page_slots q = [SLive r]" "page_ident q = (pid, Lsn 0, t)" by blast
  have qp: "q = p" "slot = SlotId 0" using q(1) assms by simp_all
  then show "slot = SlotId 0" by simp
  from qp q show "page_wf p" "page_slots p = [SLive r]" "page_ident p = (pid, Lsn 0, t)" by simp_all
  then show "page_id_of p = pid" "h_page_type (hdr_of (page_bytes p)) = t"
    by (simp_all add: page_ident_def page_id_of_def Let_def)
qed

lemma to_page_Inr:
  assumes "to_page c = Inr p"
  obtains bs where "encode_catalog c = Inr bs" "length bs \<le> 4056" "page_wf p" "page_slots p = [SLive bs]"
    "page_id_of p = PageId 0" "h_page_type (hdr_of (page_bytes p)) = Catalog"
proof -
  from assms obtain bs where bs: "encode_catalog c = Inr bs"
    and r: "(case insert_record (page_new (PageId 0) Catalog) bs of (Inl e, _) \<Rightarrow> Inl e | (Inr _, p) \<Rightarrow> Inr p) = Inr p"
    by (auto simp: to_page_def bindR_eq_Inr)
  obtain res q where q: "insert_record (page_new (PageId 0) Catalog) bs = (res, q)" by fastforce
  with r obtain slot where ins: "insert_record (page_new (PageId 0) Catalog) bs = (Inr slot, p)"
    by (cases res) auto
  from insert_fresh_page [OF ins] show ?thesis by (intro that [OF bs]) auto
qed

lemma catalog_load_page:
  assumes "catalog_ok c" "to_page c = Inr p" "reads_ok (pf_file pf)" "file_wf (pf_file pf)"
    "pf_pages pf (PageId 0) = Some p"
  shows "load_or_bootstrap pf = (Inr c, pf)"
proof -
  from to_page_Inr [OF assms(2)] obtain bs where bs: "encode_catalog c = Inr bs" "length bs \<le> 4056"
    "page_wf p" "page_slots p = [SLive bs]" "page_id_of p = PageId 0" "h_page_type (hdr_of (page_bytes p)) = Catalog" .
  from assms(5) have len: "4096 \<le> length (fl_bytes (pf_file pf))"
    by (auto simp: pf_pages_def page_at_def Let_def split: if_splits)
  have "unat (of_nat (length (fl_bytes (pf_file pf))) :: u64) = length (fl_bytes (pf_file pf))"
    using assms(4) MAX_FILE_SIZE_less by (simp add: file_wf_def)
  then have l: "(of_nat (length (fl_bytes (pf_file pf))) :: u64) \<noteq> 0"
    "\<not> (of_nat (length (fl_bytes (pf_file pf))) :: u64) < 4096"
    using len by (auto simp: word_less_nat_alt)
  have total: "slot_total (page_bytes p) = 1" using bs(4) length_page_slots [of p] by simp
  have "read_record p (SlotId 0) = Inr (Some bs)"
    using bs(3,4) total by (simp add: read_record_eq spec_read_def)
  then have "catalog_load pf = Inr c"
    using bs encode_decode_catalog [OF assms(1) bs(1)] read_page_benign [OF assms(3-5)]
    by (simp add: catalog_load_def)
  with l assms(3) show ?thesis
    by (simp add: load_or_bootstrap_def page_file_len_def vfs_len_def reads_ok_def)
qed

lemma catalog_save_pages:
  assumes "catalog_save c pf = (Inr (), pf')" "file_wf (pf_file pf)"
  obtains p where "to_page c = Inr p" "write_page pf p = (Inr (), pf')" "pf_pages pf' (PageId 0) = Some p"
    "file_wf (pf_file pf')" "file_frame (pf_file pf) (pf_file pf')"
proof -
  from assms(1) obtain p where p: "to_page c = Inr p" "write_page pf p = (Inr (), pf')"
    by (auto simp: catalog_save_def split: sum.splits)
  from to_page_Inr [OF p(1)] have "page_wf p" and id: "page_id_of p = PageId 0" by auto
  then have len: "length (page_bytes p) = 4096" by simp
  from pf_store.store_same [OF assms(2) len p(2)] pf_store.store_inv [OF assms(2) len] p(2) id
    write_page_prefix(2) [OF len p(2)] show ?thesis
    by (intro that [OF p]) auto
qed

section \<open>Rows of heap pages\<close>

definition slot_row :: "page_id \<Rightarrow> nat \<times> byte_list \<Rightarrow> heap_row" where
  "slot_row pid = (\<lambda>(i, r). \<lparr>hr_row_id = RowId pid (SlotId (of_nat i)), hr_bytes = r\<rparr>)"

definition page_rows :: "page_id \<Rightarrow> page \<Rightarrow> heap_row list" where
  "page_rows pid p = map (slot_row pid) (live_from 0 (page_slots p))"

definition heap_page_ok :: "page \<Rightarrow> bool" where
  "heap_page_ok p \<longleftrightarrow> page_wf p \<and> h_page_type (hdr_of (page_bytes p)) = Heap"

lemma scan_slots_eq:
  assumes "page_wf p" "m + n \<le> slot_total (page_bytes p)"
  shows "scan_slots p pid [m..<m + n] = Inr (map (slot_row pid) (live_from m (take n (drop m (page_slots p)))))"
  using assms(2)
proof (induction n arbitrary: m)
  case (Suc n)
  let ?s = "page_slots p ! m"
  have m: "m < slot_total (page_bytes p)" using Suc.prems by simp
  have u: "unat (of_nat m :: u16) = m" using page_wf_slot_in [OF assms(1) m] by simp
  have rd: "read_record p (SlotId (of_nat m)) = Inr (spec_read (page_slots p) m)"
    using assms(1) m u by (simp add: read_record_eq)
  have up: "[m..<m + Suc n] = m # [Suc m..<Suc m + n]" by (simp add: upt_conv_Cons)
  have dr: "drop m (page_slots p) = ?s # drop (Suc m) (page_slots p)"
    using m by (metis Cons_nth_drop_Suc length_page_slots)
  show ?case
    unfolding up dr using Suc.IH [of "Suc m"] Suc.prems rd
    by (cases ?s) (simp_all add: spec_read_def slot_row_def del: nth_page_slots)
qed simp

lemma scan_page_eq:
  assumes "heap_page_ok p"
  shows "scan_page pid p = Inr (page_rows pid p)"
proof -
  have wf: "page_wf p" using assms by (simp add: heap_page_ok_def)
  from scan_slots_eq [OF wf, of 0 "slot_total (page_bytes p)" pid] assms show ?thesis
    by (simp add: scan_page_def page_rows_def heap_page_ok_def slot_total_def take_all)
qed

lemma scan_pages_eq:
  assumes "\<And>pid. pid \<in> set pids \<Longrightarrow> load pid = Inr (pg pid) \<and> heap_page_ok (pg pid)"
  shows "scan_pages load pids = Inr (concat (map (\<lambda>pid. page_rows pid (pg pid)) pids))"
proof -
  have "collectR (\<lambda>pid. bindR (load pid) (scan_page pid)) pids = Inr (map (\<lambda>pid. page_rows pid (pg pid)) pids)"
    using assms by (intro collectR_all_Inr) (simp add: scan_page_eq)
  then show ?thesis by (simp add: scan_pages_def)
qed

lemma live_from_append: "live_from m (xs @ ys) = live_from m xs @ live_from (m + length xs) ys"
  by (induction xs arbitrary: m) (auto split: slot_state.splits)

lemma live_from_update:
  assumes "i < length ss" "ss ! i = SDead"
  shows "\<exists>xs ys. live_from m ss = xs @ ys \<and> live_from m (ss[i := SLive r]) = xs @ (m + i, r) # ys"
proof -
  have ss: "ss = take i ss @ SDead # drop (Suc i) ss" using assms by (metis id_take_nth_drop)
  have up: "ss[i := SLive r] = take i ss @ SLive r # drop (Suc i) ss"
    using assms(1) by (simp add: upd_conv_take_nth_drop)
  show ?thesis
    unfolding up using assms(1)
    by (subst ss) (auto simp: live_from_append min_def)
qed

lemma insert_page_rows:
  assumes "heap_page_ok p" "insert_record p r = (Inr slot, p')"
  shows "heap_page_ok p'" "page_id_of p' = page_id_of p"
    "\<exists>xs ys. page_rows pid p = xs @ ys \<and> page_rows pid p' = xs @ \<lparr>hr_row_id = RowId pid slot, hr_bytes = r\<rparr> # ys"
proof -
  have wf: "page_wf p" using assms(1) by (simp add: heap_page_ok_def)
  note acc = heap_page.insert_accepted [OF wf assms(2)]
  have fits: "insert_cost r (page_slots p) \<le> page_room p"
    using heap_page.insert_full [OF wf, of r] assms(2) by (metis Inr_Inl_False not_le prod.inject)
  from insert_record_fits [OF wf fits] assms(2) have ident: "page_ident p' = page_ident p" by auto
  then show "heap_page_ok p'" "page_id_of p' = page_id_of p"
    using assms(1) acc(1) by (auto simp: heap_page_ok_def page_ident_def page_id_of_def Let_def)
  have slot: "slot = SlotId (of_nat (fst (spec_insert r (page_slots p))))"
    using acc(3) by (cases slot) (metis slot_id.sel of_nat_unat ucast_id)
  have "\<exists>xs ys. live_from 0 (page_slots p) = xs @ ys \<and>
      live_from 0 (page_slots p') = xs @ (fst (spec_insert r (page_slots p)), r) # ys"
  proof (cases "first_dead (page_slots p)")
    case None
    then show ?thesis using acc(2) by (auto simp: spec_insert_def live_from_append)
  next
    case (Some i)
    from live_from_update [of i "page_slots p" 0 r] first_dead_Some [OF Some] Some acc(2) show ?thesis
      by (auto simp: spec_insert_def)
  qed
  then obtain xs ys where xy: "live_from 0 (page_slots p) = xs @ ys"
      "live_from 0 (page_slots p') = xs @ (fst (spec_insert r (page_slots p)), r) # ys" by blast
  show "\<exists>xs ys. page_rows pid p = xs @ ys \<and> page_rows pid p' = xs @ \<lparr>hr_row_id = RowId pid slot, hr_bytes = r\<rparr> # ys"
    by (intro exI [of _ "map (slot_row pid) xs"] exI [of _ "map (slot_row pid) ys"])
      (simp add: page_rows_def xy slot slot_row_def)
qed

text \<open>Inserting into one page of a table inserts one row into the scan and moves no other.\<close>

lemma scan_insert:
  assumes old: "\<And>q. q \<in> set pids \<Longrightarrow> load q = Inr (pg q) \<and> heap_page_ok (pg q)"
    and pid: "pid \<in> set pids" "distinct pids"
    and ins: "insert_record (pg pid) r = (Inr slot, p')"
    and new: "load' pid = Inr p'" "\<And>q. q \<in> set pids \<Longrightarrow> q \<noteq> pid \<Longrightarrow> load' q = load q"
  shows "\<exists>xs ys. scan_pages load pids = Inr (xs @ ys) \<and>
    scan_pages load' pids = Inr (xs @ \<lparr>hr_row_id = RowId pid slot, hr_bytes = r\<rparr> # ys)"
proof -
  let ?pg = "pg(pid := p')"
  have ok: "heap_page_ok (pg pid)" using old pid by blast
  note p' = insert_page_rows [OF ok ins]
  have new': "\<And>q. q \<in> set pids \<Longrightarrow> load' q = Inr (?pg q) \<and> heap_page_ok (?pg q)"
    using new old p'(1) by auto
  obtain as bs where split: "pids = as @ pid # bs" using pid(1) by (meson split_list)
  with pid(2) have notin: "pid \<notin> set as" "pid \<notin> set bs" by auto
  then have same: "map (\<lambda>q. page_rows q (?pg q)) as = map (\<lambda>q. page_rows q (pg q)) as"
    "map (\<lambda>q. page_rows q (?pg q)) bs = map (\<lambda>q. page_rows q (pg q)) bs" by auto
  from p'(3) [of pid] obtain xs ys where rows: "page_rows pid (pg pid) = xs @ ys"
    "page_rows pid p' = xs @ \<lparr>hr_row_id = RowId pid slot, hr_bytes = r\<rparr> # ys" by blast
  let ?A = "concat (map (\<lambda>q. page_rows q (pg q)) as)" let ?B = "concat (map (\<lambda>q. page_rows q (pg q)) bs)"
  have e: "scan_pages load pids = Inr (concat (map (\<lambda>q. page_rows q (pg q)) pids))"
    "scan_pages load' pids = Inr (concat (map (\<lambda>q. page_rows q (?pg q)) pids))"
    by (rule scan_pages_eq, erule old) (rule scan_pages_eq, erule new')
  have "scan_pages load pids = Inr (?A @ (xs @ ys) @ ?B)"
    using e(1) by (simp add: split rows)
  moreover have "scan_pages load' pids = Inr (?A @ (xs @ \<lparr>hr_row_id = RowId pid slot, hr_bytes = r\<rparr> # ys) @ ?B)"
    using e(2) unfolding split map_append list.map same concat_append concat.simps by (simp add: rows)
  ultimately show ?thesis by (intro exI [of _ "?A @ xs"] exI [of _ "ys @ ?B"]) simp
qed

lemma scan_append:
  assumes "scan_pages load pids = Inr rows" "load pid = Inr p" "heap_page_ok p"
  shows "scan_pages load (pids @ [pid]) = Inr (rows @ page_rows pid p)"
proof -
  have "collectR f (xs @ [y]) = bindR (collectR f xs) (\<lambda>ys. bindR (f y) (\<lambda>z. Inr (ys @ [z])))"
    for f :: "page_id \<Rightarrow> heap_row list db_result" and xs y
    by (induction xs) (auto simp: bindR_assoc)
  with assms show ?thesis by (auto simp: scan_pages_def scan_page_eq res_simps)
qed

end
