(* ===== verification/Rdbms_Catalog_Inv.thy ===== *)
theory Rdbms_Catalog_Inv
  imports Rdbms_Catalog_Spec
begin

text \<open>
  The invariant of the catalog: relation ids, relation names and page ids are unique, every
  id in use is below the next one to be handed out, page 0 is never handed out, storage
  matches the relation kind and indexes refer to columns of existing tables. Every operation
  of the catalog keeps it, on its error exits too.
\<close>

definition relation_pages :: "relation_info \<Rightarrow> page_id list" where
  "relation_pages r = (case ri_storage r of
     StorageHeap h \<Rightarrow> hs_pages h | StorageBPlusTree i \<Rightarrow> [is_root_page_id i])"

definition cat_pages :: "catalog \<Rightarrow> page_id list" where
  "cat_pages c = concat (map relation_pages (cat_relations c))"

definition relation_typed :: "relation_info \<Rightarrow> bool" where
  "relation_typed r \<longleftrightarrow> (case ri_storage r of
       StorageHeap h \<Rightarrow> ri_kind r = RelTable \<and> hs_pages h \<noteq> []
     | StorageBPlusTree i \<Rightarrow> ri_kind r = RelIndex) \<and> distinct (map cd_name (ri_columns r))"

definition index_refs_ok :: "relation_info list \<Rightarrow> relation_info \<Rightarrow> bool" where
  "index_refs_ok rs r = (case ri_storage r of
     StorageHeap h \<Rightarrow> True
   | StorageBPlusTree i \<Rightarrow> \<exists>t \<in> set rs. ri_id t = is_table_id i \<and> ri_kind t = RelTable \<and>
       is_column_name i \<in> cd_name ` set (ri_columns t))"

definition cat_wf :: "catalog \<Rightarrow> bool" where
  "cat_wf c \<longleftrightarrow>
     distinct (map ri_id (cat_relations c)) \<and> distinct (map ri_name (cat_relations c)) \<and>
     (\<forall>r \<in> set (cat_relations c). relation_no (ri_id r) < cat_next_relation_id c) \<and>
     distinct (cat_pages c) \<and>
     (\<forall>pid \<in> set (cat_pages c). page_no pid \<noteq> 0 \<and> page_no pid < cat_next_page_id c) \<and>
     0 < cat_next_page_id c \<and>
     (\<forall>r \<in> set (cat_relations c). relation_typed r \<and> index_refs_ok (cat_relations c) r) \<and>
     distinct (map ei_name (cat_extensions c))"

lemma checked_succ:
  fixes n m :: u64
  assumes "checked_add n 1 = Some m"
  shows "n < m" "x < n \<Longrightarrow> x < m"
  using checked_add_unat [OF assms] by (simp_all add: word_less_nat_alt)

lemma relation_by_name_None: "relation_by_name c name = None \<longleftrightarrow> name \<notin> ri_name ` set (cat_relations c)"
  by (auto simp: relation_by_name_def find_None_iff)

lemma relation_by_id_Some:
  assumes "relation_by_id c rid = Some r"
  shows "r \<in> set (cat_relations c)" "ri_id r = rid"
  using assms by (auto simp: relation_by_id_def find_Some_iff)

lemma relation_by_id_wf:
  assumes "cat_wf c" "r \<in> set (cat_relations c)"
  shows "relation_by_id c (ri_id r) = Some r"
proof -
  have "find (\<lambda>x. ri_id x = ri_id r) rs = Some r" if "distinct (map ri_id rs)" "r \<in> set rs" for rs
    using that by (induction rs) auto
  with assms show ?thesis by (simp add: relation_by_id_def cat_wf_def)
qed

lemma validate_columns_distinct:
  assumes "validate_columns_from prev cs = Inr ()" "distinct (map cd_name prev)"
  shows "distinct (map cd_name (prev @ cs))"
  using assms
proof (induction cs arbitrary: prev)
  case (Cons c cs)
  then have "cd_name c \<notin> cd_name ` set prev" "validate_columns_from (prev @ [c]) cs = Inr ()"
    by (auto simp: res_simps list_ex_iff split: if_splits)
  with Cons.IH [of "prev @ [c]"] Cons.prems(2) show ?case by simp
qed simp

lemma allocate_relation_id_wf:
  assumes "cat_wf c" "allocate_relation_id c = (r, c')"
  shows "cat_wf c'" "cat_relations c' = cat_relations c" "cat_next_page_id c' = cat_next_page_id c"
    "cat_extensions c' = cat_extensions c"
    "r = Inr rid \<Longrightarrow> rid = RelationId (cat_next_relation_id c) \<and> relation_no rid < cat_next_relation_id c'"
proof -
  have c': "case checked_add (cat_next_relation_id c) 1 of None \<Rightarrow> c' = c \<and> r = Inl (User msg_relation_overflow)
    | Some n \<Rightarrow> c' = c\<lparr>cat_next_relation_id := n\<rparr> \<and> r = Inr (RelationId (cat_next_relation_id c))"
    using assms(2) by (auto simp: allocate_relation_id_def split: option.splits)
  show "cat_relations c' = cat_relations c" "cat_next_page_id c' = cat_next_page_id c"
    "cat_extensions c' = cat_extensions c"
    using c' by (auto split: option.splits)
  show "cat_wf c'"
    using c' assms(1) checked_succ(2) [of "cat_next_relation_id c"]
    by (auto simp: cat_wf_def cat_pages_def split: option.splits)
  show "r = Inr rid \<Longrightarrow> rid = RelationId (cat_next_relation_id c) \<and> relation_no rid < cat_next_relation_id c'"
    using c' checked_succ(1) [of "cat_next_relation_id c"] by (auto split: option.splits)
qed

lemma allocate_page_id_wf:
  assumes "cat_wf c" "allocate_page_id c = (r, c')"
  shows "cat_wf c'" "cat_relations c' = cat_relations c" "cat_next_relation_id c' = cat_next_relation_id c"
    "cat_extensions c' = cat_extensions c"
    "r = Inr pid \<Longrightarrow> pid = PageId (cat_next_page_id c) \<and> page_no pid < cat_next_page_id c' \<and>
      page_no pid \<noteq> 0 \<and> pid \<notin> set (cat_pages c)"
proof -
  have c': "case checked_add (cat_next_page_id c) 1 of None \<Rightarrow> c' = c \<and> r = Inl (User msg_page_overflow)
    | Some n \<Rightarrow> c' = c\<lparr>cat_next_page_id := n\<rparr> \<and> r = Inr (PageId (cat_next_page_id c))"
    using assms(2) by (auto simp: allocate_page_id_def split: option.splits)
  show "cat_relations c' = cat_relations c" "cat_next_relation_id c' = cat_next_relation_id c"
    "cat_extensions c' = cat_extensions c"
    using c' by (auto split: option.splits)
  show "cat_wf c'"
    using c' assms(1) checked_succ [of "cat_next_page_id c"]
    by (fastforce simp: cat_wf_def cat_pages_def split: option.splits)
  have fresh: "PageId (cat_next_page_id c) \<notin> set (cat_pages c)" "cat_next_page_id c \<noteq> 0"
    using assms(1) by (auto simp: cat_wf_def)
  show "r = Inr pid \<Longrightarrow> pid = PageId (cat_next_page_id c) \<and> page_no pid < cat_next_page_id c' \<and>
      page_no pid \<noteq> 0 \<and> pid \<notin> set (cat_pages c)"
    using c' fresh checked_succ(1) [of "cat_next_page_id c"] by (auto split: option.splits)
qed

text \<open>Adding one relation with fresh id, name and pages.\<close>

lemma add_relation_wf:
  assumes "cat_wf c" "ri_id r \<notin> ri_id ` set (cat_relations c)" "ri_name r \<notin> ri_name ` set (cat_relations c)"
    "relation_no (ri_id r) < cat_next_relation_id c" "relation_pages r = [pid]" "pid \<notin> set (cat_pages c)"
    "page_no pid \<noteq> 0" "page_no pid < cat_next_page_id c" "relation_typed r"
    "index_refs_ok (cat_relations c) r"
  shows "cat_wf (c\<lparr>cat_relations := cat_relations c @ [r]\<rparr>)"
proof -
  have mono: "index_refs_ok (cat_relations c @ [r]) x" if "index_refs_ok (cat_relations c) x" for x
    using that by (auto simp: index_refs_ok_def split: storage_object.splits)
  with assms show ?thesis by (auto simp: cat_wf_def cat_pages_def)
qed

lemma fresh_relation_id:
  assumes "cat_wf c"
  shows "RelationId (cat_next_relation_id c) \<notin> ri_id ` set (cat_relations c)"
proof
  assume "RelationId (cat_next_relation_id c) \<in> ri_id ` set (cat_relations c)"
  then obtain r where "r \<in> set (cat_relations c)" "ri_id r = RelationId (cat_next_relation_id c)" by auto
  with assms have "relation_no (RelationId (cat_next_relation_id c)) < cat_next_relation_id c"
    unfolding cat_wf_def by metis
  then show False by simp
qed

lemma create_table_metadata_cases:
  assumes "create_table_metadata c name columns = (r, c')"
  shows "(\<exists>e. r = Inl e \<and> c' = c) \<or>
    validate_columns columns = Inr () \<and> relation_by_name c name = None \<and>
    bindS (allocate_relation_id c) (\<lambda>rid c1. bindS (allocate_page_id c1) (\<lambda>pid c2.
      (Inr (rid, pid), c2\<lparr>cat_relations := cat_relations c2 @
        [\<lparr>ri_id = rid, ri_name = name, ri_kind = RelTable,
          ri_storage = StorageHeap \<lparr>hs_pages = [pid]\<rparr>, ri_columns = columns\<rparr>]\<rparr>))) = (r, c')"
  using assms
  by (cases "bindR (validate_name ''relation'' name) (\<lambda>_. validate_columns columns)")
    (auto simp: create_table_metadata_def bindR_eq_Inr split: if_splits)

lemma create_table_metadata_Inr:
  assumes "cat_wf c" "create_table_metadata c name columns = (Inr (rid, pid), c')"
  obtains "rid = RelationId (cat_next_relation_id c)" "pid = PageId (cat_next_page_id c)"
    "cat_relations c' = cat_relations c @ [\<lparr>ri_id = rid, ri_name = name, ri_kind = RelTable,
        ri_storage = StorageHeap \<lparr>hs_pages = [pid]\<rparr>, ri_columns = columns\<rparr>]"
    "cat_extensions c' = cat_extensions c" "name \<notin> ri_name ` set (cat_relations c)"
    "pid \<notin> set (cat_pages c)" "page_no pid \<noteq> 0" "cat_wf c'"
proof -
  let ?r = "\<lparr>ri_id = rid, ri_name = name, ri_kind = RelTable,
        ri_storage = StorageHeap \<lparr>hs_pages = [pid]\<rparr>, ri_columns = columns\<rparr>"
  from assms(2) obtain c1 c2 where v: "validate_columns columns = Inr ()" and n: "relation_by_name c name = None"
    and a1: "allocate_relation_id c = (Inr rid, c1)" and a2: "allocate_page_id c1 = (Inr pid, c2)"
    and c': "c' = c2\<lparr>cat_relations := cat_relations c2 @ [?r]\<rparr>"
    using create_table_metadata_cases [OF assms(2)] by (auto simp: bindS_eq_Inr)
  note w1 = allocate_relation_id_wf [OF assms(1) a1] and w2 = allocate_page_id_wf [OF allocate_relation_id_wf(1) [OF assms(1) a1] a2]
  have name: "name \<notin> ri_name ` set (cat_relations c)" using n by (simp add: relation_by_name_None)
  have rid: "rid = RelationId (cat_next_relation_id c)" "relation_no rid < cat_next_relation_id c1" using w1(5) [OF refl] by auto
  have pid: "pid = PageId (cat_next_page_id c)" "page_no pid < cat_next_page_id c2" "page_no pid \<noteq> 0" "pid \<notin> set (cat_pages c)"
    using w2(5) [OF refl] w1(2,3) by (auto simp: cat_pages_def)
  have "cat_wf c'"
    unfolding c'
  proof (rule add_relation_wf [where pid = pid])
    show "relation_typed ?r"
      using v validate_columns_distinct [of "[]" columns]
      by (auto simp: relation_typed_def validate_columns_def split: if_splits)
    show "cat_wf c2" by (rule w2)
    show "ri_id ?r \<notin> ri_id ` set (cat_relations c2)"
      using fresh_relation_id [OF assms(1)] rid(1) w1(2) w2(2) by simp
    show "ri_name ?r \<notin> ri_name ` set (cat_relations c2)" using name w1(2) w2(2) by simp
    show "relation_no (ri_id ?r) < cat_next_relation_id c2" using rid(2) w2(3) by simp
    show "pid \<notin> set (cat_pages c2)" using pid(4) w1(2) w2(2) by (simp add: cat_pages_def)
  qed (simp_all add: relation_pages_def index_refs_ok_def pid(2,3))
  moreover have "cat_relations c' = cat_relations c @ [?r]" "cat_extensions c' = cat_extensions c"
    using c' w1(2,4) w2(2,4) by simp_all
  ultimately show ?thesis
    using rid(1) pid(1,3,4) name by (intro that)
qed

lemma create_table_metadata_wf:
  assumes "cat_wf c" "create_table_metadata c name columns = (r, c')"
  shows "cat_wf c'" "r = Inl e \<Longrightarrow> cat_relations c' = cat_relations c"
proof -
  have "cat_wf c' \<and> (\<forall>e. r = Inl e \<longrightarrow> cat_relations c' = cat_relations c)"
  proof (cases r)
    case (Inr x)
    obtain rid pid where "x = (rid, pid)" by fastforce
    with create_table_metadata_Inr [OF assms(1)] assms(2) Inr show ?thesis by blast
  next
    case (Inl e)
    have "cat_wf c' \<and> cat_relations c' = cat_relations c"
      using create_table_metadata_cases [OF assms(2)]
    proof (elim disjE exE conjE)
      assume "bindS (allocate_relation_id c) (\<lambda>rid c1. bindS (allocate_page_id c1) (\<lambda>pid c2.
        (Inr (rid, pid), c2\<lparr>cat_relations := cat_relations c2 @
          [\<lparr>ri_id = rid, ri_name = name, ri_kind = RelTable,
            ri_storage = StorageHeap \<lparr>hs_pages = [pid]\<rparr>, ri_columns = columns\<rparr>]\<rparr>))) = (r, c')"
      with Inl consider "allocate_relation_id c = (Inl e, c')"
        | rid c1 where "allocate_relation_id c = (Inr rid, c1)" "allocate_page_id c1 = (Inl e, c')"
        by (auto simp: bindS_eq_Inl)
      then show ?thesis
      proof cases
        case 1
        from allocate_relation_id_wf [OF assms(1) 1] show ?thesis by simp
      next
        case 2
        from allocate_relation_id_wf [OF assms(1) 2(1)] allocate_page_id_wf [OF _ 2(2)] show ?thesis by simp
      qed
    qed (use assms(1) in simp)
    with Inl show ?thesis by simp
  qed
  then show "cat_wf c'" "r = Inl e \<Longrightarrow> cat_relations c' = cat_relations c" by auto
qed

lemma check_new_index_Inr:
  assumes "check_new_index c name table_id column_name = Inr u"
  shows "name \<notin> ri_name ` set (cat_relations c)"
    "\<exists>t \<in> set (cat_relations c). ri_id t = table_id \<and> ri_kind t = RelTable \<and> column_name \<in> cd_name ` set (ri_columns t)"
proof -
  from assms obtain t where "relation_by_name c name = None" and t: "relation_by_id c table_id = Some t"
    "is_heap_table t" "\<not> list_all (\<lambda>col. cd_name col \<noteq> column_name) (ri_columns t)"
    by (auto simp: check_new_index_def res_simps split: if_splits)
  then show "name \<notin> ri_name ` set (cat_relations c)" by (simp add: relation_by_name_None)
  from t relation_by_id_Some [OF t(1)]
  show "\<exists>t \<in> set (cat_relations c). ri_id t = table_id \<and> ri_kind t = RelTable \<and> column_name \<in> cd_name ` set (ri_columns t)"
    by (auto simp: is_heap_table_def list_all_iff intro!: bexI [of _ t])
qed

lemma create_index_metadata_wf:
  assumes "cat_wf c" "create_index_metadata c name table_id column_name = (r, c')"
  shows "cat_wf c'"
proof (cases "check_new_index c name table_id column_name")
  case (Inl e)
  with assms show ?thesis by (simp add: create_index_metadata_def)
next
  case (Inr u)
  note chk = check_new_index_Inr [OF Inr]
  obtain r1 c1 where a1: "allocate_relation_id c = (r1, c1)" by fastforce
  note w1 = allocate_relation_id_wf [OF assms(1) a1]
  show ?thesis
  proof (cases r1)
    case (Inl e)
    with assms(2) Inr a1 w1 show ?thesis by (simp add: create_index_metadata_def)
  next
    case rid: (Inr rid)
    obtain r2 c2 where a2: "allocate_page_id c1 = (r2, c2)" by fastforce
    note w2 = allocate_page_id_wf [OF w1(1) a2]
    show ?thesis
    proof (cases r2)
      case (Inl e)
      with assms(2) Inr a1 rid a2 w2 show ?thesis by (simp add: create_index_metadata_def)
    next
      case root: (Inr root)
      let ?r = "\<lparr>ri_id = rid, ri_name = name, ri_kind = RelIndex,
          ri_storage = StorageBPlusTree \<lparr>is_table_id = table_id, is_column_name = column_name, is_root_page_id = root\<rparr>,
          ri_columns = [\<lparr>cd_name = column_name, cd_type_name = ''INDEX_KEY''\<rparr>]\<rparr>"
      have "c' = c2\<lparr>cat_relations := cat_relations c2 @ [?r]\<rparr>"
        using assms(2) Inr a1 rid a2 root by (simp add: create_index_metadata_def)
      moreover have "cat_wf (c2\<lparr>cat_relations := cat_relations c2 @ [?r]\<rparr>)"
        by (rule add_relation_wf [where pid = root])
          (use w1(1-4) w1(5) [OF rid] w2(1-4) w2(5) [OF root] chk fresh_relation_id [OF assms(1)] in
            \<open>auto simp: relation_pages_def cat_pages_def index_refs_ok_def relation_typed_def\<close>)
      ultimately show ?thesis by simp
    qed
  qed
qed

section \<open>Changing one relation\<close>

lemma update_first_Inr:
  assumes "update_first P f missing xs = Inr ys"
  shows "\<exists>as x bs y. xs = as @ x # bs \<and> ys = as @ y # bs \<and> P x \<and> f x = Inr y \<and> (\<forall>a \<in> set as. \<not> P a)"
  using assms
proof (induction xs arbitrary: ys)
  case (Cons x xs)
  show ?case
  proof (cases "P x")
    case True
    with Cons.prems show ?thesis by (intro exI [of _ "[]"]) (auto simp: bindR_eq_Inr)
  next
    case False
    with Cons.prems obtain zs where zs: "update_first P f missing xs = Inr zs" "ys = x # zs"
      by (auto simp: bindR_eq_Inr)
    from Cons.IH [OF zs(1)] obtain as a bs b where
      "xs = as @ a # bs" "zs = as @ b # bs" "P a" "f a = Inr b" "\<forall>a \<in> set as. \<not> P a" by blast
    with False zs(2) show ?thesis by (intro exI [of _ "x # as"]) auto
  qed
qed simp

text \<open>Replacing a relation by one that differs only in its pages.\<close>

definition same_relation :: "relation_info \<Rightarrow> relation_info \<Rightarrow> bool" where
  "same_relation x y \<longleftrightarrow> ri_id y = ri_id x \<and> ri_name y = ri_name x \<and> ri_kind y = ri_kind x \<and>
     ri_columns y = ri_columns x \<and>
     (case (ri_storage x, ri_storage y) of
        (StorageHeap h, StorageHeap h') \<Rightarrow> True
      | (StorageBPlusTree i, StorageBPlusTree i') \<Rightarrow>
          is_table_id i' = is_table_id i \<and> is_column_name i' = is_column_name i
      | _ \<Rightarrow> False)"

lemma index_refs_same:
  assumes "same_relation x y" "index_refs_ok (as @ x # bs) r"
  shows "index_refs_ok (as @ y # bs) r"
  using assms by (auto simp: index_refs_ok_def same_relation_def split: storage_object.splits)

lemma index_refs_same_self:
  assumes "same_relation x y" "index_refs_ok rs x"
  shows "index_refs_ok rs y"
  using assms by (auto simp: index_refs_ok_def same_relation_def split: storage_object.splits)

lemma replace_relation_wf:
  assumes "cat_wf c" "cat_relations c = as @ x # bs" "same_relation x y" "relation_typed y"
    "distinct (concat (map relation_pages (as @ y # bs)))"
    "\<forall>pid \<in> set (concat (map relation_pages (as @ y # bs))). page_no pid \<noteq> 0 \<and> page_no pid < cat_next_page_id c"
  shows "cat_wf (c\<lparr>cat_relations := as @ y # bs\<rparr>)"
proof -
  have ids: "map ri_id (as @ y # bs) = map ri_id (cat_relations c)" "map ri_name (as @ y # bs) = map ri_name (cat_relations c)"
    using assms(2,3) by (simp_all add: same_relation_def)
  have bound: "\<forall>r \<in> set (as @ y # bs). relation_no (ri_id r) < cat_next_relation_id c"
    using assms(1-3) by (auto simp: cat_wf_def same_relation_def)
  have "relation_typed r \<and> index_refs_ok (as @ y # bs) r" if "r \<in> set (as @ y # bs)" for r
  proof (cases "r = y")
    case True
    have "index_refs_ok (as @ x # bs) x" using assms(1,2) by (simp add: cat_wf_def)
    then show ?thesis
      using True assms(3,4) index_refs_same [OF assms(3) index_refs_same_self] by blast
  next
    case False
    with that assms(1,2) have "relation_typed r" "index_refs_ok (as @ x # bs) r" by (auto simp: cat_wf_def)
    then show ?thesis using index_refs_same [OF assms(3)] by blast
  qed
  with assms ids bound show ?thesis by (simp add: cat_wf_def cat_pages_def)
qed

lemma append_heap_page_Inr:
  assumes "append_heap_page c rid pid = (Inr (), c')"
  obtains as x bs h where "cat_relations c = as @ x # bs" "ri_id x = rid" "ri_kind x = RelTable" "ri_storage x = StorageHeap h"
    "c' = c\<lparr>cat_relations := as @ x\<lparr>ri_storage := StorageHeap (h\<lparr>hs_pages := hs_pages h @ [pid]\<rparr>)\<rparr> # bs\<rparr>"
    "\<forall>a \<in> set as. ri_id a \<noteq> rid"
proof -
  from assms obtain rs where u: "update_first (\<lambda>r. ri_id r = rid) (push_heap_page rid pid) (User (msg_unknown_relation rid))
      (cat_relations c) = Inr rs" and c': "c' = c\<lparr>cat_relations := rs\<rparr>"
    by (auto simp: append_heap_page_def split: sum.splits)
  from update_first_Inr [OF u] obtain as x bs y where *: "cat_relations c = as @ x # bs" "rs = as @ y # bs"
    "ri_id x = rid" "push_heap_page rid pid x = Inr y" "\<forall>a \<in> set as. ri_id a \<noteq> rid" by blast
  from *(4) obtain h where "ri_kind x = RelTable" "ri_storage x = StorageHeap h"
    "y = x\<lparr>ri_storage := StorageHeap (h\<lparr>hs_pages := hs_pages h @ [pid]\<rparr>)\<rparr>"
    by (auto simp: push_heap_page_def split: if_splits storage_object.splits)
  with * c' show ?thesis by (intro that [of as x bs h]) simp_all
qed

lemma append_heap_page_Inl: "append_heap_page c rid pid = (Inl e, c') \<Longrightarrow> c' = c"
  by (auto simp: append_heap_page_def split: sum.splits)

lemma append_heap_page_wf:
  assumes "cat_wf c" "append_heap_page c rid pid = (r, c')"
    "pid \<notin> set (cat_pages c)" "page_no pid \<noteq> 0" "page_no pid < cat_next_page_id c"
  shows "cat_wf c'"
proof (cases r)
  case (Inl e)
  with assms append_heap_page_Inl show ?thesis by blast
next
  case (Inr u)
  with assms(2) have "append_heap_page c rid pid = (Inr (), c')" by simp
  from append_heap_page_Inr [OF this] obtain as x bs h where x: "cat_relations c = as @ x # bs" "ri_kind x = RelTable"
    "ri_storage x = StorageHeap h" and c': "c' = c\<lparr>cat_relations :=
      as @ x\<lparr>ri_storage := StorageHeap (h\<lparr>hs_pages := hs_pages h @ [pid]\<rparr>)\<rparr> # bs\<rparr>" .
  have typed: "relation_typed x" using assms(1) x(1) by (simp add: cat_wf_def)
  have pages: "cat_pages c = concat (map relation_pages as) @ hs_pages h @ concat (map relation_pages bs)"
    using x by (simp add: cat_pages_def relation_pages_def)
  have d: "distinct (cat_pages c)" "\<forall>p \<in> set (cat_pages c). page_no p \<noteq> 0 \<and> page_no p < cat_next_page_id c"
    using assms(1) by (simp_all add: cat_wf_def)
  show ?thesis
    unfolding c'
  proof (rule replace_relation_wf [OF assms(1) x(1)])
    show "distinct (concat (map relation_pages
        (as @ x\<lparr>ri_storage := StorageHeap (h\<lparr>hs_pages := hs_pages h @ [pid]\<rparr>)\<rparr> # bs)))"
      using d(1) assms(3) unfolding pages by (auto simp: relation_pages_def)
    show "\<forall>p \<in> set (concat (map relation_pages
        (as @ x\<lparr>ri_storage := StorageHeap (h\<lparr>hs_pages := hs_pages h @ [pid]\<rparr>)\<rparr> # bs))).
        page_no p \<noteq> 0 \<and> page_no p < cat_next_page_id c"
      using d(2) assms(4,5) unfolding pages by (auto simp: relation_pages_def)
  qed (use x typed in \<open>simp_all add: same_relation_def relation_typed_def\<close>)
qed

lemma set_index_root_page_wf:
  assumes "cat_wf c" "set_index_root_page c rid root = (r, c')"
    "root \<notin> set (cat_pages c)" "page_no root \<noteq> 0" "page_no root < cat_next_page_id c"
  shows "cat_wf c'"
proof (cases "update_first (\<lambda>r. ri_id r = rid) (set_root_page_id rid root) (User (msg_unknown_index rid)) (cat_relations c)")
  case (Inl e)
  with assms show ?thesis by (simp add: set_index_root_page_def)
next
  case (Inr rs)
  from update_first_Inr [OF Inr] obtain as x bs y where x: "cat_relations c = as @ x # bs" "rs = as @ y # bs"
    "set_root_page_id rid root x = Inr y" by blast
  from x(3) obtain i where i: "ri_kind x = RelIndex" "ri_storage x = StorageBPlusTree i"
    "y = x\<lparr>ri_storage := StorageBPlusTree (i\<lparr>is_root_page_id := root\<rparr>)\<rparr>"
    by (auto simp: set_root_page_id_def split: if_splits storage_object.splits)
  have typed: "relation_typed x" using assms(1) x(1) by (simp add: cat_wf_def)
  have pages: "cat_pages c = concat (map relation_pages as) @ is_root_page_id i # concat (map relation_pages bs)"
    using x i by (simp add: cat_pages_def relation_pages_def)
  have d: "distinct (cat_pages c)" "\<forall>p \<in> set (cat_pages c). page_no p \<noteq> 0 \<and> page_no p < cat_next_page_id c"
    using assms(1) by (simp_all add: cat_wf_def)
  have c': "c' = c\<lparr>cat_relations := as @ y # bs\<rparr>" using assms(2) Inr x(2) by (simp add: set_index_root_page_def)
  show ?thesis
    unfolding c'
  proof (rule replace_relation_wf [OF assms(1) x(1)])
    show "distinct (concat (map relation_pages (as @ y # bs)))"
      using d(1) assms(3) i(3) unfolding pages by (auto simp: relation_pages_def)
    show "\<forall>p \<in> set (concat (map relation_pages (as @ y # bs))). page_no p \<noteq> 0 \<and> page_no p < cat_next_page_id c"
      using d(2) assms(4,5) i(3) unfolding pages by (auto simp: relation_pages_def)
  qed (use i typed in \<open>simp_all add: same_relation_def relation_typed_def\<close>)
qed

lemma register_extension_metadata_wf:
  assumes "cat_wf c" "register_extension_metadata c name v kind = (r, c')"
  shows "cat_wf c'"
proof (cases "bindR (validate_name ''extension'' name) (\<lambda>_. validate_name ''extension kind'' kind)")
  case (Inl e)
  with assms show ?thesis by (simp add: register_extension_metadata_def)
next
  case (Inr u)
  show ?thesis
  proof (cases "extension_by_name c name")
    case None
    then have "name \<notin> ei_name ` set (cat_extensions c)" by (auto simp: extension_by_name_def find_None_iff)
    moreover from None Inr assms(2) have "c' = c\<lparr>cat_extensions := cat_extensions c @
        [\<lparr>ei_name = name, ei_abi_version = v, ei_kind = kind\<rparr>]\<rparr>"
      by (simp add: register_extension_metadata_def)
    ultimately show ?thesis using assms(1) by (auto simp: cat_wf_def cat_pages_def)
  next
    case (Some x)
    with Inr assms show ?thesis by (auto simp: register_extension_metadata_def split: if_splits)
  qed
qed

section \<open>Reachable catalogs\<close>

text \<open>
  The catalogs that the operations produce. \<open>append_heap_page\<close> and \<open>set_index_root_page\<close> take any
  page id and do not check it; their callers must pass a page id that was allocated at some time
  before and that no relation uses. Every other operation is free of conditions.
\<close>

definition page_unused :: "catalog \<Rightarrow> page_id \<Rightarrow> bool" where
  "page_unused c pid \<longleftrightarrow> page_no pid \<noteq> 0 \<and> page_no pid < cat_next_page_id c \<and> pid \<notin> set (cat_pages c)"

inductive catalog_reachable :: "catalog \<Rightarrow> bool" where
  empty: "catalog_reachable catalog_empty"
| table: "catalog_reachable c \<Longrightarrow> create_table_metadata c name cols = (r, c') \<Longrightarrow> catalog_reachable c'"
| index: "catalog_reachable c \<Longrightarrow> create_index_metadata c name tid col = (r, c') \<Longrightarrow> catalog_reachable c'"
| extension: "catalog_reachable c \<Longrightarrow> register_extension_metadata c name v kind = (b, c') \<Longrightarrow> catalog_reachable c'"
| allocate: "catalog_reachable c \<Longrightarrow> allocate_page_id c = (p, c') \<Longrightarrow> catalog_reachable c'"
| append: "catalog_reachable c \<Longrightarrow> page_unused c pid \<Longrightarrow> append_heap_page c rid pid = (u, c') \<Longrightarrow> catalog_reachable c'"
| root: "catalog_reachable c \<Longrightarrow> page_unused c pid \<Longrightarrow> set_index_root_page c rid pid = (u, c') \<Longrightarrow> catalog_reachable c'"

text \<open>An allocated page id is unused, which is how \<open>CatalogStore\<close> and the transactions come by one.\<close>

lemma allocated_page_unused:
  assumes "cat_wf c" "allocate_page_id c = (Inr pid, c')"
  shows "page_unused c' pid"
proof -
  note a = allocate_page_id_wf [OF assms]
  have "pid \<notin> set (cat_pages c')" using a(2) a(5) [OF refl] by (auto simp: cat_pages_def)
  with a(5) [OF refl] show ?thesis by (auto simp: page_unused_def)
qed

lemma catalog_empty_wf [simp]: "cat_wf catalog_empty"
  by (simp add: cat_wf_def catalog_empty_def cat_pages_def)

lemma catalog_reachable_wf: "catalog_reachable c \<Longrightarrow> cat_wf c"
proof (induction rule: catalog_reachable.induct)
  case (append c pid rid u c')
  then show ?case using append_heap_page_wf [of c rid pid u c'] by (simp add: page_unused_def)
next
  case (root c pid rid u c')
  then show ?case using set_index_root_page_wf [of c rid pid u c'] by (simp add: page_unused_def)
qed (auto intro: create_table_metadata_wf create_index_metadata_wf register_extension_metadata_wf allocate_page_id_wf)

end
