(* ===== verification/Rdbms_Heap_View.thy ===== *)
theory Rdbms_Heap_View
  imports Rdbms_Catalog_Inv
begin

text \<open>
  Heap tables seen through a catalog and a map from page ids to pages. The catalog store gives
  such a view (its catalog and its file) and so does a transaction (its working catalog and
  the file overlaid with its dirty pages); what an insertion or a new table does to the rows
  of the view is proved once here.
\<close>

type_synonym page_map = "page_id \<Rightarrow> page option"

definition heap_ok :: "catalog \<Rightarrow> page_map \<Rightarrow> bool" where
  "heap_ok c pages \<longleftrightarrow> cat_wf c \<and> (\<forall>r \<in> set (cat_relations c). \<forall>pid \<in> set (relation_heap_pages r).
     \<exists>p. pages pid = Some p \<and> heap_page_ok p)"

definition map_load :: "page_map \<Rightarrow> page_id \<Rightarrow> page db_result" where
  "map_load pages pid = ok_or (pages pid) (Io UnexpectedEof)"

text \<open>Full scan and point read with a given way of loading pages.\<close>

definition scan_with :: "(page_id \<Rightarrow> page db_result) \<Rightarrow> catalog \<Rightarrow> relation_id \<Rightarrow> heap_row list db_result" where
  "scan_with load c rid =
     bindR (ensure_heap_relation c rid) (\<lambda>_. bindR (heap_pages c rid) (scan_pages load))"

definition view_scan :: "catalog \<Rightarrow> page_map \<Rightarrow> relation_id \<Rightarrow> heap_row list db_result" where
  "view_scan c pages = scan_with (map_load pages) c"

definition row_at :: "catalog \<Rightarrow> page_map \<Rightarrow> relation_id \<Rightarrow> row_id \<Rightarrow> byte_list \<Rightarrow> bool" where
  "row_at c pages rid row bytes \<longleftrightarrow> (\<exists>r p. relation_by_id c rid = Some r \<and> ri_kind r = RelTable \<and>
     row_page_id row \<in> set (relation_heap_pages r) \<and> pages (row_page_id row) = Some p \<and> heap_page_ok p \<and>
     read_record p (row_slot_id row) = Inr (Some bytes))"

section \<open>Pages of a view\<close>

lemma heap_ok_page:
  assumes "heap_ok c pages" "r \<in> set (cat_relations c)" "pid \<in> set (relation_heap_pages r)"
  obtains p where "pages pid = Some p" "heap_page_ok p"
  using assms unfolding heap_ok_def by blast

lemma relation_pages_heap: "set (relation_heap_pages r) \<subseteq> set (relation_pages r)"
  by (cases "ri_storage r") (auto simp: relation_heap_pages_def relation_pages_def)

lemma heap_page_in_cat:
  assumes "r \<in> set (cat_relations c)" "pid \<in> set (relation_heap_pages r)"
  shows "pid \<in> set (cat_pages c)"
  using assms relation_pages_heap [of r] by (auto simp: cat_pages_def)

lemma heap_pages_distinct:
  assumes "cat_wf c" "r \<in> set (cat_relations c)"
  shows "distinct (relation_heap_pages r)" "pid \<in> set (relation_heap_pages r) \<Longrightarrow> pid \<noteq> PageId 0"
proof -
  have "distinct (relation_pages r)"
    using assms by (auto simp: cat_wf_def cat_pages_def distinct_concat_iff)
  then show "distinct (relation_heap_pages r)"
    by (cases "ri_storage r") (auto simp: relation_heap_pages_def relation_pages_def)
  show "pid \<in> set (relation_heap_pages r) \<Longrightarrow> pid \<noteq> PageId 0"
    using heap_page_in_cat [OF assms(2)] assms(1) unfolding cat_wf_def by force
qed

lemma heap_pages_disjoint:
  assumes "cat_wf c" "r \<in> set (cat_relations c)" "r' \<in> set (cat_relations c)" "r \<noteq> r'"
    "pid \<in> set (relation_heap_pages r)"
  shows "pid \<notin> set (relation_heap_pages r')"
proof -
  have "disjnt (set (relation_pages a)) (set (relation_pages b))"
    if "distinct (concat (map relation_pages rs))" "a \<in> set rs" "b \<in> set rs" "a \<noteq> b" for rs a b
    using that by (induction rs) (auto simp: disjnt_def)
  moreover have "distinct (concat (map relation_pages (cat_relations c)))"
    using assms(1) by (simp add: cat_wf_def cat_pages_def)
  ultimately have "disjnt (set (relation_pages r)) (set (relation_pages r'))" using assms(2-4) by blast
  then show ?thesis using relation_pages_heap [of r] relation_pages_heap [of r'] assms(5) by (auto simp: disjnt_def)
qed

section \<open>Scans\<close>

lemma scan_with_table:
  assumes "relation_by_id c rid = Some r" "ri_kind r = RelTable"
  shows "scan_with load c rid = scan_pages load (relation_heap_pages r)"
  using assms by (simp add: scan_with_def ensure_heap_relation_def heap_pages_def)

lemma scan_pages_cong:
  assumes "\<And>pid. pid \<in> set pids \<Longrightarrow> load pid = load' pid"
  shows "scan_pages load pids = scan_pages load' pids"
proof -
  have "collectR (\<lambda>pid. bindR (load pid) (scan_page pid)) pids = collectR (\<lambda>pid. bindR (load' pid) (scan_page pid)) pids"
    using assms by (induction pids) auto
  then show ?thesis by (simp add: scan_pages_def)
qed

text \<open>A scan sees the pages and the catalog entry of its table only.\<close>

lemma scan_with_same:
  assumes "relation_by_id c' rid = relation_by_id c rid"
    and "\<And>r pid. relation_by_id c rid = Some r \<Longrightarrow> pid \<in> set (relation_heap_pages r) \<Longrightarrow> load' pid = load pid"
  shows "scan_with load' c' rid = scan_with load c rid"
proof (cases "relation_by_id c rid")
  case None
  with assms(1) show ?thesis by (simp add: scan_with_def ensure_heap_relation_def)
next
  case (Some r)
  show ?thesis
  proof (cases "ri_kind r = RelTable")
    case True
    have "scan_pages load' (relation_heap_pages r) = scan_pages load (relation_heap_pages r)"
      by (rule scan_pages_cong) (rule assms(2) [OF Some])
    with True Some assms(1) show ?thesis by (simp add: scan_with_table)
  next
    case False
    with Some assms(1) show ?thesis by (simp add: scan_with_def ensure_heap_relation_def)
  qed
qed

lemma view_scan_load:
  assumes "heap_ok c pages" "\<And>pid p. pages pid = Some p \<Longrightarrow> load pid = Inr p"
  shows "scan_with load c rid = view_scan c pages rid"
  unfolding view_scan_def
proof (rule scan_with_same [OF refl])
  fix r pid assume "relation_by_id c rid = Some r" "pid \<in> set (relation_heap_pages r)"
  with heap_ok_page [OF assms(1) relation_by_id_Some(1)] obtain p where "pages pid = Some p" by metis
  with assms(2) show "load pid = map_load pages pid" by (simp add: map_load_def)
qed

lemma view_scan_same:
  assumes "relation_by_id c' rid = relation_by_id c rid"
    and "\<And>r pid. relation_by_id c rid = Some r \<Longrightarrow> pid \<in> set (relation_heap_pages r) \<Longrightarrow> pages' pid = pages pid"
  shows "view_scan c' pages' rid = view_scan c pages rid"
  unfolding view_scan_def by (rule scan_with_same [OF assms(1)]) (simp add: map_load_def assms(2))

definition view_page :: "page_map \<Rightarrow> page_id \<Rightarrow> page" where
  "view_page pages pid = the (pages pid)"

lemma view_scan_rows:
  assumes "heap_ok c pages" "relation_by_id c rid = Some r" "ri_kind r = RelTable"
  shows "view_scan c pages rid = Inr (concat (map (\<lambda>q. page_rows q (view_page pages q)) (relation_heap_pages r)))"
  unfolding view_scan_def scan_with_table [OF assms(2,3)]
proof (rule scan_pages_eq)
  fix q assume "q \<in> set (relation_heap_pages r)"
  with heap_ok_page [OF assms(1) relation_by_id_Some(1) [OF assms(2)]] obtain p where "pages q = Some p" "heap_page_ok p" by metis
  then show "map_load pages q = Inr (view_page pages q) \<and> heap_page_ok (view_page pages q)"
    by (simp add: map_load_def view_page_def)
qed

section \<open>Inserting rows\<close>

text \<open>What putting one row into one table does to a view.\<close>

definition view_row_added ::
  "catalog \<Rightarrow> page_map \<Rightarrow> catalog \<Rightarrow> page_map \<Rightarrow> relation_id \<Rightarrow> row_id \<Rightarrow> byte_list \<Rightarrow> bool" where
  "view_row_added c pages c' pages' rid row bytes \<longleftrightarrow> heap_ok c' pages' \<and>
     (\<exists>xs ys. view_scan c pages rid = Inr (xs @ ys) \<and>
        view_scan c' pages' rid = Inr (xs @ \<lparr>hr_row_id = row, hr_bytes = bytes\<rparr> # ys)) \<and>
     (\<forall>rid2. rid2 \<noteq> rid \<longrightarrow> view_scan c' pages' rid2 = view_scan c pages rid2) \<and>
     row_at c' pages' rid row bytes"

lemma view_insert_existing:
  assumes ok: "heap_ok c pages" and r: "relation_by_id c rid = Some r" "ri_kind r = RelTable" "pid \<in> set (relation_heap_pages r)"
    and p: "pages pid = Some p" and ins: "insert_record p bytes = (Inr slot, p')"
  shows "view_row_added c pages c (pages(pid \<mapsto> p')) rid (RowId pid slot) bytes" "heap_page_ok p'" "page_id_of p' = page_id_of p"
proof -
  have cwf: "cat_wf c" using ok by (simp add: heap_ok_def)
  note mem = relation_by_id_Some [OF r(1)]
  from heap_ok_page [OF ok mem(1) r(3)] p have hp: "heap_page_ok p" by auto
  note rows = insert_page_rows [OF hp ins]
  show "heap_page_ok p'" "page_id_of p' = page_id_of p" by (rule rows)+
  have ok': "heap_ok c (pages(pid \<mapsto> p'))" using ok rows(1) by (auto simp: heap_ok_def)
  have old: "map_load pages q = Inr (view_page pages q) \<and> heap_page_ok (view_page pages q)" if "q \<in> set (relation_heap_pages r)" for q
    using heap_ok_page [OF ok mem(1) that] by (metis map_load_def view_page_def ok_or_simps(2) option.sel)
  have "\<exists>xs ys. scan_pages (map_load pages) (relation_heap_pages r) = Inr (xs @ ys) \<and>
      scan_pages (map_load (pages(pid \<mapsto> p'))) (relation_heap_pages r) =
        Inr (xs @ \<lparr>hr_row_id = RowId pid slot, hr_bytes = bytes\<rparr> # ys)"
    by (rule scan_insert [where pg = "view_page pages" and p' = p'])
      (use old r(3) heap_pages_distinct(1) [OF cwf mem(1)] ins p in \<open>auto simp: map_load_def view_page_def\<close>)
  then have "\<exists>xs ys. view_scan c pages rid = Inr (xs @ ys) \<and>
      view_scan c (pages(pid \<mapsto> p')) rid = Inr (xs @ \<lparr>hr_row_id = RowId pid slot, hr_bytes = bytes\<rparr> # ys)"
    unfolding view_scan_def scan_with_table [OF r(1,2)] .
  moreover have "view_scan c (pages(pid \<mapsto> p')) rid2 = view_scan c pages rid2" if "rid2 \<noteq> rid" for rid2
  proof (rule view_scan_same [OF refl])
    fix r' q assume r': "relation_by_id c rid2 = Some r'" "q \<in> set (relation_heap_pages r')"
    note mem' = relation_by_id_Some [OF r'(1)]
    have "r' \<noteq> r" using mem(2) mem'(2) that by auto
    from heap_pages_disjoint [OF cwf mem'(1) mem(1) this r'(2)] r(3) show "(pages(pid \<mapsto> p')) q = pages q" by auto
  qed
  moreover have "row_at c (pages(pid \<mapsto> p')) rid (RowId pid slot) bytes"
    using r rows(1) heap_page.read_inserted [OF _ ins] hp by (auto simp: row_at_def heap_page_ok_def)
  ultimately show "view_row_added c pages c (pages(pid \<mapsto> p')) rid (RowId pid slot) bytes"
    unfolding view_row_added_def using ok' by blast
qed

lemma append_heap_page_lookup:
  assumes "append_heap_page c rid pid = (Inr (), c')"
  obtains r where "relation_by_id c rid = Some r" "ri_kind r = RelTable"
    "\<exists>r'. relation_by_id c' rid = Some r' \<and> ri_kind r' = RelTable \<and>
      relation_heap_pages r' = relation_heap_pages r @ [pid]"
    "\<And>rid2. rid2 \<noteq> rid \<Longrightarrow> relation_by_id c' rid2 = relation_by_id c rid2"
    "\<And>x. x \<in> set (cat_relations c') \<Longrightarrow> x \<in> set (cat_relations c) \<or> relation_heap_pages x = relation_heap_pages r @ [pid]"
    "r \<in> set (cat_relations c)" "cat_next_page_id c' = cat_next_page_id c"
proof -
  from append_heap_page_Inr [OF assms] obtain as x bs h where x: "cat_relations c = as @ x # bs" "ri_id x = rid"
    "ri_kind x = RelTable" "ri_storage x = StorageHeap h"
    and c': "c' = c\<lparr>cat_relations := as @ x\<lparr>ri_storage := StorageHeap (h\<lparr>hs_pages := hs_pages h @ [pid]\<rparr>)\<rparr> # bs\<rparr>"
    and as: "\<forall>a \<in> set as. ri_id a \<noteq> rid" .
  have find_as: "find (\<lambda>r. ri_id r = rid) (as @ ys) = find (\<lambda>r. ri_id r = rid) ys" for ys
    using as by (induction as) auto
  have find_other: "find (\<lambda>r. ri_id r = rid2) (as @ y # bs) = find (\<lambda>r. ri_id r = rid2) (as @ x # bs)"
    if "rid2 \<noteq> rid" "ri_id y = rid" for rid2 y
    using that x(2) by (induction as) auto
  let ?y = "x\<lparr>ri_storage := StorageHeap (h\<lparr>hs_pages := hs_pages h @ [pid]\<rparr>)\<rparr>"
  show ?thesis
  proof (rule that [of x])
    show "relation_by_id c rid = Some x" using x find_as by (simp add: relation_by_id_def)
    show "\<exists>r'. relation_by_id c' rid = Some r' \<and> ri_kind r' = RelTable \<and>
      relation_heap_pages r' = relation_heap_pages x @ [pid]"
      using x find_as by (simp add: relation_by_id_def c' relation_heap_pages_def)
    show "relation_by_id c' rid2 = relation_by_id c rid2" if "rid2 \<noteq> rid" for rid2
      using find_other [OF that, of ?y] x by (simp add: relation_by_id_def c')
  qed (use x c' in \<open>auto simp: relation_heap_pages_def\<close>)
qed

lemma view_insert_new:
  assumes ok: "heap_ok c pages" and r: "relation_by_id c rid = Some r" "ri_kind r = RelTable"
    and al: "allocate_page_id c = (Inr pid, c1)" and ins: "insert_record (page_new pid Heap) bytes = (Inr slot, p)"
    and ap: "append_heap_page c1 rid pid = (Inr (), c2)"
    and pages': "\<forall>q. q \<noteq> PageId 0 \<longrightarrow> pages' q = (pages(pid \<mapsto> p)) q"
  shows "view_row_added c pages c2 pages' rid (RowId pid slot) bytes"
proof -
  have cwf: "cat_wf c" using ok by (simp add: heap_ok_def)
  note w1 = allocate_page_id_wf [OF cwf al]
  have pid: "page_no pid < cat_next_page_id c1" "page_no pid \<noteq> 0" "pid \<notin> set (cat_pages c)" using w1(5) [OF refl] by auto
  note fresh = insert_fresh_page [OF ins]
  have hp: "heap_page_ok p" using fresh by (simp add: heap_page_ok_def)
  have nz: "pid \<noteq> PageId 0" using pid(2) by auto
  from append_heap_page_lookup [OF ap] obtain r1 where r1: "relation_by_id c1 rid = Some r1"
    "\<exists>r'. relation_by_id c2 rid = Some r' \<and> ri_kind r' = RelTable \<and> relation_heap_pages r' = relation_heap_pages r1 @ [pid]"
    "\<And>rid2. rid2 \<noteq> rid \<Longrightarrow> relation_by_id c2 rid2 = relation_by_id c1 rid2"
    "\<And>x. x \<in> set (cat_relations c2) \<Longrightarrow> x \<in> set (cat_relations c1) \<or> relation_heap_pages x = relation_heap_pages r1 @ [pid]"
    by metis
  have lookup: "relation_by_id c1 = relation_by_id c" using w1(2) by (simp add: relation_by_id_def fun_eq_iff)
  with r1(1) r(1) have rr: "r1 = r" by simp
  from r1(2) obtain r' where r': "relation_by_id c2 rid = Some r'" "ri_kind r' = RelTable"
    "relation_heap_pages r' = relation_heap_pages r @ [pid]" unfolding rr by blast
  note mem = relation_by_id_Some [OF r(1)]
  have keep: "pages' q = pages q" if "x \<in> set (cat_relations c)" "q \<in> set (relation_heap_pages x)" for x q
    using pages' [rule_format, OF heap_pages_distinct(2) [OF cwf that]] heap_page_in_cat [OF that] pid(3) by auto
  have new: "pages' pid = Some p" using pages' [rule_format, OF nz] by simp
  have "cat_wf c2"
    by (rule append_heap_page_wf [OF w1(1) ap _ pid(2,1)]) (use pid(3) w1(2) in \<open>auto simp: cat_pages_def\<close>)
  moreover have "\<exists>x. pages' q = Some x \<and> heap_page_ok x" if x: "y \<in> set (cat_relations c2)" "q \<in> set (relation_heap_pages y)" for y q
  proof (cases "q = pid")
    case True with new hp show ?thesis by simp
  next
    case False
    with r1(4) [OF x(1)] x(2) rr mem(1) w1(2) obtain z where z: "z \<in> set (cat_relations c)" "q \<in> set (relation_heap_pages z)" by auto
    from heap_ok_page [OF ok z] keep [OF z] show ?thesis by auto
  qed
  ultimately have ok': "heap_ok c2 pages'" by (simp add: heap_ok_def)
  have "view_scan c2 pages' rid = Inr (concat (map (\<lambda>q. page_rows q (view_page pages' q)) (relation_heap_pages r @ [pid])))"
    using view_scan_rows [OF ok' r'(1,2)] r'(3) by simp
  moreover have "map (\<lambda>q. page_rows q (view_page pages' q)) (relation_heap_pages r) =
      map (\<lambda>q. page_rows q (view_page pages q)) (relation_heap_pages r)"
    using keep [OF mem(1)] by (simp add: view_page_def)
  moreover have "page_rows pid (view_page pages' pid) = [\<lparr>hr_row_id = RowId pid slot, hr_bytes = bytes\<rparr>]"
    using fresh(2,4) new by (simp add: page_rows_def slot_row_def view_page_def)
  ultimately have "\<exists>xs ys. view_scan c pages rid = Inr (xs @ ys) \<and>
      view_scan c2 pages' rid = Inr (xs @ \<lparr>hr_row_id = RowId pid slot, hr_bytes = bytes\<rparr> # ys)"
    using view_scan_rows [OF ok r]
    by (intro exI [of _ "concat (map (\<lambda>q. page_rows q (view_page pages q)) (relation_heap_pages r))"] exI [of _ "[]"]) simp
  moreover have "view_scan c2 pages' rid2 = view_scan c pages rid2" if "rid2 \<noteq> rid" for rid2
    by (rule view_scan_same) (use r1(3) [OF that] lookup keep [OF relation_by_id_Some(1)] in auto)
  moreover have "row_at c2 pages' rid (RowId pid slot) bytes"
    using r' new hp heap_page.read_inserted [OF page_new_wf ins] by (auto simp: row_at_def)
  ultimately show ?thesis unfolding view_row_added_def using ok' by blast
qed

section \<open>New tables\<close>

lemma find_append: "find P (xs @ ys) = (case find P xs of None \<Rightarrow> find P ys | Some x \<Rightarrow> Some x)"
  by (induction xs) auto

lemma new_heap_page_ok: "heap_page_ok (page_new pid Heap)"
  using page_new_ident [of pid Heap] by (simp add: heap_page_ok_def page_ident_def Let_def)

lemma view_create_table:
  assumes ok: "heap_ok c pages" and md: "create_table_metadata c name columns = (Inr (rid, pid), c')"
    and pages': "\<forall>q. q \<noteq> PageId 0 \<longrightarrow> pages' q = (pages(pid \<mapsto> page_new pid Heap)) q"
  shows "heap_ok c' pages'" "view_scan c' pages' rid = Inr []"
    "\<exists>r. relation_by_name c' name = Some r \<and> ri_id r = rid \<and> ri_kind r = RelTable \<and> ri_columns r = columns"
    "relation_by_id c rid = None" "\<And>rid2. rid2 \<noteq> rid \<Longrightarrow> view_scan c' pages' rid2 = view_scan c pages rid2"
proof -
  have cwf: "cat_wf c" using ok by (simp add: heap_ok_def)
  from create_table_metadata_Inr [OF cwf md] obtain
    c: "rid = RelationId (cat_next_relation_id c)"
      "cat_relations c' = cat_relations c @ [\<lparr>ri_id = rid, ri_name = name, ri_kind = RelTable,
        ri_storage = StorageHeap \<lparr>hs_pages = [pid]\<rparr>, ri_columns = columns\<rparr>]" (is "_ = _ @ [?r]")
      "name \<notin> ri_name ` set (cat_relations c)" "pid \<notin> set (cat_pages c)" "page_no pid \<noteq> 0" "cat_wf c'"
    by metis
  have nz: "pid \<noteq> PageId 0" using c(5) by auto
  have new: "pages' pid = Some (page_new pid Heap)" using pages' [rule_format, OF nz] by simp
  have keep: "pages' q = pages q" if "x \<in> set (cat_relations c)" "q \<in> set (relation_heap_pages x)" for x q
    using pages' [rule_format, OF heap_pages_distinct(2) [OF cwf that]] heap_page_in_cat [OF that] c(4) by auto
  have "ri_id x \<noteq> rid" if "x \<in> set (cat_relations c)" for x using fresh_relation_id [OF cwf] that c(1) by force
  then have none: "find (\<lambda>x. ri_id x = rid) (cat_relations c) = None" by (auto simp: find_None_iff)
  then show "relation_by_id c rid = None" by (simp add: relation_by_id_def)
  have byid: "relation_by_id c' rid = Some ?r" using none by (simp add: relation_by_id_def c(2) find_append)
  have "relation_by_name c' name = Some ?r"
    using c(3) by (simp add: relation_by_name_def c(2) find_append relation_by_name_None [unfolded relation_by_name_def, symmetric])
  then show "\<exists>r. relation_by_name c' name = Some r \<and> ri_id r = rid \<and> ri_kind r = RelTable \<and> ri_columns r = columns" by simp
  have pages_ok: "\<exists>p. pages' q = Some p \<and> heap_page_ok p" if "x \<in> set (cat_relations c)" "q \<in> set (relation_heap_pages x)" for x q
    using heap_ok_page [OF ok that] keep [OF that] by metis
  show ok': "heap_ok c' pages'"
    using pages_ok new new_heap_page_ok c(6) unfolding heap_ok_def c(2) by (auto simp: relation_heap_pages_def)
  show "view_scan c' pages' rid = Inr []"
    using view_scan_rows [OF ok' byid] new by (simp add: relation_heap_pages_def page_rows_def view_page_def)
  show "view_scan c' pages' rid2 = view_scan c pages rid2" if "rid2 \<noteq> rid" for rid2
  proof (rule view_scan_same)
    show "relation_by_id c' rid2 = relation_by_id c rid2"
      using that by (simp add: relation_by_id_def c(2) find_append split: option.splits)
  qed (use keep relation_by_id_Some in blast)
qed

end
