(* ===== verification/Rdbms_Heap.thy ===== *)
theory Rdbms_Heap
  imports Rdbms_Heap_View
begin

text \<open>
  The catalog store as a collection of tables. \<open>store_wf\<close> says that the catalog is well
  formed and that every heap page it lists is a well-formed heap page of the file;
  \<open>persisted\<close> that the catalog page on disk is the one of the catalog in memory. The
  successful operations keep both, insert exactly one row into one table, and reopening the
  page file gives the same store back.
\<close>

section \<open>The store invariant\<close>

definition store_pages :: "catalog_store \<Rightarrow> page_map" where
  "store_pages s = pf_pages (cs_page_file s)"

definition store_wf :: "catalog_store \<Rightarrow> bool" where
  "store_wf s \<longleftrightarrow> heap_ok (cs_catalog s) (store_pages s) \<and> pf_wf (cs_page_file s) \<and> reads_ok (pf_file (cs_page_file s))"

definition persisted :: "catalog_store \<Rightarrow> bool" where
  "persisted s \<longleftrightarrow> (\<exists>p. to_page (cs_catalog s) = Inr p \<and> store_pages s (PageId 0) = Some p)"

lemma pf_pages_id: "pf_pages pf pid = Some p \<Longrightarrow> page_id_of p = pid"
  by (auto simp: pf_pages_def page_at_def Let_def split: if_splits)

lemma store_load:
  assumes "store_wf s" "store_pages s pid = Some p"
  shows "read_page (cs_page_file s) pid = Inr p"
  using assms by (simp add: store_wf_def store_pages_def pf_wf_def read_page_benign)

lemma store_full_scan_view:
  assumes "store_wf s"
  shows "store_full_scan s rid = view_scan (cs_catalog s) (store_pages s) rid"
proof -
  have ok: "heap_ok (cs_catalog s) (store_pages s)" using assms by (simp add: store_wf_def)
  show ?thesis
    using view_scan_load [OF ok, of "read_page (cs_page_file s)" rid] store_load [OF assms]
    by (simp add: store_full_scan_def scan_with_def)
qed

lemma store_read_row_view:
  assumes "store_wf s" "row_at (cs_catalog s) (store_pages s) rid row bytes"
  shows "store_read_row s rid row = Inr (Some \<lparr>hr_row_id = row, hr_bytes = bytes\<rparr>)"
proof -
  from assms(2) obtain r p where "relation_by_id (cs_catalog s) rid = Some r" "ri_kind r = RelTable"
    "row_page_id row \<in> set (relation_heap_pages r)" "store_pages s (row_page_id row) = Some p" "heap_page_ok p"
    "read_record p (row_slot_id row) = Inr (Some bytes)" unfolding row_at_def by blast
  with store_load [OF assms(1)] show ?thesis
    by (simp add: store_read_row_def ensure_heap_relation_def heap_pages_def heap_page_ok_def)
qed

section \<open>Writing pages\<close>

lemma store_write_page_Inr:
  assumes "store_write_page s p = (Inr u, s')" "pf_wf (cs_page_file s)" "length (page_bytes p) = 4096"
  shows "cs_catalog s' = cs_catalog s" "pf_wf (cs_page_file s')" "store_pages s' = (store_pages s)(page_id_of p \<mapsto> p)"
    "reads_ok (pf_file (cs_page_file s)) \<Longrightarrow> reads_ok (pf_file (cs_page_file s'))"
proof -
  from assms(1) obtain pf' where w: "write_page (cs_page_file s) p = (Inr u, pf')" "s' = s\<lparr>cs_page_file := pf'\<rparr>"
    by (auto simp: store_write_page_def split: prod.splits)
  note f = write_page_wf [OF w(1) assms(3,2)]
  from f w(2) show "cs_catalog s' = cs_catalog s" "pf_wf (cs_page_file s')"
    "store_pages s' = (store_pages s)(page_id_of p \<mapsto> p)"
    "reads_ok (pf_file (cs_page_file s)) \<Longrightarrow> reads_ok (pf_file (cs_page_file s'))"
    by (simp_all add: file_frame_ok store_pages_def)
qed

lemma store_save_Inr:
  assumes "store_save s = (Inr u, s')" "pf_wf (cs_page_file s)"
  shows "persisted s'" "cs_catalog s' = cs_catalog s" "pf_wf (cs_page_file s')"
    "q \<noteq> PageId 0 \<Longrightarrow> store_pages s' q = store_pages s q"
    "reads_ok (pf_file (cs_page_file s)) \<Longrightarrow> reads_ok (pf_file (cs_page_file s'))"
proof -
  from assms(1) obtain p where p: "to_page (cs_catalog s) = Inr p" "store_write_page s p = (Inr u, s')"
    by (auto simp: store_save_def catalog_save_def store_write_page_def split: sum.splits prod.splits)
  from to_page_Inr [OF p(1)] have wf: "page_wf p" and id: "page_id_of p = PageId 0" by auto
  note f = store_write_page_Inr [OF p(2) assms(2) page_wf_length [OF wf]]
  from f p(1) id show "persisted s'" "cs_catalog s' = cs_catalog s" "pf_wf (cs_page_file s')"
    "q \<noteq> PageId 0 \<Longrightarrow> store_pages s' q = store_pages s q"
    "reads_ok (pf_file (cs_page_file s)) \<Longrightarrow> reads_ok (pf_file (cs_page_file s'))"
    by (simp_all add: persisted_def)
qed

section \<open>Inserting rows\<close>

lemma insert_into_pages_cases:
  assumes "insert_into_pages s bytes pids = (r, s')"
  shows "(r = Inr None \<longrightarrow> s' = s) \<and> (\<forall>row. r = Inr (Some row) \<longrightarrow> (\<exists>pid p slot p'.
    pid \<in> set pids \<and> read_page (cs_page_file s) pid = Inr p \<and> insert_record p bytes = (Inr slot, p') \<and>
    row = RowId pid slot \<and> store_write_page s p' = (Inr (), s')))"
  using assms
proof (induction pids)
  case (Cons pid rest)
  show ?case
  proof (cases "read_page (cs_page_file s) pid")
    case (Inl e)
    with Cons.prems show ?thesis by auto
  next
    case (Inr p)
    obtain q p' where ins: "insert_record p bytes = (q, p')" by fastforce
    show ?thesis
    proof (cases q)
      case slot: (Inr slot)
      with Cons.prems Inr ins show ?thesis by (cases "store_write_page s p'"; cases "fst (store_write_page s p')") auto
    next
      case (Inl e)
      show ?thesis
      proof (cases "\<exists>m. e = User m")
        case True
        with Cons.prems Inr ins Inl have "insert_into_pages s bytes rest = (r, s')" by auto
        from Cons.IH [OF this] show ?thesis unfolding set_simps(2) by blast
      next
        case False
        with Cons.prems Inr ins Inl show ?thesis by (cases e) auto
      qed
    qed
  qed
qed auto

lemma insert_into_new_page_Inr:
  assumes "insert_into_new_page s rid bytes = (Inr row, s')"
  obtains pid c1 slot p s1 c2 where "allocate_page_id (cs_catalog s) = (Inr pid, c1)"
    "insert_record (page_new pid Heap) bytes = (Inr slot, p)" "store_write_page (s\<lparr>cs_catalog := c1\<rparr>) p = (Inr (), s1)"
    "append_heap_page (cs_catalog s1) rid pid = (Inr (), c2)" "store_save (s1\<lparr>cs_catalog := c2\<rparr>) = (Inr (), s')"
    "row = RowId pid slot"
proof -
  obtain a c1 where al: "allocate_page_id (cs_catalog s) = (a, c1)" by fastforce
  with assms obtain pid where a: "a = Inr pid" by (cases a) (auto simp: insert_into_new_page_def)
  obtain b p where ins: "insert_record (page_new pid Heap) bytes = (b, p)" by fastforce
  with assms al a obtain slot where b: "b = Inr slot" by (cases b) (auto simp: insert_into_new_page_def)
  from assms al a ins b obtain s1 where w: "store_write_page (s\<lparr>cs_catalog := c1\<rparr>) p = (Inr (), s1)"
    and k: "(case append_heap_page (cs_catalog s1) rid pid of
              (Inl e, c2) \<Rightarrow> (Inl e, s1\<lparr>cs_catalog := c2\<rparr>)
            | (Inr _, c2) \<Rightarrow>
                bindS (store_save (s1\<lparr>cs_catalog := c2\<rparr>)) (\<lambda>_ s2. (Inr (RowId pid slot), s2))) = (Inr row, s')"
    by (auto simp: insert_into_new_page_def bindS_eq_Inr)
  obtain d c2 where ap: "append_heap_page (cs_catalog s1) rid pid = (d, c2)" by fastforce
  with k have "d = Inr ()" "store_save (s1\<lparr>cs_catalog := c2\<rparr>) = (Inr (), s')" "row = RowId pid slot"
    by (cases d; auto simp: bindS_eq_Inr)+
  with al a ins b w ap show ?thesis by (intro that) auto
qed

text \<open>What a store operation that put one row into one table has done.\<close>

definition row_added :: "catalog_store \<Rightarrow> catalog_store \<Rightarrow> relation_id \<Rightarrow> row_id \<Rightarrow> byte_list \<Rightarrow> bool" where
  "row_added s s' rid row bytes \<longleftrightarrow> store_wf s' \<and> persisted s' \<and>
     (\<exists>xs ys. store_full_scan s rid = Inr (xs @ ys) \<and>
        store_full_scan s' rid = Inr (xs @ \<lparr>hr_row_id = row, hr_bytes = bytes\<rparr> # ys)) \<and>
     (\<forall>rid'. rid' \<noteq> rid \<longrightarrow> store_full_scan s' rid' = store_full_scan s rid') \<and>
     store_read_row s' rid row = Inr (Some \<lparr>hr_row_id = row, hr_bytes = bytes\<rparr>)"

lemma row_added_view:
  assumes "store_wf s" "pf_wf (cs_page_file s')" "reads_ok (pf_file (cs_page_file s'))" "persisted s'"
    and v: "view_row_added (cs_catalog s) (store_pages s) (cs_catalog s') (store_pages s') rid row bytes"
  shows "row_added s s' rid row bytes"
proof -
  have wf': "store_wf s'" using assms(2,3) v by (simp add: store_wf_def view_row_added_def)
  have "row_at (cs_catalog s') (store_pages s') rid row bytes" using v by (simp add: view_row_added_def)
  from store_read_row_view [OF wf' this] v wf' assms(4) show ?thesis
    unfolding row_added_def view_row_added_def by (simp add: store_full_scan_view [OF wf'] store_full_scan_view [OF assms(1)])
qed

lemma store_insert_row_cases:
  assumes "store_insert_row s rid bytes = (Inr row, s')"
  obtains r found s1 where "relation_by_id (cs_catalog s) rid = Some r" "ri_kind r = RelTable"
    "insert_into_pages s bytes (relation_heap_pages r) = (Inr found, s1)"
    "(case found of Some x \<Rightarrow> row = x \<and> s' = s1 | None \<Rightarrow> insert_into_new_page s1 rid bytes = (Inr row, s'))"
proof -
  from assms obtain pids found s1 where pids: "ensure_heap_relation (cs_catalog s) rid = Inr ()" "heap_pages (cs_catalog s) rid = Inr pids"
    and i: "insert_into_pages s bytes pids = (Inr found, s1)"
    and k: "(case found of Some row_id \<Rightarrow> (Inr row_id, s1) | None \<Rightarrow> insert_into_new_page s1 rid bytes) = (Inr row, s')"
    by (auto simp: store_insert_row_def bindS_eq_Inr res_simps split: sum.splits)
  from pids obtain r where "relation_by_id (cs_catalog s) rid = Some r" "ri_kind r = RelTable" "pids = relation_heap_pages r"
    by (auto simp: ensure_heap_relation_def heap_pages_def res_simps split: if_splits)
  with i k show ?thesis by (intro that) (auto split: option.splits)
qed

lemma store_insert_row_added:
  assumes wf: "store_wf s" and pers: "persisted s" and ins: "store_insert_row s rid bytes = (Inr row, s')"
  shows "row_added s s' rid row bytes"
proof -
  have ok: "heap_ok (cs_catalog s) (store_pages s)" and pwf: "pf_wf (cs_page_file s)" and rok: "reads_ok (pf_file (cs_page_file s))"
    using wf by (simp_all add: store_wf_def)
  from store_insert_row_cases [OF ins] obtain r found s1 where r: "relation_by_id (cs_catalog s) rid = Some r" "ri_kind r = RelTable"
    and i: "insert_into_pages s bytes (relation_heap_pages r) = (Inr found, s1)"
    and k: "(case found of Some x \<Rightarrow> row = x \<and> s' = s1 | None \<Rightarrow> insert_into_new_page s1 rid bytes = (Inr row, s'))" .
  note mem = relation_by_id_Some [OF r(1)]
  show ?thesis
  proof (cases found)
    case (Some x)
    with insert_into_pages_cases [OF i] k obtain pid p slot p' where pid: "pid \<in> set (relation_heap_pages r)"
      "read_page (cs_page_file s) pid = Inr p" "insert_record p bytes = (Inr slot, p')" "row = RowId pid slot"
      "store_write_page s p' = (Inr (), s')" by auto
    from heap_ok_page [OF ok mem(1) pid(1)] store_load [OF wf] pid(2) have p: "store_pages s pid = Some p" by (metis sum.inject(2))
    note v = view_insert_existing [OF ok r pid(1) p pid(3)]
    have id: "page_id_of p' = pid" using v(3) p pf_pages_id by (simp add: store_pages_def)
    have len: "length (page_bytes p') = 4096" using v(2) by (simp add: heap_page_ok_def)
    note f = store_write_page_Inr [OF pid(5) pwf len, unfolded id]
    have nz: "pid \<noteq> PageId 0" using heap_pages_distinct(2) [OF _ mem(1) pid(1)] ok by (simp add: heap_ok_def)
    show ?thesis
      by (rule row_added_view [OF wf f(2) f(4) [OF rok]]) (use pers f(1,3) nz v(1) pid(4) in \<open>auto simp: persisted_def\<close>)
  next
    case None
    with insert_into_pages_cases [OF i] k have "insert_into_new_page s rid bytes = (Inr row, s')" by simp
    from insert_into_new_page_Inr [OF this] obtain pid c1 slot p s1 c2 where
      al: "allocate_page_id (cs_catalog s) = (Inr pid, c1)" and p: "insert_record (page_new pid Heap) bytes = (Inr slot, p)"
      and w: "store_write_page (s\<lparr>cs_catalog := c1\<rparr>) p = (Inr (), s1)" and ap: "append_heap_page (cs_catalog s1) rid pid = (Inr (), c2)"
      and sv: "store_save (s1\<lparr>cs_catalog := c2\<rparr>) = (Inr (), s')" and row: "row = RowId pid slot" .
    note fresh = insert_fresh_page [OF p]
    note f1 = store_write_page_Inr [OF w, simplified, OF pwf page_wf_length [OF fresh(3)], unfolded fresh(6)]
    note f2 = store_save_Inr [OF sv, simplified, OF f1(2)]
    have "\<forall>q. q \<noteq> PageId 0 \<longrightarrow> store_pages s' q = ((store_pages s)(pid \<mapsto> p)) q"
      using f1(3) f2(4) by (simp add: store_pages_def)
    note v = view_insert_new [OF ok r al p ap [unfolded f1(1)] this]
    show ?thesis
      by (rule row_added_view [OF wf f2(3) f2(5) [OF f1(4) [OF rok]] f2(1)]) (use v f2(2) row in auto)
  qed
qed

section \<open>Creating tables and reopening\<close>

lemma store_create_table_Inr:
  assumes wf: "store_wf s" and cr: "store_create_table s name columns = (Inr rid, s')"
  shows "store_wf s'" "persisted s'" "store_full_scan s' rid = Inr []"
    "\<exists>r. relation_by_name (cs_catalog s') name = Some r \<and> ri_id r = rid \<and> ri_kind r = RelTable \<and> ri_columns r = columns"
    "relation_by_id (cs_catalog s) rid = None"
    "rid' \<noteq> rid \<Longrightarrow> store_full_scan s' rid' = store_full_scan s rid'"
proof -
  have ok: "heap_ok (cs_catalog s) (store_pages s)" and pwf: "pf_wf (cs_page_file s)" and rok: "reads_ok (pf_file (cs_page_file s))"
    using wf by (simp_all add: store_wf_def)
  obtain d c where md: "create_table_metadata (cs_catalog s) name columns = (d, c)" by fastforce
  with cr obtain rid0 pid where d: "d = Inr (rid0, pid)" by (cases d) (auto simp: store_create_table_def)
  from cr md d obtain s1 where w: "store_write_page (s\<lparr>cs_catalog := c\<rparr>) (page_new pid Heap) = (Inr (), s1)"
    and sv: "store_save s1 = (Inr (), s')" and rid: "rid0 = rid"
    by (auto simp: store_create_table_def bindS_eq_Inr)
  note f1 = store_write_page_Inr [OF w, simplified, OF pwf]
  note f2 = store_save_Inr [OF sv f1(2)]
  have cat': "cs_catalog s' = c" using f1(1) f2(2) by simp
  have "\<forall>q. q \<noteq> PageId 0 \<longrightarrow> store_pages s' q = ((store_pages s)(pid \<mapsto> page_new pid Heap)) q"
    using f1(3) f2(4) by (simp add: page_new_id store_pages_def)
  note v = view_create_table [OF ok md [unfolded d rid] this, folded cat']
  show wf': "store_wf s'" using v(1) f2(3) f2(5) [OF f1(4) [OF rok]] by (simp add: store_wf_def)
  show "persisted s'" by (rule f2(1))
  show "store_full_scan s' rid = Inr []" using v(2) by (simp add: store_full_scan_view [OF wf'])
  show "\<exists>r. relation_by_name (cs_catalog s') name = Some r \<and> ri_id r = rid \<and> ri_kind r = RelTable \<and> ri_columns r = columns"
    "relation_by_id (cs_catalog s) rid = None" by (rule v(3)) (rule v(4))
  show "store_full_scan s' rid' = store_full_scan s rid'" if "rid' \<noteq> rid"
    using v(5) [OF that] by (simp add: store_full_scan_view [OF wf'] store_full_scan_view [OF wf])
qed

lemma store_reopen:
  assumes "store_wf s" "persisted s" "catalog_ok (cs_catalog s)"
  shows "store_open (cs_page_file s) = (Inr s, cs_page_file s)"
proof -
  from assms(2) obtain p where p: "to_page (cs_catalog s) = Inr p" "pf_pages (cs_page_file s) (PageId 0) = Some p"
    unfolding persisted_def store_pages_def by blast
  have "load_or_bootstrap (cs_page_file s) = (Inr (cs_catalog s), cs_page_file s)"
    by (rule catalog_load_page [OF assms(3) p(1) _ _ p(2)]) (use assms(1) in \<open>simp_all add: store_wf_def pf_wf_def\<close>)
  then show ?thesis by (simp add: store_open_def)
qed

end
