(* ===== verification/Rdbms_Heap_Spec.thy ===== *)
theory Rdbms_Heap_Spec
  imports Rdbms_Heap
begin

text \<open>
  The contract of the catalog store: when its operations succeed on a working disk, what they
  change, what a reopened store contains, and what a failed table creation leaves behind.
\<close>

section \<open>Operations succeed on a working disk\<close>

definition store_writes_ok :: "catalog_store \<Rightarrow> bool" where
  "store_writes_ok s \<longleftrightarrow> writes_ok (pf_file (cs_page_file s))"

definition catalog_fits :: "catalog \<Rightarrow> bool" where
  "catalog_fits c = (case encode_catalog c of Inl e \<Rightarrow> False | Inr bs \<Rightarrow> length bs \<le> 4056)"

definition page_id_fits :: "page_id \<Rightarrow> bool" where
  "page_id_fits pid \<longleftrightarrow> unat (page_no pid) * PAGE_SIZE + PAGE_SIZE \<le> MAX_FILE_SIZE"

lemma page_wf_fits: "page_wf p \<Longrightarrow> page_id_fits (page_id_of p) \<Longrightarrow> page_fits p"
  by (simp add: page_fits_def page_id_fits_def page_wf_valid)

lemma to_page_fits:
  assumes "catalog_fits c"
  obtains p where "to_page c = Inr p" "page_fits p"
proof -
  from assms obtain bs where bs: "encode_catalog c = Inr bs" "length bs \<le> 4056"
    by (auto simp: catalog_fits_def split: sum.splits)
  from insert_fresh [OF bs(2), of "PageId 0" Catalog] obtain p where
    "insert_record (page_new (PageId 0) Catalog) bs = (Inr (SlotId 0), p)" by blast
  then have p: "to_page c = Inr p" by (simp add: to_page_def bs(1))
  from to_page_Inr [OF p] have "page_wf p" "page_id_of p = PageId 0" by auto
  with p show ?thesis by (intro that [of p]) (auto intro!: page_wf_fits simp: page_id_fits_def MAX_FILE_SIZE_def)
qed

lemma store_write_page_ok:
  assumes "store_writes_ok s" "page_fits p"
  obtains s' where "store_write_page s p = (Inr (), s')" "store_writes_ok s'"
proof -
  from pf_store.store_succeeds [OF assms [unfolded store_writes_ok_def]] obtain pf' where
    "write_page (cs_page_file s) p = (Inr (), pf')" "writes_ok (pf_file pf')" by blast
  then show ?thesis by (intro that) (auto simp: store_write_page_def store_writes_ok_def)
qed

lemma store_save_ok:
  assumes "store_writes_ok s" "catalog_fits (cs_catalog s)"
  obtains s' where "store_save s = (Inr (), s')" "store_writes_ok s'"
proof -
  from to_page_fits [OF assms(2)] obtain p where p: "to_page (cs_catalog s) = Inr p" "page_fits p" .
  from store_write_page_ok [OF assms(1) p(2)] obtain s' where
    "store_write_page s p = (Inr (), s')" "store_writes_ok s'" .
  then show ?thesis using p(1) by (intro that) (auto simp: store_save_def catalog_save_def store_write_page_def)
qed

text \<open>The file can take one more page for the table, and the catalog can list it.\<close>

definition heap_can_grow :: "catalog \<Rightarrow> relation_id \<Rightarrow> bool" where
  "heap_can_grow c rid =
     (case allocate_page_id c of
        (Inr pid, c1) \<Rightarrow> page_id_fits pid \<and>
          (case append_heap_page c1 rid pid of (Inr _, c2) \<Rightarrow> catalog_fits c2 | _ \<Rightarrow> False)
      | _ \<Rightarrow> False)"

lemma insert_into_new_page_ok:
  assumes "store_writes_ok s" "heap_can_grow (cs_catalog s) rid" "length bytes \<le> 4056"
  shows "\<exists>row s'. insert_into_new_page s rid bytes = (Inr row, s') \<and> store_writes_ok s'"
proof -
  obtain a c1 where al: "allocate_page_id (cs_catalog s) = (a, c1)" by fastforce
  with assms(2) obtain pid where a: "a = Inr pid" "page_id_fits pid"
    by (cases a) (auto simp: heap_can_grow_def)
  obtain b c2 where ap: "append_heap_page c1 rid pid = (b, c2)" by fastforce
  with assms(2) al a have b: "b = Inr ()" "catalog_fits c2" by (cases b; auto simp: heap_can_grow_def)+
  from insert_fresh [OF assms(3), of pid Heap] obtain p where
    p: "insert_record (page_new pid Heap) bytes = (Inr (SlotId 0), p)" by blast
  from insert_fresh_page [OF p] a(2) have "page_fits p" by (intro page_wf_fits) auto
  moreover have "store_writes_ok (s\<lparr>cs_catalog := c1\<rparr>)" using assms(1) by (simp add: store_writes_ok_def)
  ultimately obtain s1 where s1: "store_write_page (s\<lparr>cs_catalog := c1\<rparr>) p = (Inr (), s1)" "store_writes_ok s1"
    by (metis store_write_page_ok)
  have cat: "cs_catalog s1 = c1" using s1(1) by (auto simp: store_write_page_def split: prod.splits)
  have "store_writes_ok (s1\<lparr>cs_catalog := c2\<rparr>)" using s1(2) by (simp add: store_writes_ok_def)
  then obtain s2 where "store_save (s1\<lparr>cs_catalog := c2\<rparr>) = (Inr (), s2)" "store_writes_ok s2"
    using b(2) by (metis store_save_ok catalog_store.select_convs(2) catalog_store.surjective catalog_store.update_convs(2))
  with al a p s1(1) cat ap b show ?thesis by (simp add: insert_into_new_page_def)
qed

lemma insert_into_pages_ok:
  assumes "store_writes_ok s" "store_wf s" "r \<in> set (cat_relations (cs_catalog s))"
    "set pids \<subseteq> set (relation_heap_pages r)"
  shows "\<exists>found s'. insert_into_pages s bytes pids = (Inr found, s') \<and> store_writes_ok s'"
  using assms(4)
proof (induction pids)
  case (Cons pid rest)
  have ok: "heap_ok (cs_catalog s) (store_pages s)" using assms(2) by (simp add: store_wf_def)
  from Cons.prems have "pid \<in> set (relation_heap_pages r)" by simp
  from heap_ok_page [OF ok assms(3) this] obtain p where p: "store_pages s pid = Some p" "heap_page_ok p" .
  note load = store_load [OF assms(2) p(1)]
  obtain q p' where ins: "insert_record p bytes = (q, p')" by fastforce
  have wf: "page_wf p" using p(2) by (simp add: heap_page_ok_def)
  show ?case
  proof (cases q)
    case (Inl e)
    from heap_page.insert_rejected(2) [OF wf ins [unfolded Inl]] obtain m where "e = User m" by blast
    with Inl ins load Cons show ?thesis by simp
  next
    case (Inr slot)
    note new = insert_page_rows [OF p(2) ins [unfolded Inr]]
    have "file_wf (pf_file (cs_page_file s))" using assms(2) by (simp add: store_wf_def pf_wf_def)
    with p(1) have "page_id_fits pid"
      by (auto simp: store_pages_def pf_pages_def page_at_def page_id_fits_def file_wf_def Let_def split: if_splits)
    with new pf_pages_id p(1) have "page_fits p'" by (intro page_wf_fits) (auto simp: heap_page_ok_def store_pages_def)
    from store_write_page_ok [OF assms(1) this] obtain s' where "store_write_page s p' = (Inr (), s')" "store_writes_ok s'" .
    with Inr ins load show ?thesis by simp
  qed
qed (use assms(1) in simp)

lemma store_insert_row_ok:
  assumes "store_writes_ok s" "store_wf s" "relation_by_id (cs_catalog s) rid = Some r" "ri_kind r = RelTable"
    "length bytes \<le> 4056" "heap_can_grow (cs_catalog s) rid"
  shows "\<exists>row s'. store_insert_row s rid bytes = (Inr row, s') \<and> store_writes_ok s'"
proof -
  from insert_into_pages_ok [OF assms(1,2) relation_by_id_Some(1) [OF assms(3)], of "relation_heap_pages r" bytes]
  obtain found s1 where i: "insert_into_pages s bytes (relation_heap_pages r) = (Inr found, s1)" "store_writes_ok s1" by auto
  have pre: "ensure_heap_relation (cs_catalog s) rid = Inr ()" "heap_pages (cs_catalog s) rid = Inr (relation_heap_pages r)"
    using assms(3,4) by (simp_all add: ensure_heap_relation_def heap_pages_def)
  show ?thesis
  proof (cases found)
    case None
    with insert_into_pages_cases [OF i(1)] have "s1 = s" by simp
    with insert_into_new_page_ok [OF assms(1,6,5)] i None pre show ?thesis by (simp add: store_insert_row_def)
  next
    case (Some row)
    with i pre show ?thesis by (simp add: store_insert_row_def)
  qed
qed

lemma store_create_table_ok:
  assumes "store_writes_ok s" "create_table_metadata (cs_catalog s) name columns = (Inr (rid, pid), c)"
    "page_id_fits pid" "catalog_fits c"
  shows "\<exists>s'. store_create_table s name columns = (Inr rid, s') \<and> store_writes_ok s' \<and> cs_catalog s' = c"
proof -
  have "store_writes_ok (s\<lparr>cs_catalog := c\<rparr>)" using assms(1) by (simp add: store_writes_ok_def)
  moreover have "page_fits (page_new pid Heap)" using assms(3) by (intro page_wf_fits) (simp_all add: page_new_id)
  ultimately obtain s1 where s1: "store_write_page (s\<lparr>cs_catalog := c\<rparr>) (page_new pid Heap) = (Inr (), s1)" "store_writes_ok s1"
    by (metis store_write_page_ok)
  have cat: "cs_catalog s1 = c" using s1(1) by (auto simp: store_write_page_def split: prod.splits)
  with assms(4) store_save_ok [OF s1(2)] obtain s2 where s2: "store_save s1 = (Inr (), s2)" "store_writes_ok s2" by blast
  then have "cs_catalog s2 = c" using cat by (auto simp: store_save_def split: prod.splits)
  with s1(1) s2 assms(2) show ?thesis by (simp add: store_create_table_def)
qed

section \<open>What the store keeps\<close>

lemma append_heap_page_ok:
  assumes "append_heap_page c rid pid = (Inr (), c')" "catalog_ok c"
  shows "catalog_ok c'"
proof -
  from append_heap_page_Inr [OF assms(1)] obtain as x bs h where "cat_relations c = as @ x # bs"
    "c' = c\<lparr>cat_relations := as @ x\<lparr>ri_storage := StorageHeap (h\<lparr>hs_pages := hs_pages h @ [pid]\<rparr>)\<rparr> # bs\<rparr>" .
  with assms(2) show ?thesis by (auto simp: catalog_ok_def relation_ok_def storage_ok_def)
qed

lemma store_write_page_catalog: "store_write_page s p = (r, s') \<Longrightarrow> cs_catalog s' = cs_catalog s"
  by (auto simp: store_write_page_def split: prod.splits)

lemma store_save_catalog: "store_save s = (r, s') \<Longrightarrow> cs_catalog s' = cs_catalog s"
  by (auto simp: store_save_def split: prod.splits)

lemma insert_into_new_page_catalog_ok:
  assumes "insert_into_new_page s rid bytes = (Inr row, s')" "catalog_ok (cs_catalog s)"
  shows "catalog_ok (cs_catalog s')"
proof -
  from insert_into_new_page_Inr [OF assms(1)] obtain pid c1 slot p s1 c2 where
    al: "allocate_page_id (cs_catalog s) = (Inr pid, c1)" and w: "store_write_page (s\<lparr>cs_catalog := c1\<rparr>) p = (Inr (), s1)"
    and ap: "append_heap_page (cs_catalog s1) rid pid = (Inr (), c2)" and sv: "store_save (s1\<lparr>cs_catalog := c2\<rparr>) = (Inr (), s')" .
  have "catalog_ok c1" using al assms(2) by (auto simp: allocate_page_id_def catalog_ok_def split: option.splits)
  moreover have "cs_catalog s1 = c1" using store_write_page_catalog [OF w] by simp
  ultimately have "catalog_ok c2" using append_heap_page_ok [OF ap] by simp
  then show ?thesis using store_save_catalog [OF sv] by simp
qed

lemma store_insert_row_catalog_ok:
  assumes "store_insert_row s rid bytes = (Inr row, s')" "catalog_ok (cs_catalog s)"
  shows "catalog_ok (cs_catalog s')"
proof -
  from store_insert_row_cases [OF assms(1)] obtain r found s1 where
    i: "insert_into_pages s bytes (relation_heap_pages r) = (Inr found, s1)"
    and k: "(case found of Some x \<Rightarrow> row = x \<and> s' = s1 | None \<Rightarrow> insert_into_new_page s1 rid bytes = (Inr row, s'))" .
  show ?thesis
  proof (cases found)
    case None
    with insert_into_pages_cases [OF i] k insert_into_new_page_catalog_ok [of s rid bytes row s'] assms(2) show ?thesis by simp
  next
    case (Some x)
    with insert_into_pages_cases [OF i] obtain p' where "store_write_page s p' = (Inr (), s1)" by blast
    with store_write_page_catalog k Some assms(2) show ?thesis by auto
  qed
qed

lemma create_table_metadata_again:
  assumes "create_table_metadata c name columns = (Inr ids, c')"
  shows "create_table_metadata c' name columns = (Inl (User (msg_relation_exists name)), c')"
proof -
  have v: "bindR (validate_name ''relation'' name) (\<lambda>_. validate_columns columns) = Inr ()"
  proof (cases "bindR (validate_name ''relation'' name) (\<lambda>_. validate_columns columns)")
    case (Inl e) with assms show ?thesis by (simp add: create_table_metadata_def)
  qed simp
  from create_table_metadata_cases [OF assms] have "name \<in> ri_name ` set (cat_relations c')"
    by (auto simp: bindS_eq_Inr)
  then have "relation_by_name c' name \<noteq> None" by (simp add: relation_by_name_None)
  with v show ?thesis by (auto simp: create_table_metadata_def)
qed

section \<open>A store with one table\<close>

definition sample_columns :: "column_def list" where
  "sample_columns = [\<lparr>cd_name = ''id'', cd_type_name = ''INT''\<rparr>]"

definition sample_relation :: relation_info where
  "sample_relation = \<lparr>ri_id = RelationId 1, ri_name = ''t'', ri_kind = RelTable,
     ri_storage = StorageHeap \<lparr>hs_pages = [PageId 1]\<rparr>, ri_columns = sample_columns\<rparr>"

definition sample_catalog :: catalog where
  "sample_catalog = \<lparr>cat_next_relation_id = 2, cat_next_page_id = 2, cat_relations = [sample_relation], cat_extensions = []\<rparr>"

lemma sample_metadata:
  "create_table_metadata catalog_empty ''t'' sample_columns = (Inr (RelationId 1, PageId 1), sample_catalog)"
  by (simp add: create_table_metadata_def validate_name_def validate_columns_def sample_columns_def catalog_empty_def
      relation_by_name_def allocate_relation_id_def allocate_page_id_def checked_add_def sample_catalog_def sample_relation_def)

lemma empty_catalog_fits: "catalog_fits catalog_empty"
  by (simp add: catalog_fits_def encode_catalog_def catalog_empty_def write_u32_len_def push_u32_def push_u64_def
      push_u16_def CATALOG_MAGIC_def)

lemma sample_catalog_fits: "catalog_fits sample_catalog"
  by (simp add: catalog_fits_def encode_catalog_def sample_catalog_def sample_relation_def sample_columns_def
      encode_relation_def encode_storage_object_def encode_column_def write_string_def write_u16_len_def write_u32_len_def
      push_u32_def push_u64_def push_u16_def CATALOG_MAGIC_def)

lemma sample_catalog_ok: "catalog_ok sample_catalog"
proof -
  have "str_ok ''t''" "str_ok ''id''" "str_ok ''INT''" by code_simp+
  then show ?thesis
    by (simp add: catalog_ok_def sample_catalog_def relation_ok_def sample_relation_def storage_ok_def sample_columns_def column_ok_def)
qed

lemma sample_can_grow: "heap_can_grow sample_catalog (RelationId 1)"
  by (simp add: heap_can_grow_def allocate_page_id_def checked_add_def append_heap_page_def push_heap_page_def
      page_id_fits_def MAX_FILE_SIZE_def catalog_fits_def encode_catalog_def sample_catalog_def sample_relation_def
      sample_columns_def encode_relation_def encode_storage_object_def encode_column_def write_string_def
      write_u16_len_def write_u32_len_def push_u32_def push_u64_def push_u16_def CATALOG_MAGIC_def)

lemma sample_relation_by_id: "relation_by_id sample_catalog (RelationId 1) = Some sample_relation" "ri_kind sample_relation = RelTable"
  by (simp_all add: relation_by_id_def sample_catalog_def sample_relation_def)

lemma empty_store:
  obtains s where "store_wf s" "persisted s" "store_writes_ok s" "cs_catalog s = catalog_empty"
proof -
  let ?s = "\<lparr>cs_page_file = \<lparr>pf_file = quiet_file []\<rparr>, cs_catalog = catalog_empty\<rparr>"
  have "store_writes_ok ?s" "catalog_fits (cs_catalog ?s)" by (simp_all add: store_writes_ok_def empty_catalog_fits)
  then obtain s where s: "store_save ?s = (Inr (), s)" "store_writes_ok s" by (rule store_save_ok)
  from store_save_Inr [OF s(1)] have "persisted s" "cs_catalog s = catalog_empty" "pf_wf (cs_page_file s)"
    "reads_ok (pf_file (cs_page_file s))" by simp_all
  with s(2) show ?thesis by (intro that [of s]) (simp_all add: store_wf_def heap_ok_def, simp add: catalog_empty_def)
qed

lemma sample_store:
  obtains s0 s where "store_wf s0" "cs_catalog s0 = catalog_empty" "store_create_table s0 ''t'' sample_columns = (Inr (RelationId 1), s)"
    "store_wf s" "persisted s" "store_writes_ok s" "cs_catalog s = sample_catalog"
proof -
  from empty_store obtain s0 where s0: "store_wf s0" "persisted s0" "store_writes_ok s0" "cs_catalog s0 = catalog_empty" .
  from store_create_table_ok [OF s0(3), of "''t''" sample_columns] sample_metadata s0(4) sample_catalog_fits
  obtain s where s: "store_create_table s0 ''t'' sample_columns = (Inr (RelationId 1), s)" "store_writes_ok s" "cs_catalog s = sample_catalog"
    by (auto simp: page_id_fits_def MAX_FILE_SIZE_def)
  from store_create_table_Inr(1,2) [OF s0(1) s(1)] s0 s show ?thesis by (intro that) auto
qed

section \<open>Properties\<close>

text \<open>C15: a successful \<open>insert_row\<close> adds exactly one row, with the given bytes and the
  returned row id, to the scan of that table; all other rows keep their order and identity, the
  scans of all other relations do not change, \<open>read_row\<close> finds the row, and the store stays
  well formed with its catalog page up to date.\<close>

theorem insert_row_adds_one_row:
  assumes "store_wf s" and "persisted s" and "store_insert_row s rid bytes = (Inr row, s')"
  shows "store_wf s' \<and> persisted s' \<and>
    (\<exists>xs ys. store_full_scan s rid = Inr (xs @ ys) \<and>
       store_full_scan s' rid = Inr (xs @ \<lparr>hr_row_id = row, hr_bytes = bytes\<rparr> # ys)) \<and>
    (\<forall>rid2. rid2 \<noteq> rid \<longrightarrow> store_full_scan s' rid2 = store_full_scan s rid2) \<and>
    store_read_row s' rid row = Inr (Some \<lparr>hr_row_id = row, hr_bytes = bytes\<rparr>)"
  using store_insert_row_added [OF assms] unfolding row_added_def .

theorem insert_row_adds_one_row_witness:
  "\<exists>s row s'. store_insert_row s (RelationId 1) [1, 2, 3] = (Inr row, s') \<and> store_full_scan s (RelationId 1) = Inr [] \<and>
     store_full_scan s' (RelationId 1) = Inr [\<lparr>hr_row_id = row, hr_bytes = [1, 2, 3]\<rparr>]"
proof -
  from sample_store obtain s0 s where s0: "store_wf s0" "store_create_table s0 ''t'' sample_columns = (Inr (RelationId 1), s)"
    and s: "store_wf s" "persisted s" "store_writes_ok s" "cs_catalog s = sample_catalog" .
  from store_insert_row_ok [OF s(3,1), of "RelationId 1" sample_relation "[1, 2, 3]"] s(4) sample_relation_by_id sample_can_grow
  obtain row s' where i: "store_insert_row s (RelationId 1) [1, 2, 3] = (Inr row, s')" by auto
  from insert_row_adds_one_row [OF s(1,2) i] store_create_table_Inr(3) [OF s0] i show ?thesis by fastforce
qed

text \<open>On a working disk, \<open>insert_row\<close> into an existing table succeeds for every record
  of at most 4056 bytes, provided the file and the catalog page can take one more page for the
  table.\<close>

theorem insert_row_succeeds:
  assumes "store_wf s" and "writes_ok (pf_file (cs_page_file s))"
    and "relation_by_id (cs_catalog s) rid = Some r" and "is_heap_table r"
    and "length bytes \<le> 4056" and "heap_can_grow (cs_catalog s) rid"
  shows "\<exists>row s'. store_insert_row s rid bytes = (Inr row, s')"
  using store_insert_row_ok [OF _ assms(1,3) _ assms(5,6)] assms(2,4)
  by (auto simp: store_writes_ok_def is_heap_table_def)

theorem insert_row_succeeds_witness:
  "\<exists>s row s'. store_insert_row s (RelationId 1) (replicate 4056 7) = (Inr row, s') \<and> cs_catalog s = sample_catalog"
proof -
  from sample_store obtain s where s: "store_wf s" "store_writes_ok s" "cs_catalog s = sample_catalog" .
  from insert_row_succeeds [OF s(1), of "RelationId 1" sample_relation "replicate 4056 7"] s sample_relation_by_id sample_can_grow
  show ?thesis by (auto simp: store_writes_ok_def is_heap_table_def)
qed

text \<open>A successful \<open>create_table\<close> returns an unused relation id under which the catalog
  finds a table with the given name and columns, empty, and already saved; the rows of every other
  relation stay as they are.\<close>

theorem create_table_opens_empty_table:
  assumes "store_wf s" and "store_create_table s name columns = (Inr rid, s')"
  shows "store_wf s' \<and> persisted s' \<and> relation_by_id (cs_catalog s) rid = None \<and>
    (\<exists>r. relation_by_name (cs_catalog s') name = Some r \<and> ri_id r = rid \<and> is_heap_table r \<and> ri_columns r = columns) \<and>
    store_full_scan s' rid = Inr [] \<and>
    (\<forall>rid2. rid2 \<noteq> rid \<longrightarrow> store_full_scan s' rid2 = store_full_scan s rid2)"
  using store_create_table_Inr [OF assms] by (simp add: is_heap_table_def)

theorem create_table_opens_empty_table_witness:
  "\<exists>s s'. store_create_table s ''t'' sample_columns = (Inr (RelationId 1), s') \<and> store_full_scan s' (RelationId 1) = Inr []"
proof -
  from sample_store obtain s0 s where "store_wf s0" "store_create_table s0 ''t'' sample_columns = (Inr (RelationId 1), s)" .
  with create_table_opens_empty_table [OF this] show ?thesis by blast
qed

text \<open>Rows survive closing and reopening the database file: opening the page file that a
  successful \<open>insert_row\<close> left behind gives back the same store, with the same catalog and
  the inserted row in it. Names are byte strings that Rust's \<open>String\<close> can hold.\<close>

theorem inserted_row_survives_reopen:
  assumes "store_wf s" and "persisted s" and "store_insert_row s rid bytes = (Inr row, s')"
    and "catalog_ok (cs_catalog s)"
  shows "\<exists>t. store_open (cs_page_file s') = (Inr t, cs_page_file s') \<and> cs_catalog t = cs_catalog s' \<and>
    store_read_row t rid row = Inr (Some \<lparr>hr_row_id = row, hr_bytes = bytes\<rparr>)"
  using store_insert_row_added [OF assms(1-3)] store_reopen [OF _ _ store_insert_row_catalog_ok [OF assms(3,4)]] unfolding row_added_def by blast

theorem inserted_row_survives_reopen_witness:
  "\<exists>s row s' t. store_insert_row s (RelationId 1) [1, 2, 3] = (Inr row, s') \<and>
     store_open (cs_page_file s') = (Inr t, cs_page_file s') \<and>
     store_read_row t (RelationId 1) row = Inr (Some \<lparr>hr_row_id = row, hr_bytes = [1, 2, 3]\<rparr>)"
proof -
  from sample_store obtain s where s: "store_wf s" "persisted s" "store_writes_ok s" "cs_catalog s = sample_catalog" .
  from store_insert_row_ok [OF s(3,1), of "RelationId 1" sample_relation "[1, 2, 3]"] s(4) sample_relation_by_id sample_can_grow
  obtain row s' where i: "store_insert_row s (RelationId 1) [1, 2, 3] = (Inr row, s')" by auto
  from inserted_row_survives_reopen [OF s(1,2) i] s(4) sample_catalog_ok i show ?thesis by auto
qed

text \<open>The condition on the page id is needed: \<open>append_heap_page\<close> accepts the page of the catalog itself.\<close>

lemma append_heap_page_unchecked:
  "\<exists>c. append_heap_page sample_catalog (RelationId 1) (PageId 0) = (Inr (), c) \<and> \<not> cat_wf c"
  by (simp add: append_heap_page_def sample_catalog_def sample_relation_def push_heap_page_def cat_wf_def cat_pages_def relation_pages_def)

text \<open>C28: a catalog built from the empty one by any sequence of catalog operations, failed ones
  included, has unique relation ids, relation names, extension names and page ids; all of them are
  below the next id to be handed out and page 0 is never among them; storage matches the kind of each
  relation and every index refers to a column of an existing table. The two operations that take a
  page id, \<open>append_heap_page\<close> and \<open>set_index_root_page\<close>, must be called with an id that was allocated
  earlier and that no relation uses (\<open>page_unused\<close>): they do not check it themselves.\<close>

theorem reachable_catalog_wf:
  assumes "catalog_reachable c"
  shows "cat_wf c"
  using assms by (rule catalog_reachable_wf)

theorem reachable_catalog_wf_witness:
  "\<exists>c. cat_wf c \<and> cat_pages c = [PageId 1, PageId 3] \<and> cat_next_page_id c = 4"
proof -
  let ?c3 = "sample_catalog\<lparr>cat_next_page_id := 3\<rparr>" and ?c4 = "sample_catalog\<lparr>cat_next_page_id := 4\<rparr>"
  have al: "allocate_page_id sample_catalog = (Inr (PageId 2), ?c3)" "allocate_page_id ?c3 = (Inr (PageId 3), ?c4)"
    by (simp_all add: allocate_page_id_def checked_add_def sample_catalog_def)
  have "catalog_reachable sample_catalog" by (rule catalog_reachable.table [OF catalog_reachable.empty sample_metadata])
  from catalog_reachable.allocate [OF this al(1)] have "catalog_reachable ?c3" .
  from catalog_reachable.allocate [OF this al(2)] have r: "catalog_reachable ?c4" .
  obtain c where c: "append_heap_page ?c4 (RelationId 1) (PageId 3) = (Inr (), c)" "cat_pages c = [PageId 1, PageId 3]" "cat_next_page_id c = 4"
    by (simp add: append_heap_page_def sample_catalog_def sample_relation_def push_heap_page_def cat_pages_def relation_pages_def)
  have "page_unused ?c4 (PageId 3)"
    by (simp add: page_unused_def sample_catalog_def sample_relation_def cat_pages_def relation_pages_def)
  from reachable_catalog_wf [OF catalog_reachable.append [OF r this c(1)]] c show ?thesis by blast
qed

text \<open>Decoding the record of a catalog gives that catalog.\<close>

theorem catalog_record_round_trip:
  assumes "catalog_ok c" and "encode_catalog c = Inr bs" and "length bs < 2 ^ 64"
  shows "decode_catalog bs = Inr c"
  using assms by (rule encode_decode_catalog)

theorem catalog_record_round_trip_witness:
  "\<exists>bs. encode_catalog sample_catalog = Inr bs \<and> decode_catalog bs = Inr sample_catalog"
proof -
  from sample_catalog_fits obtain bs where "encode_catalog sample_catalog = Inr bs" "length bs \<le> 4056"
    by (auto simp: catalog_fits_def split: sum.splits)
  with catalog_record_round_trip [OF sample_catalog_ok] show ?thesis by auto
qed

text \<open>C40: when \<open>create_table\<close> fails while writing the first page or the catalog page, the
  table stays in the catalog in memory: creating it again is refused as a duplicate, while the
  catalog page on disk may not know it.\<close>

theorem failed_create_table_blocks_retry:
  assumes "create_table_metadata (cs_catalog s) name columns = (Inr ids, c)"
    and "store_create_table s name columns = (Inl e, s')"
  shows "store_create_table s' name columns = (Inl (User (msg_relation_exists name)), s')"
proof -
  obtain rid pid where ids: "ids = (rid, pid)" by fastforce
  have "cs_catalog s' = c"
  proof (cases "store_write_page (s\<lparr>cs_catalog := c\<rparr>) (page_new pid Heap)")
    case (Pair r s1)
    with assms ids store_write_page_catalog [OF Pair] store_save_catalog [of s1]
    show ?thesis by (cases r) (auto simp: store_create_table_def bindS_eq_Inl)
  qed
  with create_table_metadata_again [OF assms(1)] show ?thesis by (auto simp: store_create_table_def)
qed

theorem failed_create_table_blocks_retry_witness:
  "\<exists>s s'. store_create_table s ''t'' sample_columns = (Inl (Io (OsError 28)), s') \<and>
     store_create_table s' ''t'' sample_columns = (Inl (User (msg_relation_exists ''t'')), s') \<and>
     fl_bytes (pf_file (cs_page_file s')) = []"
proof -
  let ?s = "\<lparr>cs_page_file = \<lparr>pf_file = (quiet_file [])\<lparr>fl_writes := [Fail (OsError 28)]\<rparr>\<rparr>, cs_catalog = catalog_empty\<rparr>"
  have off: "page_offset (PageId 1) = Inr 4096" by (simp add: page_offset_def checked_mul_def)
  have "\<exists>s'. store_create_table ?s ''t'' sample_columns = (Inl (Io (OsError 28)), s') \<and> fl_bytes (pf_file (cs_page_file s')) = []"
    using page_wf_validate [OF page_new_wf [of "PageId 1" Heap]] page_new_id [of "PageId 1" Heap]
    by (simp add: store_create_table_def sample_metadata store_write_page_def write_page_def write_page_at_def
        page_id_of_def off vfs_write_all_at_def write_all_at.simps write_at_def quiet_file_def MAX_FILE_SIZE_def)
  then obtain s' where s': "store_create_table ?s ''t'' sample_columns = (Inl (Io (OsError 28)), s')" "fl_bytes (pf_file (cs_page_file s')) = []"
    by blast
  from failed_create_table_blocks_retry [OF _ s'(1)] sample_metadata s' show ?thesis by fastforce
qed

end
