(* ===== verification/Rdbms_Index.thy ===== *)
theory Rdbms_Index
  imports Rdbms_Page_Spec Rdbms_Codec "HOL-Library.Char_ord" "HOL-Library.List_Lexorder" "HOL-Library.Product_Lexorder"
begin

text \<open>
  The B+Tree index of \<open>crates/rdbms_index\<close>. The trait \<open>BPlusTreePageStore\<close> is a
  record of the three operations over the state of the store; every operation returns the
  state it leaves behind. The recursion over page ids read from disk and the two loops that
  follow them may run for ever on a cyclic page graph: they are partial functions, and
  \<open>None\<close> means that the call does not return. \<open>slice::binary_search_by\<close> and
  \<open>partition_point\<close> are written as the standard library writes them.
\<close>

section \<open>Keys and entries\<close>

type_synonym i64 = "64 word"

definition MAX_KEYS :: nat where [simp]: "MAX_KEYS = 4"
definition INDEX_NODE_MAGIC :: byte_list where "INDEX_NODE_MAGIC = string_bytes ''RDBI''"
definition INDEX_NODE_VERSION :: u16 where "INDEX_NODE_VERSION = 1"
definition NODE_LEAF :: u8 where [simp]: "NODE_LEAF = 1"
definition NODE_INTERNAL :: u8 where [simp]: "NODE_INTERNAL = 2"
definition KEY_INTEGER :: u8 where [simp]: "KEY_INTEGER = 1"
definition KEY_TEXT :: u8 where [simp]: "KEY_TEXT = 2"

datatype index_key = IntegerKey i64 | TextKey string

text \<open>The derived order: integers before texts, integers signed, texts by their bytes.\<close>

instantiation index_key :: linorder
begin

fun less_eq_index_key :: "index_key \<Rightarrow> index_key \<Rightarrow> bool" where
  "IntegerKey a \<le> IntegerKey b \<longleftrightarrow> sint a \<le> sint b"
| "IntegerKey a \<le> TextKey t \<longleftrightarrow> True"
| "TextKey s \<le> IntegerKey b \<longleftrightarrow> False"
| "TextKey s \<le> TextKey t \<longleftrightarrow> s \<le> t"

definition less_index_key :: "index_key \<Rightarrow> index_key \<Rightarrow> bool" where
  "a < b \<longleftrightarrow> a \<le> b \<and> \<not> b \<le> (a :: index_key)"

instance
proof
  fix x y z :: index_key
  show "x < y \<longleftrightarrow> x \<le> y \<and> \<not> y \<le> x" by (rule less_index_key_def)
  show "x \<le> x" by (cases x) simp_all
  show "x \<le> y \<Longrightarrow> y \<le> z \<Longrightarrow> x \<le> z" by (cases x; cases y; cases z) auto
  show "x \<le> y \<Longrightarrow> y \<le> x \<Longrightarrow> x = y" by (cases x; cases y) (auto simp: word_eq_iff_signed [where ?'a = int])
  show "x \<le> y \<or> y \<le> x" by (cases x; cases y) auto
qed

end

record index_entry =
  ie_key :: index_key
  ie_row_id :: row_id

datatype btree_node =
    LeafNode (next_leaf: "page_id option") (node_entries: "index_entry list")
  | InternalNode (node_keys: "index_key list") (node_children: "page_id list")

record split_result =
  sr_separator :: index_key
  sr_right_page_id :: page_id

text \<open>\<open>std::cmp::Ordering\<close> and the comparison of a total order.\<close>

datatype ordering = Less | Equal | Greater

definition cmp :: "'a::linorder \<Rightarrow> 'a \<Rightarrow> ordering" where
  "cmp a b = (if a < b then Less else if a = b then Equal else Greater)"

definition ordering_then :: "ordering \<Rightarrow> ordering \<Rightarrow> ordering" where
  "ordering_then a b = (if a = Equal then b else a)"

definition compare_entry :: "index_entry \<Rightarrow> index_entry \<Rightarrow> ordering" where
  "compare_entry left right =
     ordering_then (cmp (ie_key left) (ie_key right)) (cmp (ie_row_id left) (ie_row_id right))"

section \<open>Binary search\<close>

function bsearch_loop :: "('a \<Rightarrow> ordering) \<Rightarrow> 'a list \<Rightarrow> nat \<Rightarrow> nat \<Rightarrow> nat" where
  "bsearch_loop f xs base n =
     (if 1 < n
      then let half = n div 2; mid = base + half
           in bsearch_loop f xs (if f (xs ! mid) = Greater then base else mid) (n - half)
      else base)"
  by pat_completeness auto
termination by (relation "measure (\<lambda>(f, xs, base, n). n)") auto

declare bsearch_loop.simps [simp del]

text \<open>\<open>Ok\<close> is the position of an equal element, \<open>Err\<close> the position to insert at.\<close>

definition binary_search_by :: "('a \<Rightarrow> ordering) \<Rightarrow> 'a list \<Rightarrow> nat + nat" where
  "binary_search_by f xs =
     (if xs = [] then Inl 0
      else let base = bsearch_loop f xs 0 (length xs)
           in case f (xs ! base) of Equal \<Rightarrow> Inr base | Less \<Rightarrow> Inl (base + 1) | Greater \<Rightarrow> Inl base)"

definition partition_point :: "('a \<Rightarrow> bool) \<Rightarrow> 'a list \<Rightarrow> nat" where
  "partition_point P xs = (case binary_search_by (\<lambda>x. if P x then Less else Greater) xs of Inl i \<Rightarrow> i | Inr i \<Rightarrow> i)"

definition insert_at :: "nat \<Rightarrow> 'a \<Rightarrow> 'a list \<Rightarrow> 'a list" where
  "insert_at i x xs = take i xs @ x # drop i xs"

definition insert_leaf_entry :: "index_entry list \<Rightarrow> index_key \<Rightarrow> row_id \<Rightarrow> index_entry list" where
  "insert_leaf_entry entries key row_id =
     (let entry = \<lparr>ie_key = key, ie_row_id = row_id\<rparr>;
          position = (case binary_search_by (\<lambda>candidate. compare_entry candidate entry) entries of
             Inr i \<Rightarrow> i | Inl i \<Rightarrow> i)
      in insert_at position entry entries)"

definition child_index_for_key :: "index_key list \<Rightarrow> index_key \<Rightarrow> nat" where
  "child_index_for_key keys key = partition_point (\<lambda>separator. separator < key) keys"

definition msg_internal_shape :: "nat \<Rightarrow> nat \<Rightarrow> string" where
  "msg_internal_shape k c = ''invalid B+Tree internal node shape: keys='' @ fmt_nat k @ '', children='' @ fmt_nat c"

definition validate_internal_shape :: "index_key list \<Rightarrow> page_id list \<Rightarrow> unit db_result" where
  "validate_internal_shape keys children =
     (if length children \<noteq> length keys + 1 then Inl (Corruption (msg_internal_shape (length keys) (length children)))
      else Inr ())"

section \<open>Node records\<close>

definition encode_key :: "index_key \<Rightarrow> byte_list db_result" where
  "encode_key key = (case key of
     IntegerKey v \<Rightarrow> Inr ([KEY_INTEGER] @ push_u64 v)
   | TextKey t \<Rightarrow> bindR (write_u16_len (length t) ''index text key length'') (\<lambda>n. Inr ([KEY_TEXT] @ n @ string_bytes t)))"

definition encode_entry :: "index_entry \<Rightarrow> byte_list db_result" where
  "encode_entry e =
     bindR (encode_key (ie_key e)) (\<lambda>k.
       Inr (k @ push_u64 (page_no (row_page_id (ie_row_id e))) @ push_u16 (slot_no (row_slot_id (ie_row_id e)))))"

definition encode_node :: "btree_node \<Rightarrow> byte_list db_result" where
  "encode_node node =
     bindR (case node of
       LeafNode nxt entries \<Rightarrow>
         bindR (write_u16_len (length entries) ''leaf entry count'') (\<lambda>n.
         bindR (encode_each encode_entry entries) (\<lambda>es.
           Inr ([NODE_LEAF] @ (case nxt of Some pid \<Rightarrow> [1] @ push_u64 (page_no pid) | None \<Rightarrow> [0] @ push_u64 0) @ n @ es)))
     | InternalNode keys children \<Rightarrow>
         bindR (validate_internal_shape keys children) (\<lambda>_.
         bindR (write_u16_len (length keys) ''internal key count'') (\<lambda>n.
         bindR (encode_each encode_key keys) (\<lambda>ks.
         bindR (write_u16_len (length children) ''internal child count'') (\<lambda>m.
         bindR (encode_each (\<lambda>pid. Inr (push_u64 (page_no pid))) children) (\<lambda>cs.
           Inr ([NODE_INTERNAL] @ n @ ks @ m @ cs)))))))
     (\<lambda>body. Inr (INDEX_NODE_MAGIC @ push_u16 INDEX_NODE_VERSION @ body))"

definition index_texts :: cursor_texts where
  "index_texts = \<lparr>ct_overflow = ''index node offset overflow'', ct_truncated = ''index node is truncated'',
     ct_trailing = ''index node has trailing bytes''\<rparr>"

definition msg_key_utf8 :: string where
  "msg_key_utf8 = ''index text key is not valid UTF-8''"

definition msg_key_tag :: "u8 \<Rightarrow> string" where
  "msg_key_tag t = ''unknown index key tag: '' @ fmt_nat (unat t)"

definition decode_key :: "index_key decoder" where
  "decode_key c =
     bindR (cursor_read_u8 index_texts c) (\<lambda>(tag, c1).
       if tag = KEY_INTEGER then bindR (cursor_read_u64 index_texts c1) (\<lambda>(v, c2). Inr (IntegerKey v, c2))
       else if tag = KEY_TEXT then
         bindR (cursor_read_u16 index_texts c1) (\<lambda>(len, c2).
         bindR (cursor_read_bytes index_texts (unat len) c2) (\<lambda>(bs, c3).
           if valid_utf8 bs then Inr (TextKey (bytes_string bs), c3) else Inl (Corruption msg_key_utf8)))
       else Inl (Corruption (msg_key_tag tag)))"

definition decode_entry :: "index_entry decoder" where
  "decode_entry c =
     bindR (decode_key c) (\<lambda>(key, c1).
     bindR (cursor_read_u64 index_texts c1) (\<lambda>(pid, c2).
     bindR (cursor_read_u16 index_texts c2) (\<lambda>(slot, c3).
       Inr (\<lparr>ie_key = key, ie_row_id = RowId (PageId pid) (SlotId slot)\<rparr>, c3))))"

definition msg_next_flag :: "u8 \<Rightarrow> string" where
  "msg_next_flag v = ''invalid leaf next flag: '' @ fmt_nat (unat v)"

definition msg_node_kind :: "u8 \<Rightarrow> string" where
  "msg_node_kind v = ''unknown index node kind: '' @ fmt_nat (unat v)"

definition msg_node_version :: "u16 \<Rightarrow> string" where
  "msg_node_version v = ''unsupported index node version: '' @ fmt_nat (unat v)"

definition decode_leaf :: "btree_node decoder" where
  "decode_leaf c =
     bindR (cursor_read_u8 index_texts c) (\<lambda>(has_next, c1).
     bindR (cursor_read_u64 index_texts c1) (\<lambda>(next_page_id, c2).
     bindR (if has_next = 0 then Inr None else if has_next = 1 then Inr (Some (PageId next_page_id))
            else Inl (Corruption (msg_next_flag has_next))) (\<lambda>nxt.
     bindR (cursor_read_u16 index_texts c2) (\<lambda>(entry_count, c3).
     bindR (decode_many (unat entry_count) decode_entry c3) (\<lambda>(entries, c4).
       Inr (LeafNode nxt entries, c4))))))"

definition decode_internal :: "btree_node decoder" where
  "decode_internal c =
     bindR (cursor_read_u16 index_texts c) (\<lambda>(key_count, c1).
     bindR (decode_many (unat key_count) decode_key c1) (\<lambda>(keys, c2).
     bindR (cursor_read_u16 index_texts c2) (\<lambda>(child_count, c3).
     bindR (decode_many (unat child_count) (\<lambda>c. bindR (cursor_read_u64 index_texts c) (\<lambda>(v, c'). Inr (PageId v, c'))) c3)
       (\<lambda>(children, c4).
     bindR (validate_internal_shape keys children) (\<lambda>_. Inr (InternalNode keys children, c4))))))"

definition decode_node_body :: "btree_node decoder" where
  "decode_node_body c =
     bindR (cursor_read_bytes index_texts 4 c) (\<lambda>(magic, c1).
       if magic \<noteq> INDEX_NODE_MAGIC then Inl (Corruption ''invalid index node magic'')
       else bindR (cursor_read_u16 index_texts c1) (\<lambda>(version, c2).
         if version \<noteq> INDEX_NODE_VERSION then Inl (Corruption (msg_node_version version))
         else bindR (cursor_read_u8 index_texts c2) (\<lambda>(kind, c3).
           if kind = NODE_LEAF then decode_leaf c3
           else if kind = NODE_INTERNAL then decode_internal c3
           else Inl (Corruption (msg_node_kind kind)))))"

definition decode_node :: "byte_list \<Rightarrow> btree_node db_result" where
  "decode_node bs =
     bindR (decode_node_body (cursor_new bs)) (\<lambda>(n, c). bindR (cursor_finish index_texts c) (\<lambda>_. Inr n))"

definition node_to_page :: "page_id \<Rightarrow> btree_node \<Rightarrow> page db_result" where
  "node_to_page pid node =
     bindR (encode_node node) (\<lambda>bs.
       case insert_record (page_new pid Index) bs of (Inl e, _) \<Rightarrow> Inl e | (Inr _, p) \<Rightarrow> Inr p)"

definition msg_not_index_page :: "page_id \<Rightarrow> string" where
  "msg_not_index_page pid = ''page '' @ fmt_nat (unat (page_no pid)) @ '' is not an index page''"

definition node_from_page :: "page \<Rightarrow> btree_node db_result" where
  "node_from_page p =
     bindR (header p) (\<lambda>h.
       if h_page_type h \<noteq> Index then Inl (Corruption (msg_not_index_page (h_page_id h)))
       else bindR (read_record p (SlotId 0)) (\<lambda>r.
            bindR (ok_or r (Corruption ''index node record is missing'')) decode_node))"

section \<open>The page store and the tree operations\<close>

record 's bplus_tree_page_store =
  ps_load :: "page_id \<Rightarrow> 's \<Rightarrow> ('s, db_error, page) stres"
  ps_store :: "page \<Rightarrow> 's \<Rightarrow> ('s, db_error, unit) stres"
  ps_allocate :: "'s \<Rightarrow> ('s, db_error, page_id) stres"

definition store_node :: "'s bplus_tree_page_store \<Rightarrow> page_id \<Rightarrow> btree_node \<Rightarrow> 's \<Rightarrow> ('s, db_error, unit) stres" where
  "store_node ops pid node s = (case node_to_page pid node of Inl e \<Rightarrow> (Inl e, s) | Inr p \<Rightarrow> ps_store ops p s)"

definition initialize_root :: "'s bplus_tree_page_store \<Rightarrow> page_id \<Rightarrow> 's \<Rightarrow> ('s, db_error, unit) stres" where
  "initialize_root ops root s = store_node ops root (LeafNode None []) s"

text \<open>The leaf branch of \<open>insert_recursive\<close>, with the new entry already in place.\<close>

definition finish_leaf ::
  "'s bplus_tree_page_store \<Rightarrow> page_id \<Rightarrow> page_id option \<Rightarrow> index_entry list \<Rightarrow> 's \<Rightarrow>
     ('s, db_error, split_result option) stres" where
  "finish_leaf ops pid nxt entries s =
     (if length entries \<le> MAX_KEYS then bindS (store_node ops pid (LeafNode nxt entries) s) (\<lambda>_ s1. (Inr None, s1))
      else bindS (ps_allocate ops s) (\<lambda>right s1.
        let split_at = length entries div 2;
            left_entries = take split_at entries;
            right_entries = drop split_at entries
        in bindS (store_node ops pid (LeafNode (Some right) left_entries) s1) (\<lambda>_ s2.
           bindS (store_node ops right (LeafNode nxt right_entries) s2) (\<lambda>_ s3.
             (Inr (Some \<lparr>sr_separator = ie_key (right_entries ! 0), sr_right_page_id = right\<rparr>), s3)))))"

text \<open>The internal branch of \<open>insert_recursive\<close> after the child has split.\<close>

definition finish_internal ::
  "'s bplus_tree_page_store \<Rightarrow> page_id \<Rightarrow> nat \<Rightarrow> index_key list \<Rightarrow> page_id list \<Rightarrow> split_result \<Rightarrow> 's \<Rightarrow>
     ('s, db_error, split_result option) stres" where
  "finish_internal ops pid child_index keys0 children0 split s =
     (let keys = insert_at child_index (sr_separator split) keys0;
          children = insert_at (child_index + 1) (sr_right_page_id split) children0
      in if length keys \<le> MAX_KEYS then bindS (store_node ops pid (InternalNode keys children) s) (\<lambda>_ s1. (Inr None, s1))
      else let promoted = length keys div 2;
               left_keys = butlast (take (promoted + 1) keys);
               right_keys = drop (promoted + 1) keys;
               left_children = take (promoted + 1) children;
               right_children = drop (promoted + 1) children
           in bindS (ps_allocate ops s) (\<lambda>right s1.
              bindS (store_node ops pid (InternalNode left_keys left_children) s1) (\<lambda>_ s2.
              bindS (store_node ops right (InternalNode right_keys right_children) s2) (\<lambda>_ s3.
                (Inr (Some \<lparr>sr_separator = keys ! promoted, sr_right_page_id = right\<rparr>), s3)))))"

partial_function (option) insert_recursive ::
  "'s bplus_tree_page_store \<Rightarrow> page_id \<Rightarrow> index_key \<Rightarrow> row_id \<Rightarrow> 's \<Rightarrow>
     ('s, db_error, split_result option) stres option" where
  "insert_recursive ops pid key row_id s =
     (case ps_load ops pid s of
        (Inl e, s1) \<Rightarrow> Some (Inl e, s1)
      | (Inr p, s1) \<Rightarrow> (case node_from_page p of
           Inl e \<Rightarrow> Some (Inl e, s1)
         | Inr (LeafNode nxt entries) \<Rightarrow> Some (finish_leaf ops pid nxt (insert_leaf_entry entries key row_id) s1)
         | Inr (InternalNode keys children) \<Rightarrow> (case validate_internal_shape keys children of
              Inl e \<Rightarrow> Some (Inl e, s1)
            | Inr _ \<Rightarrow>
                Option.bind (insert_recursive ops (children ! child_index_for_key keys key) key row_id s1) (\<lambda>(r, s2).
                  Some (case r of
                     Inl e \<Rightarrow> (Inl e, s2)
                   | Inr None \<Rightarrow> (Inr None, s2)
                   | Inr (Some split) \<Rightarrow>
                       finish_internal ops pid (child_index_for_key keys key) keys children split s2)))))"

definition grow_root :: "'s bplus_tree_page_store \<Rightarrow> page_id \<Rightarrow> split_result \<Rightarrow> 's \<Rightarrow> ('s, db_error, page_id) stres" where
  "grow_root ops root split s =
     bindS (ps_allocate ops s) (\<lambda>new_root s1.
     bindS (store_node ops new_root (InternalNode [sr_separator split] [root, sr_right_page_id split]) s1) (\<lambda>_ s2.
       (Inr new_root, s2)))"

definition index_insert ::
  "'s bplus_tree_page_store \<Rightarrow> page_id \<Rightarrow> index_key \<Rightarrow> row_id \<Rightarrow> 's \<Rightarrow> ('s, db_error, page_id) stres option" where
  "index_insert ops root key row_id s =
     map_option (\<lambda>m. bindS m (\<lambda>r s1. case r of Some split \<Rightarrow> grow_root ops root split s1 | None \<Rightarrow> (Inr root, s1)))
       (insert_recursive ops root key row_id s)"

partial_function (option) find_leaf ::
  "'s bplus_tree_page_store \<Rightarrow> page_id \<Rightarrow> index_key \<Rightarrow> 's \<Rightarrow> ('s, db_error, page_id) stres option" where
  "find_leaf ops pid key s =
     (case ps_load ops pid s of
        (Inl e, s1) \<Rightarrow> Some (Inl e, s1)
      | (Inr p, s1) \<Rightarrow> (case node_from_page p of
           Inl e \<Rightarrow> Some (Inl e, s1)
         | Inr (LeafNode nxt entries) \<Rightarrow> Some (Inr pid, s1)
         | Inr (InternalNode keys children) \<Rightarrow> (case validate_internal_shape keys children of
              Inl e \<Rightarrow> Some (Inl e, s1)
            | Inr _ \<Rightarrow> find_leaf ops (children ! child_index_for_key keys key) key s1)))"

text \<open>The inner loop of \<open>lookup\<close>: the row ids collected so far and whether it returned.\<close>

fun scan_leaf :: "index_key \<Rightarrow> row_id list \<Rightarrow> index_entry list \<Rightarrow> row_id list \<times> bool" where
  "scan_leaf key acc [] = (acc, False)"
| "scan_leaf key acc (e # es) = (case cmp (ie_key e) key of
     Less \<Rightarrow> scan_leaf key acc es
   | Equal \<Rightarrow> scan_leaf key (acc @ [ie_row_id e]) es
   | Greater \<Rightarrow> (acc, True))"

partial_function (option) lookup_leaves ::
  "'s bplus_tree_page_store \<Rightarrow> index_key \<Rightarrow> page_id \<Rightarrow> row_id list \<Rightarrow> 's \<Rightarrow> ('s, db_error, row_id list) stres option" where
  "lookup_leaves ops key pid row_ids s =
     (case ps_load ops pid s of
        (Inl e, s1) \<Rightarrow> Some (Inl e, s1)
      | (Inr p, s1) \<Rightarrow> (case node_from_page p of
           Inl e \<Rightarrow> Some (Inl e, s1)
         | Inr (InternalNode keys children) \<Rightarrow> Some (Inl (Corruption ''B+Tree lookup reached a non-leaf page''), s1)
         | Inr (LeafNode nxt entries) \<Rightarrow>
             (if snd (scan_leaf key row_ids entries) then Some (Inr (fst (scan_leaf key row_ids entries)), s1)
              else (case nxt of
                 None \<Rightarrow> Some (Inr (fst (scan_leaf key row_ids entries)), s1)
               | Some q \<Rightarrow> lookup_leaves ops key q (fst (scan_leaf key row_ids entries)) s1))))"

definition index_lookup ::
  "'s bplus_tree_page_store \<Rightarrow> page_id \<Rightarrow> index_key \<Rightarrow> 's \<Rightarrow> ('s, db_error, row_id list) stres option" where
  "index_lookup ops root key s =
     Option.bind (find_leaf ops root key s) (\<lambda>(r, s1).
       case r of Inl e \<Rightarrow> Some (Inl e, s1) | Inr leaf \<Rightarrow> lookup_leaves ops key leaf [] s1)"

end
