(* ===== verification/Rdbms_Tx.thy ===== *)
theory Rdbms_Tx
  imports Rdbms_Catalog Rdbms_Wal Rdbms_Index
begin

text \<open>
  The single-writer transaction layer of \<open>crates/rdbms_tx\<close>. A \<open>Transaction\<close> holds
  the mutable borrow of its manager, so the manager is a field of the transaction; the
  operations that consume the transaction (\<open>commit\<close>, \<open>rollback\<close> and dropping it)
  return the manager, with the effect of \<open>Drop\<close> on every exit. The dirty pages are a
  \<open>BTreeMap\<close>: an association list in ascending order of its keys. Index operations may
  not return on cyclic page graphs, so they return an option as in the index model.
\<close>

section \<open>Ordered maps\<close>

fun bmap_insert :: "'k::linorder \<Rightarrow> 'v \<Rightarrow> ('k \<times> 'v) list \<Rightarrow> ('k \<times> 'v) list" where
  "bmap_insert k v [] = [(k, v)]"
| "bmap_insert k v ((k', v') # m) =
     (if k < k' then (k, v) # (k', v') # m
      else if k = k' then (k, v) # m
      else (k', v') # bmap_insert k v m)"

definition bmap_get :: "('k \<times> 'v) list \<Rightarrow> 'k \<Rightarrow> 'v option" where
  "bmap_get m k = map_of m k"

definition bmap_values :: "('k \<times> 'v) list \<Rightarrow> 'v list" where
  "bmap_values m = map snd m"

section \<open>The store and its transactions\<close>

definition FIRST_TX_ID :: tx_id where [simp]: "FIRST_TX_ID = TxId 1"

datatype transaction_state = Active | Committed | RolledBack

record transactional_store =
  ts_store :: catalog_store
  ts_wal :: wal_writer
  ts_next_tx_id :: u64
  ts_active_writer :: bool

record transaction =
  tr_manager :: transactional_store
  tr_tx_id :: tx_id
  tr_working_catalog :: catalog
  tr_dirty_pages :: "(page_id \<times> page) list"
  tr_state :: transaction_state

definition ts_new :: "catalog_store \<Rightarrow> wal_writer \<Rightarrow> transactional_store" where
  "ts_new store wal = \<lparr>ts_store = store, ts_wal = wal, ts_next_tx_id = tx_no FIRST_TX_ID, ts_active_writer = False\<rparr>"

definition ts_full_scan :: "transactional_store \<Rightarrow> relation_id \<Rightarrow> heap_row list db_result" where
  "ts_full_scan m rid = store_full_scan (ts_store m) rid"

definition ts_read_row :: "transactional_store \<Rightarrow> relation_id \<Rightarrow> row_id \<Rightarrow> heap_row option db_result" where
  "ts_read_row m rid row = store_read_row (ts_store m) rid row"

definition msg_tx_overflow :: string where
  "msg_tx_overflow = ''transaction id overflow''"

definition msg_writer_active :: string where
  "msg_writer_active = ''a write transaction is already active''"

definition msg_tx_inactive :: string where
  "msg_tx_inactive = ''transaction is no longer active''"

definition allocate_tx_id :: "transactional_store \<Rightarrow> (transactional_store, db_error, tx_id) stres" where
  "allocate_tx_id m =
     (case checked_add (ts_next_tx_id m) 1 of
        None \<Rightarrow> (Inl (User msg_tx_overflow), m)
      | Some n \<Rightarrow> (Inr (TxId (ts_next_tx_id m)), m\<lparr>ts_next_tx_id := n\<rparr>))"

definition finish_writer :: "transactional_store \<Rightarrow> transactional_store" where
  "finish_writer m = m\<lparr>ts_active_writer := False\<rparr>"

definition ts_append :: "transactional_store \<Rightarrow> wal_record_kind \<Rightarrow> (transactional_store, db_error, lsn) stres" where
  "ts_append m k = (case wal_append (ts_wal m) k of (r, w) \<Rightarrow> (r, m\<lparr>ts_wal := w\<rparr>))"

definition ts_sync_wal :: "transactional_store \<Rightarrow> (transactional_store, db_error, unit) stres" where
  "ts_sync_wal m = (case wal_sync_data (ts_wal m) of (r, w) \<Rightarrow> (r, m\<lparr>ts_wal := w\<rparr>))"

definition ts_write_page :: "transactional_store \<Rightarrow> page \<Rightarrow> (transactional_store, db_error, unit) stres" where
  "ts_write_page m p = (case store_write_page (ts_store m) p of (r, s) \<Rightarrow> (r, m\<lparr>ts_store := s\<rparr>))"

definition ts_sync_store :: "transactional_store \<Rightarrow> (transactional_store, db_error, unit) stres" where
  "ts_sync_store m = (case store_sync_data (ts_store m) of (r, s) \<Rightarrow> (r, m\<lparr>ts_store := s\<rparr>))"

definition ts_sync_data :: "transactional_store \<Rightarrow> (transactional_store, db_error, unit) stres" where
  "ts_sync_data m = bindS (ts_sync_store m) (\<lambda>_ m1. ts_sync_wal m1)"

definition tx_begin :: "transactional_store \<Rightarrow> (transactional_store, db_error, transaction) stres" where
  "tx_begin m =
     (if ts_active_writer m then (Inl (Retryable msg_writer_active), m)
      else bindS (allocate_tx_id m) (\<lambda>tx m1.
        case ts_append (m1\<lparr>ts_active_writer := True\<rparr>) (BeginTx tx) of
          (Inl e, m2) \<Rightarrow> (Inl e, m2\<lparr>ts_active_writer := False\<rparr>)
        | (Inr _, m2) \<Rightarrow>
            (Inr \<lparr>tr_manager = m2, tr_tx_id = tx, tr_working_catalog = cs_catalog (ts_store m2),
                  tr_dirty_pages = [], tr_state = Active\<rparr>, m2)))"

section \<open>Operations of a transaction\<close>

definition ensure_active :: "transaction \<Rightarrow> unit db_result" where
  "ensure_active t = (if tr_state t = Active then Inr () else Inl (User msg_tx_inactive))"

definition tx_put_page :: "transaction \<Rightarrow> page_id \<Rightarrow> page \<Rightarrow> transaction" where
  "tx_put_page t pid p = t\<lparr>tr_dirty_pages := bmap_insert pid p (tr_dirty_pages t)\<rparr>"

definition mark_catalog_dirty :: "transaction \<Rightarrow> (transaction, db_error, unit) stres" where
  "mark_catalog_dirty t =
     (case to_page (tr_working_catalog t) of
        Inl e \<Rightarrow> (Inl e, t)
      | Inr p \<Rightarrow> (Inr (), tx_put_page t CATALOG_PAGE_ID p))"

definition tx_load_page :: "transaction \<Rightarrow> page_id \<Rightarrow> page db_result" where
  "tx_load_page t pid =
     (case bmap_get (tr_dirty_pages t) pid of
        Some p \<Rightarrow> Inr p
      | None \<Rightarrow> read_page (cs_page_file (ts_store (tr_manager t))) pid)"

text \<open>A catalog operation on the working catalog of the transaction.\<close>

definition on_catalog :: "(catalog \<Rightarrow> (catalog, db_error, 'a) stres) \<Rightarrow> transaction \<Rightarrow> (transaction, db_error, 'a) stres" where
  "on_catalog f t = (case f (tr_working_catalog t) of (r, c) \<Rightarrow> (r, t\<lparr>tr_working_catalog := c\<rparr>))"

definition tx_register_extension ::
  "transaction \<Rightarrow> string \<Rightarrow> u32 \<Rightarrow> string \<Rightarrow> (transaction, db_error, bool) stres" where
  "tx_register_extension t name abi_version kind =
     bindS (ensure_active t, t) (\<lambda>_ t.
     bindS (on_catalog (\<lambda>c. register_extension_metadata c name abi_version kind) t) (\<lambda>inserted t1.
       if inserted then bindS (mark_catalog_dirty t1) (\<lambda>_ t2. (Inr inserted, t2)) else (Inr inserted, t1)))"

definition tx_create_table ::
  "transaction \<Rightarrow> string \<Rightarrow> column_def list \<Rightarrow> (transaction, db_error, relation_id) stres" where
  "tx_create_table t name columns =
     bindS (ensure_active t, t) (\<lambda>_ t.
     bindS (on_catalog (\<lambda>c. create_table_metadata c name columns) t) (\<lambda>(rid, first_page_id) t1.
     bindS (mark_catalog_dirty (tx_put_page t1 first_page_id (page_new first_page_id Heap))) (\<lambda>_ t2.
       (Inr rid, t2))))"

text \<open>\<open>TransactionIndexPageStore\<close> and \<open>CommittedIndexPageStore\<close>.\<close>

definition tx_index_store :: "transaction bplus_tree_page_store" where
  "tx_index_store = \<lparr>
     ps_load = (\<lambda>pid t. (tx_load_page t pid, t)),
     ps_store = (\<lambda>p t. case header p of Inl e \<Rightarrow> (Inl e, t) | Inr h \<Rightarrow> (Inr (), tx_put_page t (h_page_id h) p)),
     ps_allocate = on_catalog allocate_page_id\<rparr>"

definition committed_index_store :: "catalog_store bplus_tree_page_store" where
  "committed_index_store = \<lparr>
     ps_load = (\<lambda>pid s. (read_page (cs_page_file s) pid, s)),
     ps_store = (\<lambda>p s. (Inl (InternalInvariant ''read-only index page store cannot write pages''), s)),
     ps_allocate = (\<lambda>s. (Inl (InternalInvariant ''read-only index page store cannot allocate pages''), s))\<rparr>"

definition index_root :: "catalog \<Rightarrow> relation_id \<Rightarrow> page_id db_result" where
  "index_root c rid =
     bindR (ok_or (Option.bind (relation_by_id c rid) relation_index_storage) (User (msg_unknown_index rid)))
       (\<lambda>st. Inr (is_root_page_id st))"

definition ts_lookup_index ::
  "transactional_store \<Rightarrow> relation_id \<Rightarrow> index_key \<Rightarrow> (transactional_store, db_error, row_id list) stres option" where
  "ts_lookup_index m rid key =
     (case index_root (cs_catalog (ts_store m)) rid of
        Inl e \<Rightarrow> Some (Inl e, m)
      | Inr root \<Rightarrow> map_option (\<lambda>(r, s). (r, m\<lparr>ts_store := s\<rparr>)) (index_lookup committed_index_store root key (ts_store m)))"

definition tx_create_index ::
  "transaction \<Rightarrow> string \<Rightarrow> relation_id \<Rightarrow> string \<Rightarrow> (transaction, db_error, relation_id \<times> page_id) stres" where
  "tx_create_index t name table_id column_name =
     bindS (ensure_active t, t) (\<lambda>_ t.
     bindS (on_catalog (\<lambda>c. create_index_metadata c name table_id column_name) t) (\<lambda>(rid, root) t1.
     bindS (initialize_root tx_index_store root t1) (\<lambda>_ t2.
     bindS (mark_catalog_dirty t2) (\<lambda>_ t3. (Inr (rid, root), t3)))))"

definition finish_index_insert ::
  "relation_id \<Rightarrow> page_id \<Rightarrow> page_id \<Rightarrow> transaction \<Rightarrow> (transaction, db_error, unit) stres" where
  "finish_index_insert rid root new_root t =
     bindS (if new_root \<noteq> root then on_catalog (\<lambda>c. set_index_root_page c rid new_root) t else (Inr (), t)) (\<lambda>_ t1.
       mark_catalog_dirty t1)"

definition tx_insert_index_entry ::
  "transaction \<Rightarrow> relation_id \<Rightarrow> index_key \<Rightarrow> row_id \<Rightarrow> (transaction, db_error, unit) stres option" where
  "tx_insert_index_entry t rid key row =
     (case bindR (ensure_active t) (\<lambda>_. index_root (tr_working_catalog t) rid) of
        Inl e \<Rightarrow> Some (Inl e, t)
      | Inr root \<Rightarrow> map_option (\<lambda>m. bindS m (finish_index_insert rid root)) (index_insert tx_index_store root key row t))"

text \<open>The loop over the pages of the table, and the new page when none has room.\<close>

fun tx_insert_into_pages :: "transaction \<Rightarrow> byte_list \<Rightarrow> page_id list \<Rightarrow> (transaction, db_error, row_id option) stres" where
  "tx_insert_into_pages t bytes [] = (Inr None, t)"
| "tx_insert_into_pages t bytes (pid # rest) =
     (case tx_load_page t pid of
        Inl e \<Rightarrow> (Inl e, t)
      | Inr p \<Rightarrow> (case insert_record p bytes of
           (Inr slot, p') \<Rightarrow> (Inr (Some (RowId pid slot)), tx_put_page t pid p')
         | (Inl (User _), _) \<Rightarrow> tx_insert_into_pages t bytes rest
         | (Inl e, _) \<Rightarrow> (Inl e, t)))"

definition tx_insert_into_new_page :: "transaction \<Rightarrow> relation_id \<Rightarrow> byte_list \<Rightarrow> (transaction, db_error, row_id) stres" where
  "tx_insert_into_new_page t rid bytes =
     bindS (on_catalog allocate_page_id t) (\<lambda>pid t1.
       case insert_record (page_new pid Heap) bytes of
         (Inl e, _) \<Rightarrow> (Inl e, t1)
       | (Inr slot, p) \<Rightarrow>
           bindS (on_catalog (\<lambda>c. append_heap_page c rid pid) t1) (\<lambda>_ t2.
           bindS (mark_catalog_dirty (tx_put_page t2 pid p)) (\<lambda>_ t3. (Inr (RowId pid slot), t3))))"

definition tx_insert_row :: "transaction \<Rightarrow> relation_id \<Rightarrow> byte_list \<Rightarrow> (transaction, db_error, row_id) stres" where
  "tx_insert_row t rid bytes =
     (case bindR (ensure_active t) (\<lambda>_. bindR (ensure_heap_relation (tr_working_catalog t) rid) (\<lambda>_.
             heap_pages (tr_working_catalog t) rid)) of
        Inl e \<Rightarrow> (Inl e, t)
      | Inr page_ids \<Rightarrow>
          bindS (tx_insert_into_pages t bytes page_ids) (\<lambda>r t1.
            case r of Some row \<Rightarrow> (Inr row, t1) | None \<Rightarrow> tx_insert_into_new_page t1 rid bytes))"

definition tx_full_scan :: "transaction \<Rightarrow> relation_id \<Rightarrow> heap_row list db_result" where
  "tx_full_scan t rid =
     bindR (ensure_active t) (\<lambda>_.
     bindR (ensure_heap_relation (tr_working_catalog t) rid) (\<lambda>_.
     bindR (heap_pages (tr_working_catalog t) rid) (\<lambda>pids. scan_pages (tx_load_page t) pids)))"

section \<open>The end of a transaction\<close>

text \<open>\<open>Drop\<close>: a transaction that is still active releases the writer.\<close>

definition tx_drop :: "transaction \<Rightarrow> transactional_store" where
  "tx_drop t = (if tr_state t = Active then finish_writer (tr_manager t) else tr_manager t)"

definition log_page :: "tx_id \<Rightarrow> page \<Rightarrow> transactional_store \<Rightarrow> (transactional_store, db_error, unit) stres" where
  "log_page tx p m =
     (case wal_page_image tx p of
        Inl e \<Rightarrow> (Inl e, m)
      | Inr k \<Rightarrow> bindS (ts_append m k) (\<lambda>_ m1. (Inr (), m1)))"

text \<open>The body of \<open>commit\<close> up to the first error; the caller drops the transaction.\<close>

definition commit_pages :: "transaction \<Rightarrow> (transactional_store, db_error, unit) stres" where
  "commit_pages t =
     bindS (for_eachS (log_page (tr_tx_id t)) (bmap_values (tr_dirty_pages t)) (tr_manager t)) (\<lambda>_ m1.
     bindS (ts_append m1 (CommitTx (tr_tx_id t))) (\<lambda>_ m2.
     bindS (ts_sync_wal m2) (\<lambda>_ m3.
     bindS (for_eachS (\<lambda>p m. ts_write_page m p) (bmap_values (tr_dirty_pages t)) m3) (\<lambda>_ m4.
     bindS (ts_sync_store m4) (\<lambda>_ m5.
       (Inr (), m5\<lparr>ts_store := replace_catalog (ts_store m5) (tr_working_catalog t)\<rparr>))))))"

definition tx_commit :: "transaction \<Rightarrow> (transactional_store, db_error, unit) stres" where
  "tx_commit t =
     (case ensure_active t of
        Inl e \<Rightarrow> (Inl e, tx_drop t)
      | Inr _ \<Rightarrow> (case commit_pages t of
           (Inl e, m) \<Rightarrow> (Inl e, tx_drop (t\<lparr>tr_manager := m\<rparr>))
         | (Inr _, m) \<Rightarrow> (Inr (), tx_drop (t\<lparr>tr_manager := finish_writer m, tr_state := Committed\<rparr>))))"

definition tx_rollback :: "transaction \<Rightarrow> (transactional_store, db_error, unit) stres" where
  "tx_rollback t =
     (case ensure_active t of
        Inl e \<Rightarrow> (Inl e, tx_drop t)
      | Inr _ \<Rightarrow>
          (case bindS (ts_append (tr_manager t) (AbortTx (tr_tx_id t))) (\<lambda>_ m1. ts_sync_wal m1) of
             (r, m) \<Rightarrow> (r, tx_drop (t\<lparr>tr_manager := finish_writer m, tr_dirty_pages := [], tr_state := RolledBack\<rparr>))))"

text \<open>An operation in a transaction of its own; an error drops the transaction.\<close>

definition autocommit ::
  "(transaction \<Rightarrow> (transaction, db_error, 'a) stres) \<Rightarrow> transactional_store \<Rightarrow> (transactional_store, db_error, 'a) stres" where
  "autocommit f m =
     bindS (tx_begin m) (\<lambda>t _.
       case f t of
         (Inl e, t1) \<Rightarrow> (Inl e, tx_drop t1)
       | (Inr x, t1) \<Rightarrow> bindS (tx_commit t1) (\<lambda>_ m1. (Inr x, m1)))"

definition create_table_autocommit ::
  "transactional_store \<Rightarrow> string \<Rightarrow> column_def list \<Rightarrow> (transactional_store, db_error, relation_id) stres" where
  "create_table_autocommit m name columns = autocommit (\<lambda>t. tx_create_table t name columns) m"

definition insert_row_autocommit ::
  "transactional_store \<Rightarrow> relation_id \<Rightarrow> byte_list \<Rightarrow> (transactional_store, db_error, row_id) stres" where
  "insert_row_autocommit m rid bytes = autocommit (\<lambda>t. tx_insert_row t rid bytes) m"

definition register_extension_autocommit ::
  "transactional_store \<Rightarrow> string \<Rightarrow> u32 \<Rightarrow> string \<Rightarrow> (transactional_store, db_error, bool) stres" where
  "register_extension_autocommit m name abi_version kind = autocommit (\<lambda>t. tx_register_extension t name abi_version kind) m"

definition open_transactional_store :: "std_vfs \<Rightarrow> string \<Rightarrow> string \<Rightarrow> (std_vfs, db_error, transactional_store) stres" where
  "open_transactional_store v data_path wal_path =
     bindS (open_catalog_store v data_path) (\<lambda>store v1.
     bindS (vfs_open_database v1 wal_path) (\<lambda>wal_file v2.
       case wal_writer_new wal_file of
         Inl e \<Rightarrow> (Inl e, v2)
       | Inr wal \<Rightarrow> (Inr (ts_new store wal), v2)))"

end
