(* ===== verification/Rdbms_Index_Codec.thy ===== *)
theory Rdbms_Index_Codec
  imports Rdbms_Index Rdbms_Catalog_Spec "HOL-Library.Multiset"
begin

text \<open>
  Facts about single index nodes: binary search finds the insertion point of a sorted vector,
  and a node stored as a page is read back as that node.
\<close>

section \<open>Binary search\<close>

lemma cmp_simps [simp]:
  "cmp a b = Less \<longleftrightarrow> a < b" "cmp a b = Equal \<longleftrightarrow> a = b" "cmp a b = Greater \<longleftrightarrow> b < a"
  by (auto simp: cmp_def)

definition ordering_rank :: "ordering \<Rightarrow> nat" where
  "ordering_rank r = (case r of Less \<Rightarrow> 0 | Equal \<Rightarrow> 1 | Greater \<Rightarrow> 2)"

lemma rank_mono: "mono (\<lambda>x :: 'a::linorder. ordering_rank (cmp x c))"
  by (rule monoI) (auto simp: ordering_rank_def cmp_def)

text \<open>The vector is partitioned by the comparison: less, then equal, then greater.\<close>

definition ordered_by :: "('a \<Rightarrow> ordering) \<Rightarrow> 'a list \<Rightarrow> bool" where
  "ordered_by f xs \<longleftrightarrow> sorted (map (\<lambda>x. ordering_rank (f x)) xs)"

lemma ordered_by_nth:
  assumes "ordered_by f xs" "i \<le> j" "j < length xs"
  shows "ordering_rank (f (xs ! i)) \<le> ordering_rank (f (xs ! j))"
  using sorted_nth_mono [of "map (\<lambda>x. ordering_rank (f x)) xs" i j] assms by (simp add: ordered_by_def)

lemma bsearch_loop_inv:
  assumes "ordered_by f xs" "0 < n" "base + n \<le> length xs"
    "base = 0 \<or> f (xs ! base) \<noteq> Greater" "\<forall>j. base + n \<le> j \<and> j < length xs \<longrightarrow> f (xs ! j) = Greater"
  shows "let b = bsearch_loop f xs base n in b < length xs \<and> (b = 0 \<or> f (xs ! b) \<noteq> Greater) \<and>
    (\<forall>j. b < j \<and> j < length xs \<longrightarrow> f (xs ! j) = Greater)"
  using assms
proof (induction f xs base n rule: bsearch_loop.induct)
  case (1 f xs base n)
  show ?case
  proof (cases "1 < n")
    case False
    then have "bsearch_loop f xs base n = base" by (simp add: bsearch_loop.simps)
    with False 1 show ?thesis by (auto simp: Let_def)
  next
    case True
    let ?mid = "base + n div 2"
    let ?b = "if f (xs ! ?mid) = Greater then base else ?mid"
    have mid: "?mid < length xs" using "1.prems"(2,3) by linarith
    have step: "bsearch_loop f xs base n = bsearch_loop f xs ?b (n - n div 2)"
      using True by (simp add: bsearch_loop.simps [of f xs base n] Let_def)
    have "f (xs ! j) = Greater" if "?b + (n - n div 2) \<le> j" "j < length xs" for j
    proof (cases "f (xs ! ?mid) = Greater")
      case g: True
      have "?mid \<le> j" using that g by simp
      from ordered_by_nth [OF "1.prems"(1) this that(2)] g show ?thesis
        by (cases "f (xs ! j)") (auto simp: ordering_rank_def)
    next
      case False
      with that "1.prems"(5) True show ?thesis by auto
    qed
    moreover have "?b = 0 \<or> f (xs ! ?b) \<noteq> Greater" using "1.prems"(4) by auto
    moreover have "0 < n - n div 2" "?b + (n - n div 2) \<le> length xs" using True "1.prems"(3) by auto
    ultimately show ?thesis unfolding step using "1.IH" [OF True refl refl "1.prems"(1)] by blast
  qed
qed

lemma binary_search_by_spec:
  assumes "ordered_by f xs"
  shows "(\<forall>i. binary_search_by f xs = Inr i \<longrightarrow> i < length xs \<and> f (xs ! i) = Equal) \<and>
    (\<forall>i. binary_search_by f xs = Inl i \<longrightarrow> i \<le> length xs \<and> (\<forall>j < i. f (xs ! j) = Less) \<and>
       (\<forall>j. i \<le> j \<and> j < length xs \<longrightarrow> f (xs ! j) = Greater))"
proof (cases "xs = []")
  case False
  let ?b = "bsearch_loop f xs 0 (length xs)"
  have "\<forall>j. 0 + length xs \<le> j \<and> j < length xs \<longrightarrow> f (xs ! j) = Greater" by auto
  then have inv: "?b < length xs" "?b = 0 \<or> f (xs ! ?b) \<noteq> Greater" "\<And>j. ?b < j \<Longrightarrow> j < length xs \<Longrightarrow> f (xs ! j) = Greater"
    using bsearch_loop_inv [OF assms, of "length xs" 0] False by (auto simp: Let_def)
  have less: "f (xs ! j) = Less" if "f (xs ! ?b) = Less" "j \<le> ?b" for j
    using ordered_by_nth [OF assms that(2) inv(1)] that(1)
    by (cases "f (xs ! j)") (auto simp: ordering_rank_def)
  show ?thesis
  proof (cases "f (xs ! ?b)")
    case Less
    then have "binary_search_by f xs = Inl (?b + 1)" using False by (simp add: binary_search_by_def Let_def)
    with inv less [OF Less] show ?thesis by (simp add: less_Suc_eq_le Suc_le_eq)
  next
    case Equal
    then have "binary_search_by f xs = Inr ?b" using False by (simp add: binary_search_by_def Let_def)
    with inv(1) Equal show ?thesis by simp
  next
    case Greater
    then have "binary_search_by f xs = Inl ?b" using False by (simp add: binary_search_by_def Let_def)
    moreover have b: "?b = 0" using inv(2) Greater by simp
    ultimately show ?thesis using inv(3) Greater by (metis gr_zeroI le_zero_eq less_nat_zero_code old.sum.distinct(1) old.sum.inject(1) le0)
  qed
qed (simp add: binary_search_by_def)

lemma partition_point_spec:
  assumes "ordered_by (\<lambda>x. if P x then Less else Greater) xs"
  shows "partition_point P xs \<le> length xs" "\<And>j. j < partition_point P xs \<Longrightarrow> P (xs ! j)"
    "\<And>j. partition_point P xs \<le> j \<Longrightarrow> j < length xs \<Longrightarrow> \<not> P (xs ! j)"
proof -
  let ?f = "\<lambda>x. if P x then Less else Greater"
  from binary_search_by_spec [OF assms] have "\<exists>i. binary_search_by ?f xs = Inl i"
    by (cases "binary_search_by ?f xs") (auto split: if_splits)
  then obtain i where i: "binary_search_by ?f xs = Inl i" by blast
  with binary_search_by_spec [OF assms] show "partition_point P xs \<le> length xs"
    "\<And>j. j < partition_point P xs \<Longrightarrow> P (xs ! j)" "\<And>j. partition_point P xs \<le> j \<Longrightarrow> j < length xs \<Longrightarrow> \<not> P (xs ! j)"
    by (auto simp: partition_point_def split: if_splits)
qed

lemma child_index_spec:
  assumes "sorted keys"
  shows "child_index_for_key keys key \<le> length keys" "\<And>j. j < child_index_for_key keys key \<Longrightarrow> keys ! j < key"
    "\<And>j. child_index_for_key keys key \<le> j \<Longrightarrow> j < length keys \<Longrightarrow> key \<le> keys ! j"
proof -
  have "ordered_by (\<lambda>x. if x < key then Less else Greater) keys"
    unfolding ordered_by_def
    by (rule sorted_map_mono [OF assms]) (auto simp: mono_on_def ordering_rank_def)
  note * = partition_point_spec [OF this]
  from * show "child_index_for_key keys key \<le> length keys" "\<And>j. j < child_index_for_key keys key \<Longrightarrow> keys ! j < key"
    "\<And>j. child_index_for_key keys key \<le> j \<Longrightarrow> j < length keys \<Longrightarrow> key \<le> keys ! j"
    by (auto simp: child_index_for_key_def not_less [symmetric])
qed

definition entry_order :: "index_entry \<Rightarrow> index_key \<times> row_id" where
  "entry_order e = (ie_key e, ie_row_id e)"

lemma compare_entry_cmp: "compare_entry a b = cmp (entry_order a) (entry_order b)"
  by (auto simp: compare_entry_def ordering_then_def cmp_def entry_order_def)

lemma entry_order_eq [simp]: "entry_order a = entry_order b \<longleftrightarrow> a = b"
  by (auto simp: entry_order_def)

lemma insert_leaf_entry_spec:
  assumes "sorted (map entry_order es)"
  obtains xs ys where "es = xs @ ys" "insert_leaf_entry es k r = xs @ \<lparr>ie_key = k, ie_row_id = r\<rparr> # ys"
    "sorted (map entry_order (insert_leaf_entry es k r))"
proof -
  let ?e = "\<lparr>ie_key = k, ie_row_id = r\<rparr>" and ?f = "\<lambda>c. cmp (entry_order c) (entry_order \<lparr>ie_key = k, ie_row_id = r\<rparr>)"
  define i where "i = (case binary_search_by ?f es of Inr i \<Rightarrow> i | Inl i \<Rightarrow> i)"
  have ins: "insert_leaf_entry es k r = insert_at i ?e es"
    by (simp add: insert_leaf_entry_def compare_entry_cmp i_def Let_def)
  have "mono (\<lambda>x. ordering_rank (cmp x (entry_order ?e)))" by (rule rank_mono)
  then have "ordered_by ?f es"
    using sorted_map_mono [OF assms, of "\<lambda>x. ordering_rank (cmp x (entry_order ?e))"]
    by (simp add: ordered_by_def comp_def mono_on_subset [where A = UNIV])
  note spec = binary_search_by_spec [OF this]
  have i: "i \<le> length es" using spec by (auto simp: i_def split: sum.splits)
  have le: "entry_order (es ! j) \<le> entry_order ?e" if "j < i" for j
  proof (cases "binary_search_by ?f es")
    case (Inl m)
    then show ?thesis using spec that by (auto simp: i_def)
  next
    case (Inr m)
    then have m: "m = i" "i < length es" "es ! i = ?e" using spec by (auto simp: i_def)
    have "map entry_order es ! j \<le> map entry_order es ! i" by (rule sorted_nth_mono [OF assms]) (use that m in auto)
    then show ?thesis using that m by simp
  qed
  have ge: "entry_order ?e \<le> entry_order (es ! j)" if "i \<le> j" "j < length es" for j
  proof (cases "binary_search_by ?f es")
    case (Inl m)
    then show ?thesis using spec that by (auto simp: i_def)
  next
    case (Inr m)
    then have m: "m = i" "i < length es" "es ! i = ?e" using spec by (auto simp: i_def)
    have "map entry_order es ! i \<le> map entry_order es ! j" by (rule sorted_nth_mono [OF assms]) (use that in auto)
    then show ?thesis using that m by simp
  qed
  have parts: "sorted (map entry_order (take i es))" "sorted (map entry_order (drop i es))"
    using assms by (auto simp: take_map [symmetric] drop_map [symmetric] intro: sorted_wrt_take sorted_wrt_drop)
  have "\<forall>x \<in> set (take i es). entry_order x \<le> entry_order ?e" using le i by (auto simp: in_set_conv_nth)
  moreover have "\<forall>x \<in> set (drop i es). entry_order ?e \<le> entry_order x" using ge i by (auto simp: in_set_conv_nth)
  ultimately have "sorted (map entry_order (insert_at i ?e es))"
    unfolding insert_at_def using parts by (auto simp: sorted_append intro: order_trans)
  with ins show ?thesis by (intro that [of "take i es" "drop i es"]) (simp_all add: insert_at_def)
qed

section \<open>Node records\<close>

fun key_ok :: "index_key \<Rightarrow> bool" where
  "key_ok (IntegerKey v) = True"
| "key_ok (TextKey t) = str_ok t"

definition entry_ok :: "index_entry \<Rightarrow> bool" where
  "entry_ok e \<longleftrightarrow> key_ok (ie_key e)"

fun node_ok :: "btree_node \<Rightarrow> bool" where
  "node_ok (LeafNode nxt es) = list_all entry_ok es"
| "node_ok (InternalNode ks cs) = list_all key_ok ks"

interpretation key_codec: codec key_ok encode_key decode_key
proof
  fix x bs assume x: "key_ok x" "encode_key x = Inr bs"
  show "reads decode_key bs x"
  proof (cases x)
    case (IntegerKey v)
    with x have bs: "bs = [1] @ push_u64 v" by (simp add: encode_key_def)
    show ?thesis
      unfolding decode_key_def [abs_def] bs IntegerKey
      by (rule reads_bind [OF reads_u8], simp, rule reads_done [OF reads_u64]) simp
  next
    case (TextKey t)
    with x have n: "unat (of_nat (length t) :: u16) = length t" "valid_utf8 (string_bytes t)"
      and bs: "bs = [2] @ push_u16 (of_nat (length t)) @ string_bytes t"
      by (auto simp: encode_key_def res_simps str_ok_def dest!: write_u16_len_Inr)
    show ?thesis
      unfolding decode_key_def [abs_def] bs TextKey
      by (rule reads_bind [OF reads_u8], simp, rule reads_bind [OF reads_u16], unfold n(1),
          rule reads_done [OF reads_bytes]) (simp_all add: n)
  qed
qed

interpretation entry_codec: codec entry_ok encode_entry decode_entry
proof
  fix x bs assume x: "entry_ok x" "encode_entry x = Inr bs"
  then obtain k where k: "encode_key (ie_key x) = Inr k" and
    bs: "bs = k @ push_u64 (page_no (row_page_id (ie_row_id x))) @ push_u16 (slot_no (row_slot_id (ie_row_id x)))"
    by (auto simp: encode_entry_def res_simps)
  have ok: "key_ok (ie_key x)" using x(1) by (simp add: entry_ok_def)
  show "reads decode_entry bs x"
    unfolding decode_entry_def [abs_def] bs
    by (rule reads_bind [OF key_codec.round_trip [OF ok k]], rule reads_bind [OF reads_u64], rule reads_done [OF reads_u16]) simp
qed

interpretation child_codec: codec "\<lambda>_. True" "\<lambda>pid. Inr (push_u64 (page_no pid))"
  "\<lambda>c. bindR (cursor_read_u64 index_texts c) (\<lambda>(v, c'). Inr (PageId v, c'))"
  by unfold_locales (auto intro: reads_map [OF reads_u64])

lemma reads_leaf:
  assumes "list_all entry_ok es" "encode_each encode_entry es = Inr bs" "unat (of_nat (length es) :: u16) = length es"
  shows "reads decode_leaf ((case nxt of Some pid \<Rightarrow> [1] @ push_u64 (page_no pid) | None \<Rightarrow> [0] @ push_u64 0) @
    push_u16 (of_nat (length es)) @ bs) (LeafNode nxt es)"
proof -
  note es = entry_codec.many_round_trip [OF assms(1,2)]
  show ?thesis
  proof (cases nxt)
    case None
    show ?thesis
      unfolding decode_leaf_def [abs_def] None option.case append_assoc
      by (rule reads_bind [OF reads_u8], rule reads_bind [OF reads_u64], simp, rule reads_bind [OF reads_u16],
          unfold assms(3), rule reads_done [OF es]) simp
  next
    case (Some pid)
    show ?thesis
      unfolding decode_leaf_def [abs_def] Some option.case append_assoc
      by (rule reads_bind [OF reads_u8], rule reads_bind [OF reads_u64], simp, rule reads_bind [OF reads_u16],
          unfold assms(3), rule reads_done [OF es]) simp
  qed
qed

lemma reads_internal:
  assumes "list_all key_ok ks" "encode_each encode_key ks = Inr bs" "length cs = length ks + 1"
    "unat (of_nat (length ks) :: u16) = length ks" "unat (of_nat (length cs) :: u16) = length cs"
    "encode_each (\<lambda>pid. Inr (push_u64 (page_no pid))) cs = Inr bs2"
  shows "reads decode_internal (push_u16 (of_nat (length ks)) @ bs @ push_u16 (of_nat (length cs)) @ bs2) (InternalNode ks cs)"
proof -
  have cs: "reads (decode_many (length cs) (\<lambda>c. bindR (cursor_read_u64 index_texts c) (\<lambda>(v, c'). Inr (PageId v, c')))) bs2 cs"
    by (rule child_codec.many_round_trip [OF _ assms(6)]) (simp add: list_all_iff)
  show ?thesis
    unfolding decode_internal_def [abs_def]
    by (rule reads_bind [OF reads_u16], unfold assms(4), rule reads_bind [OF key_codec.many_round_trip [OF assms(1,2)]],
        rule reads_bind [OF reads_u16], unfold assms(5), rule reads_done [OF cs])
      (simp add: validate_internal_shape_def assms(3))
qed

lemma index_magic_length: "4 = length INDEX_NODE_MAGIC"
  by (simp add: INDEX_NODE_MAGIC_def)

lemma node_record_reads:
  assumes "node_ok n" "encode_node n = Inr bs"
  shows "reads decode_node_body bs n"
proof (cases n)
  case (LeafNode nxt es)
  with assms(2) obtain b where l: "unat (of_nat (length es) :: u16) = length es"
    and b: "encode_each encode_entry es = Inr b" and bs: "bs = INDEX_NODE_MAGIC @ push_u16 INDEX_NODE_VERSION @ [1] @
      ((case nxt of Some pid \<Rightarrow> [1] @ push_u64 (page_no pid) | None \<Rightarrow> [0] @ push_u64 0) @ push_u16 (of_nat (length es)) @ b)"
    by (auto simp: encode_node_def res_simps dest!: write_u16_len_Inr)
  have ok: "list_all entry_ok es" using assms(1) LeafNode by simp
  show ?thesis
    unfolding decode_node_body_def [abs_def] bs LeafNode
    by (rule reads_bind [OF reads_bytes [OF index_magic_length]], simp only: simp_thms if_False,
        rule reads_bind [OF reads_u16], simp only: simp_thms if_False,
        rule reads_bind [OF reads_u8], simp, rule reads_leaf [OF ok b l, simplified])
next
  case (InternalNode ks cs)
  with assms(2) obtain b b2 where l: "unat (of_nat (length ks) :: u16) = length ks" "unat (of_nat (length cs) :: u16) = length cs"
    and sh: "validate_internal_shape ks cs = Inr ()"
    and b: "encode_each encode_key ks = Inr b" "encode_each (\<lambda>pid. Inr (push_u64 (page_no pid))) cs = Inr b2"
    and bs: "bs = INDEX_NODE_MAGIC @ push_u16 INDEX_NODE_VERSION @ [2] @
      (push_u16 (of_nat (length ks)) @ b @ push_u16 (of_nat (length cs)) @ b2)"
    by (auto simp: encode_node_def res_simps dest!: write_u16_len_Inr)
  have ok: "list_all key_ok ks" "length cs = length ks + 1"
    using assms(1) InternalNode sh by (auto simp: validate_internal_shape_def split: if_splits)
  show ?thesis
    unfolding decode_node_body_def [abs_def] bs InternalNode
    by (rule reads_bind [OF reads_bytes [OF index_magic_length]], simp only: simp_thms if_False,
        rule reads_bind [OF reads_u16], simp only: simp_thms if_False,
        rule reads_bind [OF reads_u8], simp, rule reads_internal [OF ok(1) b(1) ok(2) l b(2), simplified])
qed

lemma encode_decode_node:
  assumes "node_ok n" "encode_node n = Inr bs" "length bs < 2 ^ 64"
  shows "decode_node bs = Inr n"
  using decode_top [OF node_record_reads [OF assms(1,2)] assms(3)] by (simp add: decode_node_def cursor_finish_def)

lemma node_to_page_Inr:
  assumes "node_to_page pid n = Inr p" "node_ok n"
  shows "page_wf p" "page_id_of p = pid" "node_from_page p = Inr n" "h_page_type (hdr_of (page_bytes p)) = Index"
proof -
  from assms(1) obtain bs where bs: "encode_node n = Inr bs"
    and r: "(case insert_record (page_new pid Index) bs of (Inl e, _) \<Rightarrow> Inl e | (Inr _, p) \<Rightarrow> Inr p) = Inr p"
    by (auto simp: node_to_page_def bindR_eq_Inr)
  obtain res q where q: "insert_record (page_new pid Index) bs = (res, q)" by fastforce
  with r obtain slot where ins: "insert_record (page_new pid Index) bs = (Inr slot, p)" by (cases res) auto
  note f = insert_fresh_page [OF ins]
  from f show "page_wf p" "page_id_of p = pid" "h_page_type (hdr_of (page_bytes p)) = Index" by simp_all
  have total: "slot_total (page_bytes p) = 1" using f(4) length_page_slots [of p] by simp
  have "read_record p (SlotId 0) = Inr (Some bs)" using f(3,4) total by (simp add: read_record_eq spec_read_def)
  moreover have "decode_node bs = Inr n" by (rule encode_decode_node [OF assms(2) bs]) (use f(1) in simp)
  ultimately show "node_from_page p = Inr n" using f(3,7) by (simp add: node_from_page_def)
qed

section \<open>Nodes that fit into a page\<close>

text \<open>Keys of at most 990 encoded bytes: four of them and their row ids fit into one page.\<close>

definition key_fits :: "index_key \<Rightarrow> bool" where
  "key_fits k = (case k of IntegerKey v \<Rightarrow> True | TextKey t \<Rightarrow> length t \<le> 987)"

lemma key_fits_len: "key_fits k \<Longrightarrow> \<exists>bs. encode_key k = Inr bs \<and> length bs \<le> 990"
  by (cases k) (auto simp: encode_key_def key_fits_def push_u64_def write_u16_len_def push_u16_def)

lemma encode_each_len:
  assumes "\<And>x. x \<in> set xs \<Longrightarrow> \<exists>bs. enc x = Inr bs \<and> length bs \<le> m"
  shows "\<exists>bs. encode_each enc xs = Inr bs \<and> length bs \<le> m * length xs"
  using assms
proof (induction xs)
  case (Cons x xs)
  from Cons.prems [of x] obtain b where "enc x = Inr b" "length b \<le> m" by auto
  moreover from Cons obtain bs where "encode_each enc xs = Inr bs" "length bs \<le> m * length xs" by auto
  ultimately show ?case by auto
qed simp

fun node_fits :: "btree_node \<Rightarrow> bool" where
  "node_fits (LeafNode nxt es) \<longleftrightarrow> length es \<le> 4 \<and> (\<forall>e \<in> set es. key_fits (ie_key e))"
| "node_fits (InternalNode ks cs) \<longleftrightarrow> length ks \<le> 4 \<and> length cs = length ks + 1 \<and> (\<forall>k \<in> set ks. key_fits k)"

lemma node_fits_page:
  assumes "node_fits n"
  shows "\<exists>p. node_to_page pid n = Inr p"
proof -
  have "\<exists>bs. encode_node n = Inr bs \<and> length bs \<le> 4056"
  proof (cases n)
    case (LeafNode nxt es)
    have "\<exists>b. encode_entry e = Inr b \<and> length b \<le> 1000" if "e \<in> set es" for e
      using key_fits_len [of "ie_key e"] assms that LeafNode by (auto simp: encode_entry_def push_u64_def push_u16_def)
    from encode_each_len [of es encode_entry 1000] this obtain b where "encode_each encode_entry es = Inr b" "length b \<le> 1000 * length es"
      by blast
    with assms LeafNode show ?thesis
      by (auto simp: encode_node_def write_u16_len_def push_u16_def push_u64_def INDEX_NODE_MAGIC_def split: option.splits)
  next
    case (InternalNode ks cs)
    from encode_each_len [of ks encode_key 990] key_fits_len assms InternalNode obtain b where
      "encode_each encode_key ks = Inr b" "length b \<le> 990 * length ks" by auto
    moreover from encode_each_len [of cs "\<lambda>pid. Inr (push_u64 (page_no pid))" 8] obtain b2 where
      "encode_each (\<lambda>pid. Inr (push_u64 (page_no pid))) cs = Inr b2" "length b2 \<le> 8 * length cs" by (auto simp: push_u64_def)
    ultimately show ?thesis using assms InternalNode
      by (auto simp: encode_node_def validate_internal_shape_def write_u16_len_def push_u16_def push_u64_def INDEX_NODE_MAGIC_def)
  qed
  then obtain bs where bs: "encode_node n = Inr bs" "length bs \<le> 4056" by blast
  from insert_fresh [OF bs(2), of pid Index] obtain p where "insert_record (page_new pid Index) bs = (Inr (SlotId 0), p)" by blast
  with bs(1) show ?thesis by (simp add: node_to_page_def)
qed

end
