(* ===== verification/Rdbms_Index_Tree.thy ===== *)
theory Rdbms_Index_Tree
  imports Rdbms_Index_Codec
begin

text \<open>
  The trees that index pages represent. A tree is given with the page id of each node;
  \<open>forest\<close> says that a run of neighbouring subtrees of the same height, separated by
  keys, is stored in the pages: its internal nodes, its leaves linked in order, and the order
  of all keys. Insertion turns one tree into a forest of one or two trees, so the lemmas on
  splitting and joining forests carry the proof.
\<close>

datatype btree = BLeaf page_id "index_entry list" | BNode page_id "index_key list" "btree list"

fun root_pid :: "btree \<Rightarrow> page_id" where
  "root_pid (BLeaf pid es) = pid"
| "root_pid (BNode pid ks cs) = pid"

fun leaf_list :: "btree \<Rightarrow> (page_id \<times> index_entry list) list" where
  "leaf_list (BLeaf pid es) = [(pid, es)]"
| "leaf_list (BNode pid ks cs) = concat (map leaf_list cs)"

fun tree_pids :: "btree \<Rightarrow> page_id list" where
  "tree_pids (BLeaf pid es) = [pid]"
| "tree_pids (BNode pid ks cs) = pid # concat (map tree_pids cs)"

fun bt_height :: "btree \<Rightarrow> nat" where
  "bt_height (BLeaf pid es) = 0"
| "bt_height (BNode pid ks cs) = Suc (Max (set (map bt_height cs)))"

definition tree_entries :: "btree \<Rightarrow> index_entry list" where
  "tree_entries t = concat (map snd (leaf_list t))"

fun keyset :: "btree \<Rightarrow> index_key set" where
  "keyset (BLeaf pid es) = ie_key ` set es"
| "keyset (BNode pid ks cs) = set ks \<union> \<Union> (set (map keyset cs))"

definition set_le :: "'a::linorder set \<Rightarrow> 'a set \<Rightarrow> bool" where
  "set_le A B \<longleftrightarrow> (\<forall>a \<in> A. \<forall>b \<in> B. a \<le> b)"

text \<open>Children and separators in the order of the node.\<close>

fun interleave :: "index_key list \<Rightarrow> btree list \<Rightarrow> index_key set list" where
  "interleave [] cs = map keyset cs"
| "interleave (k # ks) [] = []"
| "interleave (k # ks) (c # cs) = keyset c # {k} # interleave ks cs"

definition key_good :: "index_key \<Rightarrow> bool" where
  "key_good k \<longleftrightarrow> key_ok k \<and> key_fits k"

fun bt_ok :: "btree \<Rightarrow> bool" where
  "bt_ok (BLeaf pid es) \<longleftrightarrow> length es \<le> 4 \<and> sorted (map entry_order es) \<and> (\<forall>e \<in> set es. key_good (ie_key e))"
| "bt_ok (BNode pid ks cs) \<longleftrightarrow> length ks \<le> 4 \<and> length cs = length ks + 1 \<and> (\<forall>k \<in> set ks. key_good k) \<and>
     sorted_wrt set_le (interleave ks cs) \<and> (\<forall>c \<in> set cs. bt_ok c) \<and> (\<exists>h. \<forall>c \<in> set cs. bt_height c = h)"

section \<open>Trees in pages\<close>

type_synonym node_map = "page_id \<Rightarrow> btree_node option"

fun inner :: "node_map \<Rightarrow> btree \<Rightarrow> bool" where
  "inner nd (BLeaf pid es) \<longleftrightarrow> True"
| "inner nd (BNode pid ks cs) \<longleftrightarrow> nd pid = Some (InternalNode ks (map root_pid cs)) \<and> (\<forall>c \<in> set cs. inner nd c)"

definition head_pid :: "page_id option \<Rightarrow> (page_id \<times> index_entry list) list \<Rightarrow> page_id option" where
  "head_pid nxt ls = (case ls of [] \<Rightarrow> nxt | (q, _) # _ \<Rightarrow> Some q)"

fun linked :: "node_map \<Rightarrow> page_id option \<Rightarrow> (page_id \<times> index_entry list) list \<Rightarrow> bool" where
  "linked nd nxt [] \<longleftrightarrow> True"
| "linked nd nxt ((pid, es) # ls) \<longleftrightarrow> nd pid = Some (LeafNode (head_pid nxt ls) es) \<and> linked nd nxt ls"

lemma head_pid_append: "head_pid nxt (xs @ ys) = head_pid (head_pid nxt ys) xs"
  by (cases xs) (auto simp: head_pid_def)

lemma linked_append: "linked nd nxt (xs @ ys) \<longleftrightarrow> linked nd (head_pid nxt ys) xs \<and> linked nd nxt ys"
  by (induction xs) (auto simp: head_pid_append)

lemma root_in_pids [simp]: "root_pid t \<in> set (tree_pids t)"
  by (cases t) auto

lemma leaf_pids_sub: "fst ` set (leaf_list t) \<subseteq> set (tree_pids t)"
  by (induction t) fastforce+

lemma inner_cong: "(\<And>q. q \<in> set (tree_pids t) \<Longrightarrow> nd' q = nd q) \<Longrightarrow> inner nd' t = inner nd t"
  by (induction t) auto

lemma linked_cong: "(\<And>q. q \<in> fst ` set ls \<Longrightarrow> nd' q = nd q) \<Longrightarrow> linked nd' nxt ls = linked nd nxt ls"
  by (induction ls) auto

definition forest_leaves :: "btree list \<Rightarrow> (page_id \<times> index_entry list) list" where
  "forest_leaves cs = concat (map leaf_list cs)"

definition forest_pids :: "btree list \<Rightarrow> page_id list" where
  "forest_pids cs = concat (map tree_pids cs)"

definition forest_entries :: "btree list \<Rightarrow> index_entry list" where
  "forest_entries cs = concat (map tree_entries cs)"

lemma forest_simps [simp]:
  "forest_leaves [] = []" "forest_leaves (c # cs) = leaf_list c @ forest_leaves cs"
  "forest_leaves (cs @ ds) = forest_leaves cs @ forest_leaves ds"
  "forest_pids [] = []" "forest_pids (c # cs) = tree_pids c @ forest_pids cs"
  "forest_pids (cs @ ds) = forest_pids cs @ forest_pids ds"
  "forest_entries [] = []" "forest_entries (c # cs) = tree_entries c @ forest_entries cs"
  "forest_entries (cs @ ds) = forest_entries cs @ forest_entries ds"
  by (simp_all add: forest_leaves_def forest_pids_def forest_entries_def)

lemma node_forest [simp]:
  "leaf_list (BNode pid ks cs) = forest_leaves cs" "tree_pids (BNode pid ks cs) = pid # forest_pids cs"
  "tree_entries (BNode pid ks cs) = forest_entries cs" "tree_entries (BLeaf pid es) = es"
proof -
  show "tree_entries (BNode pid ks cs) = forest_entries cs"
    by (simp add: tree_entries_def forest_entries_def) (induction cs; simp add: tree_entries_def)
qed (simp_all add: forest_leaves_def forest_pids_def tree_entries_def)

declare leaf_list.simps(2) [simp del] tree_pids.simps(2) [simp del]

definition forest :: "node_map \<Rightarrow> page_id option \<Rightarrow> index_key list \<Rightarrow> btree list \<Rightarrow> nat \<Rightarrow> bool" where
  "forest nd nxt ks cs h \<longleftrightarrow> length cs = length ks + 1 \<and>
     (\<forall>c \<in> set cs. inner nd c \<and> bt_ok c \<and> bt_height c = h) \<and> linked nd nxt (forest_leaves cs) \<and>
     sorted_wrt set_le (interleave ks cs) \<and> (\<forall>k \<in> set ks. key_good k) \<and> distinct (forest_pids cs)"

definition forest_keys :: "index_key list \<Rightarrow> btree list \<Rightarrow> index_key set" where
  "forest_keys ks cs = set ks \<union> \<Union> (keyset ` set cs)"

lemma keyset_node [simp]: "keyset (BNode pid ks cs) = forest_keys ks cs"
  by (simp add: forest_keys_def)

declare keyset.simps(2) [simp del]

lemma forest_leaf_pids: "fst ` set (forest_leaves cs) \<subseteq> set (forest_pids cs)"
  using leaf_pids_sub by (force simp: forest_leaves_def forest_pids_def)

lemma forest_frame:
  assumes "forest nd nxt ks cs h" "\<And>q. q \<in> set (forest_pids cs) \<Longrightarrow> nd' q = nd q"
  shows "forest nd' nxt ks cs h"
proof -
  have "inner nd' c = inner nd c" if "c \<in> set cs" for c
    by (rule inner_cong) (use that assms(2) in \<open>auto simp: forest_pids_def\<close>)
  moreover have "linked nd' nxt (forest_leaves cs) = linked nd nxt (forest_leaves cs)"
    by (rule linked_cong) (use forest_leaf_pids assms(2) in blast)
  ultimately show ?thesis using assms(1) by (auto simp: forest_def)
qed

lemma interleave_append:
  "length cs = length ks \<Longrightarrow> interleave (ks @ ks') (cs @ cs') = interleave ks cs @ interleave ks' cs'"
  by (induction ks cs rule: interleave.induct) auto

lemma interleave_split:
  "length cs = length ks + 1 \<Longrightarrow> interleave (ks @ k # ks') (cs @ cs') = interleave ks cs @ {k} # interleave ks' cs'"
proof (induction ks cs rule: interleave.induct)
  case (1 cs)
  then obtain c where "cs = [c]" by (cases cs) auto
  then show ?case by simp
qed auto

lemma Union_interleave: "length cs = length ks + 1 \<Longrightarrow> \<Union> (set (interleave ks cs)) = forest_keys ks cs"
  by (induction ks cs rule: interleave.induct) (auto simp: forest_keys_def)

lemma forest_node:
  assumes "forest nd nxt ks cs h" "nd pid = Some (InternalNode ks (map root_pid cs))" "pid \<notin> set (forest_pids cs)" "length ks \<le> 4"
  shows "forest nd nxt [] [BNode pid ks cs] (Suc h)"
proof -
  have "cs \<noteq> []" "\<forall>c \<in> set cs. bt_height c = h" using assms(1) by (auto simp: forest_def)
  then have "bt_height ` set cs = {h}" by (cases cs) auto
  then have "bt_height (BNode pid ks cs) = Suc h" by simp
  with assms show ?thesis by (auto simp: forest_def)
qed

lemma forest_split:
  assumes "forest nd nxt (k1 @ k # k2) (c1 @ c2) h" "length c1 = length k1 + 1"
  shows "forest nd (head_pid nxt (forest_leaves c2)) k1 c1 h" "forest nd nxt k2 c2 h"
    "set_le (forest_keys k1 c1) {k}" "set_le {k} (forest_keys k2 c2)"
    "set (forest_pids c1) \<inter> set (forest_pids c2) = {}"
proof -
  have l2: "length c2 = length k2 + 1" using assms by (simp add: forest_def)
  have i: "interleave (k1 @ k # k2) (c1 @ c2) = interleave k1 c1 @ {k} # interleave k2 c2"
    by (rule interleave_split [OF assms(2)])
  have s: "sorted_wrt set_le (interleave k1 c1)" "sorted_wrt set_le (interleave k2 c2)"
    "\<forall>A \<in> set (interleave k1 c1). set_le A {k}" "\<forall>B \<in> set (interleave k2 c2). set_le {k} B"
    using assms(1) by (auto simp: forest_def i sorted_wrt_append)
  then show "set_le (forest_keys k1 c1) {k}" "set_le {k} (forest_keys k2 c2)"
    by (auto simp: set_le_def Union_interleave [OF assms(2), symmetric] Union_interleave [OF l2, symmetric])
  show "forest nd (head_pid nxt (forest_leaves c2)) k1 c1 h" "forest nd nxt k2 c2 h"
    "set (forest_pids c1) \<inter> set (forest_pids c2) = {}"
    using assms s(1,2) l2 by (auto simp: forest_def linked_append)
qed

lemma forest_join:
  assumes "forest nd (head_pid nxt (leaf_list b)) [] [a] h" "forest nd nxt [] [b] h" "key_good k"
    "set_le (keyset a) {k}" "set_le {k} (keyset b)" "set (tree_pids a) \<inter> set (tree_pids b) = {}"
  shows "forest nd nxt [k] [a, b] h"
proof -
  have "set_le (keyset a) (keyset b)" using assms(4,5) by (force simp: set_le_def)
  with assms show ?thesis by (auto simp: forest_def linked_append)
qed

section \<open>Replacing a subtree\<close>

definition rest_order :: "index_key list \<Rightarrow> btree list \<Rightarrow> index_key set list" where
  "rest_order ks cs = (case ks of [] \<Rightarrow> map keyset cs | k # r \<Rightarrow> {k} # interleave r cs)"

lemma interleave_Cons: "interleave ks (c # cs) = keyset c # rest_order ks cs"
  by (cases ks) (auto simp: rest_order_def)

lemma interleave_below:
  assumes "sorted_wrt set_le (interleave ks cs)" "length cs = length ks" "\<forall>k \<in> set ks. k \<le> key"
  shows "\<forall>A \<in> set (interleave ks cs). set_le A {key}"
  using assms
proof (induction ks cs rule: interleave.induct)
  case (3 k ks c cs)
  then have "set_le (keyset c) {k}" "k \<le> key" by auto
  then have "set_le (keyset c) {key}" by (auto simp: set_le_def)
  with 3 show ?case by (auto simp: set_le_def)
qed auto

lemma rest_above:
  assumes "sorted_wrt set_le (rest_order ks cs)" "length cs = length ks" "\<forall>k \<in> set ks. key \<le> k"
  shows "\<forall>B \<in> set (rest_order ks cs). set_le {key} B"
proof (cases ks)
  case (Cons k r)
  have "set_le {key} B" if "set_le {k} B" for B
    using that assms(3) Cons by (auto simp: set_le_def)
  with assms(1,3) Cons show ?thesis by (auto simp: rest_order_def set_le_def)
qed (use assms(2) in \<open>simp add: rest_order_def\<close>)

lemma sorted_replace:
  assumes "sorted_wrt set_le (A @ X # R)" "\<forall>S \<in> set A. set_le S {key}" "\<forall>S \<in> set R. set_le {key} S"
    "sorted_wrt set_le Y" "\<Union> (set Y) \<subseteq> insert key X"
  shows "sorted_wrt set_le (A @ Y @ R)"
proof -
  have "set_le S T" if "S \<in> set A" "T \<in> set Y" for S T
  proof -
    have "set_le S X" using assms(1) that(1) by (simp add: sorted_wrt_append)
    moreover have "T \<subseteq> insert key X" using assms(5) that(2) by auto
    ultimately show ?thesis using assms(2) that(1) by (auto simp: set_le_def)
  qed
  moreover have "set_le T S" if "S \<in> set R" "T \<in> set Y" for S T
  proof -
    have "set_le X S" using assms(1) that(1) by (simp add: sorted_wrt_append)
    moreover have "T \<subseteq> insert key X" using assms(5) that(2) by auto
    ultimately show ?thesis using assms(3) that(1) by (auto simp: set_le_def)
  qed
  ultimately show ?thesis using assms(1,4) by (auto simp: sorted_wrt_append)
qed

lemma interleave_middle:
  assumes "length c1 = length k1" "length ts = length ks' + 1"
  shows "interleave (k1 @ ks' @ k2) (c1 @ ts @ c2) = interleave k1 c1 @ interleave ks' ts @ rest_order k2 c2"
proof -
  have "interleave (ks' @ k2) (ts @ c2) = interleave ks' ts @ rest_order k2 c2"
    using assms(2)
  proof (induction ks' ts rule: interleave.induct)
    case (1 cs)
    then obtain c where "cs = [c]" by (cases cs) auto
    then show ?case by (simp add: interleave_Cons) (simp add: rest_order_def)
  qed auto
  then show ?thesis by (simp add: interleave_append [OF assms(1)])
qed

lemma forest_replace:
  assumes f: "forest nd nxt (k1 @ k2) (c1 @ c # c2) h" and len: "length c1 = length k1"
    and k: "\<forall>x \<in> set k1. x \<le> key" "\<forall>x \<in> set k2. key \<le> x"
    and n: "forest nd' (head_pid nxt (forest_leaves c2)) ks' ts h"
    and head: "fst (hd (forest_leaves ts)) = fst (hd (leaf_list c))" "forest_leaves ts \<noteq> []" "leaf_list c \<noteq> []"
    and keys: "forest_keys ks' ts \<subseteq> insert key (keyset c)"
    and frame: "\<And>q. q \<in> set (forest_pids c1) \<union> set (forest_pids c2) \<Longrightarrow> nd' q = nd q"
    and pids: "set (forest_pids ts) \<inter> (set (forest_pids c1) \<union> set (forest_pids c2)) = {}"
  shows "forest nd' nxt (k1 @ ks' @ k2) (c1 @ ts @ c2) h"
proof -
  have len2: "length c2 = length k2" "length ts = length ks' + 1" using f n len by (auto simp: forest_def)
  have old: "interleave (k1 @ k2) (c1 @ c # c2) = interleave k1 c1 @ keyset c # rest_order k2 c2"
    using interleave_middle [OF len, of "[c]" "[]" k2 c2] by simp
  have so: "sorted_wrt set_le (interleave k1 c1 @ keyset c # rest_order k2 c2)" using f by (simp add: forest_def old)
  then have parts: "sorted_wrt set_le (interleave k1 c1)" "sorted_wrt set_le (rest_order k2 c2)"
    by (auto simp: sorted_wrt_append)
  have "sorted_wrt set_le (interleave k1 c1 @ interleave ks' ts @ rest_order k2 c2)"
    by (rule sorted_replace [OF so interleave_below [OF parts(1) len k(1)] rest_above [OF parts(2) len2(1) k(2)]])
      (use n keys in \<open>auto simp: forest_def Union_interleave\<close>)
  then have sorted: "sorted_wrt set_le (interleave (k1 @ ks' @ k2) (c1 @ ts @ c2))"
    by (simp add: interleave_middle [OF len len2(2)])
  have inner: "inner nd' x" if "x \<in> set c1 \<union> set c2" for x
  proof -
    have "inner nd' x = inner nd x" by (rule inner_cong) (use that frame in \<open>auto simp: forest_pids_def\<close>)
    with f that show ?thesis by (auto simp: forest_def)
  qed
  have lk: "linked nd (head_pid nxt (leaf_list c @ forest_leaves c2)) (forest_leaves c1)" "linked nd nxt (forest_leaves c2)"
    using f by (auto simp: forest_def linked_append)
  have hd: "head_pid nxt (leaf_list c @ forest_leaves c2) = head_pid nxt (forest_leaves ts @ forest_leaves c2)"
    using head by (cases "leaf_list c"; cases "forest_leaves ts") (auto simp: head_pid_def)
  have "linked nd' (head_pid nxt (forest_leaves ts @ forest_leaves c2)) (forest_leaves c1)"
    unfolding hd [symmetric] by (subst linked_cong [where nd = nd]) (use lk frame forest_leaf_pids in auto)
  moreover have "linked nd' nxt (forest_leaves c2)"
    by (subst linked_cong [where nd = nd]) (use lk frame forest_leaf_pids in auto)
  ultimately have "linked nd' nxt (forest_leaves (c1 @ ts @ c2))" using n by (simp add: forest_def linked_append)
  moreover have "distinct (forest_pids (c1 @ ts @ c2))" using f n pids by (auto simp: forest_def)
  ultimately show ?thesis using f n len2 sorted inner len by (auto simp: forest_def)
qed

end
