(* ===== verification/Rdbms_Index_Spec.thy ===== *)
theory Rdbms_Index_Spec
  imports Rdbms_Index_Tree
begin

text \<open>
  The B+Tree operations over any page store that keeps its promises. \<open>index_reader\<close> is
  the contract of the read side, enough for lookups; \<open>index_store\<close> adds storing nodes and
  allocating pages. Insertion and lookup terminate on stored trees; insertion adds one entry
  and keeps the tree sorted, balanced and stored; lookup returns the row ids of all entries
  with the key.
\<close>

section \<open>Trees that are searched\<close>

lemma leaf_list_ne: "bt_ok t \<Longrightarrow> leaf_list t \<noteq> []"
proof (induction t)
  case (BNode pid ks cs)
  then obtain c cs' where "cs = c # cs'" "bt_ok c" by (cases cs) auto
  with BNode show ?case by simp
qed simp

lemma sorted_children:
  assumes "sorted_wrt set_le (interleave ks cs)" "length cs = length ks + 1"
  shows "sorted_wrt (\<lambda>a b. set_le (keyset a) (keyset b)) cs"
proof -
  have mem: "keyset ` set ds \<subseteq> set (interleave js ds)" if "length ds = length js + 1" for js ds
    using that by (induction js ds rule: interleave.induct) auto
  show ?thesis
    using assms
  proof (induction ks cs rule: interleave.induct)
    case (3 k ks c cs)
    then have "\<forall>A \<in> set (interleave ks cs). set_le (keyset c) A" by auto
    with mem [of cs ks] "3.prems"(2) have "\<forall>d \<in> set cs. set_le (keyset c) (keyset d)" by auto
    with 3 show ?case by simp
  qed (auto simp: sorted_wrt_map)
qed

lemma entries_keyset: "ie_key ` set (tree_entries t) \<subseteq> keyset t"
proof (induction t)
  case (BNode pid ks cs)
  then show ?case by (fastforce simp: forest_entries_def forest_keys_def)
qed simp

lemma tree_entries_sorted: "bt_ok t \<Longrightarrow> sorted (map ie_key (tree_entries t))"
proof (induction t)
  case (BLeaf pid es)
  have "sorted (map ie_key es)" if "sorted (map entry_order es)" for es
    using that by (induction es) (auto simp: entry_order_def less_eq_prod_def)
  with BLeaf show ?case by simp
next
  case (BNode pid ks cs)
  have "sorted_wrt (\<lambda>a b. set_le (keyset a) (keyset b)) cs" using BNode.prems sorted_children by auto
  moreover have "\<forall>c \<in> set cs. sorted (map ie_key (tree_entries c))" using BNode by auto
  ultimately have "sorted (map ie_key (forest_entries cs))"
  proof (induction cs)
    case (Cons c cs)
    have "ie_key x \<le> ie_key y" if "x \<in> set (tree_entries c)" "y \<in> set (forest_entries cs)" for x y
    proof -
      from that(2) obtain d where "d \<in> set cs" "y \<in> set (tree_entries d)" by (auto simp: forest_entries_def)
      moreover from this(2) that(1) have "ie_key x \<in> keyset c" "ie_key y \<in> keyset d"
        using entries_keyset by blast+
      ultimately show ?thesis using Cons.prems(1) by (simp add: set_le_def)
    qed
    with Cons show ?case by (auto simp: sorted_append)
  qed simp
  then show ?case by simp
qed

lemma forest_sorted_keys:
  assumes "sorted_wrt set_le (interleave ks cs)" "length cs = length ks + 1"
  shows "sorted ks"
proof -
  have mem: "(\<lambda>k. {k}) ` set js \<subseteq> set (interleave js ds)" if "length ds = length js + 1" for js ds
    using that by (induction js ds rule: interleave.induct) auto
  show ?thesis
    using assms
  proof (induction ks cs rule: interleave.induct)
    case (3 k ks c cs)
    then have "\<forall>A \<in> set (interleave ks cs). set_le {k} A" by auto
    with mem [of cs ks] "3.prems"(2) have "\<forall>x \<in> set ks. set_le {k} {x}" by auto
    then have "\<forall>x \<in> set ks. k \<le> x" by (simp add: set_le_def)
    with 3 show ?case by simp
  qed auto
qed

text \<open>The child that is searched splits the node at the key.\<close>

lemma child_split:
  assumes "bt_ok (BNode pid ks cs)" "i = child_index_for_key ks key"
  obtains c where "cs = take i cs @ c # drop (Suc i) cs" "cs ! i = c" "c \<in> set cs" "i \<le> length ks"
    "length (take i cs) = i" "length (take i ks) = i" "\<forall>k \<in> set (take i ks). k < key" "\<forall>k \<in> set (drop i ks). key \<le> k"
    "\<And>x y. x \<in> set (take i cs) \<Longrightarrow> y \<in> keyset x \<Longrightarrow> y < key"
proof -
  have so: "sorted_wrt set_le (interleave ks cs)" "length cs = length ks + 1" using assms(1) by auto
  note sp = child_index_spec [OF forest_sorted_keys [OF so], where key = key, folded assms(2)]
  have i: "i < length cs" using sp(1) so(2) by simp
  have cs: "cs = take i cs @ cs ! i # drop (Suc i) cs" by (rule id_take_nth_drop [OF i])
  have lt: "\<forall>k \<in> set (take i ks). k < key" using sp(1,2) by (auto simp: in_set_conv_nth)
  have "set_le (keyset x) {k}" if "x = cs ! j" "k = ks ! j" "j < i" for x k j
  proof -
    have "interleave ks cs = interleave (take j ks @ ks ! j # drop (Suc j) ks) ((take j cs @ [cs ! j]) @ drop (Suc j) cs)"
      using id_take_nth_drop [of j ks] id_take_nth_drop [of j cs] that sp(1) i by simp
    also have "\<dots> = interleave (take j ks) (take j cs @ [cs ! j]) @ {ks ! j} # interleave (drop (Suc j) ks) (drop (Suc j) cs)"
      by (rule interleave_split) (use that sp(1) i in simp)
    also have "interleave (take j ks) (take j cs @ [cs ! j]) = interleave (take j ks) (take j cs) @ [keyset (cs ! j)]"
      using interleave_append [of "take j cs" "take j ks" "[]" "[cs ! j]"] that sp(1) i by simp
    finally show ?thesis using so(1) that by (auto simp: sorted_wrt_append)
  qed
  then have "y < key" if "x \<in> set (take i cs)" "y \<in> keyset x" for x y
    using that sp(1,2) i by (force simp: in_set_conv_nth set_le_def)
  moreover have "\<forall>k \<in> set (drop i ks). key \<le> k" using sp(1,3) by (auto simp: in_set_conv_nth)
  ultimately show ?thesis using cs i sp(1) lt by (intro that [of "cs ! i"]) auto
qed

lemma scan_leaf_eq:
  assumes "sorted (map ie_key es)"
  shows "fst (scan_leaf key acc es) = acc @ map ie_row_id (filter (\<lambda>e. ie_key e = key) es)"
    "snd (scan_leaf key acc es) \<longleftrightarrow> (\<exists>e \<in> set es. key < ie_key e)"
proof -
  have "fst (scan_leaf key acc es) = acc @ map ie_row_id (filter (\<lambda>e. ie_key e = key) es) \<and>
    (snd (scan_leaf key acc es) \<longleftrightarrow> (\<exists>e \<in> set es. key < ie_key e))"
    using assms
  proof (induction es arbitrary: acc)
    case (Cons e es)
    show ?case
    proof (cases "key < ie_key e")
      case True
      with Cons.prems have "filter (\<lambda>e. ie_key e = key) es = []" by (force simp: filter_empty_conv)
      with True show ?thesis by (auto simp: cmp_def)
    qed (use Cons in \<open>auto simp: cmp_def\<close>)
  qed simp
  then show "fst (scan_leaf key acc es) = acc @ map ie_row_id (filter (\<lambda>e. ie_key e = key) es)"
    "snd (scan_leaf key acc es) \<longleftrightarrow> (\<exists>e \<in> set es. key < ie_key e)" by auto
qed

section \<open>Reading a stored tree\<close>

definition nodes_of :: "(page_id \<Rightarrow> page option) \<Rightarrow> node_map" where
  "nodes_of pages pid = (case pages pid of None \<Rightarrow> None
     | Some p \<Rightarrow> (case node_from_page p of Inl e \<Rightarrow> None | Inr n \<Rightarrow> Some n))"

lemma nodes_of_Some: "nodes_of pages pid = Some n \<longleftrightarrow> (\<exists>p. pages pid = Some p \<and> node_from_page p = Inr n)"
  by (auto simp: nodes_of_def split: option.splits sum.splits)

lemma nodes_of_upd: "node_from_page p = Inr n \<Longrightarrow> nodes_of (pages(pid \<mapsto> p)) = (nodes_of pages)(pid \<mapsto> n)"
  by (auto simp: nodes_of_def fun_eq_iff)

lemma nodes_of_cong: "pages' q = pages q \<Longrightarrow> nodes_of pages' q = nodes_of pages q"
  by (simp add: nodes_of_def)

locale index_reader =
  fixes ops :: "'s bplus_tree_page_store"
    and inv :: "'s \<Rightarrow> bool"
    and pages :: "'s \<Rightarrow> page_id \<Rightarrow> page option"
  assumes load_page: "inv s \<Longrightarrow> pages s pid = Some p \<Longrightarrow> ps_load ops pid s = (Inr p, s)"
begin

abbreviation nodes :: "'s \<Rightarrow> node_map" where
  "nodes s \<equiv> nodes_of (pages s)"

lemma load_node: "inv s \<Longrightarrow> nodes s pid = Some n \<Longrightarrow> \<exists>p. ps_load ops pid s = (Inr p, s) \<and> node_from_page p = Inr n"
  using load_page by (auto simp: nodes_of_Some)

lemma find_leaf_ok:
  assumes "inv s" "forest (nodes s) nxt [] [t] h"
  shows "\<exists>pre pid es suf. find_leaf ops (root_pid t) key s = Some (Inr pid, s) \<and>
    leaf_list t = pre @ (pid, es) # suf \<and> (\<forall>(q, fs) \<in> set pre. \<forall>e \<in> set fs. ie_key e < key)"
proof -
  have "inner (nodes s) t \<Longrightarrow> bt_ok t \<Longrightarrow> linked (nodes s) nxt (leaf_list t) \<Longrightarrow> ?thesis" for nxt
  proof (induction t arbitrary: nxt)
    case (BLeaf pid es)
    then obtain p where "ps_load ops pid s = (Inr p, s)" "node_from_page p = Inr (LeafNode nxt es)"
      using load_node [OF assms(1), of pid "LeafNode nxt es"] by (auto simp: head_pid_def)
    then have "find_leaf ops pid key s = Some (Inr pid, s)" by (subst find_leaf.simps) simp
    then show ?case by (intro exI [of _ "[]"] exI [of _ pid] exI [of _ es]) simp
  next
    case (BNode pid ks cs)
    define i where "i = child_index_for_key ks key"
    from child_split [OF BNode.prems(2) i_def] obtain c where c: "cs = take i cs @ c # drop (Suc i) cs" "cs ! i = c" "c \<in> set cs"
      "i \<le> length ks" and below: "\<And>x y. x \<in> set (take i cs) \<Longrightarrow> y \<in> keyset x \<Longrightarrow> y < key" by metis
    have len: "length cs = length ks + 1" using BNode.prems(2) by simp
    from load_node [OF assms(1), of pid] BNode.prems(1) obtain p where
      "ps_load ops pid s = (Inr p, s)" "node_from_page p = Inr (InternalNode ks (map root_pid cs))" by auto
    then have step: "find_leaf ops pid key s = find_leaf ops (root_pid c) key s"
      using len c(2,4) by (subst find_leaf.simps) (simp add: validate_internal_shape_def i_def [symmetric])
    have leaves: "leaf_list (BNode pid ks cs) = forest_leaves (take i cs) @ leaf_list c @ forest_leaves (drop (Suc i) cs)"
      by (subst c(1)) simp
    have "linked (nodes s) (head_pid nxt (forest_leaves (drop (Suc i) cs))) (leaf_list c)"
      using BNode.prems(3) unfolding leaves by (simp add: linked_append)
    from BNode.IH [OF c(3) _ _ this] BNode.prems(1,2) c(3) obtain pre q es suf where
      f: "find_leaf ops (root_pid c) key s = Some (Inr q, s)" "leaf_list c = pre @ (q, es) # suf"
        "\<forall>(q, fs) \<in> set pre. \<forall>e \<in> set fs. ie_key e < key" by auto
    have "ie_key e < key" if "(q, fs) \<in> set (forest_leaves (take i cs))" "e \<in> set fs" for q fs e
    proof -
      from that obtain d where d: "d \<in> set (take i cs)" "(q, fs) \<in> set (leaf_list d)" by (auto simp: forest_leaves_def)
      then have "e \<in> set (tree_entries d)" using that(2) by (force simp: tree_entries_def)
      with entries_keyset [of d] below [OF d(1)] show ?thesis by auto
    qed
    with f show ?case unfolding leaves root_pid.simps step
      by (intro exI [of _ "forest_leaves (take i cs) @ pre"] exI [of _ q] exI [of _ es] exI) auto
  qed
  with assms(2) show ?thesis by (auto simp: forest_def)
qed

lemma lookup_leaves_ok:
  assumes "inv s" "linked (nodes s) None ((pid, es) # ls)"
    "sorted (map ie_key (concat (map snd ((pid, es) # ls))))"
  shows "lookup_leaves ops key pid acc s =
    Some (Inr (acc @ map ie_row_id (filter (\<lambda>e. ie_key e = key) (concat (map snd ((pid, es) # ls))))), s)"
  using assms(2,3)
proof (induction ls arbitrary: pid es acc)
  case Nil
  from load_node [OF assms(1), of pid] Nil.prems(1) obtain p where
    "ps_load ops pid s = (Inr p, s)" "node_from_page p = Inr (LeafNode None es)" by (auto simp: head_pid_def)
  with scan_leaf_eq [of es key acc] Nil.prems(2) show ?case by (subst lookup_leaves.simps) simp
next
  case (Cons l ls)
  obtain q fs where l: "l = (q, fs)" by fastforce
  from load_node [OF assms(1), of pid] Cons.prems(1) l obtain p where
    p: "ps_load ops pid s = (Inr p, s)" "node_from_page p = Inr (LeafNode (Some q) es)" by (auto simp: head_pid_def)
  have se: "sorted (map ie_key es)" using Cons.prems(2) by (simp add: sorted_append)
  note sc = scan_leaf_eq [OF se, of key acc]
  show ?case
  proof (cases "\<exists>e \<in> set es. key < ie_key e")
    case True
    then obtain e where e: "e \<in> set es" "key < ie_key e" by blast
    have "sorted (map ie_key es @ map ie_key (concat (map snd (l # ls))))" using Cons.prems(2) by simp
    then have "ie_key e \<le> ie_key x" if "x \<in> set (concat (map snd (l # ls)))" for x
      using e(1) that unfolding sorted_append set_map by blast
    with e(2) have "filter (\<lambda>e. ie_key e = key) (concat (map snd (l # ls))) = []"
      unfolding filter_empty_conv by (metis leD)
    with True p sc show ?thesis by (subst lookup_leaves.simps) simp
  next
    case False
    have "lookup_leaves ops key pid acc s = lookup_leaves ops key q (acc @ map ie_row_id (filter (\<lambda>e. ie_key e = key) es)) s"
      using p sc False by (subst lookup_leaves.simps) simp
    also have "\<dots> = Some (Inr ((acc @ map ie_row_id (filter (\<lambda>e. ie_key e = key) es)) @
        map ie_row_id (filter (\<lambda>e. ie_key e = key) (concat (map snd ((q, fs) # ls))))), s)"
      by (rule Cons.IH) (use Cons.prems l in \<open>auto simp: sorted_append\<close>)
    finally show ?thesis by (simp add: l)
  qed
qed

lemma index_lookup_ok:
  assumes "inv s" "forest (nodes s) None [] [t] h"
  shows "index_lookup ops (root_pid t) key s =
    Some (Inr (map ie_row_id (filter (\<lambda>e. ie_key e = key) (tree_entries t))), s)"
proof -
  from find_leaf_ok [OF assms, of key] obtain pre pid es suf where
    f: "find_leaf ops (root_pid t) key s = Some (Inr pid, s)" "leaf_list t = pre @ (pid, es) # suf"
      "\<forall>(q, fs) \<in> set pre. \<forall>e \<in> set fs. ie_key e < key" by auto
  have ok: "linked (nodes s) None (leaf_list t)" "bt_ok t" using assms(2) by (simp_all add: forest_def)
  have l: "linked (nodes s) None ((pid, es) # suf)" using ok(1) unfolding f(2) linked_append by blast
  have so: "sorted (map ie_key (concat (map snd ((pid, es) # suf))))"
    using tree_entries_sorted [OF ok(2)] unfolding tree_entries_def f(2) map_append concat_append sorted_append by blast
  have "filter (\<lambda>e. ie_key e = key) (concat (map snd pre)) = []" using f(3) by (force simp: filter_empty_conv)
  then have "filter (\<lambda>e. ie_key e = key) (tree_entries t) = filter (\<lambda>e. ie_key e = key) (concat (map snd ((pid, es) # suf)))"
    unfolding tree_entries_def f(2) by simp
  with lookup_leaves_ok [OF assms(1) l so, of key "[]"] f(1) show ?thesis by (simp add: index_lookup_def)
qed

end

section \<open>Inserting into a stored tree\<close>

locale index_store = index_reader ops inv pages
  for ops :: "'s bplus_tree_page_store" and inv :: "'s \<Rightarrow> bool" and pages :: "'s \<Rightarrow> page_id \<Rightarrow> page option" +
  fixes used :: "'s \<Rightarrow> page_id set"
    and spare :: "'s \<Rightarrow> nat"
  assumes store_page: "inv s \<Longrightarrow> page_id_of p \<in> used s \<Longrightarrow> page_wf p \<Longrightarrow>
      \<exists>s'. ps_store ops p s = (Inr (), s') \<and> inv s' \<and> pages s' = (pages s)(page_id_of p \<mapsto> p) \<and>
        used s' = used s \<and> spare s' = spare s"
    and allocate: "inv s \<Longrightarrow> 0 < spare s \<Longrightarrow>
      \<exists>pid s'. ps_allocate ops s = (Inr pid, s') \<and> inv s' \<and> pid \<notin> used s \<and> used s' = insert pid (used s) \<and>
        pages s' = pages s \<and> Suc (spare s') = spare s"
begin

lemma store_node_ok:
  assumes "inv s" "pid \<in> used s" "node_ok n" "node_fits n"
  obtains s' where "store_node ops pid n s = (Inr (), s')" "inv s'" "nodes s' = (nodes s)(pid \<mapsto> n)"
    "used s' = used s" "spare s' = spare s" "\<forall>q. q \<noteq> pid \<longrightarrow> pages s' q = pages s q"
proof -
  from node_fits_page [OF assms(4)] obtain p where p: "node_to_page pid n = Inr p" by blast
  note f = node_to_page_Inr [OF p assms(3)]
  have "page_id_of p \<in> used s" using f(2) assms(2) by simp
  from store_page [OF assms(1) this f(1)] obtain s' where "ps_store ops p s = (Inr (), s')" "inv s'"
    "pages s' = (pages s)(pid \<mapsto> p)" "used s' = used s" "spare s' = spare s" unfolding f(2) by blast
  then show ?thesis using p nodes_of_upd [OF f(3)] by (intro that [of s']) (auto simp: store_node_def)
qed

text \<open>What the insertion of an entry into a subtree promises.\<close>

definition grown :: "'s \<Rightarrow> 's \<Rightarrow> page_id option \<Rightarrow> btree \<Rightarrow> index_entry \<Rightarrow> index_key list \<Rightarrow> btree list \<Rightarrow> nat \<Rightarrow> bool" where
  "grown s s' nxt t e ks ts h \<longleftrightarrow> inv s' \<and> forest (nodes s') nxt ks ts h \<and> length ks \<le> 1 \<and>
     root_pid (hd ts) = root_pid t \<and> fst (hd (forest_leaves ts)) = fst (hd (leaf_list t)) \<and>
     (\<exists>xs ys. tree_entries t = xs @ ys \<and> forest_entries ts = xs @ e # ys) \<and>
     forest_keys ks ts \<subseteq> insert (ie_key e) (keyset t) \<and>
     used s \<subseteq> used s' \<and> set (forest_pids ts) \<subseteq> set (tree_pids t) \<union> (used s' - used s) \<and>
     (\<forall>q \<in> used s - set (tree_pids t). pages s' q = pages s q) \<and> spare s \<le> spare s' + h + 1"

lemma grownI:
  assumes "inv s'" "forest (nodes s') nxt ks ts h" "length ks \<le> 1" "root_pid (hd ts) = root_pid t"
    "fst (hd (forest_leaves ts)) = fst (hd (leaf_list t))" "tree_entries t = xs @ ys" "forest_entries ts = xs @ e # ys"
    "forest_keys ks ts \<subseteq> insert (ie_key e) (keyset t)" "used s \<subseteq> used s'"
    "set (forest_pids ts) \<subseteq> set (tree_pids t) \<union> (used s' - used s)"
    "\<forall>q \<in> used s - set (tree_pids t). pages s' q = pages s q" "spare s \<le> spare s' + h + 1"
  shows "grown s s' nxt t e ks ts h"
  unfolding grown_def using assms by blast

definition split_of :: "index_key list \<Rightarrow> btree list \<Rightarrow> split_result option" where
  "split_of ks ts = (case ks of [] \<Rightarrow> None
     | k # _ \<Rightarrow> Some \<lparr>sr_separator = k, sr_right_page_id = root_pid (ts ! 1)\<rparr>)"

lemma finish_leaf_ok:
  assumes "inv s" "pid \<in> used s" "nodes s pid = Some (LeafNode nxt es0)" "1 \<le> spare s"
    and es: "es0 = xs @ ys" "es = xs @ e # ys" "sorted (map entry_order es)" "length es0 \<le> 4" "\<forall>x \<in> set es. key_good (ie_key x)"
  shows "\<exists>s' ks ts. finish_leaf ops pid nxt es s = (Inr (split_of ks ts), s') \<and> grown s s' nxt (BLeaf pid es0) e ks ts 0"
proof (cases "length es \<le> 4")
  case True
  have "node_ok (LeafNode nxt es)" "node_fits (LeafNode nxt es)"
    using es(5) True by (auto simp: list_all_iff entry_ok_def key_good_def)
  from store_node_ok [OF assms(1,2) this] obtain s' where s': "store_node ops pid (LeafNode nxt es) s = (Inr (), s')" "inv s'"
    "nodes s' = (nodes s)(pid \<mapsto> LeafNode nxt es)" "used s' = used s" "spare s' = spare s"
    "\<forall>q. q \<noteq> pid \<longrightarrow> pages s' q = pages s q" .
  have "grown s s' nxt (BLeaf pid es0) e [] [BLeaf pid es] 0"
    unfolding grown_def using s' es True by (auto simp: forest_def head_pid_def forest_keys_def)
  moreover have "finish_leaf ops pid nxt es s = (Inr (split_of [] [BLeaf pid es]), s')"
    using True s'(1) by (simp add: finish_leaf_def split_of_def)
  ultimately show ?thesis by blast
next
  case False
  then have len: "length es = 5" using es(1,2,4) by simp
  let ?l = "take 2 es" and ?r = "drop 2 es"
  have r: "?r \<noteq> []" "ie_key (?r ! 0) = ie_key (hd ?r)" using len by (auto simp: hd_conv_nth)
  have half: "length es div 2 = 2" using len by simp
  from allocate [OF assms(1)] assms(4) obtain right s1 where a: "ps_allocate ops s = (Inr right, s1)" "inv s1"
    "right \<notin> used s" "used s1 = insert right (used s)" "pages s1 = pages s" "Suc (spare s1) = spare s" by auto
  have good: "\<forall>x \<in> set ?l. key_good (ie_key x)" "\<forall>x \<in> set ?r. key_good (ie_key x)"
    using es(5) by (auto dest: in_set_takeD in_set_dropD)
  have n1: "node_ok (LeafNode (Some right) ?l)" "node_fits (LeafNode (Some right) ?l)" and
    n2: "node_ok (LeafNode nxt ?r)" "node_fits (LeafNode nxt ?r)"
    using good len by (auto simp: list_all_iff entry_ok_def key_good_def)
  have "pid \<in> used s1" using assms(2) a(4) by simp
  from store_node_ok [OF a(2) this n1] obtain s2 where s2: "store_node ops pid (LeafNode (Some right) ?l) s1 = (Inr (), s2)" "inv s2"
    "nodes s2 = (nodes s1)(pid \<mapsto> LeafNode (Some right) ?l)" "used s2 = used s1" "spare s2 = spare s1"
    "\<forall>q. q \<noteq> pid \<longrightarrow> pages s2 q = pages s1 q" .
  have "right \<in> used s2" using a(4) s2(4) by simp
  from store_node_ok [OF s2(2) this n2] obtain s3 where s3: "store_node ops right (LeafNode nxt ?r) s2 = (Inr (), s3)" "inv s3"
    "nodes s3 = (nodes s2)(right \<mapsto> LeafNode nxt ?r)" "used s3 = used s2" "spare s3 = spare s2"
    "\<forall>q. q \<noteq> right \<longrightarrow> pages s3 q = pages s2 q" .
  have ne: "pid \<noteq> right" using assms(2) a(3) by auto
  let ?sep = "ie_key (hd ?r)" and ?ts = "[BLeaf pid ?l, BLeaf right ?r]"
  have so: "sorted (map entry_order ?l)" "sorted (map entry_order ?r)"
    using es(3) by (auto simp: take_map [symmetric] drop_map [symmetric] intro: sorted_wrt_take sorted_wrt_drop)
  have "sorted (map entry_order (?l @ ?r))" using es(3) by simp
  then have le: "\<forall>a \<in> set ?l. \<forall>b \<in> set ?r. ie_key a \<le> ie_key b"
    unfolding map_append sorted_append by (auto simp: entry_order_def less_eq_prod_def intro: less_imp_le)
  have "\<forall>b \<in> set ?r. ie_key (hd ?r) \<le> ie_key b"
    using so(2) r(1) by (cases ?r) (auto simp: entry_order_def less_eq_prod_def intro: less_imp_le)
  then have sep: "set_le (keyset (BLeaf pid ?l)) {?sep}" "set_le {?sep} (keyset (BLeaf right ?r))"
    using le r(1) by (auto simp: set_le_def)
  have f: "forest (nodes s3) nxt [?sep] ?ts 0"
    by (rule forest_join)
      (use s2 s3 ne len so good sep r(1) in \<open>auto simp: forest_def head_pid_def\<close>)
  have ents: "forest_entries ?ts = xs @ e # ys" by (simp add: es(2) [symmetric])
  have "set es = insert e (set es0)" by (simp add: es(1,2))
  moreover have "hd ?r \<in> set es" "set ?l \<subseteq> set es" "set ?r \<subseteq> set es"
    using r(1) hd_in_set [of ?r] set_take_subset [of 2 es] set_drop_subset [of 2 es] by blast+
  ultimately have keys: "forest_keys [?sep] ?ts \<subseteq> insert (ie_key e) (keyset (BLeaf pid es0))"
    unfolding forest_keys_def by auto
  have pg: "pages s3 q = pages s q" if "q \<in> used s" "q \<noteq> pid" for q
  proof -
    have "q \<noteq> right" using that(1) a(3) by auto
    with that(2) s2(6) s3(6) a(5) show ?thesis by simp
  qed
  have fr: "used s \<subseteq> used s3" "set (forest_pids ?ts) \<subseteq> set (tree_pids (BLeaf pid es0)) \<union> (used s3 - used s)"
    "\<forall>q \<in> used s - set (tree_pids (BLeaf pid es0)). pages s3 q = pages s q" "spare s \<le> spare s3 + 0 + 1"
    using s2(4,5) s3(4,5) a(3-6) pg by auto
  have "grown s s3 nxt (BLeaf pid es0) e [?sep] ?ts 0"
    by (rule grownI [OF s3(2) f _ _ _ _ ents keys fr]) (simp_all add: es(1))
  moreover have "finish_leaf ops pid nxt es s = (Inr (split_of [?sep] ?ts), s3)"
    using len a(1) s2(1) s3(1) half r(2) by (simp add: finish_leaf_def split_of_def Let_def)
  ultimately show ?thesis by blast
qed

lemma internal_node_ok:
  assumes "forest nd nxt ks cs h" "length ks \<le> 4"
  shows "node_ok (InternalNode ks (map root_pid cs))" "node_fits (InternalNode ks (map root_pid cs))"
  using assms by (auto simp: forest_def list_all_iff key_good_def)

lemma finish_node_ok:
  assumes s: "inv s" "pid \<in> used s" "1 \<le> spare s" and f: "forest (nodes s) nxt ks cs h"
    and pids: "pid \<notin> set (forest_pids cs)" "set (forest_pids cs) \<subseteq> used s" and len: "length ks \<le> 5"
    and keys: "insert_at i (sr_separator split) keys0 = ks" "insert_at (i + 1) (sr_right_page_id split) children0 = map root_pid cs"
  shows "\<exists>s' ks' ts. finish_internal ops pid i keys0 children0 split s = (Inr (split_of ks' ts), s') \<and> inv s' \<and>
    forest (nodes s') nxt ks' ts (Suc h) \<and> length ks' \<le> 1 \<and> root_pid (hd ts) = pid \<and>
    forest_leaves ts = forest_leaves cs \<and> forest_entries ts = forest_entries cs \<and> forest_keys ks' ts = forest_keys ks cs \<and>
    used s \<subseteq> used s' \<and> set (forest_pids ts) \<subseteq> insert pid (set (forest_pids cs)) \<union> (used s' - used s) \<and>
    (\<forall>q \<in> used s - {pid}. pages s' q = pages s q) \<and> spare s \<le> spare s' + 1"
proof (cases "length ks \<le> 4")
  case True
  from store_node_ok [OF s(1,2) internal_node_ok [OF f True]] obtain s' where
    s': "store_node ops pid (InternalNode ks (map root_pid cs)) s = (Inr (), s')" "inv s'"
      "nodes s' = (nodes s)(pid \<mapsto> InternalNode ks (map root_pid cs))" "used s' = used s" "spare s' = spare s"
      "\<forall>q. q \<noteq> pid \<longrightarrow> pages s' q = pages s q" .
  have "forest (nodes s') nxt ks cs h" by (rule forest_frame [OF f]) (use s'(3) pids(1) in auto)
  then have "forest (nodes s') nxt [] [BNode pid ks cs] (Suc h)"
    by (rule forest_node) (use s'(3) pids(1) True in auto)
  moreover have "finish_internal ops pid i keys0 children0 split s = (Inr (split_of [] [BNode pid ks cs]), s')"
    unfolding finish_internal_def Let_def keys using True s'(1) by (simp add: split_of_def)
  ultimately show ?thesis
    using s' by (intro exI [of _ s'] exI [of _ "[]"] exI [of _ "[BNode pid ks cs]"]) (auto simp: forest_keys_def)
next
  case False
  then have five: "length ks = 5" using len by simp
  define k1 k k2 where "k1 = take 2 ks" "k = ks ! 2" "k2 = drop 3 ks"
  define c1 c2 where "c1 = take 3 cs" "c2 = drop 3 cs"
  have lcs: "length cs = 6" using f five by (simp add: forest_def)
  have ks: "ks = k1 @ k # k2" using id_take_nth_drop [of 2 ks] five by (simp add: k1_k_k2_def)
  have cs: "cs = c1 @ c2" "length c1 = length k1 + 1" "length k1 = 2" "length k2 = 2"
    using lcs five by (simp_all add: c1_c2_def k1_k_k2_def)
  note sp = forest_split [OF f [unfolded ks cs(1)] cs(2)]
  from allocate [OF s(1)] s(3) obtain right s1 where a: "ps_allocate ops s = (Inr right, s1)" "inv s1"
    "right \<notin> used s" "used s1 = insert right (used s)" "pages s1 = pages s" "Suc (spare s1) = spare s" by auto
  have "pid \<in> used s1" using s(2) a(4) by simp
  from store_node_ok [OF a(2) this internal_node_ok [OF sp(1)]] cs(3) obtain s2 where
    s2: "store_node ops pid (InternalNode k1 (map root_pid c1)) s1 = (Inr (), s2)" "inv s2"
      "nodes s2 = (nodes s1)(pid \<mapsto> InternalNode k1 (map root_pid c1))" "used s2 = used s1" "spare s2 = spare s1"
      "\<forall>q. q \<noteq> pid \<longrightarrow> pages s2 q = pages s1 q" by auto
  have "right \<in> used s2" using a(4) s2(4) by simp
  from store_node_ok [OF s2(2) this internal_node_ok [OF sp(2)]] cs(4) obtain s3 where
    s3: "store_node ops right (InternalNode k2 (map root_pid c2)) s2 = (Inr (), s3)" "inv s3"
      "nodes s3 = (nodes s2)(right \<mapsto> InternalNode k2 (map root_pid c2))" "used s3 = used s2" "spare s3 = spare s2"
      "\<forall>q. q \<noteq> right \<longrightarrow> pages s3 q = pages s2 q" by auto
  let ?a = "BNode pid k1 c1" and ?b = "BNode right k2 c2"
  have out: "pid \<notin> set (forest_pids c1)" "pid \<notin> set (forest_pids c2)" "right \<notin> set (forest_pids c1)" "right \<notin> set (forest_pids c2)" "right \<noteq> pid"
    using pids a(3) s(2) cs(1) by auto
  have fr: "forest (nodes s3) (head_pid nxt (forest_leaves c2)) k1 c1 h" "forest (nodes s3) nxt k2 c2 h"
    by (rule forest_frame [OF sp(1)], use s2(3) s3(3) a(5) out in auto) (rule forest_frame [OF sp(2)], use s2(3) s3(3) a(5) out in auto)
  have A: "forest (nodes s3) (head_pid nxt (leaf_list ?b)) [] [?a] (Suc h)"
    using forest_node [OF fr(1), of pid] s2(3) s3(3) out cs(3) by simp
  have B: "forest (nodes s3) nxt [] [?b] (Suc h)"
    using forest_node [OF fr(2), of right] s3(3) out cs(4) by simp
  have good: "key_good k" using f by (simp add: forest_def ks)
  have J: "forest (nodes s3) nxt [k] [?a, ?b] (Suc h)"
    by (rule forest_join [OF A B good]) (use sp(3-5) out in auto)
  have eqs: "forest_leaves [?a, ?b] = forest_leaves cs" "forest_entries [?a, ?b] = forest_entries cs" "forest_keys [k] [?a, ?b] = forest_keys ks cs"
    by (auto simp: cs(1) ks forest_keys_def)
  have "finish_internal ops pid i keys0 children0 split s = (Inr (split_of [k] [?a, ?b]), s3)"
    unfolding finish_internal_def Let_def keys
    using five a(1) s2(1) s3(1) by (simp add: split_of_def k1_k_k2_def c1_c2_def butlast_take take_map drop_map)
  moreover have pg: "pages s3 q = pages s q" if "q \<in> used s" "q \<noteq> pid" for q
  proof -
    have "q \<noteq> right" using that(1) a(3) by auto
    with that(2) s2(6) s3(6) a(5) show ?thesis by simp
  qed
  ultimately show ?thesis
    using J s3(2) eqs s2(4,5) s3(4,5) a(4-6) a(3) cs(1) by (intro exI [of _ s3] exI [of _ "[k]"] exI [of _ "[?a, ?b]"]) auto
qed

lemma grownD:
  assumes "grown s s' nxt t e ks ts h"
  obtains xs ys where "inv s'" "forest (nodes s') nxt ks ts h" "length ks \<le> 1" "root_pid (hd ts) = root_pid t"
    "fst (hd (forest_leaves ts)) = fst (hd (leaf_list t))" "tree_entries t = xs @ ys" "forest_entries ts = xs @ e # ys"
    "forest_keys ks ts \<subseteq> insert (ie_key e) (keyset t)" "used s \<subseteq> used s'"
    "set (forest_pids ts) \<subseteq> set (tree_pids t) \<union> (used s' - used s)"
    "\<And>q. q \<in> used s \<Longrightarrow> q \<notin> set (tree_pids t) \<Longrightarrow> pages s' q = pages s q" "spare s \<le> spare s' + h + 1"
  using assms unfolding grown_def by blast

lemma forest_leaves_ne: "forest nd nxt ks ts h \<Longrightarrow> forest_leaves ts \<noteq> []"
  using leaf_list_ne by (cases ts) (auto simp: forest_def)

lemma node_heights:
  assumes "bt_ok (BNode pid ks cs)"
  obtains h where "\<forall>c \<in> set cs. bt_height c = h" "bt_height (BNode pid ks cs) = Suc h"
proof -
  from assms have "\<exists>h. \<forall>c \<in> set cs. bt_height c = h" "cs \<noteq> []" by auto
  then obtain h where h: "\<forall>c \<in> set cs. bt_height c = h" "cs \<noteq> []" by blast
  then have "bt_height ` set cs = {h}" by (cases cs) auto
  with h show ?thesis by (intro that [of h]) auto
qed

text \<open>Insertion below one child: the children of the node afterwards.\<close>

lemma grown_children:
  assumes f: "forest (nodes s) nxt ks (c1 @ c # c2) h" and ks: "ks = k1 @ k2" "length c1 = length k1"
    and k: "\<forall>x \<in> set k1. x < ie_key e" "\<forall>x \<in> set k2. ie_key e \<le> x"
    and g: "grown s s' (head_pid nxt (forest_leaves c2)) c e ks' ts h"
    and u: "set (forest_pids (c1 @ c # c2)) \<subseteq> used s"
  shows "forest (nodes s') nxt (k1 @ ks' @ k2) (c1 @ ts @ c2) h"
    "fst (hd (forest_leaves (c1 @ ts @ c2))) = fst (hd (forest_leaves (c1 @ c # c2)))"
    "\<exists>xs ys. forest_entries (c1 @ c # c2) = xs @ ys \<and> forest_entries (c1 @ ts @ c2) = xs @ e # ys"
    "forest_keys (k1 @ ks' @ k2) (c1 @ ts @ c2) \<subseteq> insert (ie_key e) (forest_keys ks (c1 @ c # c2))"
    "set (forest_pids (c1 @ ts @ c2)) \<subseteq> set (forest_pids (c1 @ c # c2)) \<union> (used s' - used s)"
proof -
  from grownD [OF g] obtain xs ys where g': "forest (nodes s') (head_pid nxt (forest_leaves c2)) ks' ts h"
    "fst (hd (forest_leaves ts)) = fst (hd (leaf_list c))" "tree_entries c = xs @ ys" "forest_entries ts = xs @ e # ys"
    "forest_keys ks' ts \<subseteq> insert (ie_key e) (keyset c)" "set (forest_pids ts) \<subseteq> set (tree_pids c) \<union> (used s' - used s)"
    "\<And>q. q \<in> used s \<Longrightarrow> q \<notin> set (tree_pids c) \<Longrightarrow> pages s' q = pages s q" by metis
  have dis: "set (tree_pids c) \<inter> (set (forest_pids c1) \<union> set (forest_pids c2)) = {}"
    using f by (auto simp: forest_def)
  have ne: "forest_leaves ts \<noteq> []" "leaf_list c \<noteq> []"
    using forest_leaves_ne [OF g'(1)] f leaf_list_ne [of c] by (auto simp: forest_def)
  show "forest (nodes s') nxt (k1 @ ks' @ k2) (c1 @ ts @ c2) h"
  proof (rule forest_replace [OF f [unfolded ks(1)] ks(2) _ k(2) g'(1,2) ne g'(5)])
    show "\<forall>x \<in> set k1. x \<le> ie_key e" using k(1) by auto
    show "nodes s' q = nodes s q" if "q \<in> set (forest_pids c1) \<union> set (forest_pids c2)" for q
      using g'(7) [of q] nodes_of_cong [of "pages s'" q "pages s"] that u dis by auto
    show "set (forest_pids ts) \<inter> (set (forest_pids c1) \<union> set (forest_pids c2)) = {}"
      using g'(6) u dis by auto
  qed
  show "fst (hd (forest_leaves (c1 @ ts @ c2))) = fst (hd (forest_leaves (c1 @ c # c2)))"
    using g'(2) ne by (simp add: hd_append)
  show "\<exists>xs ys. forest_entries (c1 @ c # c2) = xs @ ys \<and> forest_entries (c1 @ ts @ c2) = xs @ e # ys"
    by (rule exI [of _ "forest_entries c1 @ xs"], rule exI [of _ "ys @ forest_entries c2"]) (simp add: g'(3,4))
  show "forest_keys (k1 @ ks' @ k2) (c1 @ ts @ c2) \<subseteq> insert (ie_key e) (forest_keys ks (c1 @ c # c2))"
    using g'(5) by (auto simp: forest_keys_def ks(1))
  show "set (forest_pids (c1 @ ts @ c2)) \<subseteq> set (forest_pids (c1 @ c # c2)) \<union> (used s' - used s)"
    using g'(6) by auto
qed

lemma insert_recursive_ok:
  assumes e: "e = \<lparr>ie_key = key, ie_row_id = row\<rparr>" "key_good key"
    and "inv s" "inner (nodes s) t" "bt_ok t" "linked (nodes s) nxt (leaf_list t)" "distinct (tree_pids t)"
    "set (tree_pids t) \<subseteq> used s" "bt_height t + 1 \<le> spare s"
  shows "\<exists>s' ks ts. insert_recursive ops (root_pid t) key row s = Some (Inr (split_of ks ts), s') \<and>
    grown s s' nxt t e ks ts (bt_height t)"
  using assms(3-)
proof (induction t arbitrary: nxt)
  case (BLeaf pid es)
  have nd: "nodes s pid = Some (LeafNode nxt es)" using BLeaf.prems by (simp add: head_pid_def)
  from load_node [OF BLeaf.prems(1) nd] obtain p where p: "ps_load ops pid s = (Inr p, s)" "node_from_page p = Inr (LeafNode nxt es)" by blast
  have so: "sorted (map entry_order es)" "length es \<le> 4" using BLeaf.prems by auto
  from insert_leaf_entry_spec [OF so(1)] obtain xs ys where xy: "es = xs @ ys"
    "insert_leaf_entry es key row = xs @ e # ys" "sorted (map entry_order (insert_leaf_entry es key row))" unfolding e(1) .
  have good: "\<forall>x \<in> set (insert_leaf_entry es key row). key_good (ie_key x)"
    using BLeaf.prems(3) e xy by auto
  have "pid \<in> used s" "1 \<le> spare s" using BLeaf.prems by auto
  from finish_leaf_ok [OF BLeaf.prems(1) this(1) nd this(2) xy so(2) good] obtain s' ks ts where
    "finish_leaf ops pid nxt (insert_leaf_entry es key row) s = (Inr (split_of ks ts), s')" "grown s s' nxt (BLeaf pid es) e ks ts 0" by blast
  with p show ?case by (subst insert_recursive.simps) auto
next
  case (BNode pid ks cs)
  define i where "i = child_index_for_key ks key"
  from child_split [OF BNode.prems(3) i_def] obtain c where c: "cs = take i cs @ c # drop (Suc i) cs" "cs ! i = c" "c \<in> set cs"
    "i \<le> length ks" "length (take i cs) = i" "length (take i ks) = i"
    "\<forall>k \<in> set (take i ks). k < key" "\<forall>k \<in> set (drop i ks). key \<le> k" by metis
  define c1 c2 k1 k2 where d: "c1 = take i cs" "c2 = drop (Suc i) cs" "k1 = take i ks" "k2 = drop i ks"
  from node_heights [OF BNode.prems(3)] obtain h where h: "\<forall>c \<in> set cs. bt_height c = h" "bt_height (BNode pid ks cs) = Suc h" .
  have cs: "cs = c1 @ c # c2" and ks: "ks = k1 @ k2" and len: "length c1 = length k1" "length cs = length ks + 1" "i = length k1"
    using c BNode.prems(3) by (simp_all add: d)
  have k: "\<forall>x \<in> set k1. x < ie_key e" "\<forall>x \<in> set k2. ie_key e \<le> x" using c(7,8) e(1) by (simp_all add: d)
  have f: "forest (nodes s) nxt ks cs h" using BNode.prems h by (auto simp: forest_def)
  have u: "set (forest_pids cs) \<subseteq> used s" "pid \<in> used s" "pid \<notin> set (forest_pids cs)" using BNode.prems by auto
  from load_node [OF BNode.prems(1), of pid] BNode.prems(2) obtain p where
    p: "ps_load ops pid s = (Inr p, s)" "node_from_page p = Inr (InternalNode ks (map root_pid cs))" by auto
  have "linked (nodes s) (head_pid nxt (forest_leaves c2)) (leaf_list c)"
    using BNode.prems(4) by (simp add: cs linked_append)
  moreover have "inner (nodes s) c" "bt_ok c" using BNode.prems(2,3) c(3) by auto
  moreover have "distinct (tree_pids c)" "set (tree_pids c) \<subseteq> used s" using BNode.prems(5,6) by (auto simp: cs)
  moreover have "bt_height c + 1 \<le> spare s" using BNode.prems(7) h c(3) by simp
  ultimately obtain s1 ks' ts where r: "insert_recursive ops (root_pid c) key row s = Some (Inr (split_of ks' ts), s1)"
    and g: "grown s s1 (head_pid nxt (forest_leaves c2)) c e ks' ts h"
    using BNode.IH [OF c(3) BNode.prems(1), of "head_pid nxt (forest_leaves c2)"] h(1) c(3) by auto
  note new = grown_children [OF f [unfolded cs] ks len(1) k g u(1) [unfolded cs]]
  from grownD [OF g] have s1: "inv s1" "forest (nodes s1) (head_pid nxt (forest_leaves c2)) ks' ts h" "length ks' \<le> 1"
    "root_pid (hd ts) = root_pid c" "used s \<subseteq> used s1" "spare s \<le> spare s1 + h + 1"
    "\<And>q. q \<in> used s \<Longrightarrow> q \<notin> set (tree_pids c) \<Longrightarrow> pages s1 q = pages s q" by metis+
  have pid1: "nodes s1 pid = Some (InternalNode ks (map root_pid cs))"
    using nodes_of_cong [of "pages s1" pid "pages s"] s1(7) [OF u(2)] u(3) BNode.prems(2) by (simp add: cs)
  have out: "pid \<notin> set (forest_pids (c1 @ ts @ c2))" using new(5) u(2,3) by (auto simp: cs)
  have frame: "\<forall>q \<in> used s - set (tree_pids (BNode pid ks cs)). pages s1 q = pages s q" using s1(7) by (auto simp: cs)
  from new(3) obtain xs ys where xy: "forest_entries cs = xs @ ys" "forest_entries (c1 @ ts @ c2) = xs @ e # ys" unfolding cs by blast
  have step: "insert_recursive ops pid key row s = Some (case split_of ks' ts of
      None \<Rightarrow> (Inr None, s1) | Some split \<Rightarrow> finish_internal ops pid i ks (map root_pid cs) split s1)"
    using p len(2) r c(2,4) by (subst insert_recursive.simps) (simp add: validate_internal_shape_def i_def [symmetric] split: option.splits)
  show ?case
  proof (cases ks')
    case Nil
    with s1(2) obtain t' where t': "ts = [t']" by (cases ts) (auto simp: forest_def)
    let ?n = "BNode pid ks (c1 @ ts @ c2)"
    have "forest (nodes s1) nxt ks (c1 @ ts @ c2) h" using new(1) by (simp add: Nil ks)
    then have "forest (nodes s1) nxt [] [?n] (Suc h)"
      by (rule forest_node) (use out BNode.prems(3) pid1 t' s1(4) in \<open>auto simp: cs\<close>)
    then have "grown s s1 nxt (BNode pid ks cs) e [] [?n] (Suc h)"
      by (rule grownI [OF s1(1), where xs = xs and ys = ys])
        (use s1(5,6) new xy frame Nil in \<open>auto simp: cs ks forest_keys_def\<close>)
    then show ?thesis using step Nil h(2) by (intro exI [of _ s1] exI [of _ "[]"] exI [of _ "[?n]"]) (simp add: split_of_def)
  next
    case (Cons sep z)
    with s1(2,3) obtain ta tb where ts: "ts = [ta, tb]" "ks' = [sep]"
      by (cases ts; cases "tl ts") (auto simp: forest_def)
    have lk: "length (k1 @ ks' @ k2) \<le> 5" using BNode.prems(3) ts by (simp add: ks)
    let ?sp = "\<lparr>sr_separator = sep, sr_right_page_id = root_pid tb\<rparr>"
    have pre: "set (forest_pids (c1 @ ts @ c2)) \<subseteq> used s1" using new(5) u(1) s1(5) unfolding cs by blast
    have "pid \<in> used s1" "1 \<le> spare s1" using u(2) s1(5,6) BNode.prems(7) h(2) by auto
    moreover have "insert_at i (sr_separator ?sp) ks = k1 @ ks' @ k2" by (simp add: insert_at_def ks len(3) ts)
    moreover have "insert_at (i + 1) (sr_right_page_id ?sp) (map root_pid cs) = map root_pid (c1 @ ts @ c2)"
      using s1(4) by (simp add: insert_at_def cs len(1,3) ts)
    ultimately obtain s2 ks2 ts2 where fin: "finish_internal ops pid i ks (map root_pid cs) \<lparr>sr_separator = sep, sr_right_page_id = root_pid tb\<rparr> s1 =
        (Inr (split_of ks2 ts2), s2)" "inv s2" "forest (nodes s2) nxt ks2 ts2 (Suc h)" "length ks2 \<le> 1" "root_pid (hd ts2) = pid"
      "forest_leaves ts2 = forest_leaves (c1 @ ts @ c2)" "forest_entries ts2 = forest_entries (c1 @ ts @ c2)"
      "forest_keys ks2 ts2 = forest_keys (k1 @ ks' @ k2) (c1 @ ts @ c2)" "used s1 \<subseteq> used s2"
      "set (forest_pids ts2) \<subseteq> insert pid (set (forest_pids (c1 @ ts @ c2))) \<union> (used s2 - used s1)"
      "\<forall>q \<in> used s1 - {pid}. pages s2 q = pages s1 q" "spare s1 \<le> spare s2 + 1"
      using finish_node_ok [OF s1(1) _ _ new(1) out pre lk] by blast
    have "grown s s2 nxt (BNode pid ks cs) e ks2 ts2 (Suc h)"
    proof (rule grownI [OF fin(2-4), where xs = xs and ys = ys])
      show "set (forest_pids ts2) \<subseteq> set (tree_pids (BNode pid ks cs)) \<union> (used s2 - used s)"
        using fin(9,10) new(5) s1(5) by (auto simp: cs)
      show "\<forall>q \<in> used s - set (tree_pids (BNode pid ks cs)). pages s2 q = pages s q"
      proof
        fix q assume q: "q \<in> used s - set (tree_pids (BNode pid ks cs))"
        then have "q \<in> used s1 - {pid}" using s1(5) by auto
        with fin(11) frame q show "pages s2 q = pages s q" by simp
      qed
      show "spare s \<le> spare s2 + Suc h + 1" using fin(12) s1(6) by simp
    qed (use fin new xy s1(5) in \<open>auto simp: cs\<close>)
    then show ?thesis using step fin(1) h(2) ts by (auto simp: split_of_def)
  qed
qed

text \<open>A tree that is stored in the pages of the store.\<close>

definition stored :: "'s \<Rightarrow> btree \<Rightarrow> bool" where
  "stored s t \<longleftrightarrow> inv s \<and> forest (nodes s) None [] [t] (bt_height t) \<and> set (tree_pids t) \<subseteq> used s"

lemma initialize_root_ok:
  assumes "inv s" "root \<in> used s"
  shows "\<exists>s'. initialize_root ops root s = (Inr (), s') \<and> stored s' (BLeaf root []) \<and>
    used s' = used s \<and> (\<forall>q. q \<noteq> root \<longrightarrow> pages s' q = pages s q) \<and> spare s' = spare s"
proof -
  have "node_ok (LeafNode None [])" "node_fits (LeafNode None [])" by simp_all
  from store_node_ok [OF assms this] obtain s' where "store_node ops root (LeafNode None []) s = (Inr (), s')" "inv s'"
    "nodes s' = (nodes s)(root \<mapsto> LeafNode None [])" "used s' = used s" "spare s' = spare s"
    "\<forall>q. q \<noteq> root \<longrightarrow> pages s' q = pages s q" .
  with assms(2) show ?thesis by (auto simp: initialize_root_def stored_def forest_def head_pid_def)
qed

lemma index_insert_ok:
  assumes t: "stored s t" and key: "key_good key" and room: "bt_height t + 2 \<le> spare s"
  shows "\<exists>s' t' xs ys. index_insert ops (root_pid t) key row s = Some (Inr (root_pid t'), s') \<and> stored s' t' \<and>
    tree_entries t = xs @ ys \<and> tree_entries t' = xs @ \<lparr>ie_key = key, ie_row_id = row\<rparr> # ys \<and>
    bt_height t' \<le> Suc (bt_height t) \<and> (\<forall>q \<in> used s - set (tree_pids t). pages s' q = pages s q) \<and>
    set (tree_pids t') \<subseteq> set (tree_pids t) \<union> (used s' - used s) \<and> (root_pid t' = root_pid t \<or> root_pid t' \<notin> used s) \<and>
    used s \<subseteq> used s' \<and> spare s \<le> spare s' + bt_height t + 2"
proof -
  let ?e = "\<lparr>ie_key = key, ie_row_id = row\<rparr>" and ?h = "bt_height t"
  have pre: "inv s" "inner (nodes s) t" "bt_ok t" "linked (nodes s) None (leaf_list t)" "distinct (tree_pids t)"
    "set (tree_pids t) \<subseteq> used s" "?h + 1 \<le> spare s" using t room by (auto simp: stored_def forest_def)
  from insert_recursive_ok [OF refl key pre, of row] obtain s1 ks ts where
    r: "insert_recursive ops (root_pid t) key row s = Some (Inr (split_of ks ts), s1)" and g: "grown s s1 None t ?e ks ts ?h"
    by blast
  from grownD [OF g] obtain xs ys where s1: "inv s1" "forest (nodes s1) None ks ts ?h" "length ks \<le> 1" "root_pid (hd ts) = root_pid t"
    "tree_entries t = xs @ ys" "forest_entries ts = xs @ ?e # ys" "used s \<subseteq> used s1"
    "set (forest_pids ts) \<subseteq> set (tree_pids t) \<union> (used s1 - used s)" "spare s \<le> spare s1 + ?h + 1"
    "\<And>q. q \<in> used s \<Longrightarrow> q \<notin> set (tree_pids t) \<Longrightarrow> pages s1 q = pages s q" by metis
  have sub: "set (forest_pids ts) \<subseteq> used s1" using s1(7,8) pre(6) by auto
  show ?thesis
  proof (cases ks)
    case Nil
    with s1(2) obtain t' where t': "ts = [t']" by (cases ts) (auto simp: forest_def)
    have "stored s1 t'" using s1(1,2) sub Nil t' by (auto simp: stored_def forest_def)
    moreover have "bt_height t' = ?h" using s1(2) t' by (simp add: forest_def)
    moreover have "index_insert ops (root_pid t) key row s = Some (Inr (root_pid t'), s1)"
      using r Nil s1(4) t' by (simp add: index_insert_def split_of_def)
    ultimately show ?thesis using s1 t' by (intro exI [of _ s1] exI [of _ t'] exI [of _ xs] exI [of _ ys]) auto
  next
    case (Cons sep z)
    with s1(2,3) obtain a b where ts: "ts = [a, b]" "ks = [sep]" by (cases ts; cases "tl ts") (auto simp: forest_def)
    have "0 < spare s1" using s1(9) room by simp
    from allocate [OF s1(1) this] obtain root s2 where al: "ps_allocate ops s1 = (Inr root, s2)" "inv s2"
      "root \<notin> used s1" "used s2 = insert root (used s1)" "pages s2 = pages s1" "Suc (spare s2) = spare s1" by blast
    have four: "length ks \<le> 4" using s1(3) by simp
    have "root \<in> used s2" using al(4) by simp
    from store_node_ok [OF al(2) this internal_node_ok [OF s1(2) four]] obtain s3 where
      s3: "store_node ops root (InternalNode ks (map root_pid ts)) s2 = (Inr (), s3)" "inv s3"
        "nodes s3 = (nodes s2)(root \<mapsto> InternalNode ks (map root_pid ts))" "used s3 = used s2" "spare s3 = spare s2"
        "\<forall>q. q \<noteq> root \<longrightarrow> pages s3 q = pages s2 q" .
    let ?t = "BNode root ks ts"
    have out: "root \<notin> set (forest_pids ts)" using sub al(3) by auto
    have "forest (nodes s3) None ks ts ?h" by (rule forest_frame [OF s1(2)]) (use s3(3) al(5) out in auto)
    then have f: "forest (nodes s3) None [] [?t] (Suc ?h)" by (rule forest_node) (use s3(3) out four in auto)
    then have h: "bt_height ?t = Suc ?h" by (simp add: forest_def)
    have "stored s3 ?t" using f h s3(2,4) sub al(4) by (auto simp: stored_def)
    moreover have "index_insert ops (root_pid t) key row s = Some (Inr (root_pid ?t), s3)"
      using r ts al(1) s3(1) s1(4) by (simp add: index_insert_def split_of_def grow_root_def)
    moreover have "tree_entries ?t = xs @ ?e # ys" using s1(6) by simp
    moreover have "pages s3 q = pages s q" if "q \<in> used s - set (tree_pids t)" for q
    proof -
      have "q \<noteq> root" using that al(3) s1(7) by auto
      with s3(6) al(5) s1(10) [of q] that show ?thesis by simp
    qed
    moreover have "set (tree_pids ?t) \<subseteq> set (tree_pids t) \<union> (used s3 - used s)" "root_pid ?t \<notin> used s"
      using s1(7,8) s3(4) al(3,4) by auto
    ultimately show ?thesis
      using h s1(5,7,9) s3(4,5) al(4,6) by (intro exI [of _ s3] exI [of _ ?t] exI [of _ xs] exI [of _ ys]) auto
  qed
qed

lemma stored_lookup:
  "stored s t \<Longrightarrow> index_lookup ops (root_pid t) key s =
    Some (Inr (map ie_row_id (filter (\<lambda>e. ie_key e = key) (tree_entries t))), s)"
  by (auto simp: stored_def intro: index_lookup_ok)

end

end
