(* ===== verification/Rdbms_Tx_View.thy ===== *)
theory Rdbms_Tx_View
  imports Rdbms_Tx Rdbms_Heap Rdbms_Index_Spec
begin

text \<open>
  What a transaction sees: the pages of the data file overlaid with its dirty pages
  (\<open>tx_pages\<close>) through its working catalog. The heap operations act on this view as the
  store operations act on theirs, the index operations are those of the verified B+Tree, and
  no operation before commit touches the manager.
\<close>

section \<open>Dirty pages\<close>

lemma map_of_bmap_insert:
  "sorted_wrt (<) (map fst m) \<Longrightarrow> map_of (bmap_insert k v m) = (map_of m)(k \<mapsto> v)"
proof (induction m)
  case (Cons x m)
  obtain k' v' where x: "x = (k', v')" by fastforce
  have "map_of m k = None" if "k < k'"
    using that Cons.prems x by (force simp: map_of_eq_None_iff)
  with Cons show ?case by (auto simp: x fun_eq_iff)
qed simp

lemma set_bmap_insert: "set (bmap_insert k v m) \<subseteq> insert (k, v) (set m)"
  by (induction m) (auto split: if_splits)

lemma sorted_bmap_insert: "sorted_wrt (<) (map fst m) \<Longrightarrow> sorted_wrt (<) (map fst (bmap_insert k v m))"
proof (induction m)
  case (Cons x m)
  have "\<forall>y \<in> fst ` set (bmap_insert k v m). fst x < y" if "fst x < k"
    using that Cons.prems set_bmap_insert [of k v m] by fastforce
  with Cons show ?case by (cases x) auto
qed simp

definition dirty_wf :: "(page_id \<times> page) list \<Rightarrow> bool" where
  "dirty_wf m \<longleftrightarrow> sorted_wrt (<) (map fst m) \<and> (\<forall>(pid, p) \<in> set m. page_wf p \<and> page_id_of p = pid)"

definition tx_file :: "transaction \<Rightarrow> page_file" where
  "tx_file t = cs_page_file (ts_store (tr_manager t))"

definition tx_base :: "transaction \<Rightarrow> bool" where
  "tx_base t \<longleftrightarrow> pf_wf (tx_file t) \<and> reads_ok (pf_file (tx_file t)) \<and> dirty_wf (tr_dirty_pages t)"

definition tx_pages :: "transaction \<Rightarrow> page_map" where
  "tx_pages t = pf_pages (tx_file t) ++ map_of (tr_dirty_pages t)"

text \<open>Operations leave the manager, the id and the state of the transaction alone.\<close>

definition tx_frame :: "transaction \<Rightarrow> transaction \<Rightarrow> bool" where
  "tx_frame t t' \<longleftrightarrow> tr_manager t' = tr_manager t \<and> tr_tx_id t' = tr_tx_id t \<and> tr_state t' = tr_state t"

lemma tx_frame_refl [simp]: "tx_frame t t"
  by (simp add: tx_frame_def)

lemma tx_frame_trans: "tx_frame t u \<Longrightarrow> tx_frame u v \<Longrightarrow> tx_frame t v"
  by (simp add: tx_frame_def)

lemma tx_load:
  assumes "tx_base t" "tx_pages t pid = Some p"
  shows "tx_load_page t pid = Inr p"
proof (cases "map_of (tr_dirty_pages t) pid")
  case None
  with assms(2) have "pf_pages (tx_file t) pid = Some p" by (simp add: tx_pages_def map_add_def)
  with assms(1) None show ?thesis
    by (simp add: tx_load_page_def bmap_get_def tx_base_def tx_file_def pf_wf_def read_page_benign)
next
  case (Some q)
  with assms(2) show ?thesis by (simp add: tx_load_page_def bmap_get_def tx_pages_def)
qed

lemma tx_pages_id: "tx_base t \<Longrightarrow> tx_pages t pid = Some p \<Longrightarrow> page_id_of p = pid"
  by (auto simp: tx_pages_def map_add_Some_iff tx_base_def dirty_wf_def dest: map_of_SomeD pf_pages_id)

lemma tx_put_page_facts:
  assumes "tx_base t"
  shows "tx_pages (tx_put_page t pid p) = (tx_pages t)(pid \<mapsto> p)"
    "page_wf p \<Longrightarrow> page_id_of p = pid \<Longrightarrow> tx_base (tx_put_page t pid p)"
    "tx_frame t (tx_put_page t pid p)" "tr_working_catalog (tx_put_page t pid p) = tr_working_catalog t"
proof -
  have d: "dirty_wf (tr_dirty_pages t)" using assms by (simp add: tx_base_def)
  then have "map_of (bmap_insert pid p (tr_dirty_pages t)) = (map_of (tr_dirty_pages t))(pid \<mapsto> p)"
    by (intro map_of_bmap_insert) (simp add: dirty_wf_def)
  then show "tx_pages (tx_put_page t pid p) = (tx_pages t)(pid \<mapsto> p)"
    by (auto simp: tx_pages_def tx_put_page_def tx_file_def map_add_def)
  show "tx_base (tx_put_page t pid p)" if "page_wf p" "page_id_of p = pid"
    using assms d that sorted_bmap_insert [of "tr_dirty_pages t" pid p] set_bmap_insert [of pid p "tr_dirty_pages t"]
    by (fastforce simp: tx_base_def dirty_wf_def tx_put_page_def tx_file_def)
qed (simp_all add: tx_frame_def tx_put_page_def)

lemma on_catalog_facts:
  assumes "on_catalog f t = (r, t')"
  shows "f (tr_working_catalog t) = (r, tr_working_catalog t')" "tx_frame t t'"
    "tx_pages t' = tx_pages t" "tx_base t' = tx_base t" "tr_dirty_pages t' = tr_dirty_pages t"
  using assms by (auto simp: on_catalog_def tx_frame_def tx_pages_def tx_base_def tx_file_def split: prod.splits)

lemma on_catalog_eq:
  "f (tr_working_catalog t) = (r, c) \<Longrightarrow> on_catalog f t = (r, t\<lparr>tr_working_catalog := c\<rparr>)"
  by (simp add: on_catalog_def)

text \<open>The catalog page that the transaction would commit is the one of its working catalog.\<close>

definition tx_staged :: "transaction \<Rightarrow> bool" where
  "tx_staged t \<longleftrightarrow> (\<exists>p. to_page (tr_working_catalog t) = Inr p \<and> tx_pages t (PageId 0) = Some p)"

lemma mark_catalog_dirty_facts:
  assumes "tx_base t" "mark_catalog_dirty t = (r, t')"
  shows "tx_base t'" "tx_frame t t'" "tr_working_catalog t' = tr_working_catalog t"
    "q \<noteq> PageId 0 \<Longrightarrow> tx_pages t' q = tx_pages t q" "r = Inr () \<Longrightarrow> tx_staged t'"
proof -
  have "tx_base t' \<and> tx_frame t t' \<and> tr_working_catalog t' = tr_working_catalog t \<and>
      (\<forall>q. q \<noteq> PageId 0 \<longrightarrow> tx_pages t' q = tx_pages t q) \<and> (r = Inr () \<longrightarrow> tx_staged t')"
  proof (cases "to_page (tr_working_catalog t)")
    case (Inl e)
    with assms show ?thesis by (auto simp: mark_catalog_dirty_def)
  next
    case (Inr p)
    from to_page_Inr [OF Inr] have p: "page_wf p" "page_id_of p = PageId 0" by auto
    have t': "t' = tx_put_page t (PageId 0) p" using assms(2) Inr by (simp add: mark_catalog_dirty_def)
    show ?thesis
      using tx_put_page_facts [OF assms(1), where pid = "PageId 0" and p = p] p Inr by (simp add: t' tx_staged_def)
  qed
  then show "tx_base t'" "tx_frame t t'" "tr_working_catalog t' = tr_working_catalog t"
    "q \<noteq> PageId 0 \<Longrightarrow> tx_pages t' q = tx_pages t q" "r = Inr () \<Longrightarrow> tx_staged t'" by auto
qed

section \<open>Heap tables inside a transaction\<close>

definition tx_wf :: "transaction \<Rightarrow> bool" where
  "tx_wf t \<longleftrightarrow> tx_base t \<and> tr_state t = Active \<and> heap_ok (tr_working_catalog t) (tx_pages t)"

lemma tx_full_scan_view:
  assumes "tx_wf t"
  shows "tx_full_scan t rid = view_scan (tr_working_catalog t) (tx_pages t) rid"
proof -
  have ok: "heap_ok (tr_working_catalog t) (tx_pages t)" and b: "tx_base t" and a: "ensure_active t = Inr ()"
    using assms by (simp_all add: tx_wf_def ensure_active_def)
  show ?thesis
    using view_scan_load [OF ok, of "tx_load_page t" rid] tx_load [OF b] a by (simp add: tx_full_scan_def scan_with_def)
qed

lemma tx_insert_into_pages_cases:
  assumes "tx_insert_into_pages t bytes pids = (r, t')"
  shows "(r = Inr None \<longrightarrow> t' = t) \<and> (\<forall>e. r = Inl e \<longrightarrow> t' = t) \<and> (\<forall>row. r = Inr (Some row) \<longrightarrow> (\<exists>pid p slot p'.
    pid \<in> set pids \<and> tx_load_page t pid = Inr p \<and> insert_record p bytes = (Inr slot, p') \<and>
    row = RowId pid slot \<and> t' = tx_put_page t pid p'))"
  using assms
proof (induction pids)
  case (Cons pid rest)
  show ?case
  proof (cases "tx_load_page t pid")
    case (Inl e)
    with Cons.prems show ?thesis by auto
  next
    case (Inr p)
    obtain q p' where ins: "insert_record p bytes = (q, p')" by fastforce
    show ?thesis
    proof (cases q)
      case slot: (Inr slot)
      with Cons.prems Inr ins show ?thesis by auto
    next
      case (Inl e)
      show ?thesis
      proof (cases "\<exists>m. e = User m")
        case True
        with Cons.prems Inr ins Inl have "tx_insert_into_pages t bytes rest = (r, t')" by auto
        from Cons.IH [OF this] show ?thesis unfolding set_simps(2) by blast
      next
        case False
        with Cons.prems Inr ins Inl show ?thesis by (cases e) auto
      qed
    qed
  qed
qed auto

lemma tx_insert_into_new_page_Inr:
  assumes "tx_insert_into_new_page t rid bytes = (Inr row, t')"
  obtains pid t1 slot p t2 where "on_catalog allocate_page_id t = (Inr pid, t1)"
    "insert_record (page_new pid Heap) bytes = (Inr slot, p)" "on_catalog (\<lambda>c. append_heap_page c rid pid) t1 = (Inr (), t2)"
    "mark_catalog_dirty (tx_put_page t2 pid p) = (Inr (), t')" "row = RowId pid slot"
proof -
  from assms obtain pid t1 where al: "on_catalog allocate_page_id t = (Inr pid, t1)"
    and k: "(case insert_record (page_new pid Heap) bytes of
         (Inl e, _) \<Rightarrow> (Inl e, t1)
       | (Inr slot, p) \<Rightarrow>
           bindS (on_catalog (\<lambda>c. append_heap_page c rid pid) t1) (\<lambda>_ t2.
           bindS (mark_catalog_dirty (tx_put_page t2 pid p)) (\<lambda>_ t3. (Inr (RowId pid slot), t3)))) = (Inr row, t')"
    by (auto simp: tx_insert_into_new_page_def bindS_eq_Inr)
  obtain b p where ins: "insert_record (page_new pid Heap) bytes = (b, p)" by fastforce
  with k obtain slot where "b = Inr slot" by (cases b) auto
  with al k ins show ?thesis by (auto simp: bindS_eq_Inr intro: that)
qed

lemma tx_insert_row_cases:
  assumes "tx_insert_row t rid bytes = (Inr row, t')"
  obtains r found t1 where "relation_by_id (tr_working_catalog t) rid = Some r" "ri_kind r = RelTable"
    "tx_insert_into_pages t bytes (relation_heap_pages r) = (Inr found, t1)"
    "(case found of Some x \<Rightarrow> row = x \<and> t' = t1 | None \<Rightarrow> tx_insert_into_new_page t1 rid bytes = (Inr row, t'))"
proof -
  from assms obtain pids found t1 where
    pids: "ensure_heap_relation (tr_working_catalog t) rid = Inr ()" "heap_pages (tr_working_catalog t) rid = Inr pids"
    and i: "tx_insert_into_pages t bytes pids = (Inr found, t1)"
    and k: "(case found of Some row_id \<Rightarrow> (Inr row_id, t1) | None \<Rightarrow> tx_insert_into_new_page t1 rid bytes) = (Inr row, t')"
    by (auto simp: tx_insert_row_def bindS_eq_Inr res_simps split: sum.splits)
  from pids obtain r where "relation_by_id (tr_working_catalog t) rid = Some r" "ri_kind r = RelTable" "pids = relation_heap_pages r"
    by (auto simp: ensure_heap_relation_def heap_pages_def res_simps split: if_splits)
  with i k show ?thesis by (intro that) (auto split: option.splits)
qed

lemma tx_insert_row_added:
  assumes wf: "tx_wf t" and ins: "tx_insert_row t rid bytes = (Inr row, t')"
  shows "view_row_added (tr_working_catalog t) (tx_pages t) (tr_working_catalog t') (tx_pages t') rid row bytes"
    "tx_wf t'" "tx_frame t t'" "tx_staged t \<Longrightarrow> tx_staged t'"
proof -
  have ok: "heap_ok (tr_working_catalog t) (tx_pages t)" and b: "tx_base t" using wf by (simp_all add: tx_wf_def)
  from tx_insert_row_cases [OF ins] obtain r found t1 where r: "relation_by_id (tr_working_catalog t) rid = Some r" "ri_kind r = RelTable"
    and i: "tx_insert_into_pages t bytes (relation_heap_pages r) = (Inr found, t1)"
    and k: "(case found of Some x \<Rightarrow> row = x \<and> t' = t1 | None \<Rightarrow> tx_insert_into_new_page t1 rid bytes = (Inr row, t'))" .
  note mem = relation_by_id_Some [OF r(1)]
  have "view_row_added (tr_working_catalog t) (tx_pages t) (tr_working_catalog t') (tx_pages t') rid row bytes \<and>
    tx_base t' \<and> tx_frame t t' \<and> (tx_staged t \<longrightarrow> tx_staged t')"
  proof (cases found)
    case (Some x)
    with tx_insert_into_pages_cases [OF i] k obtain pid p slot p' where pid: "pid \<in> set (relation_heap_pages r)"
      "tx_load_page t pid = Inr p" "insert_record p bytes = (Inr slot, p')" "row = RowId pid slot" "t' = tx_put_page t pid p'" by auto
    from heap_ok_page [OF ok mem(1) pid(1)] tx_load [OF b] pid(2) have p: "tx_pages t pid = Some p" by (metis sum.inject(2))
    note v = view_insert_existing [OF ok r pid(1) p pid(3)]
    have id: "page_id_of p' = pid" using v(3) p tx_pages_id [OF b] by simp
    have nz: "pid \<noteq> PageId 0" using heap_pages_distinct(2) [OF _ mem(1) pid(1)] ok by (simp add: heap_ok_def)
    have "page_wf p'" using v(2) by (simp add: heap_page_ok_def)
    with tx_put_page_facts [OF b, where pid = pid and p = p'] v(1) id pid(4,5) nz show ?thesis by (auto simp: tx_staged_def)
  next
    case None
    with tx_insert_into_pages_cases [OF i] k have "tx_insert_into_new_page t rid bytes = (Inr row, t')" by simp
    from tx_insert_into_new_page_Inr [OF this] obtain pid u1 slot p u2 where
      al: "on_catalog allocate_page_id t = (Inr pid, u1)" and p: "insert_record (page_new pid Heap) bytes = (Inr slot, p)"
      and ap: "on_catalog (\<lambda>c. append_heap_page c rid pid) u1 = (Inr (), u2)"
      and md: "mark_catalog_dirty (tx_put_page u2 pid p) = (Inr (), t')" and row: "row = RowId pid slot" .
    note f1 = on_catalog_facts [OF al] and f2 = on_catalog_facts [OF ap] and fresh = insert_fresh_page [OF p]
    have b2: "tx_base u2" using b f1(4) f2(4) by simp
    note f3 = tx_put_page_facts [OF b2, where pid = pid and p = p]
    note f4 = mark_catalog_dirty_facts [OF f3(2) [OF fresh(3,6)] md]
    have "\<forall>q. q \<noteq> PageId 0 \<longrightarrow> tx_pages t' q = ((tx_pages t)(pid \<mapsto> p)) q"
      using f4(4) f3(1) f2(3) f1(3) by simp
    note v = view_insert_new [OF ok r f1(1) p f2(1) this]
    show ?thesis
      using v f4(1-3,5) f3(3,4) f2(2) f1(2) row by (auto intro: tx_frame_trans)
  qed
  then show "view_row_added (tr_working_catalog t) (tx_pages t) (tr_working_catalog t') (tx_pages t') rid row bytes"
    "tx_frame t t'" "tx_staged t \<Longrightarrow> tx_staged t'" and "tx_wf t'"
    using wf by (auto simp: tx_wf_def tx_frame_def view_row_added_def)
qed

lemma tx_create_table_facts:
  assumes wf: "tx_wf t" and cr: "tx_create_table t name columns = (Inr rid, t')"
  shows "tx_wf t'" "tx_frame t t'" "tx_staged t'" "tx_full_scan t' rid = Inr []"
    "\<exists>r. relation_by_name (tr_working_catalog t') name = Some r \<and> ri_id r = rid \<and> ri_kind r = RelTable \<and> ri_columns r = columns"
    "\<And>rid2. rid2 \<noteq> rid \<Longrightarrow> tx_full_scan t' rid2 = tx_full_scan t rid2"
proof -
  have ok: "heap_ok (tr_working_catalog t) (tx_pages t)" and b: "tx_base t" using wf by (simp_all add: tx_wf_def)
  from cr obtain pid t1 where md: "on_catalog (\<lambda>c. create_table_metadata c name columns) t = (Inr (rid, pid), t1)"
    and mk: "mark_catalog_dirty (tx_put_page t1 pid (page_new pid Heap)) = (Inr (), t')"
    by (auto simp: tx_create_table_def bindS_eq_Inr split: prod.splits)
  note f1 = on_catalog_facts [OF md]
  have b1: "tx_base t1" using b f1(4) by simp
  note f2 = tx_put_page_facts [OF b1, where pid = pid and p = "page_new pid Heap"]
  note f3 = mark_catalog_dirty_facts [OF f2(2) [OF page_new_wf page_new_id] mk]
  have "\<forall>q. q \<noteq> PageId 0 \<longrightarrow> tx_pages t' q = ((tx_pages t)(pid \<mapsto> page_new pid Heap)) q"
    using f3(4) f2(1) f1(3) by simp
  note v = view_create_table [OF ok f1(1) this]
  have cat: "tr_working_catalog t' = tr_working_catalog t1" using f3(3) f2(4) by simp
  show fr: "tx_frame t t'" using f1(2) f2(3) f3(2) by (auto intro: tx_frame_trans)
  show wf': "tx_wf t'" using f3(1) v(1) wf fr by (simp add: tx_wf_def cat tx_frame_def)
  show "tx_staged t'" using f3(5) by simp
  show "tx_full_scan t' rid = Inr []" using v(2) by (simp add: tx_full_scan_view [OF wf'] cat)
  show "\<exists>r. relation_by_name (tr_working_catalog t') name = Some r \<and> ri_id r = rid \<and> ri_kind r = RelTable \<and> ri_columns r = columns"
    using v(3) by (simp add: cat)
  show "tx_full_scan t' rid2 = tx_full_scan t rid2" if "rid2 \<noteq> rid" for rid2
    using v(5) [OF that] by (simp add: tx_full_scan_view [OF wf'] tx_full_scan_view [OF wf] cat)
qed

end
