(* ===== verification/Rdbms_Tx_Index.thy ===== *)
theory Rdbms_Tx_Index
  imports Rdbms_Tx_View
begin

text \<open>
  The two page stores that the transaction layer hands to the B+Tree meet the contracts of
  the index: the store of a transaction reads through its dirty pages, stages what it stores
  and allocates from the working catalog; the committed store only reads.
\<close>

section \<open>Allocated pages\<close>

definition allocated :: "catalog \<Rightarrow> page_id set" where
  "allocated c = {pid. page_no pid < cat_next_page_id c}"

definition spare_pages :: "catalog \<Rightarrow> nat" where
  "spare_pages c = 2 ^ 64 - 1 - unat (cat_next_page_id c)"

lemma allocate_page_id_spare:
  assumes "0 < spare_pages c"
  obtains c' where "allocate_page_id c = (Inr (PageId (cat_next_page_id c)), c')" "cat_relations c' = cat_relations c"
    "cat_extensions c' = cat_extensions c" "cat_next_relation_id c' = cat_next_relation_id c"
    "PageId (cat_next_page_id c) \<notin> allocated c" "allocated c' = insert (PageId (cat_next_page_id c)) (allocated c)"
    "Suc (spare_pages c') = spare_pages c"
proof -
  have u: "unat (cat_next_page_id c) + 1 < 2 ^ 64" using assms by (simp add: spare_pages_def)
  then have ca: "checked_add (cat_next_page_id c) 1 = Some (cat_next_page_id c + 1)" by (simp add: checked_add_def)
  note n = checked_add_unat [OF ca]
  let ?c = "c\<lparr>cat_next_page_id := cat_next_page_id c + 1\<rparr>"
  have "page_no pid < cat_next_page_id c + 1 \<longleftrightarrow> page_no pid < cat_next_page_id c \<or> pid = PageId (cat_next_page_id c)" for pid
    using n by (cases pid) (auto simp: word_less_nat_alt less_Suc_eq word_unat_eq_iff)
  then have "allocated ?c = insert (PageId (cat_next_page_id c)) (allocated c)" by (auto simp: allocated_def)
  moreover have "Suc (spare_pages ?c) = spare_pages c" using n u by (simp add: spare_pages_def)
  moreover have "allocate_page_id c = (Inr (PageId (cat_next_page_id c)), ?c)" using ca by (simp add: allocate_page_id_def)
  ultimately show ?thesis by (intro that [of ?c]) (simp_all add: allocated_def)
qed

section \<open>The stores meet the contracts\<close>

interpretation tx_index: index_store tx_index_store tx_base tx_pages
  "\<lambda>t. allocated (tr_working_catalog t)" "\<lambda>t. spare_pages (tr_working_catalog t)"
proof (unfold_locales, goal_cases)
  case (1 t pid p)
  then show ?case by (simp add: tx_index_store_def tx_load)
next
  case (2 t p)
  have h: "header p = Inr (hdr_of (page_bytes p))" "h_page_id (hdr_of (page_bytes p)) = page_id_of p"
    using 2(3) by (simp_all add: page_id_of_def)
  from tx_put_page_facts [OF 2(1), where pid = "page_id_of p" and p = p] 2(3) h show ?case
    by (simp add: tx_index_store_def)
next
  case (3 t)
  from allocate_page_id_spare [OF 3(2)] obtain c' where
    c': "allocate_page_id (tr_working_catalog t) = (Inr (PageId (cat_next_page_id (tr_working_catalog t))), c')"
      "PageId (cat_next_page_id (tr_working_catalog t)) \<notin> allocated (tr_working_catalog t)"
      "allocated c' = insert (PageId (cat_next_page_id (tr_working_catalog t))) (allocated (tr_working_catalog t))"
      "Suc (spare_pages c') = spare_pages (tr_working_catalog t)" .
  have oc: "on_catalog allocate_page_id t =
      (Inr (PageId (cat_next_page_id (tr_working_catalog t))), t\<lparr>tr_working_catalog := c'\<rparr>)"
    using c'(1) by (simp add: on_catalog_def)
  from on_catalog_facts [OF oc] c' 3(1) oc show ?case by (auto simp: tx_index_store_def)
qed

interpretation committed_index: index_reader committed_index_store
  "\<lambda>s. pf_wf (cs_page_file s) \<and> reads_ok (pf_file (cs_page_file s))" store_pages
  by unfold_locales (simp add: committed_index_store_def store_pages_def pf_wf_def read_page_benign)

section \<open>What the index operations leave alone\<close>

text \<open>Any property of the store that survives single calls survives an insertion.\<close>

lemma insert_recursive_inv:
  assumes load: "\<And>pid s. P s \<Longrightarrow> P (snd (ps_load ops pid s))"
    and store: "\<And>pid n s. P s \<Longrightarrow> P (snd (store_node ops pid n s))"
    and alloc: "\<And>s. P s \<Longrightarrow> P (snd (ps_allocate ops s))"
    and "insert_recursive ops pid key row s = Some (r, s')" "P s"
  shows "P s'"
proof -
  note bind = bindS_inv [where P = P]
  have leaf: "P (snd (finish_leaf ops pid nxt es s))" if "P s" for pid nxt es s
    unfolding finish_leaf_def Let_def by (cases "length es \<le> MAX_KEYS") (simp_all, (rule bind store alloc that | simp)+)
  have node: "P (snd (finish_internal ops pid i ks cs sp s))" if "P s" for pid i ks cs sp s
    unfolding finish_internal_def Let_def
    by (cases "length (insert_at i (sr_separator sp) ks) \<le> MAX_KEYS") (simp_all, (rule bind store alloc that | simp)+)
  have "ops = ops \<longrightarrow> P s \<longrightarrow> P (snd (r, s'))"
  proof (rule insert_recursive.raw_induct [where P = "\<lambda>o' pid key row s y. o' = ops \<longrightarrow> P s \<longrightarrow> P (snd y)", OF _ assms(4)],
      intro impI)
    fix f o' pid key row s y
    assume IH: "\<And>o' pid key row s y. f o' pid key row s = Some y \<Longrightarrow> o' = ops \<longrightarrow> P s \<longrightarrow> P (snd y)"
      and step: "(case ps_load o' pid s of
        (Inl e, s1) \<Rightarrow> Some (Inl e, s1)
      | (Inr p, s1) \<Rightarrow> (case node_from_page p of
           Inl e \<Rightarrow> Some (Inl e, s1)
         | Inr (LeafNode nxt entries) \<Rightarrow> Some (finish_leaf o' pid nxt (insert_leaf_entry entries key row) s1)
         | Inr (InternalNode keys children) \<Rightarrow> (case validate_internal_shape keys children of
              Inl e \<Rightarrow> Some (Inl e, s1)
            | Inr _ \<Rightarrow>
                Option.bind (f o' (children ! child_index_for_key keys key) key row s1) (\<lambda>(r, s2).
                  Some (case r of
                     Inl e \<Rightarrow> (Inl e, s2)
                   | Inr None \<Rightarrow> (Inr None, s2)
                   | Inr (Some split) \<Rightarrow>
                       finish_internal o' pid (child_index_for_key keys key) keys children split s2))))) = Some y"
      and o': "o' = ops" and s: "P s"
    obtain l s1 where l: "ps_load ops pid s = (l, s1)" by fastforce
    have s1: "P s1" using load [OF s, of pid] l by simp
    from step l o' show "P (snd y)"
      using s1 leaf [OF s1] IH [of ops] node
      by (auto split: sum.splits btree_node.splits option.splits bind_splits)
  qed
  then show ?thesis using assms(5) by simp
qed

lemma index_insert_inv:
  assumes "\<And>pid s. P s \<Longrightarrow> P (snd (ps_load ops pid s))" "\<And>pid n s. P s \<Longrightarrow> P (snd (store_node ops pid n s))"
    "\<And>s. P s \<Longrightarrow> P (snd (ps_allocate ops s))" and "index_insert ops root key row s = Some (r, s')" "P s"
  shows "P s'"
proof -
  from assms(4) obtain q s1 where q: "insert_recursive ops root key row s = Some (q, s1)"
    and k: "bindS (q, s1) (\<lambda>r s1. case r of Some split \<Rightarrow> grow_root ops root split s1 | None \<Rightarrow> (Inr root, s1)) = (r, s')"
    by (auto simp: index_insert_def)
  have "P s1" by (rule insert_recursive_inv [OF assms(1-3) q assms(5)])
  have "P (snd (bindS (q, s1) (\<lambda>r s1. case r of Some split \<Rightarrow> grow_root ops root split s1 | None \<Rightarrow> (Inr root, s1))))"
  proof (rule bindS_inv [where P = P])
    fix x t assume "P t"
    then show "P (snd (case x of Some split \<Rightarrow> grow_root ops root split t | None \<Rightarrow> (Inr root, t)))"
      by (cases x) (simp, simp add: grow_root_def, (rule bindS_inv [where P = P] assms(2,3) | simp)+)
  qed (use \<open>P s1\<close> in simp)
  then show ?thesis unfolding k by simp
qed

section \<open>Operations of a transaction touch nothing outside it\<close>

lemma tx_put_page_frame: "tx_frame t u \<Longrightarrow> tx_frame t (tx_put_page u pid p)"
  by (simp add: tx_frame_def tx_put_page_def)

lemma on_catalog_frame: "tx_frame t u \<Longrightarrow> tx_frame t (snd (on_catalog f u))"
  by (auto simp: tx_frame_def on_catalog_def split: prod.splits)

lemma mark_catalog_dirty_frame: "tx_frame t u \<Longrightarrow> tx_frame t (snd (mark_catalog_dirty u))"
  by (auto simp: mark_catalog_dirty_def intro: tx_put_page_frame split: sum.splits)

lemma tx_store_node_frame: "tx_frame t u \<Longrightarrow> tx_frame t (snd (store_node tx_index_store pid n u))"
  by (auto simp: store_node_def tx_index_store_def intro: tx_put_page_frame split: sum.splits)

lemmas tx_frames = tx_put_page_frame on_catalog_frame mark_catalog_dirty_frame tx_store_node_frame

lemma tx_index_insert_frame:
  assumes "index_insert tx_index_store root key row u = Some (r, u')" "tx_frame t u"
  shows "tx_frame t u'"
  by (rule index_insert_inv [where P = "tx_frame t", OF _ tx_store_node_frame _ assms])
    (auto simp: tx_index_store_def intro: on_catalog_frame)

lemma tx_create_table_frame: "tx_frame t (snd (tx_create_table t name columns))"
  unfolding tx_create_table_def
  by (rule bindS_inv [where P = "tx_frame t"], simp, rule bindS_inv [where P = "tx_frame t"], simp add: tx_frames, clarsimp,
      rule bindS_inv [where P = "tx_frame t"]) (simp_all add: tx_frames)

lemma tx_register_extension_frame: "tx_frame t (snd (tx_register_extension t name v kind))"
  unfolding tx_register_extension_def
  by (rule bindS_inv [where P = "tx_frame t"], simp, rule bindS_inv [where P = "tx_frame t"], simp add: tx_frames)
    (auto intro!: bindS_inv [where P = "tx_frame t"] mark_catalog_dirty_frame)

lemma tx_create_index_frame: "tx_frame t (snd (tx_create_index t name tid col))"
  unfolding tx_create_index_def
  by (rule bindS_inv [where P = "tx_frame t"], simp, rule bindS_inv [where P = "tx_frame t"], simp add: tx_frames, clarsimp,
      rule bindS_inv [where P = "tx_frame t"], simp add: initialize_root_def tx_frames,
      rule bindS_inv [where P = "tx_frame t"]) (simp_all add: tx_frames)

lemma finish_index_insert_frame: "tx_frame t u \<Longrightarrow> tx_frame t (snd (finish_index_insert rid root new_root u))"
  unfolding finish_index_insert_def
  by (rule bindS_inv [where P = "tx_frame t"]) (auto intro: tx_frames)

lemma tx_insert_index_entry_frame:
  assumes "tx_insert_index_entry t rid key row = Some (r, t')"
  shows "tx_frame t t'"
proof (cases "bindR (ensure_active t) (\<lambda>_. index_root (tr_working_catalog t) rid)")
  case (Inl e)
  with assms show ?thesis by (simp add: tx_insert_index_entry_def)
next
  case (Inr root)
  with assms obtain q u where q: "index_insert tx_index_store root key row t = Some (q, u)"
    and k: "bindS (q, u) (finish_index_insert rid root) = (r, t')"
    by (auto simp: tx_insert_index_entry_def)
  have u: "tx_frame t u" by (rule tx_index_insert_frame [OF q]) simp
  have "tx_frame t (snd (bindS (q, u) (finish_index_insert rid root)))"
    by (rule bindS_inv [where P = "tx_frame t"]) (auto simp: u intro: finish_index_insert_frame)
  then show ?thesis using k by simp
qed

lemma tx_insert_into_pages_frame: "tx_frame t (snd (tx_insert_into_pages t bytes pids))"
proof -
  obtain r u where u: "tx_insert_into_pages t bytes pids = (r, u)" by fastforce
  consider "r = Inr None" | e where "r = Inl e" | row where "r = Inr (Some row)" by (cases r) (auto simp: not_Some_eq)
  then show ?thesis using tx_insert_into_pages_cases [OF u] u by cases (auto intro: tx_put_page_frame)
qed

lemma tx_insert_row_frame: "tx_frame t (snd (tx_insert_row t rid bytes))"
proof -
  have new: "tx_frame t (snd (tx_insert_into_new_page u rid bytes))" if "tx_frame t u" for u
    unfolding tx_insert_into_new_page_def
  proof (rule bindS_inv [where P = "tx_frame t"])
    fix pid v assume v: "tx_frame t v"
    obtain b p where ins: "insert_record (page_new pid Heap) bytes = (b, p)" by fastforce
    have "tx_frame t (snd (bindS (on_catalog (\<lambda>c. append_heap_page c rid pid) v) (\<lambda>_ t2.
         bindS (mark_catalog_dirty (tx_put_page t2 pid p)) (\<lambda>_ t3. (Inr (RowId pid slot), t3)))))" for slot
      by (rule bindS_inv [where P = "tx_frame t"], simp add: tx_frames v, rule bindS_inv [where P = "tx_frame t"])
        (simp_all add: tx_frames)
    then show "tx_frame t (snd (case insert_record (page_new pid Heap) bytes of
         (Inl e, _) \<Rightarrow> (Inl e, v)
       | (Inr slot, p) \<Rightarrow> bindS (on_catalog (\<lambda>c. append_heap_page c rid pid) v) (\<lambda>_ t2.
           bindS (mark_catalog_dirty (tx_put_page t2 pid p)) (\<lambda>_ t3. (Inr (RowId pid slot), t3)))))"
      using ins v by (cases b) simp_all
  qed (use that in \<open>simp add: tx_frames\<close>)
  show ?thesis
    unfolding tx_insert_row_def
    by (auto split: sum.splits option.splits intro!: bindS_inv [where P = "tx_frame t"] tx_insert_into_pages_frame new)
qed

text \<open>The transactions that any sequence of calls makes of a given one, errors included.\<close>

inductive tx_run :: "transaction \<Rightarrow> transaction \<Rightarrow> bool" where
  start: "tx_run t t"
| create_table: "tx_run t u \<Longrightarrow> tx_create_table u name columns = (r, u') \<Longrightarrow> tx_run t u'"
| register_extension: "tx_run t u \<Longrightarrow> tx_register_extension u ename v kind = (b, u') \<Longrightarrow> tx_run t u'"
| create_index: "tx_run t u \<Longrightarrow> tx_create_index u name tid col = (ri, u') \<Longrightarrow> tx_run t u'"
| insert_index_entry: "tx_run t u \<Longrightarrow> tx_insert_index_entry u rid key row = Some (e, u') \<Longrightarrow> tx_run t u'"
| insert_row: "tx_run t u \<Longrightarrow> tx_insert_row u rid bytes = (rr, u') \<Longrightarrow> tx_run t u'"

lemma tx_run_frame: "tx_run t u \<Longrightarrow> tx_frame t u"
proof (induction rule: tx_run.induct)
  case (insert_index_entry t u rid key row e u')
  then show ?case using tx_insert_index_entry_frame tx_frame_trans by blast
next
  case (create_table t u name columns r u')
  then show ?case using tx_create_table_frame [of u name columns] tx_frame_trans by simp
next
  case (register_extension t u ename v kind b u')
  then show ?case using tx_register_extension_frame [of u ename v kind] tx_frame_trans by simp
next
  case (create_index t u name tid col ri u')
  then show ?case using tx_create_index_frame [of u name tid col] tx_frame_trans by simp
next
  case (insert_row t u rid bytes rr u')
  then show ?case using tx_insert_row_frame [of u rid bytes] tx_frame_trans by simp
qed simp

section \<open>Index entries inside a transaction\<close>

text \<open>An index relation of the working catalog whose root is the root of a stored tree.\<close>

definition index_at :: "catalog \<Rightarrow> relation_id \<Rightarrow> page_id \<Rightarrow> bool" where
  "index_at c rid root \<longleftrightarrow> (\<exists>r i. relation_by_id c rid = Some r \<and> ri_kind r = RelIndex \<and>
     ri_storage r = StorageBPlusTree i \<and> is_root_page_id i = root)"

definition tx_index_ok :: "transaction \<Rightarrow> relation_id \<Rightarrow> btree \<Rightarrow> bool" where
  "tx_index_ok t rid tree \<longleftrightarrow> tx_index.stored t tree \<and> index_at (tr_working_catalog t) rid (root_pid tree) \<and>
     PageId 0 \<notin> set (tree_pids tree)"

lemma index_at_root: "index_at c rid root \<Longrightarrow> index_root c rid = Inr root"
  by (auto simp: index_at_def index_root_def relation_index_storage_def)

lemma stored_unchanged:
  assumes "tx_index.stored t tree" "tx_base t'" "allocated (tr_working_catalog t') = allocated (tr_working_catalog t)"
    "\<forall>q \<in> set (tree_pids tree). tx_pages t' q = tx_pages t q"
  shows "tx_index.stored t' tree"
proof -
  have f: "forest (nodes_of (tx_pages t)) None [] [tree] (bt_height tree)" and u: "set (tree_pids tree) \<subseteq> allocated (tr_working_catalog t)"
    using assms(1) by (simp_all add: tx_index.stored_def)
  have "\<forall>q \<in> set (forest_pids [tree]). nodes_of (tx_pages t') q = nodes_of (tx_pages t) q"
    using assms(4) by (auto intro: nodes_of_cong)
  then have "forest (nodes_of (tx_pages t')) None [] [tree] (bt_height tree)" by (intro forest_frame [OF f]) blast
  with u assms(2,3) show ?thesis by (simp add: tx_index.stored_def)
qed

lemma find_split:
  assumes "find P xs = Some x"
  shows "\<exists>as bs. xs = as @ x # bs \<and> P x \<and> (\<forall>a \<in> set as. \<not> P a)"
proof -
  from assms obtain i where "i < length xs" "P (xs ! i)" "x = xs ! i" "\<forall>j < i. \<not> P (xs ! j)" by (auto simp: find_Some_iff)
  then show ?thesis
    by (intro exI [of _ "take i xs"] exI [of _ "drop (Suc i) xs"]) (auto simp: id_take_nth_drop in_set_conv_nth)
qed

lemma set_index_root_page_at:
  assumes "index_at c rid root"
  obtains as x bs i where "cat_relations c = as @ x # bs" "ri_storage x = StorageBPlusTree i"
    "set_index_root_page c rid root' = (Inr (), c\<lparr>cat_relations := as @ x\<lparr>ri_storage := StorageBPlusTree (i\<lparr>is_root_page_id := root'\<rparr>)\<rparr> # bs\<rparr>)"
    "index_at (snd (set_index_root_page c rid root')) rid root'" "ri_id x = rid" "\<forall>a \<in> set as. ri_id a \<noteq> rid"
proof -
  from assms obtain x i where x: "find (\<lambda>r. ri_id r = rid) (cat_relations c) = Some x" "ri_kind x = RelIndex" "ri_storage x = StorageBPlusTree i"
    by (auto simp: index_at_def relation_by_id_def)
  from find_split [OF x(1)] obtain as bs where d: "cat_relations c = as @ x # bs" "ri_id x = rid" "\<forall>a \<in> set as. ri_id a \<noteq> rid" by blast
  let ?y = "x\<lparr>ri_storage := StorageBPlusTree (i\<lparr>is_root_page_id := root'\<rparr>)\<rparr>"
  have "update_first (\<lambda>r. ri_id r = rid) (set_root_page_id rid root') e (as @ x # bs) = Inr (as @ ?y # bs)" for e
    using d(2,3) x(2,3) by (induction as) (auto simp: set_root_page_id_def)
  then have s: "set_index_root_page c rid root' = (Inr (), c\<lparr>cat_relations := as @ ?y # bs\<rparr>)"
    by (simp add: set_index_root_page_def d(1))
  have "find (\<lambda>r. ri_id r = rid) as = None" using d(3) by (auto simp: find_None_iff)
  then have "relation_by_id (c\<lparr>cat_relations := as @ ?y # bs\<rparr>) rid = Some ?y" using d(2) by (simp add: relation_by_id_def find_append)
  then have "index_at (snd (set_index_root_page c rid root')) rid root'" unfolding s index_at_def using x(2) by simp
  with d x(3) s show thesis by (intro that)
qed

lemma set_index_root_page_Inr:
  assumes "index_at c rid root" "set_index_root_page c rid root' = (r, c')"
  shows "r = Inr ()" "index_at c' rid root'" "cat_next_page_id c' = cat_next_page_id c"
  by (rule set_index_root_page_at [OF assms(1), of root'], use assms(2) in auto)+

lemma finish_index_insert_ok:
  assumes tree: "tx_index.stored u tree" "PageId 0 \<notin> set (tree_pids tree)"
    and root: "index_at (tr_working_catalog u) rid root"
    and fin: "finish_index_insert rid root (root_pid tree) u = (Inr (), t')"
  shows "tx_index_ok t' rid tree" "tx_staged t'" "q \<noteq> PageId 0 \<Longrightarrow> tx_pages t' q = tx_pages u q"
    "cat_next_page_id (tr_working_catalog t') = cat_next_page_id (tr_working_catalog u)"
proof -
  have base: "tx_base u" using tree(1) by (simp add: tx_index.stored_def)
  from fin obtain t1 where t1: "(if root_pid tree \<noteq> root then on_catalog (\<lambda>c. set_index_root_page c rid (root_pid tree)) u
      else (Inr (), u)) = (Inr (), t1)" and md: "mark_catalog_dirty t1 = (Inr (), t')"
    by (auto simp: finish_index_insert_def bindS_eq_Inr)
  have "tx_base t1 \<and> tx_pages t1 = tx_pages u \<and> index_at (tr_working_catalog t1) rid (root_pid tree) \<and>
      cat_next_page_id (tr_working_catalog t1) = cat_next_page_id (tr_working_catalog u)"
  proof (cases "root_pid tree = root")
    case False
    then have "on_catalog (\<lambda>c. set_index_root_page c rid (root_pid tree)) u = (Inr (), t1)" using t1 by simp
    note f = on_catalog_facts [OF this]
    from set_index_root_page_Inr [OF root f(1)] f(3,4) base show ?thesis by simp
  qed (use t1 base root in simp)
  then have f1: "tx_base t1" "tx_pages t1 = tx_pages u" "index_at (tr_working_catalog t1) rid (root_pid tree)"
    "cat_next_page_id (tr_working_catalog t1) = cat_next_page_id (tr_working_catalog u)" by simp_all
  note f2 = mark_catalog_dirty_facts [OF f1(1) md]
  show "tx_staged t'" "q \<noteq> PageId 0 \<Longrightarrow> tx_pages t' q = tx_pages u q"
    "cat_next_page_id (tr_working_catalog t') = cat_next_page_id (tr_working_catalog u)" using f2 f1 by simp_all
  have "tx_index.stored t' tree"
  proof (rule stored_unchanged [OF tree(1) f2(1)])
    show "allocated (tr_working_catalog t') = allocated (tr_working_catalog u)" using f2(3) f1(4) by (simp add: allocated_def)
    show "\<forall>q \<in> set (tree_pids tree). tx_pages t' q = tx_pages u q"
    proof
      fix q assume "q \<in> set (tree_pids tree)"
      with tree(2) have "q \<noteq> PageId 0" by auto
      from mark_catalog_dirty_facts(4) [OF f1(1) md this] show "tx_pages t' q = tx_pages u q" by (simp add: f1(2))
    qed
  qed
  with f1(3) f2(3) tree(2) show "tx_index_ok t' rid tree" by (simp add: tx_index_ok_def)
qed

lemma tx_index_insert_relations:
  assumes "index_insert tx_index_store root key row t = Some (r, u)"
  shows "cat_relations (tr_working_catalog u) = cat_relations (tr_working_catalog t) \<and>
    cat_extensions (tr_working_catalog u) = cat_extensions (tr_working_catalog t)"
  by (rule index_insert_inv [where P = "\<lambda>u. cat_relations (tr_working_catalog u) = cat_relations (tr_working_catalog t) \<and>
      cat_extensions (tr_working_catalog u) = cat_extensions (tr_working_catalog t)", OF _ _ _ assms])
    (auto simp: tx_index_store_def store_node_def tx_put_page_def on_catalog_def allocate_page_id_def split: sum.splits option.splits)

text \<open>An insertion into an index of a transaction returns, and on success the index holds the new entry.\<close>

lemma tx_insert_index_entry_ok:
  assumes ok: "tx_index_ok t rid tree" and act: "tr_state t = Active" and key: "key_good key"
    and room: "bt_height tree + 2 \<le> spare_pages (tr_working_catalog t)"
  obtains r t' tree' xs ys u where "tx_insert_index_entry t rid key row = Some (r, t')"
    "tree_entries tree = xs @ ys" "tree_entries tree' = xs @ \<lparr>ie_key = key, ie_row_id = row\<rparr> # ys"
    "r = Inr () \<longrightarrow> tx_index_ok t' rid tree' \<and> tx_staged t' \<and> bt_height tree' \<le> Suc (bt_height tree) \<and>
      spare_pages (tr_working_catalog t) \<le> spare_pages (tr_working_catalog t') + bt_height tree + 2 \<and>
      (\<forall>q \<in> allocated (tr_working_catalog t) - set (tree_pids tree) - {PageId 0}. tx_pages t' q = tx_pages t q)"
    "index_insert tx_index_store (root_pid tree) key row t = Some (Inr (root_pid tree'), u)"
    "index_at (tr_working_catalog u) rid (root_pid tree)" "finish_index_insert rid (root_pid tree) (root_pid tree') u = (r, t')"
proof -
  have root: "index_at (tr_working_catalog t) rid (root_pid tree)" and st: "tx_index.stored t tree"
    and nz: "PageId 0 \<notin> set (tree_pids tree)" using ok by (simp_all add: tx_index_ok_def)
  from tx_index.index_insert_ok [OF st key room, of row] obtain u tree' xs ys where
    ins: "index_insert tx_index_store (root_pid tree) key row t = Some (Inr (root_pid tree'), u)" and st': "tx_index.stored u tree'"
    and es: "tree_entries tree = xs @ ys" "tree_entries tree' = xs @ \<lparr>ie_key = key, ie_row_id = row\<rparr> # ys"
    and frame: "\<forall>q \<in> allocated (tr_working_catalog t) - set (tree_pids tree). tx_pages u q = tx_pages t q"
    and pids: "set (tree_pids tree') \<subseteq> set (tree_pids tree) \<union> (allocated (tr_working_catalog u) - allocated (tr_working_catalog t))"
    and grow: "bt_height tree' \<le> Suc (bt_height tree)" "spare_pages (tr_working_catalog t) \<le> spare_pages (tr_working_catalog u) + bt_height tree + 2"
    by blast
  have nx: "0 < cat_next_page_id (tr_working_catalog t)"
  proof -
    have "root_pid tree \<in> allocated (tr_working_catalog t)"
      using st by (cases tree) (auto simp: tx_index.stored_def)
    then show ?thesis by (auto simp: allocated_def intro: le_less_trans [OF word_zero_le])
  qed
  have nz': "PageId 0 \<notin> set (tree_pids tree')" using pids nz nx by (auto simp: allocated_def)
  have root': "index_at (tr_working_catalog u) rid (root_pid tree)"
    using root tx_index_insert_relations [OF ins] by (simp add: index_at_def relation_by_id_def)
  obtain r t' where fin: "finish_index_insert rid (root_pid tree) (root_pid tree') u = (r, t')" by fastforce
  have "tx_insert_index_entry t rid key row = Some (r, t')"
    using index_at_root [OF root] ins fin act by (simp add: tx_insert_index_entry_def ensure_active_def)
  moreover have "tx_index_ok t' rid tree' \<and> tx_staged t' \<and> bt_height tree' \<le> Suc (bt_height tree) \<and>
      spare_pages (tr_working_catalog t) \<le> spare_pages (tr_working_catalog t') + bt_height tree + 2 \<and>
      (\<forall>q \<in> allocated (tr_working_catalog t) - set (tree_pids tree) - {PageId 0}. tx_pages t' q = tx_pages t q)" if "r = Inr ()"
    using finish_index_insert_ok [OF st' nz' root' fin [unfolded that]] frame grow by (auto simp: spare_pages_def)
  ultimately show thesis using es ins root' fin by (intro that) auto
qed

lemma create_index_metadata_Inr:
  assumes "cat_wf c" "create_index_metadata c name table_id column_name = (Inr (rid, root), c')"
  shows "index_at c' rid root" "root = PageId (cat_next_page_id c)" "root \<in> allocated c'" "root \<noteq> PageId 0"
proof -
  from assms(2) obtain c1 c2 where a1: "allocate_relation_id c = (Inr rid, c1)" and a2: "allocate_page_id c1 = (Inr root, c2)"
    and c': "c' = c2\<lparr>cat_relations := cat_relations c2 @ [\<lparr>ri_id = rid, ri_name = name, ri_kind = RelIndex,
      ri_storage = StorageBPlusTree \<lparr>is_table_id = table_id, is_column_name = column_name, is_root_page_id = root\<rparr>,
      ri_columns = [\<lparr>cd_name = column_name, cd_type_name = ''INDEX_KEY''\<rparr>]\<rparr>]\<rparr>"
    by (auto simp: create_index_metadata_def bindS_eq_Inr split: sum.splits)
  note w1 = allocate_relation_id_wf [OF assms(1) a1]
  note w2 = allocate_page_id_wf [OF w1(1) a2]
  have "rid \<notin> ri_id ` set (cat_relations c)" using fresh_relation_id [OF assms(1)] w1(5) [OF refl] by simp
  then have "find (\<lambda>r. ri_id r = rid) (cat_relations c2) = None" using w1(2) w2(2) by (auto simp: find_None_iff)
  then show "index_at c' rid root" by (simp add: c' index_at_def relation_by_id_def find_append)
  show "root = PageId (cat_next_page_id c)" "root \<in> allocated c'" "root \<noteq> PageId 0"
    using w2(5) [OF refl] w1(3) by (auto simp: c' allocated_def)
qed

lemma tx_create_index_ok:
  assumes base: "tx_base t" "cat_wf (tr_working_catalog t)" and cr: "tx_create_index t name tid col = (Inr (rid, root), t')"
  shows "tx_index_ok t' rid (BLeaf root [])" "tx_staged t'" "tx_frame t t'"
    "q \<notin> {PageId 0, root} \<Longrightarrow> tx_pages t' q = tx_pages t q"
proof -
  from cr obtain t1 t2 where c: "on_catalog (\<lambda>c. create_index_metadata c name tid col) t = (Inr (rid, root), t1)"
    and i: "initialize_root tx_index_store root t1 = (Inr (), t2)" and md: "mark_catalog_dirty t2 = (Inr (), t')"
    by (auto simp: tx_create_index_def bindS_eq_Inr)
  note f1 = on_catalog_facts [OF c]
  note ci = create_index_metadata_Inr [OF base(2) f1(1)]
  have b1: "tx_base t1" using f1(4) base(1) by simp
  from tx_index.initialize_root_ok [OF b1 ci(3)] i have st: "tx_index.stored t2 (BLeaf root [])"
    and pg: "\<And>q. q \<noteq> root \<Longrightarrow> tx_pages t2 q = tx_pages t1 q" and al: "allocated (tr_working_catalog t2) = allocated (tr_working_catalog t1)"
    by auto
  have b2: "tx_base t2" using st by (simp add: tx_index.stored_def)
  note f2 = mark_catalog_dirty_facts [OF b2 md]
  have cat: "tr_working_catalog t2 = tr_working_catalog t1"
    using i by (auto simp: initialize_root_def store_node_def tx_index_store_def tx_put_page_def split: sum.splits)
  have same: "tx_pages t' root = tx_pages t2 root" by (rule mark_catalog_dirty_facts(4) [OF b2 md ci(4)])
  have "tx_index.stored t' (BLeaf root [])"
    by (rule stored_unchanged [OF st f2(1)]) (simp_all add: f2(3) same)
  with ci f2(3) cat show "tx_index_ok t' rid (BLeaf root [])" by (simp add: tx_index_ok_def)
  show "tx_staged t'" using f2(5) by simp
  show "tx_frame t t'" using tx_create_index_frame [of t name tid col] cr by simp
  show "tx_pages t' q = tx_pages t q" if "q \<notin> {PageId 0, root}"
    using that mark_catalog_dirty_facts(4) [OF b2 md, of q] pg [of q] f1(3) by simp
qed

end
