(* ===== verification/Rdbms_Tx_Commit.thy ===== *)
theory Rdbms_Tx_Commit
  imports Rdbms_Tx_Index Rdbms_Recovery
begin

text \<open>
  Commit against the log and recovery: what a commit leaves in the log and in the data file
  at every point where it can stop, and what recovery makes of it.
\<close>

section \<open>The log of a commit\<close>

definition dirty_values :: "transaction \<Rightarrow> page list" where
  "dirty_values t = bmap_values (tr_dirty_pages t)"

definition image_kind :: "tx_id \<Rightarrow> page \<Rightarrow> wal_record_kind" where
  "image_kind tx p = PageImage tx (page_id_of p) (page_bytes p)"

definition tx_kinds :: "transaction \<Rightarrow> wal_record_kind list" where
  "tx_kinds t = map (image_kind (tr_tx_id t)) (dirty_values t) @ [CommitTx (tr_tx_id t)]"

lemma dirty_values_wf: "tx_base t \<Longrightarrow> \<forall>p \<in> set (dirty_values t). page_wf p"
  by (auto simp: tx_base_def dirty_wf_def dirty_values_def bmap_values_def)

lemma dirty_values_length: "tx_base t \<Longrightarrow> \<forall>p \<in> set (dirty_values t). length (page_bytes p) = 4096"
  using dirty_values_wf [of t] by (auto simp: page_wf_def)

lemma tx_kinds_wf: "tx_base t \<Longrightarrow> \<forall>k \<in> set (tx_kinds t). kind_wf k"
  using dirty_values_length [of t] by (auto simp: tx_kinds_def image_kind_def kind_wf_def)

lemma log_page_append:
  assumes "page_wf p"
  shows "log_page tx p m = (case wal_append (ts_wal m) (image_kind tx p) of
    (Inl e, w) \<Rightarrow> (Inl e, m\<lparr>ts_wal := w\<rparr>) | (Inr _, w) \<Rightarrow> (Inr (), m\<lparr>ts_wal := w\<rparr>))"
proof -
  have "wal_page_image tx p = Inr (image_kind tx p)"
    using page_valid_header [of p] page_wf_valid [OF assms]
    by (auto simp: wal_page_image_def image_kind_def page_valid_def page_id_of_def)
  then show ?thesis by (auto simp: log_page_def ts_append_def split: prod.splits sum.splits)
qed

lemma log_pages_append:
  assumes "\<forall>p \<in> set ps. page_wf p"
  shows "for_eachS (log_page tx) ps m =
    (case wal_append_all (ts_wal m) (map (image_kind tx) ps) of (r, w) \<Rightarrow> (r, m\<lparr>ts_wal := w\<rparr>))"
  using assms
proof (induction ps arbitrary: m)
  case (Cons p ps)
  obtain r w where "wal_append (ts_wal m) (image_kind tx p) = (r, w)" by fastforce
  with Cons show ?case by (cases r) (simp_all add: log_page_append)
qed simp

lemma wal_append_all_append:
  "wal_append_all w (ks @ ks') = bindS (wal_append_all w ks) (\<lambda>_ w1. wal_append_all w1 ks')"
  by (simp add: wal_append_all_def for_eachS_append)

lemma commit_log:
  assumes "tx_base t"
  shows "bindS (for_eachS (log_page (tr_tx_id t)) (bmap_values (tr_dirty_pages t)) m) (\<lambda>_ m1.
      bindS (ts_append m1 (CommitTx (tr_tx_id t))) (\<lambda>_ m2. f m2)) =
    (case wal_append_all (ts_wal m) (tx_kinds t) of (Inl e, w) \<Rightarrow> (Inl e, m\<lparr>ts_wal := w\<rparr>) | (Inr _, w) \<Rightarrow> f (m\<lparr>ts_wal := w\<rparr>))"
proof -
  obtain r w where w: "wal_append_all (ts_wal m) (map (image_kind (tr_tx_id t)) (dirty_values t)) = (r, w)" by fastforce
  obtain q w' where w': "wal_append w (CommitTx (tr_tx_id t)) = (q, w')" by fastforce
  note ps = log_pages_append [OF dirty_values_wf [OF assms], unfolded dirty_values_def]
  show ?thesis
    using w w' unfolding tx_kinds_def wal_append_all_append ps dirty_values_def
    by (cases r; cases q) (simp_all add: ts_append_def)
qed

lemma wal_append_all_Inl:
  assumes "wal_wf w" "reads_ok (ww_file w)" "\<forall>k \<in> set ks. kind_wf k" "read_all (ww_file w) = Inr rs"
    "wal_append_all w ks = (Inl e, w')"
  shows "(\<exists>m. read_all (ww_file w') = Inl (Corruption m)) \<or>
    (\<exists>rs' n. read_all (ww_file w') = Inr (rs @ rs') \<and> n < length ks \<and> map wr_kind rs' = take n ks)"
  using assms
proof (induction ks arbitrary: w rs)
  case (Cons k ks)
  obtain r w1 where w1: "wal_append w k = (r, w1)" by fastforce
  have k: "kind_wf k" using Cons.prems(3) by simp
  show ?case
  proof (cases r)
    case (Inl e')
    with Cons.prems(5) w1 have "wal_append w k = (Inl e', w')" by auto
    from wal_append_torn [OF Cons.prems(1,2) k Cons.prems(4) this] show ?thesis
    proof
      assume "read_all (ww_file w') = Inr rs \<and> fl_bytes (ww_file w') = fl_bytes (ww_file w)"
      then show ?thesis by (intro disjI2 exI [of _ "[]"] exI [of _ 0]) simp
    qed blast
  next
    case (Inr l)
    note a = wal_append_read_all [OF Cons.prems(1,2) k Cons.prems(4) w1 [unfolded Inr]]
    have "wal_append_all w1 ks = (Inl e, w')" using Cons.prems(5) w1 Inr by simp
    moreover have "\<forall>k \<in> set ks. kind_wf k" using Cons.prems(3) by simp
    ultimately have "(\<exists>m. read_all (ww_file w') = Inl (Corruption m)) \<or>
      (\<exists>rs' n. read_all (ww_file w') = Inr ((rs @ [\<lparr>wr_lsn = wal_next_lsn w, wr_kind = k\<rparr>]) @ rs') \<and> n < length ks \<and> map wr_kind rs' = take n ks)"
      using Cons.IH [OF a(2,3) _ a(1)] by blast
    then show ?thesis
    proof (elim disjE exE conjE)
      fix rs' n assume h: "read_all (ww_file w') = Inr ((rs @ [\<lparr>wr_lsn = wal_next_lsn w, wr_kind = k\<rparr>]) @ rs')"
        "n < length ks" "map wr_kind rs' = take n ks"
      then show ?thesis
        by (intro disjI2 exI [of _ "\<lparr>wr_lsn = wal_next_lsn w, wr_kind = k\<rparr> # rs'"] exI [of _ "Suc n"]) simp
    qed auto
  qed
qed simp

lemma wal_sync_facts:
  assumes "wal_sync_data w = (r, w')" "reads_ok (ww_file w)" "wal_wf w" "read_all (ww_file w) = Inr rs"
  shows "read_all (ww_file w') = Inr rs" "fl_bytes (ww_file w') = fl_bytes (ww_file w)" "wal_wf w'"
    "reads_ok (ww_file w')" "r = Inr () \<Longrightarrow> fl_durable (ww_file w') = fl_bytes (ww_file w')"
proof -
  have f: "fl_bytes (ww_file w') = fl_bytes (ww_file w)" "fl_reads (ww_file w') = fl_reads (ww_file w)"
    "fl_meta (ww_file w') = fl_meta (ww_file w)" "ww_allocator w' = ww_allocator w"
    "r = Inr () \<Longrightarrow> fl_durable (ww_file w') = fl_bytes (ww_file w')"
    using assms(1) by (auto simp: wal_sync_data_def vfs_sync_data_def split: list.splits option.splits)
  show ok: "reads_ok (ww_file w')" using f assms(2) by (simp add: reads_ok_def)
  show wf: "wal_wf w'" using f assms(3) by (simp add: wal_wf_def file_wf_def)
  show "read_all (ww_file w') = Inr rs"
    using read_all_tail [of "ww_file w" "ww_file w'" "[]" rs] assms(2-4) ok wf f(1) by (simp add: wal_wf_def read_records.simps)
  show "fl_bytes (ww_file w') = fl_bytes (ww_file w)" "r = Inr () \<Longrightarrow> fl_durable (ww_file w') = fl_bytes (ww_file w')" using f by simp_all
qed

section \<open>The phases of a commit\<close>

lemma write_pages_store:
  "for_eachS (\<lambda>p m. ts_write_page m p) ps m =
    (case for_eachS (\<lambda>p pf. write_page pf p) ps (cs_page_file (ts_store m)) of
       (r, pf) \<Rightarrow> (r, m\<lparr>ts_store := ts_store m\<lparr>cs_page_file := pf\<rparr>\<rparr>))"
proof (induction ps arbitrary: m)
  case (Cons p ps)
  obtain r pf where "write_page (cs_page_file (ts_store m)) p = (r, pf)" by fastforce
  then have "ts_write_page m p = (r, m\<lparr>ts_store := ts_store m\<lparr>cs_page_file := pf\<rparr>\<rparr>)" "write_page (cs_page_file (ts_store m)) p = (r, pf)"
    by (simp_all add: ts_write_page_def store_write_page_def)
  then show ?case by (cases r) (simp_all add: Cons.IH)
qed simp

lemma commit_pages_cases:
  assumes "tx_base t" "commit_pages t = (r, m')"
  obtains (log) e w where "wal_append_all (ts_wal (tr_manager t)) (tx_kinds t) = (Inl e, w)" "r = Inl e"
      "m' = (tr_manager t)\<lparr>ts_wal := w\<rparr>"
  | (sync) w w' e where "wal_append_all (ts_wal (tr_manager t)) (tx_kinds t) = (Inr (), w)" "wal_sync_data w = (Inl e, w')"
      "r = Inl e" "m' = (tr_manager t)\<lparr>ts_wal := w'\<rparr>"
  | (data) w w' e pf q pf' where "wal_append_all (ts_wal (tr_manager t)) (tx_kinds t) = (Inr (), w)" "wal_sync_data w = (Inr (), w')"
      "for_eachS (\<lambda>p pf. write_page pf p) (dirty_values t) (tx_file t) = (q, pf)"
      "pf' = pf \<or> page_file_sync_data pf = (Inl e, pf')" "r = Inl e"
      "m' = (tr_manager t)\<lparr>ts_wal := w', ts_store := ts_store (tr_manager t)\<lparr>cs_page_file := pf'\<rparr>\<rparr>"
  | (finished) w w' pf pf' where "wal_append_all (ts_wal (tr_manager t)) (tx_kinds t) = (Inr (), w)" "wal_sync_data w = (Inr (), w')"
      "for_eachS (\<lambda>p pf. write_page pf p) (dirty_values t) (tx_file t) = (Inr (), pf)"
      "page_file_sync_data pf = (Inr (), pf')" "r = Inr ()"
      "m' = (tr_manager t)\<lparr>ts_wal := w', ts_store := ts_store (tr_manager t)\<lparr>cs_page_file := pf', cs_catalog := tr_working_catalog t\<rparr>\<rparr>"
proof -
  obtain a w where a: "wal_append_all (ts_wal (tr_manager t)) (tx_kinds t) = (a, w)" by fastforce
  obtain b w' where b: "wal_sync_data w = (b, w')" by fastforce
  obtain c pf where c: "for_eachS (\<lambda>p pf. write_page pf p) (bmap_values (tr_dirty_pages t)) (tx_file t) = (c, pf)" by fastforce
  obtain d pf' where d: "page_file_sync_data pf = (d, pf')" by fastforce
  note eq = assms(2) [unfolded commit_pages_def commit_log [OF assms(1)] write_pages_store]
  show thesis
  proof (cases a)
    case (Inl e)
    with a eq show thesis by (intro log [of e w]) simp_all
  next
    case a': (Inr u)
    show thesis
    proof (cases b)
      case (Inl e)
      with a a' b eq show thesis by (intro sync [of w e w']) (simp_all add: ts_sync_wal_def)
    next
      case b': (Inr v)
      show thesis
      proof (cases c)
        case (Inl e)
        with a a' b b' c eq show thesis
          by (intro data [of w w' c pf pf e]) (simp_all add: ts_sync_wal_def dirty_values_def tx_file_def)
      next
        case c': (Inr x)
        have eq': "bindS (ts_sync_store ((tr_manager t)\<lparr>ts_wal := w', ts_store := ts_store (tr_manager t)\<lparr>cs_page_file := pf\<rparr>\<rparr>))
            (\<lambda>_ m5. (Inr (), m5\<lparr>ts_store := replace_catalog (ts_store m5) (tr_working_catalog t)\<rparr>)) = (r, m')"
          using a a' b b' c c' eq by (simp add: ts_sync_wal_def tx_file_def)
        show thesis
        proof (cases d)
          case (Inl e)
          with a a' b b' c d eq' show thesis
            by (intro data [of w w' c pf pf' e]) (simp_all add: dirty_values_def ts_sync_store_def store_sync_data_def)
        next
          case (Inr y)
          with a a' b b' c c' d eq' show thesis
            by (intro finished [of w w' pf pf'])
              (simp_all add: dirty_values_def ts_sync_store_def store_sync_data_def replace_catalog_def)
        qed
      qed
    qed
  qed
qed

section \<open>What a commit leaves behind\<close>

definition ts_file :: "transactional_store \<Rightarrow> page_file" where
  "ts_file m = cs_page_file (ts_store m)"

definition ts_log :: "transactional_store \<Rightarrow> vfs_file" where
  "ts_log m = ww_file (ts_wal m)"

text \<open>The log is sound and holds the given records.\<close>

definition log_holds :: "transactional_store \<Rightarrow> wal_record list \<Rightarrow> bool" where
  "log_holds m rs \<longleftrightarrow> wal_wf (ts_wal m) \<and> reads_ok (ts_log m) \<and> read_all (ts_log m) = Inr rs"

text \<open>Before the log is durable the store is untouched.\<close>

definition commit_unlogged :: "transaction \<Rightarrow> wal_record list \<Rightarrow> transactional_store \<Rightarrow> bool" where
  "commit_unlogged t rs0 m' \<longleftrightarrow> ts_store m' = ts_store (tr_manager t) \<and>
     ((\<exists>msg. read_all (ts_log m') = Inl (Corruption msg)) \<or>
      (\<exists>rs n. read_all (ts_log m') = Inr (rs0 @ rs) \<and> map wr_kind rs = take n (tx_kinds t)))"

text \<open>Afterwards the log holds the whole transaction and only its pages can differ.\<close>

definition commit_logged :: "transaction \<Rightarrow> wal_record list \<Rightarrow> transactional_store \<Rightarrow> bool" where
  "commit_logged t rs0 m' \<longleftrightarrow> (\<exists>rs. log_holds m' (rs0 @ rs) \<and> map wr_kind rs = tx_kinds t) \<and>
     fl_durable (ts_log m') = fl_bytes (ts_log m') \<and> file_wf (pf_file (ts_file m')) \<and>
     (\<forall>q. q \<notin> page_id_of ` set (dirty_values t) \<longrightarrow> pf_pages (ts_file m') q = pf_pages (tx_file t) q \<and> pf_clean (ts_file m') q)"

definition commit_done :: "transaction \<Rightarrow> transactional_store \<Rightarrow> bool" where
  "commit_done t m' \<longleftrightarrow> pf_pages (ts_file m') = tx_pages t \<and> (\<forall>q. pf_clean (ts_file m') q) \<and>
     fl_durable (pf_file (ts_file m')) = fl_bytes (pf_file (ts_file m')) \<and> cs_catalog (ts_store m') = tr_working_catalog t"

lemma map_snd_keyed: "\<forall>(pid, p) \<in> set m. f p = pid \<Longrightarrow> map (\<lambda>p. (f p, p)) (map snd m) = m"
  by (induction m) auto

lemma map_of_rev_distinct: "distinct (map fst m) \<Longrightarrow> map_of (rev m) = map_of m"
  by (intro map_of_eqI) (auto simp: rev_map [symmetric])

lemma dirty_map:
  assumes "tx_base t"
  shows "map_of (rev (map (\<lambda>p. (page_id_of p, p)) (dirty_values t))) = map_of (tr_dirty_pages t)"
    "q \<in> page_id_of ` set (dirty_values t) \<longleftrightarrow> map_of (tr_dirty_pages t) q \<noteq> None"
proof -
  have d: "distinct (map fst (tr_dirty_pages t))" "\<forall>(pid, p) \<in> set (tr_dirty_pages t). page_id_of p = pid"
    using assms by (auto simp: tx_base_def dirty_wf_def strict_sorted_iff)
  note k = map_snd_keyed [OF d(2)]
  from d(1) show "map_of (rev (map (\<lambda>p. (page_id_of p, p)) (dirty_values t))) = map_of (tr_dirty_pages t)"
    unfolding dirty_values_def bmap_values_def k by (rule map_of_rev_distinct)
  have "page_id_of ` set (dirty_values t) = fst ` set (tr_dirty_pages t)"
    using d(2) by (force simp: dirty_values_def bmap_values_def)
  then show "q \<in> page_id_of ` set (dirty_values t) \<longleftrightarrow> map_of (tr_dirty_pages t) q \<noteq> None"
    by (simp add: map_of_eq_None_iff)
qed

lemma commit_pages_outcome:
  assumes base: "tx_base t" and log: "log_holds (tr_manager t) rs0" and com: "commit_pages t = (r, m')"
  shows "(\<exists>e. r = Inl e) \<and> commit_unlogged t rs0 m' \<or> commit_logged t rs0 m' \<and> (r = Inr () \<longrightarrow> commit_done t m')"
proof -
  let ?w = "ts_wal (tr_manager t)"
  have w: "wal_wf ?w" "reads_ok (ww_file ?w)" "read_all (ww_file ?w) = Inr rs0" using log by (simp_all add: log_holds_def ts_log_def)
  note wf = tx_kinds_wf [OF base] and len = dirty_values_length [OF base]
  have fwf: "file_wf (pf_file (tx_file t))" and cl: "\<And>q. pf_clean (tx_file t) q"
    using base by (simp_all add: tx_base_def pf_wf_def pf_wf_clean)
  have logged: "\<exists>rs. log_holds m (rs0 @ rs) \<and> map wr_kind rs = tx_kinds t \<and> (v = Inr () \<longrightarrow> fl_durable (ts_log m) = fl_bytes (ts_log m))"
    if a: "wal_append_all ?w (tx_kinds t) = (Inr (), w1)" and b: "wal_sync_data w1 = (v, w2)" and m: "ts_wal m = w2" for w1 w2 v m
  proof -
    from wal_append_all_read_all [OF w(1,2) wf w(3) a] obtain rs where rs: "read_all (ww_file w1) = Inr (rs0 @ rs)"
      "map wr_kind rs = tx_kinds t" "wal_wf w1" "file_frame (ww_file ?w) (ww_file w1)" by blast
    have ok: "reads_ok (ww_file w1)" using rs(4) w(2) by (rule file_frame_ok)
    from wal_sync_facts [OF b ok rs(3,1)] rs(2) m show ?thesis by (auto simp: log_holds_def ts_log_def)
  qed
  have pages: "file_wf (pf_file pf) \<and> (q \<notin> page_id_of ` set (dirty_values t) \<longrightarrow> pf_pages pf q = pf_pages (tx_file t) q \<and> pf_clean pf q)"
    if "for_eachS (\<lambda>p pf. write_page pf p) (dirty_values t) (tx_file t) = (v, pf)" for v pf q
    using pf_store.store_all_inv [OF fwf len] pf_store.store_all_other [OF fwf len _ cl, of q] that by simp
  from base com show ?thesis
  proof (cases rule: commit_pages_cases)
    case (log e w)
    from wal_append_all_Inl [OF w(1,2) wf w(3) log(1)] log show ?thesis
      by (auto simp: commit_unlogged_def ts_log_def)
  next
    case (sync w1 w2 e)
    from logged [OF sync(1,2), of m'] sync(4) obtain rs where "read_all (ww_file w2) = Inr (rs0 @ rs)" "map wr_kind rs = tx_kinds t"
      by (auto simp: log_holds_def ts_log_def)
    with sync show ?thesis by (auto simp: commit_unlogged_def ts_log_def intro!: exI [of _ rs] exI [of _ "length (tx_kinds t)"])
  next
    case (data w1 w2 e pf v pf')
    have same: "pf_pages pf' = pf_pages pf \<and> pf_clean pf' = pf_clean pf \<and> fl_bytes (pf_file pf') = fl_bytes (pf_file pf)"
      using data(4) sync_pages(1-3) by metis
    from data(6) have m: "ts_wal m' = w2" "ts_file m' = pf'" by (simp_all add: ts_file_def)
    have "commit_logged t rs0 m'"
      using logged [OF data(1,2) m(1)] pages [OF data(3)] same by (auto simp: commit_logged_def m(2) file_wf_def)
    with data(5) show ?thesis by simp
  next
    case (finished w1 w2 pf pf')
    note sp = sync_pages [OF finished(4)]
    from finished(6) have m: "ts_wal m' = w2" "ts_file m' = pf'" "cs_catalog (ts_store m') = tr_working_catalog t"
      by (simp_all add: ts_file_def)
    have "commit_logged t rs0 m'"
      using logged [OF finished(1,2) m(1)] pages [OF finished(3)] sp by (auto simp: commit_logged_def m(2) file_wf_def)
    moreover have "commit_done t m'"
      using pf_store.store_all_Inr [OF fwf len finished(3)] cl sp m dirty_map(1) [OF base]
      by (simp add: commit_done_def fun_eq_iff tx_pages_def)
    ultimately show ?thesis by simp
  qed
qed

section \<open>Recovery after a commit\<close>

text \<open>The log has no outcome and no image of the transaction yet.\<close>

definition tx_silent :: "tx_id \<Rightarrow> wal_record list \<Rightarrow> bool" where
  "tx_silent tx rs \<longleftrightarrow> list_all (\<lambda>r. case wr_kind r of
     PageImage x _ _ \<Rightarrow> x \<noteq> tx | CommitTx x \<Rightarrow> x \<noteq> tx | AbortTx x \<Rightarrow> x \<noteq> tx | _ \<Rightarrow> True) rs"

lemma tx_kinds_take:
  assumes "n < length (tx_kinds t)"
  shows "take n (tx_kinds t) = map (image_kind (tr_tx_id t)) (take n (dirty_values t))"
  using assms by (simp add: tx_kinds_def take_map)

lemma kind_wins_old:
  assumes "tx_silent tx rs0" "\<forall>k \<in> set ks. k = CommitTx tx \<or> (\<exists>p. k = image_kind tx p)"
  shows "filter (kind_wins (map wr_kind rs0 @ ks)) (map wr_kind rs0) = filter (kind_wins (map wr_kind rs0)) (map wr_kind rs0)"
proof (rule filter_cong [OF refl])
  fix k assume "k \<in> set (map wr_kind rs0)"
  then obtain r where r: "r \<in> set rs0" "k = wr_kind r" by auto
  have "CommitTx x \<in> set ks \<longrightarrow> x = tx" "AbortTx x \<notin> set ks" for x
    using assms(2) by (auto simp: image_kind_def)
  with r assms(1) show "kind_wins (map wr_kind rs0 @ ks) k = kind_wins (map wr_kind rs0) k"
    by (auto simp: kind_wins_def tx_silent_def list_all_iff split: wal_record_kind.splits)
qed

lemma log_pages_split:
  assumes "tx_silent tx rs0" "\<forall>k \<in> set (map wr_kind rs). k = CommitTx tx \<or> (\<exists>p. k = image_kind tx p)"
  shows "log_pages (rs0 @ rs) = log_pages rs0 @ map kind_page (filter (kind_wins (map wr_kind rs0 @ map wr_kind rs)) (map wr_kind rs))"
    "log_ok (rs0 @ rs) \<longleftrightarrow> log_ok rs0 \<and> (\<forall>k \<in> set (filter (kind_wins (map wr_kind rs0 @ map wr_kind rs)) (map wr_kind rs)). kind_ok k)"
  using kind_wins_old [OF assms] unfolding log_pages_kinds log_ok_kinds map_append filter_append
  by (simp, simp only: set_append ball_Un)

lemma silent_outcomes:
  assumes "tx_silent tx rs0"
  shows "CommitTx tx \<notin> wr_kind ` set rs0" "AbortTx tx \<notin> wr_kind ` set rs0"
proof -
  have "wr_kind r \<noteq> CommitTx tx" "wr_kind r \<noteq> AbortTx tx" if "r \<in> set rs0" for r
    using that assms by (auto simp: tx_silent_def list_all_iff split: wal_record_kind.splits)
  then show "CommitTx tx \<notin> wr_kind ` set rs0" "AbortTx tx \<notin> wr_kind ` set rs0" by (metis imageE)+
qed

lemma log_pages_partial:
  assumes "tx_silent (tr_tx_id t) rs0" "map wr_kind rs = take n (tx_kinds t)" "n < length (tx_kinds t)"
  shows "log_pages (rs0 @ rs) = log_pages rs0" "log_ok (rs0 @ rs) = log_ok rs0"
    "CommitTx (tr_tx_id t) \<notin> wr_kind ` set (rs0 @ rs)"
proof -
  have ks: "map wr_kind rs = map (image_kind (tr_tx_id t)) (take n (dirty_values t))"
    using assms(2,3) by (simp add: tx_kinds_take)
  then have im: "CommitTx (tr_tx_id t) \<notin> set (map wr_kind rs)" by (auto simp: image_kind_def)
  note so = silent_outcomes [OF assms(1)]
  have none: "filter (kind_wins (map wr_kind rs0 @ map wr_kind rs)) (map wr_kind rs) = []"
    using so im unfolding ks by (auto simp: filter_empty_conv kind_wins_def image_kind_def)
  have "\<forall>k \<in> set (map wr_kind rs). k = CommitTx (tr_tx_id t) \<or> (\<exists>p. k = image_kind (tr_tx_id t) p)" unfolding ks by auto
  from log_pages_split [OF assms(1) this] show "log_pages (rs0 @ rs) = log_pages rs0" "log_ok (rs0 @ rs) = log_ok rs0"
    unfolding none by simp_all
  show "CommitTx (tr_tx_id t) \<notin> wr_kind ` set (rs0 @ rs)" using so im by auto
qed

lemma log_pages_full:
  assumes base: "tx_base t" and "tx_silent (tr_tx_id t) rs0" "map wr_kind rs = tx_kinds t"
  shows "log_pages (rs0 @ rs) = log_pages rs0 @ dirty_values t" "log_ok (rs0 @ rs) = log_ok rs0"
proof -
  note so = silent_outcomes [OF assms(2)]
  have win: "filter (kind_wins (map wr_kind rs0 @ map wr_kind rs)) (map wr_kind rs) = map (image_kind (tr_tx_id t)) (dirty_values t)"
    using so unfolding assms(3) by (auto simp: tx_kinds_def filter_append kind_wins_def image_kind_def filter_id_conv)
  have pg: "map kind_page (map (image_kind (tr_tx_id t)) (dirty_values t)) = dirty_values t"
    by (simp add: image_kind_def comp_def)
  have ok: "\<forall>k \<in> set (map (image_kind (tr_tx_id t)) (dirty_values t)). kind_ok k"
    using dirty_values_wf [OF base] by (auto simp: image_kind_def kind_ok_def)
  have "\<forall>k \<in> set (map wr_kind rs). k = CommitTx (tr_tx_id t) \<or> (\<exists>p. k = image_kind (tr_tx_id t) p)"
    unfolding assms(3) by (auto simp: tx_kinds_def)
  from log_pages_split [OF assms(2) this] show "log_pages (rs0 @ rs) = log_pages rs0 @ dirty_values t" "log_ok (rs0 @ rs) = log_ok rs0"
    unfolding win pg using ok by simp_all
qed

text \<open>Recovery over what a commit left installs all of the transaction or nothing of it.\<close>

lemma recovered_committed:
  assumes base: "tx_base t" and sil: "tx_silent (tr_tx_id t) rs0" and ok: "log_ok rs0"
    and inst: "pf_pages (tx_file t) ++ committed_page rs0 = pf_pages (tx_file t)"
    and rs: "map wr_kind rs = tx_kinds t" and wf: "file_wf (pf_file pf)"
    and same: "\<forall>q. q \<notin> page_id_of ` set (dirty_values t) \<longrightarrow> pf_pages pf q = pf_pages (tx_file t) q \<and> pf_clean pf q"
    and wal: "read_all wal = Inr (rs0 @ rs)" and rec: "recover_page_file pf wal = (Inr db, pf')"
  shows "pf_pages pf' = tx_pages t" "pf_wf pf'"
proof -
  note lp = log_pages_full [OF base sil rs]
  have cp: "committed_page (rs0 @ rs) = committed_page rs0 ++ map_of (tr_dirty_pages t)"
    unfolding committed_page_def lp(1) by (simp add: dirty_map(1) [OF base])
  have "committed_page (rs0 @ rs) q \<noteq> None \<or> pf_clean pf q" for q
    using same dirty_map(2) [OF base] by (auto simp: cp map_add_None)
  note h = recover_heals [OF rec wal _ wf this]
  have log: "log_ok (rs0 @ rs)" using lp(2) ok by simp
  show "pf_wf pf'" using recover_file_wf [OF rec wal log wf] h(2) [OF log] by (rule pf_clean_wf)
  show "pf_pages pf' = tx_pages t"
  proof
    fix q
    have "pf_pages pf' q = (pf_pages pf ++ committed_page rs0 ++ map_of (tr_dirty_pages t)) q"
      using h(1) [OF log] by (simp add: cp)
    also have "\<dots> = tx_pages t q"
      using fun_cong [OF inst, of q] same [rule_format, of q] dirty_map(2) [OF base, of q]
      by (cases "map_of (tr_dirty_pages t) q") (auto simp: tx_pages_def map_add_def split: option.splits)
    finally show "pf_pages pf' q = tx_pages t q" .
  qed
qed

lemma recovered_unchanged:
  assumes wf: "pf_wf pf" and ok: "log_ok rs" and inst: "pf_pages pf ++ committed_page rs = pf_pages pf"
    and wal: "read_all wal = Inr rs" and bytes: "fl_bytes (pf_file pf2) = fl_bytes (pf_file pf)"
    and rec: "recover_page_file pf2 wal = (Inr db, pf')"
  shows "pf_pages pf' = pf_pages pf" "pf_wf pf'"
proof -
  have f: "file_wf (pf_file pf2)" "pf_pages pf2 = pf_pages pf" "\<And>q. pf_clean pf2 q"
    using wf bytes pf_wf_clean [OF wf] by (auto simp: pf_wf_def file_wf_def pf_pages_def pf_clean_def)
  note h = recover_heals [OF rec wal ok f(1) disjI2 [OF f(3)]]
  show "pf_pages pf' = pf_pages pf" using h(1) inst f(2) by (intro ext) simp
  show "pf_wf pf'" using recover_file_wf [OF rec wal ok f(1)] h(2) by (rule pf_clean_wf)
qed

lemma tx_commit_cases:
  assumes "tr_state t = Active" "tx_commit t = (r, m')"
  obtains m1 where "commit_pages t = (r, m1)" "ts_store m' = ts_store m1" "ts_wal m' = ts_wal m1" "\<not> ts_active_writer m'"
    "ts_next_tx_id m' = ts_next_tx_id m1"
proof -
  obtain q m1 where "commit_pages t = (q, m1)" by fastforce
  with assms show thesis
    by (cases q) (auto simp: tx_commit_def ensure_active_def tx_drop_def finish_writer_def intro!: that [of m1])
qed

lemma commit_outcome:
  assumes "tx_base t" "tr_state t = Active" "log_holds (tr_manager t) rs0" "tx_commit t = (r, m')"
  shows "(\<exists>e. r = Inl e) \<and> commit_unlogged t rs0 m' \<or> commit_logged t rs0 m' \<and> (r = Inr () \<longrightarrow> commit_done t m')"
    "\<not> ts_active_writer m'"
proof -
  from tx_commit_cases [OF assms(2,4)] obtain m1 where m1: "commit_pages t = (r, m1)" "ts_store m' = ts_store m1"
    "ts_wal m' = ts_wal m1" "\<not> ts_active_writer m'" .
  from commit_pages_outcome [OF assms(1,3) m1(1)]
  show "(\<exists>e. r = Inl e) \<and> commit_unlogged t rs0 m' \<or> commit_logged t rs0 m' \<and> (r = Inr () \<longrightarrow> commit_done t m')"
    using m1(2,3) by (simp add: commit_unlogged_def commit_logged_def commit_done_def log_holds_def ts_log_def ts_file_def)
  show "\<not> ts_active_writer m'" by (rule m1(4))
qed

end
