(* ===== verification/Rdbms_Tx_Spec.thy ===== *)
theory Rdbms_Tx_Spec
  imports Rdbms_Tx_Commit Rdbms_Heap_Spec
begin

text \<open>
  The contract of the transaction layer: atomic, durable commits under the write-ahead rule,
  isolation of the store from running and abandoned transactions, one writer at a time, and
  what happens when transaction ids are handed out a second time.
\<close>

section \<open>Operations succeed on a working disk\<close>

lemma mark_catalog_dirty_ok:
  assumes "catalog_fits (tr_working_catalog t)"
  obtains p where "mark_catalog_dirty t = (Inr (), tx_put_page t (PageId 0) p)"
proof -
  from to_page_fits [OF assms] obtain p where "to_page (tr_working_catalog t) = Inr p" .
  then show thesis by (intro that [of p]) (simp add: mark_catalog_dirty_def)
qed

lemma tx_insert_into_pages_ok:
  assumes "tx_wf t" "r \<in> set (cat_relations (tr_working_catalog t))" "set pids \<subseteq> set (relation_heap_pages r)"
  shows "\<exists>found t'. tx_insert_into_pages t bytes pids = (Inr found, t')"
  using assms(3)
proof (induction pids)
  case (Cons pid rest)
  have ok: "heap_ok (tr_working_catalog t) (tx_pages t)" and b: "tx_base t" using assms(1) by (simp_all add: tx_wf_def)
  from Cons.prems have "pid \<in> set (relation_heap_pages r)" by simp
  from heap_ok_page [OF ok assms(2) this] obtain p where p: "tx_pages t pid = Some p" "heap_page_ok p" .
  note load = tx_load [OF b p(1)]
  obtain q p' where ins: "insert_record p bytes = (q, p')" by fastforce
  have wf: "page_wf p" using p(2) by (simp add: heap_page_ok_def)
  show ?case
  proof (cases q)
    case (Inl e)
    from heap_page.insert_rejected(2) [OF wf ins [unfolded Inl]] obtain m where "e = User m" by blast
    with Inl ins load Cons show ?thesis by simp
  qed (use ins load in simp)
qed simp

lemma tx_insert_row_ok:
  assumes "tx_wf t" "relation_by_id (tr_working_catalog t) rid = Some r" "ri_kind r = RelTable"
    "length bytes \<le> 4056" "heap_can_grow (tr_working_catalog t) rid"
  shows "\<exists>row t'. tx_insert_row t rid bytes = (Inr row, t')"
proof -
  from tx_insert_into_pages_ok [OF assms(1) relation_by_id_Some(1) [OF assms(2)], of "relation_heap_pages r" bytes]
  obtain found t1 where i: "tx_insert_into_pages t bytes (relation_heap_pages r) = (Inr found, t1)" by auto
  have pre: "ensure_active t = Inr ()" "ensure_heap_relation (tr_working_catalog t) rid = Inr ()"
    "heap_pages (tr_working_catalog t) rid = Inr (relation_heap_pages r)"
    using assms(1-3) by (simp_all add: ensure_active_def tx_wf_def ensure_heap_relation_def heap_pages_def)
  show ?thesis
  proof (cases found)
    case None
    with tx_insert_into_pages_cases [OF i] have t1: "t1 = t" by simp
    obtain a c1 where al: "allocate_page_id (tr_working_catalog t) = (a, c1)" by fastforce
    with assms(5) obtain pid where a: "a = Inr pid" by (cases a) (auto simp: heap_can_grow_def)
    obtain b c2 where ap: "append_heap_page c1 rid pid = (b, c2)" by fastforce
    with assms(5) al a have b: "b = Inr ()" "catalog_fits c2" by (cases b; auto simp: heap_can_grow_def)+
    from insert_fresh [OF assms(4), of pid Heap] obtain p where
      p: "insert_record (page_new pid Heap) bytes = (Inr (SlotId 0), p)" by blast
    let ?t = "tx_put_page (t\<lparr>tr_working_catalog := c2\<rparr>) pid p"
    have "catalog_fits (tr_working_catalog ?t)" using b(2) by (simp add: tx_put_page_def)
    then obtain p0 where "mark_catalog_dirty ?t = (Inr (), tx_put_page ?t (PageId 0) p0)" by (rule mark_catalog_dirty_ok)
    with i None t1 pre al a ap b p show ?thesis
      by (simp add: tx_insert_row_def tx_insert_into_new_page_def on_catalog_def)
  qed (use i pre in \<open>simp add: tx_insert_row_def\<close>)
qed

lemma wal_sync_benign: "writes_ok (ww_file w) \<Longrightarrow> \<exists>w'. wal_sync_data w = (Inr (), w')"
  by (cases "fl_syncs (ww_file w)") (auto simp: wal_sync_data_def vfs_sync_data_def writes_ok_def)

lemma commit_pages_ok:
  assumes base: "tx_base t" and wal: "wal_wf (ts_wal (tr_manager t))" "writes_ok (ts_log (tr_manager t))"
    "length (fl_bytes (ts_log (tr_manager t))) + 4136 * (length (tr_dirty_pages t) + 1) \<le> MAX_FILE_SIZE"
    and data: "writes_ok (pf_file (tx_file t))" "\<forall>p \<in> set (dirty_values t). page_fits p"
  shows "\<exists>m'. commit_pages t = (Inr (), m')"
proof -
  have n: "length (tx_kinds t) = length (tr_dirty_pages t) + 1" by (simp add: tx_kinds_def dirty_values_def bmap_values_def)
  from wal_append_all_benign [OF wal(1) tx_kinds_wf [OF base]] wal(2,3) obtain w where
    w: "wal_append_all (ts_wal (tr_manager t)) (tx_kinds t) = (Inr (), w)" "writes_ok (ww_file w)"
    by (auto simp: ts_log_def n)
  from wal_sync_benign [OF w(2)] obtain w' where w': "wal_sync_data w = (Inr (), w')" by blast
  from pf_store.store_all_succeeds [OF data] obtain pf where
    pf: "for_eachS (\<lambda>p pf. write_page pf p) (dirty_values t) (tx_file t) = (Inr (), pf)" "writes_ok (pf_file pf)" by blast
  from sync_benign [OF pf(2)] obtain pf' where pf': "page_file_sync_data pf = (Inr (), pf')" by blast
  show ?thesis
    unfolding commit_pages_def commit_log [OF base] write_pages_store
    using w w' pf pf' by (simp add: ts_sync_wal_def dirty_values_def tx_file_def ts_sync_store_def store_sync_data_def)
qed

section \<open>The store after a commit\<close>

lemma write_all_wf:
  assumes "for_eachS (\<lambda>p pf. write_page pf p) ps pf = (Inr (), pf')" "\<forall>p \<in> set ps. length (page_bytes p) = 4096"
    "pf_wf pf" "reads_ok (pf_file pf)"
  shows "pf_wf pf' \<and> reads_ok (pf_file pf')"
  using assms
proof (induction ps arbitrary: pf)
  case (Cons p ps)
  then obtain pf1 where pf1: "write_page pf p = (Inr (), pf1)" "for_eachS (\<lambda>p pf. write_page pf p) ps pf1 = (Inr (), pf')"
    by (auto simp: bindS_eq_Inr)
  have "length (page_bytes p) = 4096" using Cons.prems by simp
  note w = write_page_wf [OF pf1(1) this Cons.prems(3)]
  from Cons.IH [OF pf1(2) _ w(1)] Cons.prems file_frame_ok(1) [OF w(3)] show ?case by simp
qed simp

lemma sync_wf:
  "page_file_sync_data pf = (r, pf') \<Longrightarrow> pf_wf pf \<and> reads_ok (pf_file pf) \<Longrightarrow> pf_wf pf' \<and> reads_ok (pf_file pf')"
  using sync_pages [of pf r pf'] by (auto simp: pf_wf_def file_wf_def reads_ok_def)

lemma committed_file_wf:
  assumes b: "tx_base t" and a: "tr_state t = Active" and com: "tx_commit t = (Inr (), m')"
  shows "pf_wf (ts_file m')" "reads_ok (pf_file (ts_file m'))"
proof -
  from tx_commit_cases [OF a com] obtain m1 where m1: "commit_pages t = (Inr (), m1)" "ts_store m' = ts_store m1" .
  from b m1(1) have "pf_wf (ts_file m1) \<and> reads_ok (pf_file (ts_file m1))"
  proof (cases rule: commit_pages_cases)
    case (finished w w' pf pf')
    from write_all_wf [OF finished(3) dirty_values_length [OF b]] b have "pf_wf pf \<and> reads_ok (pf_file pf)" by (simp add: tx_base_def)
    with sync_wf [OF finished(4)] finished(6) show ?thesis by (simp add: ts_file_def)
  qed simp_all
  then show "pf_wf (ts_file m')" "reads_ok (pf_file (ts_file m'))" using m1(2) by (simp_all add: ts_file_def)
qed

lemma committed_store_wf:
  assumes wf: "tx_wf t" and log: "log_holds (tr_manager t) rs0" and com: "tx_commit t = (Inr (), m')"
  shows "store_wf (ts_store m')" "store_pages (ts_store m') = tx_pages t" "cs_catalog (ts_store m') = tr_working_catalog t"
    "tx_staged t \<Longrightarrow> persisted (ts_store m')"
proof -
  have b: "tx_base t" and a: "tr_state t = Active" and ok: "heap_ok (tr_working_catalog t) (tx_pages t)" using wf by (simp_all add: tx_wf_def)
  from commit_outcome(1) [OF b a log com] have "commit_done t m'" by auto
  then have p: "pf_pages (cs_page_file (ts_store m')) = tx_pages t" "cs_catalog (ts_store m') = tr_working_catalog t"
    by (simp_all add: commit_done_def ts_file_def)
  with committed_file_wf [OF b a com] ok show "store_wf (ts_store m')" by (simp add: store_wf_def store_pages_def ts_file_def)
  show "store_pages (ts_store m') = tx_pages t" "cs_catalog (ts_store m') = tr_working_catalog t"
    "tx_staged t \<Longrightarrow> persisted (ts_store m')"
    using p by (simp_all add: store_pages_def persisted_def tx_staged_def)
qed

section \<open>A running transaction\<close>

lemma begin_Inr:
  assumes "tx_begin m = (Inr t, m1)"
  obtains w l n where "wal_append (ts_wal m) (BeginTx (TxId (ts_next_tx_id m))) = (Inr l, w)" "\<not> ts_active_writer m"
    "m1 = \<lparr>ts_store = ts_store m, ts_wal = w, ts_next_tx_id = n, ts_active_writer = True\<rparr>"
    "t = \<lparr>tr_manager = m1, tr_tx_id = TxId (ts_next_tx_id m), tr_working_catalog = cs_catalog (ts_store m),
          tr_dirty_pages = [], tr_state = Active\<rparr>"
proof -
  from assms obtain n where n: "checked_add (ts_next_tx_id m) 1 = Some n" and a: "\<not> ts_active_writer m"
    by (auto simp: tx_begin_def allocate_tx_id_def split: if_splits option.splits)
  obtain r w where w: "wal_append (ts_wal m) (BeginTx (TxId (ts_next_tx_id m))) = (r, w)" by fastforce
  from assms n a w show thesis
    by (cases r) (auto simp: tx_begin_def allocate_tx_id_def ts_append_def intro!: that [of _ w n])
qed

lemma begin_state:
  assumes "tx_begin m = (Inr t, m1)"
  shows "ts_store (tr_manager t) = ts_store m" "ts_active_writer (tr_manager t)" "tr_state t = Active" "tr_manager t = m1"
    "tr_tx_id t = TxId (ts_next_tx_id m)"
  by (rule begin_Inr [OF assms], simp)+

lemma begin_facts:
  assumes wf: "store_wf (ts_store m)" "persisted (ts_store m)" and log: "log_holds m rs0" and beg: "tx_begin m = (Inr t, m1)"
  obtains l where "tx_wf t" "tx_staged t" "tr_manager t = m1" "ts_store m1 = ts_store m" "ts_active_writer m1"
    "log_holds m1 (rs0 @ [\<lparr>wr_lsn = l, wr_kind = BeginTx (tr_tx_id t)\<rparr>])" "tr_tx_id t = TxId (ts_next_tx_id m)"
    "tr_working_catalog t = cs_catalog (ts_store m)" "tr_dirty_pages t = []" "tx_file t = ts_file m"
    "length (fl_bytes (ts_log m1)) = length (fl_bytes (ts_log m)) + 40" "writes_ok (ts_log m) \<longrightarrow> writes_ok (ts_log m1)"
proof -
  from begin_Inr [OF beg] obtain w l n where w: "wal_append (ts_wal m) (BeginTx (TxId (ts_next_tx_id m))) = (Inr l, w)"
    and m1: "m1 = \<lparr>ts_store = ts_store m, ts_wal = w, ts_next_tx_id = n, ts_active_writer = True\<rparr>"
    and t: "t = \<lparr>tr_manager = m1, tr_tx_id = TxId (ts_next_tx_id m), tr_working_catalog = cs_catalog (ts_store m),
          tr_dirty_pages = [], tr_state = Active\<rparr>" .
  let ?k = "BeginTx (TxId (ts_next_tx_id m))" let ?r = "\<lparr>wr_lsn = wal_next_lsn (ts_wal m), wr_kind = ?k\<rparr>"
  have k: "kind_wf ?k" by (simp add: kind_wf_def)
  have lh: "wal_wf (ts_wal m)" "reads_ok (ww_file (ts_wal m))" "read_all (ww_file (ts_wal m)) = Inr rs0"
    using log by (simp_all add: log_holds_def ts_log_def)
  note a = wal_append_read_all [OF lh(1,2) k lh(3) w]
  have f: "tx_file t = cs_page_file (ts_store m)" "tx_pages t = store_pages (ts_store m)"
    by (simp_all add: t m1 tx_file_def tx_pages_def store_pages_def)
  show thesis
  proof (rule that)
    show "log_holds m1 (rs0 @ [\<lparr>wr_lsn = wal_next_lsn (ts_wal m), wr_kind = BeginTx (tr_tx_id t)\<rparr>])"
      using a(1-3) by (simp add: log_holds_def ts_log_def t m1)
    show "length (fl_bytes (ts_log m1)) = length (fl_bytes (ts_log m)) + 40"
      using wal_append_Inr(4) [OF lh(1) k w] encode_record_Inr(2) [of ?r] by (simp add: kind_wf_def ts_log_def m1)
    show "writes_ok (ts_log m) \<longrightarrow> writes_ok (ts_log m1)" using file_frame_ok(2) [OF a(4)] by (simp add: ts_log_def m1)
    show "tx_wf t" using wf(1) f by (simp add: tx_wf_def tx_base_def store_wf_def dirty_wf_def) (simp add: t)
    show "tx_staged t" using wf(2) by (simp add: tx_staged_def persisted_def f(2)) (simp add: t)
  qed (simp_all add: t m1 tx_file_def ts_file_def)
qed

lemma begin_silent:
  assumes "tx_silent tx rs0"
  shows "tx_silent tx (rs0 @ [\<lparr>wr_lsn = l, wr_kind = BeginTx tx'\<rparr>])"
    "log_pages (rs0 @ [\<lparr>wr_lsn = l, wr_kind = BeginTx tx'\<rparr>]) = log_pages rs0"
    "log_ok (rs0 @ [\<lparr>wr_lsn = l, wr_kind = BeginTx tx'\<rparr>]) = log_ok rs0"
proof -
  have "kind_wins (ks @ [BeginTx tx']) = kind_wins ks" for ks
    by (auto simp: fun_eq_iff kind_wins_def split: wal_record_kind.splits)
  then show "log_pages (rs0 @ [\<lparr>wr_lsn = l, wr_kind = BeginTx tx'\<rparr>]) = log_pages rs0"
    "log_ok (rs0 @ [\<lparr>wr_lsn = l, wr_kind = BeginTx tx'\<rparr>]) = log_ok rs0"
    by (simp_all add: log_pages_kinds log_ok_kinds) (simp_all add: kind_wins_def)
qed (use assms in \<open>simp add: tx_silent_def\<close>)

lemma begin_ok:
  assumes "\<not> ts_active_writer m" "unat (ts_next_tx_id m) + 1 < 2 ^ 64" "wal_wf (ts_wal m)" "writes_ok (ts_log m)"
    "length (fl_bytes (ts_log m)) + 4136 \<le> MAX_FILE_SIZE"
  shows "\<exists>t m1. tx_begin m = (Inr t, m1)"
proof -
  have "kind_wf (BeginTx (TxId (ts_next_tx_id m)))" by (simp add: kind_wf_def)
  with wal_append_all_benign [of "ts_wal m" "[BeginTx (TxId (ts_next_tx_id m))]"] assms(3-5) obtain l w where
    "wal_append (ts_wal m) (BeginTx (TxId (ts_next_tx_id m))) = (Inr l, w)"
    by (auto simp: ts_log_def bindS_eq_Inr)
  then show ?thesis using assms(1,2) by (simp add: tx_begin_def allocate_tx_id_def checked_add_def ts_append_def)
qed

section \<open>Pages that fit into the file\<close>

definition tx_fits :: "transaction \<Rightarrow> bool" where
  "tx_fits t \<longleftrightarrow> (\<forall>q. tx_pages t q \<noteq> None \<longrightarrow> page_id_fits q)"

lemma tx_fits_base:
  assumes "tx_base t" "tr_dirty_pages t = []"
  shows "tx_fits t"
  using assms
  by (auto simp: tx_fits_def tx_base_def pf_wf_def tx_pages_def pf_pages_def page_at_def page_id_fits_def file_wf_def Let_def split: if_splits)

lemma tx_fits_values:
  assumes "tx_base t" "tx_fits t"
  shows "\<forall>p \<in> set (dirty_values t). page_fits p"
proof
  fix p assume p: "p \<in> set (dirty_values t)"
  then have "map_of (tr_dirty_pages t) (page_id_of p) \<noteq> None" using dirty_map(2) [OF assms(1)] by blast
  with assms(2) have "page_id_fits (page_id_of p)" by (auto simp: tx_fits_def tx_pages_def map_add_def)
  with p dirty_values_wf [OF assms(1)] show "page_fits p" by (blast intro: page_wf_fits)
qed

lemma length_bmap_insert: "length (bmap_insert k v m) \<le> Suc (length m)"
  by (induction m) auto

lemma put_page_grows:
  assumes "tx_base t" "tx_fits t" "page_id_fits pid"
  shows "tx_fits (tx_put_page t pid p)" "length (tr_dirty_pages (tx_put_page t pid p)) \<le> Suc (length (tr_dirty_pages t))"
  using assms(2,3) tx_put_page_facts(1) [OF assms(1), where pid = pid and p = p]
  by (auto simp: tx_fits_def) (simp add: tx_put_page_def length_bmap_insert)

lemma mark_catalog_dirty_grows:
  assumes "tx_base t" "tx_fits t" "mark_catalog_dirty t = (Inr (), t')"
  shows "tx_fits t'" "length (tr_dirty_pages t') \<le> Suc (length (tr_dirty_pages t))"
proof -
  have "page_id_fits (PageId 0)" by (simp add: page_id_fits_def MAX_FILE_SIZE_def)
  note g = put_page_grows [OF assms(1,2) this]
  from assms(3) obtain p where "t' = tx_put_page t (PageId 0) p" by (auto simp: mark_catalog_dirty_def split: sum.splits)
  with g show "tx_fits t'" "length (tr_dirty_pages t') \<le> Suc (length (tr_dirty_pages t))" by simp_all
qed

lemma tx_insert_row_grows:
  assumes wf: "tx_wf t" and fits: "tx_fits t" "heap_can_grow (tr_working_catalog t) rid"
    and ins: "tx_insert_row t rid bytes = (Inr row, t')"
  shows "tx_fits t' \<and> length (tr_dirty_pages t') \<le> length (tr_dirty_pages t) + 2"
proof -
  have ok: "heap_ok (tr_working_catalog t) (tx_pages t)" and b: "tx_base t" using wf by (simp_all add: tx_wf_def)
  from tx_insert_row_cases [OF ins] obtain r found t1 where r: "relation_by_id (tr_working_catalog t) rid = Some r"
    and i: "tx_insert_into_pages t bytes (relation_heap_pages r) = (Inr found, t1)"
    and k: "(case found of Some x \<Rightarrow> row = x \<and> t' = t1 | None \<Rightarrow> tx_insert_into_new_page t1 rid bytes = (Inr row, t'))" .
  show ?thesis
  proof (cases found)
    case (Some x)
    with tx_insert_into_pages_cases [OF i] k obtain pid p' where pid: "pid \<in> set (relation_heap_pages r)" "t' = tx_put_page t pid p'" by auto
    from heap_ok_page [OF ok relation_by_id_Some(1) [OF r] pid(1)] obtain p where "tx_pages t pid = Some p" .
    with fits(1) have "page_id_fits pid" by (auto simp: tx_fits_def)
    from put_page_grows [OF b fits(1) this, of p'] pid(2) show ?thesis by simp
  next
    case None
    with tx_insert_into_pages_cases [OF i] k have "tx_insert_into_new_page t rid bytes = (Inr row, t')" by simp
    from tx_insert_into_new_page_Inr [OF this] obtain pid u1 slot p u2 where
      al: "on_catalog allocate_page_id t = (Inr pid, u1)" and p: "insert_record (page_new pid Heap) bytes = (Inr slot, p)"
      and ap: "on_catalog (\<lambda>c. append_heap_page c rid pid) u1 = (Inr (), u2)"
      and md: "mark_catalog_dirty (tx_put_page u2 pid p) = (Inr (), t')" .
    note f1 = on_catalog_facts [OF al] and f2 = on_catalog_facts [OF ap] and fresh = insert_fresh_page [OF p]
    have u2: "tx_base u2" "tx_fits u2" "tr_dirty_pages u2 = tr_dirty_pages t" using b fits(1) f1 f2 by (simp_all add: tx_fits_def)
    have "page_id_fits pid" using fits(2) f1(1) by (simp add: heap_can_grow_def)
    note g = put_page_grows [OF u2(1,2) this, of p]
    from mark_catalog_dirty_grows [OF tx_put_page_facts(2) [OF u2(1) fresh(3,6)] g(1) md] g(2) u2(3) show ?thesis by simp
  qed
qed

lemma allocate_page_id_catalog_ok: "allocate_page_id c = (r, c') \<Longrightarrow> catalog_ok c \<Longrightarrow> catalog_ok c'"
  by (auto simp: allocate_page_id_def catalog_ok_def split: option.splits)

lemma tx_insert_row_catalog_ok:
  assumes "tx_insert_row t rid bytes = (Inr row, t')" "catalog_ok (tr_working_catalog t)"
  shows "catalog_ok (tr_working_catalog t')"
proof -
  from tx_insert_row_cases [OF assms(1)] obtain r found t1 where
    i: "tx_insert_into_pages t bytes (relation_heap_pages r) = (Inr found, t1)"
    and k: "(case found of Some x \<Rightarrow> row = x \<and> t' = t1 | None \<Rightarrow> tx_insert_into_new_page t1 rid bytes = (Inr row, t'))" .
  show ?thesis
  proof (cases found)
    case None
    with tx_insert_into_pages_cases [OF i] k have "tx_insert_into_new_page t rid bytes = (Inr row, t')" by simp
    from tx_insert_into_new_page_Inr [OF this] obtain pid u1 slot p u2 where
      al: "on_catalog allocate_page_id t = (Inr pid, u1)" and ap: "on_catalog (\<lambda>c. append_heap_page c rid pid) u1 = (Inr (), u2)"
      and md: "mark_catalog_dirty (tx_put_page u2 pid p) = (Inr (), t')" .
    have "catalog_ok (tr_working_catalog u1)"
      by (rule allocate_page_id_catalog_ok [OF on_catalog_facts(1) [OF al] assms(2)])
    then have "catalog_ok (tr_working_catalog u2)" by (rule append_heap_page_ok [OF on_catalog_facts(1) [OF ap]])
    moreover have "tr_working_catalog t' = tr_working_catalog u2"
      using md by (auto simp: mark_catalog_dirty_def tx_put_page_def split: sum.splits)
    ultimately show ?thesis by simp
  next
    case (Some x)
    with tx_insert_into_pages_cases [OF i] k assms(2) show ?thesis by (auto simp: tx_put_page_def)
  qed
qed

section \<open>A transaction that inserts a row\<close>

text \<open>On a working disk, beginning, inserting and committing all succeed.\<close>

lemma insert_transaction:
  assumes wf: "store_wf (ts_store m)" "persisted (ts_store m)" and log: "log_holds m rs0"
    and disk: "store_writes_ok (ts_store m)" "writes_ok (ts_log m)" "length (fl_bytes (ts_log m)) + 16544 \<le> MAX_FILE_SIZE"
    and free: "\<not> ts_active_writer m" "unat (ts_next_tx_id m) + 1 < 2 ^ 64"
    and tab: "relation_by_id (cs_catalog (ts_store m)) rid = Some r" "ri_kind r = RelTable" "length bytes \<le> 4056"
      "heap_can_grow (cs_catalog (ts_store m)) rid"
  obtains t m1 row u l m' where "tx_begin m = (Inr t, m1)" "tx_wf t" "tx_insert_row t rid bytes = (Inr row, u)" "tx_run t u" "tx_wf u" "tx_staged u"
    "tr_manager u = m1" "tr_tx_id u = TxId (ts_next_tx_id m)" "tx_file u = ts_file m" "ts_store m1 = ts_store m"
    "log_holds m1 (rs0 @ [\<lparr>wr_lsn = l, wr_kind = BeginTx (TxId (ts_next_tx_id m))\<rparr>])" "tx_commit u = (Inr (), m')"
    "tx_full_scan t rid = ts_full_scan m rid" "tx_fits u" "tr_working_catalog t = cs_catalog (ts_store m)"
proof -
  have ww: "wal_wf (ts_wal m)" using log by (simp add: log_holds_def)
  from begin_ok [OF free ww disk(2)] disk(3) obtain t m1 where beg: "tx_begin m = (Inr t, m1)" by auto
  from begin_facts [OF wf log beg] obtain l where t: "tx_wf t" "tx_staged t" "tr_manager t = m1" "ts_store m1 = ts_store m"
    "log_holds m1 (rs0 @ [\<lparr>wr_lsn = l, wr_kind = BeginTx (tr_tx_id t)\<rparr>])" "tr_tx_id t = TxId (ts_next_tx_id m)"
    "tr_working_catalog t = cs_catalog (ts_store m)" "tr_dirty_pages t = []" "tx_file t = ts_file m"
    "length (fl_bytes (ts_log m1)) = length (fl_bytes (ts_log m)) + 40" "writes_ok (ts_log m) \<longrightarrow> writes_ok (ts_log m1)" .
  from tx_insert_row_ok [OF t(1), of rid r bytes] tab t(7) obtain row u where ins: "tx_insert_row t rid bytes = (Inr row, u)" by auto
  note added = tx_insert_row_added [OF t(1) ins]
  have u: "tr_manager u = m1" "tr_tx_id u = TxId (ts_next_tx_id m)" "tx_file u = ts_file m" "tr_state u = Active"
    using added(2,3) t(3,6,9) by (simp_all add: tx_frame_def tx_file_def tx_wf_def)
  have bt: "tx_base t" "tx_base u" using t(1) added(2) by (simp_all add: tx_wf_def)
  from tx_insert_row_grows [OF t(1) tx_fits_base [OF bt(1) t(8)] _ ins] tab(4) t(7,8)
  have g: "tx_fits u" "length (tr_dirty_pages u) \<le> 2" by simp_all
  have "\<exists>m'. commit_pages u = (Inr (), m')"
    by (rule commit_pages_ok [OF bt(2)])
      (use t(5,10,11) disk u g tx_fits_values [OF bt(2) g(1)] in \<open>simp_all add: log_holds_def store_writes_ok_def ts_file_def\<close>)
  then obtain m' where "tx_commit u = (Inr (), m')" using u(4) by (auto simp: tx_commit_def ensure_active_def)
  moreover have "tx_full_scan t rid = ts_full_scan m rid"
    using tx_full_scan_view [OF t(1)] store_full_scan_view [OF wf(1)] t(7,8,9)
    by (simp add: ts_full_scan_def tx_pages_def store_pages_def ts_file_def)
  ultimately show thesis
    using beg ins tx_run.insert_row [OF tx_run.start ins] added(2) added(4) t u g(1) by (intro that [of t m1 row u l m']) simp_all
qed

lemma sample_transaction:
  assumes "wal_wf w" "reads_ok (ww_file w)" "writes_ok (ww_file w)" "read_all (ww_file w) = Inr rs0" "length (fl_bytes (ww_file w)) \<le> 10000"
  obtains s t m1 row u l m' where "tx_begin (ts_new s w) = (Inr t, m1)" "store_wf s" "persisted s" "cs_catalog s = sample_catalog"
    "tx_insert_row t (RelationId 1) [1, 2, 3] = (Inr row, u)" "tx_run t u" "tx_wf t" "tx_wf u" "tx_staged u"
    "tr_manager u = m1" "tr_tx_id u = TxId 1" "tx_file u = cs_page_file s" "ts_store m1 = s"
    "log_holds m1 (rs0 @ [\<lparr>wr_lsn = l, wr_kind = BeginTx (TxId 1)\<rparr>])" "tx_commit u = (Inr (), m')" "store_full_scan s (RelationId 1) = Inr []"
    "tx_full_scan t (RelationId 1) = Inr []" "tx_fits u" "tr_working_catalog t = sample_catalog"
proof -
  from sample_store obtain s0 s where s0: "store_wf s0" "store_create_table s0 ''t'' sample_columns = (Inr (RelationId 1), s)"
    and s: "store_wf s" "persisted s" "store_writes_ok s" "cs_catalog s = sample_catalog" .
  note scan = store_create_table_Inr(3) [OF s0]
  let ?m = "ts_new s w"
  have m: "ts_store ?m = s" "log_holds ?m rs0" "writes_ok (ts_log ?m)" "length (fl_bytes (ts_log ?m)) + 16544 \<le> MAX_FILE_SIZE"
    "\<not> ts_active_writer ?m" "unat (ts_next_tx_id ?m) + 1 < 2 ^ 64" "ts_next_tx_id ?m = 1" "ts_file ?m = cs_page_file s"
    using assms by (simp_all add: ts_new_def log_holds_def ts_log_def MAX_FILE_SIZE_def ts_file_def)
  have rel: "relation_by_id (cs_catalog s) (RelationId 1) = Some sample_relation" "length [1, 2, 3 :: u8] \<le> 4056"
    "heap_can_grow (cs_catalog s) (RelationId 1)" "unat (1 :: u64) + 1 < 2 ^ 64"
    using sample_relation_by_id sample_can_grow s(4) by simp_all
  from insert_transaction [of ?m, unfolded m(1,7,8), OF s(1,2) m(2) s(3) m(3-5) rel(4,1) sample_relation_by_id(2) rel(2,3)]
  obtain t m1 row u l m' where
    "tx_begin ?m = (Inr t, m1)" "tx_wf t" "tx_insert_row t (RelationId 1) [1, 2, 3] = (Inr row, u)" "tx_run t u" "tx_wf u" "tx_staged u"
    "tr_manager u = m1" "tr_tx_id u = TxId 1" "tx_file u = cs_page_file s" "ts_store m1 = s"
    "log_holds m1 (rs0 @ [\<lparr>wr_lsn = l, wr_kind = BeginTx (TxId 1)\<rparr>])" "tx_commit u = (Inr (), m')"
    "tx_full_scan t (RelationId 1) = ts_full_scan ?m (RelationId 1)" "tx_fits u" "tr_working_catalog t = cs_catalog s" .
  with s scan show thesis by (intro that [of s t m1 row u l m']) (simp_all add: ts_full_scan_def m(1))
qed

text \<open>Recovery over the two files that a successful commit leaves.\<close>

lemma sample_recovery:
  assumes wf: "tx_wf u" "tx_fits u" and log: "log_holds (tr_manager u) rs0" "log_ok rs0" "log_pages rs0 = []" "tx_silent (tr_tx_id u) rs0"
    and com: "tx_commit u = (Inr (), m')"
  obtains rs db pf' where "read_all (ts_log m') = Inr rs" "map wr_kind rs = map wr_kind rs0 @ tx_kinds u"
    "recover_page_file \<lparr>pf_file = quiet_file (fl_bytes (pf_file (ts_file m')))\<rparr> (ts_log m') = (Inr db, pf')"
proof -
  have b: "tx_base u" and a: "tr_state u = Active" using wf(1) by (simp_all add: tx_wf_def)
  from commit_outcome(1) [OF b a log(1) com] obtain rs where rs: "read_all (ts_log m') = Inr (rs0 @ rs)" "map wr_kind rs = tx_kinds u"
    by (auto simp: commit_logged_def log_holds_def)
  note lp = log_pages_full [OF b log(4) rs(2)]
  have "\<exists>db pf'. recover_page_file \<lparr>pf_file = quiet_file (fl_bytes (pf_file (ts_file m')))\<rparr> (ts_log m') = (Inr db, pf')"
    by (rule recover_succeeds [OF rs(1)]) (use lp log(2,3) tx_fits_values [OF b wf(2)] in simp_all)
  with rs show thesis by (auto intro: that)
qed

lemma begin_record_log:
  "tx_silent tx [\<lparr>wr_lsn = l, wr_kind = BeginTx tx'\<rparr>]" "log_pages [\<lparr>wr_lsn = l, wr_kind = BeginTx tx'\<rparr>] = []"
  "log_ok [\<lparr>wr_lsn = l, wr_kind = BeginTx tx'\<rparr>]" "committed_page [\<lparr>wr_lsn = l, wr_kind = BeginTx tx'\<rparr>] = Map.empty"
  by (simp_all add: tx_silent_def log_pages_kinds log_ok_kinds kind_wins_def committed_page_def)

lemma first_transaction:
  obtains s t m1 row u l m' where "tx_begin (ts_new s empty_wal) = (Inr t, m1)" "store_wf s" "persisted s" "cs_catalog s = sample_catalog"
    "tx_insert_row t (RelationId 1) [1, 2, 3] = (Inr row, u)" "tx_run t u" "tx_wf t" "tx_wf u" "tx_staged u"
    "tr_manager u = m1" "tr_tx_id u = TxId 1" "tx_file u = cs_page_file s" "ts_store m1 = s"
    "log_holds m1 [\<lparr>wr_lsn = l, wr_kind = BeginTx (TxId 1)\<rparr>]" "tx_commit u = (Inr (), m')" "store_full_scan s (RelationId 1) = Inr []"
    "tx_full_scan t (RelationId 1) = Inr []" "tx_fits u" "tr_working_catalog t = sample_catalog"
proof -
  have "length (fl_bytes (ww_file empty_wal)) \<le> 10000" by simp
  then show thesis by (rule sample_transaction [OF empty_wal_ok(1-4), unfolded append_Nil]) (rule that, assumption+)
qed

text \<open>What recovery finds after a commit that may have stopped anywhere.\<close>

lemma commit_recovers:
  assumes "tx_base t" and "tr_state t = Active" and "log_holds (tr_manager t) rs0" and "log_ok rs0"
    and "tx_silent (tr_tx_id t) rs0" and "pf_pages (tx_file t) ++ committed_page rs0 = pf_pages (tx_file t)"
    and "tx_commit t = (r, m')" and "read_all (ts_log m') = Inr rs"
    and "fl_bytes (pf_file pf) = fl_bytes (pf_file (ts_file m'))" and "recover_page_file pf (ts_log m') = (Inr db, pf')"
  shows "pf_pages pf' = (if CommitTx (tr_tx_id t) \<in> wr_kind ` set rs then tx_pages t else pf_pages (tx_file t)) \<and>
    (r = Inr () \<longrightarrow> CommitTx (tr_tx_id t) \<in> wr_kind ` set rs) \<and> pf_wf pf' \<and> log_ok rs"
proof -
  have full: "CommitTx (tr_tx_id t) \<in> wr_kind ` set (rs0 @ rs1)" if "map wr_kind rs1 = tx_kinds t" for rs1
    using arg_cong [OF that, of set] by (auto simp: tx_kinds_def)
  have pf: "pf_pages pf = pf_pages (ts_file m')" "pf_clean pf = pf_clean (ts_file m')"
    using assms(9) by (simp_all add: pf_pages_def pf_clean_def)
  have wf: "pf_wf (tx_file t)" using assms(1) by (simp add: tx_base_def)
  from commit_outcome(1) [OF assms(1-3,7)] show ?thesis
  proof (elim disjE conjE exE)
    fix e assume r: "r = Inl e" and "commit_unlogged t rs0 m'"
    then obtain rs1 n where same: "ts_file m' = tx_file t" and rs: "rs = rs0 @ rs1" "map wr_kind rs1 = take n (tx_kinds t)"
      using assms(8) by (auto simp: commit_unlogged_def ts_file_def tx_file_def)
    show ?thesis
    proof (cases "n < length (tx_kinds t)")
      case True
      note lp = log_pages_partial [OF assms(5) rs(2) True]
      have "committed_page rs = committed_page rs0" by (simp only: committed_page_def rs(1) lp(1))
      with assms(6) have inst: "pf_pages (tx_file t) ++ committed_page rs = pf_pages (tx_file t)" by simp
      have ok: "log_ok rs" using lp(2) assms(4) rs(1) by simp
      from recovered_unchanged [OF wf ok inst assms(8) assms(9) [unfolded same] assms(10)] lp(3) rs(1) r ok show ?thesis by simp
    next
      case False
      then have k: "map wr_kind rs1 = tx_kinds t" using rs(2) by simp
      have "file_wf (pf_file pf)" "\<forall>q. pf_clean pf q" using wf pf same assms(9) by (simp_all add: pf_wf_def file_wf_def pf_wf_clean [OF wf])
      from recovered_committed [OF assms(1,5,4,6) k this(1) _ assms(8) [unfolded rs(1)] assms(10)] this(2) pf same full [OF k] rs(1) r
        log_pages_full(2) [OF assms(1,5) k] assms(4) show ?thesis by simp
    qed
  next
    assume "commit_logged t rs0 m'"
    then obtain rs1 where rs: "rs = rs0 @ rs1" and k: "map wr_kind rs1 = tx_kinds t" and fwf: "file_wf (pf_file pf)"
      and same: "\<forall>q. q \<notin> page_id_of ` set (dirty_values t) \<longrightarrow> pf_pages pf q = pf_pages (tx_file t) q \<and> pf_clean pf q"
      using assms(8,9) pf by (auto simp: commit_logged_def log_holds_def file_wf_def)
    from recovered_committed [OF assms(1,5,4,6) k fwf same assms(8) [unfolded rs] assms(10)] full [OF k] rs
      log_pages_full(2) [OF assms(1,5) k] assms(4) show ?thesis by simp
  qed
qed

section \<open>Properties\<close>

text \<open>C3: a commit is atomic at every point where it can stop (failed or torn log append, failed
  log sync, failed or torn page write, failed data sync): if the log can still be read, recovery
  over the files it left gives either exactly the pages the transaction saw or exactly the pages
  before it, depending on whether the log holds its commit record; after a successful commit it
  does. The transaction id must be new to the log and the data file up to date with it.\<close>

theorem commit_is_atomic:
  assumes "tx_base t" and "tr_state t = Active" and "log_holds (tr_manager t) rs0" and "log_ok rs0"
    and "tx_silent (tr_tx_id t) rs0" and "pf_pages (tx_file t) ++ committed_page rs0 = pf_pages (tx_file t)"
    and "tx_commit t = (r, m')" and "read_all (ts_log m') = Inr rs"
    and "fl_bytes (pf_file pf) = fl_bytes (pf_file (ts_file m'))" and "recover_page_file pf (ts_log m') = (Inr db, pf')"
  shows "pf_pages pf' = (if CommitTx (tr_tx_id t) \<in> wr_kind ` set rs then tx_pages t else pf_pages (tx_file t)) \<and>
    (r = Inr () \<longrightarrow> CommitTx (tr_tx_id t) \<in> wr_kind ` set rs)"
  using commit_recovers [OF assms] by blast

theorem commit_is_atomic_witness:
  "\<exists>s t m1 row u m' db pf'. tx_begin (ts_new s empty_wal) = (Inr t, m1) \<and> tx_insert_row t (RelationId 1) [1, 2, 3] = (Inr row, u) \<and>
     tx_commit u = (Inr (), m') \<and>
     recover_page_file \<lparr>pf_file = quiet_file (fl_bytes (pf_file (ts_file m')))\<rparr> (ts_log m') = (Inr db, pf') \<and> pf_pages pf' = tx_pages u"
proof -
  from first_transaction obtain s t m1 row u l m' where
    t: "tx_begin (ts_new s empty_wal) = (Inr t, m1)" "tx_insert_row t (RelationId 1) [1, 2, 3] = (Inr row, u)"
    and u: "tx_wf u" "tr_manager u = m1" "tx_fits u" "tx_commit u = (Inr (), m')"
    and log: "log_holds m1 [\<lparr>wr_lsn = l, wr_kind = BeginTx (TxId 1)\<rparr>]" .
  let ?rs0 = "[\<lparr>wr_lsn = l, wr_kind = BeginTx (TxId 1)\<rparr>]"
  have log': "log_holds (tr_manager u) ?rs0" using log u(2) by simp
  from sample_recovery [OF u(1,3) log' begin_record_log(3,2,1) u(4)] obtain rs db pf' where
    rs: "read_all (ts_log m') = Inr rs"
    and rec: "recover_page_file \<lparr>pf_file = quiet_file (fl_bytes (pf_file (ts_file m')))\<rparr> (ts_log m') = (Inr db, pf')" .
  have "tx_base u" "tr_state u = Active" using u(1) by (simp_all add: tx_wf_def)
  from commit_is_atomic [OF this log' begin_record_log(3,1) _ u(4) rs _ rec] have "pf_pages pf' = tx_pages u"
    by (simp add: begin_record_log(4) quiet_file_def)
  with t u(4) rec show ?thesis by blast
qed

text \<open>C16: after a successful commit the store shows exactly what the transaction saw, for every
  relation, with the transaction's catalog, saved on its page; both files are durable up to their last
  byte.\<close>

theorem commit_publishes_transaction:
  assumes "tx_wf t" and "tx_staged t" and "log_holds (tr_manager t) rs0" and "tx_commit t = (Inr (), m')"
  shows "store_wf (ts_store m') \<and> persisted (ts_store m') \<and> cs_catalog (ts_store m') = tr_working_catalog t \<and>
    (\<forall>rid. ts_full_scan m' rid = tx_full_scan t rid) \<and>
    fl_durable (ts_log m') = fl_bytes (ts_log m') \<and> fl_durable (pf_file (ts_file m')) = fl_bytes (pf_file (ts_file m'))"
proof -
  note c = committed_store_wf [OF assms(1,3,4)]
  have "tx_base t" "tr_state t = Active" using assms(1) by (simp_all add: tx_wf_def)
  from commit_outcome(1) [OF this assms(3,4)] have "commit_logged t rs0 m'" "commit_done t m'" by auto
  then have "fl_durable (ts_log m') = fl_bytes (ts_log m')" "fl_durable (pf_file (ts_file m')) = fl_bytes (pf_file (ts_file m'))"
    by (simp_all add: commit_logged_def commit_done_def)
  moreover have "ts_full_scan m' rid = tx_full_scan t rid" for rid
    using store_full_scan_view [OF c(1)] tx_full_scan_view [OF assms(1)] c(2,3) by (simp add: ts_full_scan_def)
  ultimately show ?thesis using c assms(2) by simp
qed

theorem commit_publishes_transaction_witness:
  "\<exists>s t m1 row u m'. tx_begin (ts_new s empty_wal) = (Inr t, m1) \<and> tx_insert_row t (RelationId 1) [1, 2, 3] = (Inr row, u) \<and>
     tx_commit u = (Inr (), m') \<and> ts_full_scan m' (RelationId 1) = tx_full_scan u (RelationId 1)"
proof -
  from first_transaction obtain s t m1 row u l m' where
    t: "tx_begin (ts_new s empty_wal) = (Inr t, m1)" "tx_insert_row t (RelationId 1) [1, 2, 3] = (Inr row, u)"
    and u: "tx_wf u" "tx_staged u" "tr_manager u = m1" "tx_commit u = (Inr (), m')"
    and log: "log_holds m1 [\<lparr>wr_lsn = l, wr_kind = BeginTx (TxId 1)\<rparr>]" .
  from commit_publishes_transaction [OF u(1,2) _ u(4), unfolded u(3), OF log] t u(4) show ?thesis by blast
qed

text \<open>C13: the write-ahead rule: a commit changes the bytes of the data file only after the log, durable up to
  its last byte, holds an image of every page of the transaction and its commit record. This holds for failed
  commits too.\<close>

theorem log_is_durable_before_data:
  assumes "tx_base t" and "tr_state t = Active" and "log_holds (tr_manager t) rs0" and "tx_commit t = (r, m')"
    and "fl_bytes (pf_file (ts_file m')) \<noteq> fl_bytes (pf_file (tx_file t))"
  shows "fl_durable (ts_log m') = fl_bytes (ts_log m') \<and>
    (\<exists>rs. read_all (ts_log m') = Inr rs \<and> CommitTx (tr_tx_id t) \<in> wr_kind ` set rs \<and>
       (\<forall>p \<in> set (bmap_values (tr_dirty_pages t)). PageImage (tr_tx_id t) (page_id_of p) (page_bytes p) \<in> wr_kind ` set rs))"
proof -
  have "\<not> commit_unlogged t rs0 m'" using assms(5) by (auto simp: commit_unlogged_def ts_file_def tx_file_def)
  with commit_outcome(1) [OF assms(1-4)] have "commit_logged t rs0 m'" by blast
  then obtain rs where rs: "read_all (ts_log m') = Inr (rs0 @ rs)" "map wr_kind rs = tx_kinds t"
    and d: "fl_durable (ts_log m') = fl_bytes (ts_log m')" by (auto simp: commit_logged_def log_holds_def)
  have "wr_kind ` set rs = set (tx_kinds t)" using arg_cong [OF rs(2), of set] by simp
  with rs(1) d show ?thesis by (auto simp: tx_kinds_def image_kind_def dirty_values_def)
qed

theorem log_is_durable_before_data_witness:
  "\<exists>u m' rs. fl_bytes (pf_file (ts_file m')) \<noteq> fl_bytes (pf_file (tx_file u)) \<and> tx_commit u = (Inr (), m') \<and>
     read_all (ts_log m') = Inr rs \<and> CommitTx (tr_tx_id u) \<in> wr_kind ` set rs"
proof -
  from first_transaction obtain s t m1 row u l m' where t: "tx_insert_row t (RelationId 1) [1, 2, 3] = (Inr row, u)" "tx_wf t"
    "tx_full_scan t (RelationId 1) = Inr []" "store_wf s" "store_full_scan s (RelationId 1) = Inr []" "cs_catalog s = sample_catalog"
    "tr_working_catalog t = sample_catalog" "persisted s"
    and u: "tx_wf u" "tx_staged u" "tr_manager u = m1" "tx_commit u = (Inr (), m')" "tx_file u = cs_page_file s"
    and log: "log_holds m1 [\<lparr>wr_lsn = l, wr_kind = BeginTx (TxId 1)\<rparr>]" .
  have b: "tx_base u" "tr_state u = Active" using u(1) by (simp_all add: tx_wf_def)
  have log': "log_holds (tr_manager u) [\<lparr>wr_lsn = l, wr_kind = BeginTx (TxId 1)\<rparr>]" using log u(3) by simp
  note c = committed_store_wf [OF u(1) log' u(4)]
  have ne: "fl_bytes (pf_file (ts_file m')) \<noteq> fl_bytes (pf_file (tx_file u))"
  proof
    assume "fl_bytes (pf_file (ts_file m')) = fl_bytes (pf_file (tx_file u))"
    then have same: "tx_pages u = store_pages s" using c(2) u(5) by (simp add: store_pages_def pf_pages_def ts_file_def)
    have ok: "catalog_ok (tr_working_catalog u)" using tx_insert_row_catalog_ok [OF t(1)] t(7) t(6) sample_catalog_ok by simp
    from u(2) t(8) same obtain p where p: "to_page (tr_working_catalog u) = Inr p" "to_page (cs_catalog s) = Inr p"
      "pf_pages (cs_page_file s) (PageId 0) = Some p" by (auto simp: tx_staged_def persisted_def store_pages_def)
    have f: "reads_ok (pf_file (cs_page_file s))" "file_wf (pf_file (cs_page_file s))" using t(4) by (simp_all add: store_wf_def pf_wf_def)
    have "catalog_ok (cs_catalog s)" using t(6) sample_catalog_ok by simp
    from catalog_load_page [OF this p(2) f p(3)] catalog_load_page [OF ok p(1) f p(3)]
    have cat: "tr_working_catalog u = cs_catalog s" by simp
    from tx_insert_row_added(1) [OF t(2,1)] have "view_scan (tr_working_catalog u) (tx_pages u) (RelationId 1) \<noteq> Inr []"
      by (auto simp: view_row_added_def)
    moreover have "view_scan (tr_working_catalog u) (tx_pages u) (RelationId 1) = Inr []"
      using t(5) store_full_scan_view [OF t(4)] by (simp add: cat same)
    ultimately show False by simp
  qed
  from log_is_durable_before_data [OF b log' u(4) ne] ne u(4) show ?thesis by blast
qed

text \<open>C18: whatever a transaction did, failed calls included, the store does not change before
  commit, and rolling the transaction back or dropping it leaves the store exactly as it was, also when the
  abort record cannot be written.\<close>

theorem abandoned_transaction_leaves_no_trace:
  assumes "tx_begin m = (Inr t, m1)" and "tx_run t u"
  shows "ts_store (tr_manager u) = ts_store m \<and> ts_store (snd (tx_rollback u)) = ts_store m \<and> ts_store (tx_drop u) = ts_store m"
proof -
  from begin_state(1) [OF assms(1)] tx_run_frame [OF assms(2)] have u: "ts_store (tr_manager u) = ts_store m" by (simp add: tx_frame_def)
  have "ts_store (snd (bindS (ts_append (tr_manager u) (AbortTx (tr_tx_id u))) (\<lambda>_ m1. ts_sync_wal m1))) = ts_store m"
    by (rule bindS_inv [where P = "\<lambda>x. ts_store x = ts_store m"]) (auto simp: ts_append_def ts_sync_wal_def u split: prod.splits)
  then have "ts_store (snd (tx_rollback u)) = ts_store m"
    by (auto simp: tx_rollback_def tx_drop_def finish_writer_def u split: prod.splits sum.splits)
  then show ?thesis using u by (simp add: tx_drop_def finish_writer_def)
qed

theorem abandoned_transaction_leaves_no_trace_witness:
  "\<exists>s t m1 row u. tx_begin (ts_new s empty_wal) = (Inr t, m1) \<and> tx_insert_row t (RelationId 1) [1, 2, 3] = (Inr row, u) \<and>
     ts_store (snd (tx_rollback u)) = s"
proof -
  from first_transaction obtain s t m1 row u where
    t: "tx_begin (ts_new s empty_wal) = (Inr t, m1)" "tx_insert_row t (RelationId 1) [1, 2, 3] = (Inr row, u)" "tx_run t u" .
  from abandoned_transaction_leaves_no_trace [OF t(1,3)] have "ts_store (snd (tx_rollback u)) = s" by (simp add: ts_new_def)
  with t show ?thesis by blast
qed

text \<open>C17: there is one writer at a time: while a transaction runs, beginning another fails with a
  retryable error and changes nothing; committing, rolling back and dropping it all free the writer, whether
  they succeed or not.\<close>

theorem one_writer_at_a_time:
  assumes "tx_begin m = (Inr t, m1)" and "tx_run t u"
  shows "tx_begin (tr_manager u) = (Inl (Retryable msg_writer_active), tr_manager u) \<and>
    \<not> ts_active_writer (snd (tx_commit u)) \<and> \<not> ts_active_writer (snd (tx_rollback u)) \<and> \<not> ts_active_writer (tx_drop u)"
proof -
  from begin_state(2,3) [OF assms(1)] tx_run_frame [OF assms(2)] have u: "ts_active_writer (tr_manager u)" "tr_state u = Active" by (simp_all add: tx_frame_def)
  obtain r m' where c: "tx_commit u = (r, m')" by fastforce
  have "\<not> ts_active_writer m'" using tx_commit_cases [OF u(2) c] by blast
  with u c show ?thesis
    by (auto simp: tx_begin_def tx_rollback_def ensure_active_def tx_drop_def finish_writer_def split: prod.splits)
qed

theorem one_writer_at_a_time_witness:
  "\<exists>s t m1. tx_begin (ts_new s empty_wal) = (Inr t, m1) \<and>
     tx_begin (tr_manager t) = (Inl (Retryable msg_writer_active), tr_manager t) \<and> \<not> ts_active_writer (tx_drop t)"
proof -
  from first_transaction obtain s t m1 where t: "tx_begin (ts_new s empty_wal) = (Inr t, m1)" .
  from one_writer_at_a_time [OF t tx_run.start] t show ?thesis by blast
qed

text \<open>A row inserted in a transaction is seen by the scans of that transaction, as one new row
  among the rows it saw before; other relations do not change, and neither does what the store shows
  to everybody else.\<close>

theorem transaction_sees_its_insert:
  assumes "tx_wf t" and "tx_insert_row t rid bytes = (Inr row, t')"
  shows "tx_wf t' \<and> (\<exists>xs ys. tx_full_scan t rid = Inr (xs @ ys) \<and>
       tx_full_scan t' rid = Inr (xs @ \<lparr>hr_row_id = row, hr_bytes = bytes\<rparr> # ys)) \<and>
    (\<forall>rid2. rid2 \<noteq> rid \<longrightarrow> tx_full_scan t' rid2 = tx_full_scan t rid2) \<and>
    (\<forall>rid2. ts_full_scan (tr_manager t') rid2 = ts_full_scan (tr_manager t) rid2)"
proof -
  note a = tx_insert_row_added [OF assms]
  show ?thesis
    using a(1,3) tx_full_scan_view [OF assms(1)] tx_full_scan_view [OF a(2)] a(2) by (simp add: view_row_added_def tx_frame_def)
qed

theorem transaction_sees_its_insert_witness:
  "\<exists>s t m1 row u. tx_begin (ts_new s empty_wal) = (Inr t, m1) \<and> tx_insert_row t (RelationId 1) [1, 2, 3] = (Inr row, u) \<and>
     tx_full_scan u (RelationId 1) = Inr [\<lparr>hr_row_id = row, hr_bytes = [1, 2, 3]\<rparr>]"
proof -
  from first_transaction obtain s t m1 row u where
    t: "tx_begin (ts_new s empty_wal) = (Inr t, m1)" "tx_insert_row t (RelationId 1) [1, 2, 3] = (Inr row, u)" "tx_wf t"
    "tx_full_scan t (RelationId 1) = Inr []" .
  from transaction_sees_its_insert [OF t(3,2)] t show ?thesis by fastforce
qed

text \<open>What an autocommit insertion did when it succeeded.\<close>

lemma insert_autocommit_Inr:
  assumes "insert_row_autocommit m rid bytes = (Inr row, m')"
  obtains t m1 u where "tx_begin m = (Inr t, m1)" "tx_insert_row t rid bytes = (Inr row, u)" "tx_commit u = (Inr (), m')"
proof -
  from assms obtain t m1 where t: "tx_begin m = (Inr t, m1)"
    and k: "(case tx_insert_row t rid bytes of (Inl e, t1) \<Rightarrow> (Inl e, tx_drop t1)
      | (Inr x, t1) \<Rightarrow> bindS (tx_commit t1) (\<lambda>_ m1. (Inr x, m1))) = (Inr row, m')"
    by (auto simp: insert_row_autocommit_def autocommit_def bindS_eq_Inr)
  obtain r u where u: "tx_insert_row t rid bytes = (r, u)" by fastforce
  with t k show thesis by (cases r) (auto simp: bindS_eq_Inr intro: that)
qed

lemma insert_autocommit_facts:
  assumes wf: "store_wf (ts_store m)" "persisted (ts_store m)" "log_holds m rs0"
    and ins: "insert_row_autocommit m rid bytes = (Inr row, m')"
  shows "store_wf (ts_store m')" "persisted (ts_store m')"
    "catalog_ok (cs_catalog (ts_store m)) \<Longrightarrow> catalog_ok (cs_catalog (ts_store m'))"
    "view_row_added (cs_catalog (ts_store m)) (store_pages (ts_store m)) (cs_catalog (ts_store m')) (store_pages (ts_store m')) rid row bytes"
    "fl_durable (pf_file (ts_file m')) = fl_bytes (pf_file (ts_file m'))"
proof -
  from insert_autocommit_Inr [OF ins] obtain t m1 u where
    t: "tx_begin m = (Inr t, m1)" and i: "tx_insert_row t rid bytes = (Inr row, u)" and c: "tx_commit u = (Inr (), m')" .
  from begin_facts [OF wf t] obtain l where b: "tx_wf t" "tx_staged t" "tr_manager t = m1"
    "log_holds m1 (rs0 @ [\<lparr>wr_lsn = l, wr_kind = BeginTx (tr_tx_id t)\<rparr>])" "tr_working_catalog t = cs_catalog (ts_store m)"
    "tr_dirty_pages t = []" "tx_file t = ts_file m" .
  note a = tx_insert_row_added [OF b(1) i]
  have log: "log_holds (tr_manager u) (rs0 @ [\<lparr>wr_lsn = l, wr_kind = BeginTx (tr_tx_id t)\<rparr>])" using a(3) b(3,4) by (simp add: tx_frame_def)
  note cw = committed_store_wf [OF a(2) log c]
  have p: "tx_pages t = store_pages (ts_store m)" using b(6,7) by (simp add: tx_pages_def store_pages_def ts_file_def)
  show "store_wf (ts_store m')" "persisted (ts_store m')" using cw(1) cw(4) [OF a(4) [OF b(2)]] by simp_all
  show "catalog_ok (cs_catalog (ts_store m')) " if "catalog_ok (cs_catalog (ts_store m))"
    using tx_insert_row_catalog_ok [OF i] b(5) cw(3) that by simp
  show "view_row_added (cs_catalog (ts_store m)) (store_pages (ts_store m)) (cs_catalog (ts_store m')) (store_pages (ts_store m')) rid row bytes"
    using a(1) p b(5) cw(2,3) by simp
  have "tx_base u" "tr_state u = Active" using a(2) by (simp_all add: tx_wf_def)
  from commit_outcome(1) [OF this log c] have "commit_done u m'" by auto
  then show "fl_durable (pf_file (ts_file m')) = fl_bytes (pf_file (ts_file m'))" by (simp add: commit_done_def)
qed

text \<open>C12: a row inserted by \<open>insert_row_autocommit\<close> survives a crash right after the call: opening the
  durable bytes of the data file gives a store that reads the row back, with the other relations as they were.\<close>

theorem autocommit_row_survives_crash:
  assumes "store_wf (ts_store m)" and "persisted (ts_store m)" and "catalog_ok (cs_catalog (ts_store m))" and "log_holds m rs0"
    and "insert_row_autocommit m rid bytes = (Inr row, m')"
    and "fl_bytes f = fl_durable (pf_file (ts_file m'))" and "reads_ok f"
  shows "\<exists>s. store_open \<lparr>pf_file = f\<rparr> = (Inr s, \<lparr>pf_file = f\<rparr>) \<and>
    store_read_row s rid row = Inr (Some \<lparr>hr_row_id = row, hr_bytes = bytes\<rparr>) \<and>
    (\<forall>rid2. rid2 \<noteq> rid \<longrightarrow> store_full_scan s rid2 = ts_full_scan m rid2)"
proof -
  note a = insert_autocommit_facts [OF assms(1,2,4,5)]
  let ?s = "ts_store m'\<lparr>cs_page_file := \<lparr>pf_file = f\<rparr>\<rparr>"
  have pg: "store_pages ?s = store_pages (ts_store m')" using assms(6) a(5) by (simp add: store_pages_def pf_pages_def ts_file_def)
  have wf: "store_wf ?s" using a(1,5) assms(6,7) pg by (simp add: store_wf_def pf_wf_def file_wf_def ts_file_def)
  have "persisted ?s" using a(2) pg by (simp add: persisted_def)
  from store_reopen [OF wf this] a(3) [OF assms(3)] have "store_open \<lparr>pf_file = f\<rparr> = (Inr ?s, \<lparr>pf_file = f\<rparr>)" by simp
  moreover have "store_read_row ?s rid row = Inr (Some \<lparr>hr_row_id = row, hr_bytes = bytes\<rparr>)"
    using a(4) by (intro store_read_row_view [OF wf]) (simp add: pg view_row_added_def)
  moreover have "store_full_scan ?s rid2 = ts_full_scan m rid2" if "rid2 \<noteq> rid" for rid2
    using a(4) store_full_scan_view [OF wf] store_full_scan_view [OF assms(1)] that by (simp add: pg view_row_added_def ts_full_scan_def)
  ultimately show ?thesis by blast
qed

lemma sample_autocommit:
  obtains s row m' where "insert_row_autocommit (ts_new s empty_wal) (RelationId 1) [1, 2, 3] = (Inr row, m')"
    "store_wf s" "persisted s" "cs_catalog s = sample_catalog" "log_holds (ts_new s empty_wal) []"
proof -
  from first_transaction obtain s t m1 row u l m' where
    t: "tx_begin (ts_new s empty_wal) = (Inr t, m1)" "tx_insert_row t (RelationId 1) [1, 2, 3] = (Inr row, u)" "tx_commit u = (Inr (), m')"
    "store_wf s" "persisted s" "cs_catalog s = sample_catalog" .
  have "log_holds (ts_new s empty_wal) []" by (simp add: log_holds_def ts_log_def ts_new_def)
  with t show thesis by (intro that [of s row m']) (simp_all add: insert_row_autocommit_def autocommit_def)
qed

theorem autocommit_row_survives_crash_witness:
  "\<exists>s row m' s2. insert_row_autocommit (ts_new s empty_wal) (RelationId 1) [1, 2, 3] = (Inr row, m') \<and>
     store_open \<lparr>pf_file = quiet_file (fl_durable (pf_file (ts_file m')))\<rparr> =
       (Inr s2, \<lparr>pf_file = quiet_file (fl_durable (pf_file (ts_file m')))\<rparr>) \<and>
     store_read_row s2 (RelationId 1) row = Inr (Some \<lparr>hr_row_id = row, hr_bytes = [1, 2, 3]\<rparr>)"
proof -
  from sample_autocommit obtain s row m' where i: "insert_row_autocommit (ts_new s empty_wal) (RelationId 1) [1, 2, 3] = (Inr row, m')"
    and s: "store_wf s" "persisted s" "cs_catalog s = sample_catalog" "log_holds (ts_new s empty_wal) []" .
  let ?f = "quiet_file (fl_durable (pf_file (ts_file m')))"
  have m: "ts_store (ts_new s empty_wal) = s" by (simp add: ts_new_def)
  from autocommit_row_survives_crash [of "ts_new s empty_wal", unfolded m, OF s(1,2) _ s(4) i, of ?f] s(3) sample_catalog_ok i
  show ?thesis by fastforce
qed

text \<open>C29: on working disks with room left, \<open>insert_row_autocommit\<close> into an existing table succeeds
  for every record of at most 4056 bytes, and the row appears in the next scan.\<close>

theorem autocommit_insert_succeeds:
  assumes "store_wf (ts_store m)" and "persisted (ts_store m)" and "log_holds m rs0" and "\<not> ts_active_writer m"
    and "unat (ts_next_tx_id m) + 1 < 2 ^ 64"
    and "writes_ok (pf_file (ts_file m))" and "writes_ok (ts_log m)" and "length (fl_bytes (ts_log m)) + 16544 \<le> MAX_FILE_SIZE"
    and "relation_by_id (cs_catalog (ts_store m)) rid = Some r" and "is_heap_table r" and "length bytes \<le> 4056"
    and "heap_can_grow (cs_catalog (ts_store m)) rid"
  shows "\<exists>row m' xs ys. insert_row_autocommit m rid bytes = (Inr row, m') \<and> ts_full_scan m rid = Inr (xs @ ys) \<and>
    ts_full_scan m' rid = Inr (xs @ \<lparr>hr_row_id = row, hr_bytes = bytes\<rparr> # ys)"
proof -
  have d: "store_writes_ok (ts_store m)" "ri_kind r = RelTable" using assms(6,10) by (simp_all add: store_writes_ok_def ts_file_def is_heap_table_def)
  from insert_transaction [OF assms(1-3) d(1) assms(7,8,4,5,9) d(2) assms(11,12)] obtain t m1 row u l m' where
    "tx_begin m = (Inr t, m1)" "tx_insert_row t rid bytes = (Inr row, u)" "tx_commit u = (Inr (), m')" .
  then have i: "insert_row_autocommit m rid bytes = (Inr row, m')" by (simp add: insert_row_autocommit_def autocommit_def)
  note a = insert_autocommit_facts [OF assms(1-3) i]
  from a(4) store_full_scan_view [OF assms(1)] store_full_scan_view [OF a(1)] i show ?thesis
    by (auto simp: view_row_added_def ts_full_scan_def)
qed

theorem autocommit_insert_succeeds_witness:
  "\<exists>s row m' xs ys. insert_row_autocommit (ts_new s empty_wal) (RelationId 1) [1, 2, 3] = (Inr row, m') \<and>
     ts_full_scan m' (RelationId 1) = Inr (xs @ \<lparr>hr_row_id = row, hr_bytes = [1, 2, 3]\<rparr> # ys)"
proof -
  from sample_store obtain s0 s where s: "store_wf s" "persisted s" "store_writes_ok s" "cs_catalog s = sample_catalog" .
  let ?m = "ts_new s empty_wal"
  have m: "ts_store ?m = s" "log_holds ?m []" "writes_ok (ts_log ?m)" "length (fl_bytes (ts_log ?m)) + 16544 \<le> MAX_FILE_SIZE"
    "\<not> ts_active_writer ?m" "unat (ts_next_tx_id ?m) + 1 < 2 ^ 64" "writes_ok (pf_file (ts_file ?m))"
    using s(3) by (simp_all add: ts_new_def log_holds_def ts_log_def MAX_FILE_SIZE_def ts_file_def store_writes_ok_def)
  have "is_heap_table sample_relation" by (simp add: is_heap_table_def sample_relation_def)
  from autocommit_insert_succeeds [of ?m "[]", unfolded m(1), OF s(1,2) m(2,5,6,7,3,4) _ this, of "RelationId 1" "[1, 2, 3]"]
    sample_relation_by_id(1) sample_can_grow s(4)
  have "\<exists>row m' xs ys. insert_row_autocommit ?m (RelationId 1) [1, 2, 3] = (Inr row, m') \<and>
     ts_full_scan m' (RelationId 1) = Inr (xs @ \<lparr>hr_row_id = row, hr_bytes = [1, 2, 3]\<rparr> # ys)" by fastforce
  then show ?thesis by (rule exI)
qed

end
