(* ===== verification/Rdbms_Tx_Reuse.thy ===== *)
theory Rdbms_Tx_Reuse
  imports Rdbms_Tx_Spec
begin

text \<open>
  \<open>TransactionalStore::new\<close> hands out transaction ids from 1 again, while the log of earlier
  sessions stays in place and recovery decides about transactions by their id alone. What that
  does to the first transaction of a reopened store.
\<close>

section \<open>The log of a reused id\<close>

lemma first_id: "tx_begin (ts_new s w) = (Inr t, m1) \<Longrightarrow> tr_tx_id t = TxId 1"
  using begin_state(5) by (fastforce simp: ts_new_def)

text \<open>What the log of the first transaction of a reopened store holds after its commit.\<close>

lemma first_commit_log:
  assumes beg: "tx_begin (ts_new s w) = (Inr t, m1)" and run: "tx_run t u" and base: "tx_base u"
    and log: "wal_wf w" "reads_ok (ww_file w)" "read_all (ww_file w) = Inr rs0"
    and com: "tx_commit u = (r, m')" and rd: "read_all (ts_log m') = Inr rs"
  obtains n where "map wr_kind rs = map wr_kind rs0 @ BeginTx (TxId 1) # take n (tx_kinds u)" "r = Inr () \<longrightarrow> n = length (tx_kinds u)"
    "tr_tx_id u = TxId 1"
proof -
  from begin_Inr [OF beg] obtain w1 l n where "wal_append (ts_wal (ts_new s w)) (BeginTx (TxId (ts_next_tx_id (ts_new s w)))) = (Inr l, w1)"
    "m1 = \<lparr>ts_store = ts_store (ts_new s w), ts_wal = w1, ts_next_tx_id = n, ts_active_writer = True\<rparr>" .
  then have w1: "wal_append w (BeginTx (TxId 1)) = (Inr l, w1)" and m1: "ts_wal m1 = w1" by (simp_all add: ts_new_def)
  have k: "kind_wf (BeginTx (TxId 1))" by (simp add: kind_wf_def)
  note a = wal_append_read_all [OF log(1,2) k log(3) w1]
  let ?rs = "rs0 @ [\<lparr>wr_lsn = wal_next_lsn w, wr_kind = BeginTx (TxId 1)\<rparr>]"
  have fr: "tr_manager u = m1" "tr_tx_id u = TxId 1" "tr_state u = Active"
    using tx_run_frame [OF run] begin_state [OF beg] first_id [OF beg] by (simp_all add: tx_frame_def)
  have lh: "log_holds (tr_manager u) ?rs" using a m1 fr(1) by (simp add: log_holds_def ts_log_def)
  from commit_outcome(1) [OF base fr(3) lh com] show thesis
  proof (elim disjE conjE exE)
    fix e assume "r = Inl e" "commit_unlogged u ?rs m'"
    with rd show thesis using fr(2) by (auto simp: commit_unlogged_def intro!: that)
  next
    assume "commit_logged u ?rs m'"
    with rd show thesis using fr(2) by (auto simp: commit_logged_def log_holds_def intro!: that [of "length (tx_kinds u)"])
  qed
qed

text \<open>Two logs for the witnesses: a rolled back transaction, and one cut off before its commit record.\<close>

definition aborted_kinds :: "wal_record_kind list" where
  "aborted_kinds = [BeginTx (TxId 1), AbortTx (TxId 1)]"

definition unfinished_kinds :: "wal_record_kind list" where
  "unfinished_kinds = [BeginTx (TxId 1), PageImage (TxId 1) (PageId 7) (page_bytes (page_new (PageId 7) Heap))]"

lemma wal_append_all_length:
  assumes "wal_wf w" "\<forall>k \<in> set ks. kind_wf k" "wal_append_all w ks = (Inr (), w')"
  shows "length (fl_bytes (ww_file w')) \<le> length (fl_bytes (ww_file w)) + 4136 * length ks"
  using assms
proof (induction ks arbitrary: w)
  case (Cons k ks)
  then obtain l w1 where w1: "wal_append w k = (Inr l, w1)" "wal_append_all w1 ks = (Inr (), w')"
    by (auto simp: bindS_eq_Inr)
  have k: "kind_wf k" using Cons.prems(2) by simp
  note a = wal_append_Inr [OF Cons.prems(1) k w1(1)]
  have "length (record_bytes \<lparr>wr_lsn = wal_next_lsn w, wr_kind = k\<rparr>) \<le> 4136"
    using encode_record_Inr(2) [of "\<lparr>wr_lsn = wal_next_lsn w, wr_kind = k\<rparr>"] kind_payload_length [OF k] k by simp
  with Cons.IH [OF a(2) _ w1(2)] Cons.prems(2) a(4) show ?case by simp
qed simp

lemma old_log:
  assumes "\<forall>k \<in> set ks. kind_wf k" "length ks \<le> 2"
  obtains w rs0 where "wal_append_all empty_wal ks = (Inr (), w)" "wal_wf w" "reads_ok (ww_file w)" "writes_ok (ww_file w)"
    "read_all (ww_file w) = Inr rs0" "map wr_kind rs0 = ks" "length (fl_bytes (ww_file w)) \<le> 10000"
proof -
  have "length (fl_bytes (ww_file empty_wal)) + 4136 * length ks \<le> MAX_FILE_SIZE" using assms(2) by (simp add: MAX_FILE_SIZE_def)
  from wal_append_all_benign [OF empty_wal_ok(1) assms(1) empty_wal_ok(3) this] obtain w where
    w: "wal_append_all empty_wal ks = (Inr (), w)" "writes_ok (ww_file w)" by blast
  from wal_append_all_read_all [OF empty_wal_ok(1,2) assms(1) empty_wal_ok(4) w(1)] obtain rs where
    rs: "read_all (ww_file w) = Inr rs" "map wr_kind rs = ks" "wal_wf w" "file_frame (ww_file empty_wal) (ww_file w)" by auto
  have "reads_ok (ww_file w)" using rs(4) empty_wal_ok(2) by (rule file_frame_ok)
  moreover have "length (fl_bytes (ww_file w)) \<le> 10000"
    using wal_append_all_length [OF empty_wal_ok(1) assms(1) w(1)] assms(2) by simp
  ultimately show thesis using w rs by (intro that)
qed

lemma old_commit:
  assumes "wal_wf w" "reads_ok (ww_file w)" "writes_ok (ww_file w)" "read_all (ww_file w) = Inr rs0" "length (fl_bytes (ww_file w)) \<le> 10000"
  obtains s t m1 row u m' rs where "tx_begin (ts_new s w) = (Inr t, m1)" "tx_insert_row t (RelationId 1) [1, 2, 3] = (Inr row, u)"
    "tx_run t u" "tx_base u" "tx_commit u = (Inr (), m')" "read_all (ts_log m') = Inr rs"
proof -
  from sample_transaction [OF assms] obtain s t m1 row u l m' where
    t: "tx_begin (ts_new s w) = (Inr t, m1)" "tx_insert_row t (RelationId 1) [1, 2, 3] = (Inr row, u)" "tx_run t u" "tx_wf u"
    "tr_manager u = m1" "log_holds m1 (rs0 @ [\<lparr>wr_lsn = l, wr_kind = BeginTx (TxId 1)\<rparr>])" "tx_commit u = (Inr (), m')" .
  have b: "tx_base u" "tr_state u = Active" using t(4) by (simp_all add: tx_wf_def)
  from commit_outcome(1) [OF b t(6) [folded t(5)] t(7)] obtain rs where "read_all (ts_log m') = Inr rs"
    by (auto simp: commit_logged_def log_holds_def)
  with t b show thesis by (intro that)
qed

section \<open>Properties\<close>

text \<open>C37: when the log of an earlier session holds the abort record of its first transaction, the
  first transaction of the reopened store gets the same id and recovery ignores everything it logs: the
  images that recovery replays are those of the old log, even when the commit succeeded.\<close>

theorem reused_id_loses_commit:
  assumes "tx_begin (ts_new s w) = (Inr t, m1)" and "tx_run t u" and "tx_base u"
    and "wal_wf w" and "reads_ok (ww_file w)" and "read_all (ww_file w) = Inr rs0"
    and "AbortTx (TxId 1) \<in> wr_kind ` set rs0" and "tx_commit u = (r, m')" and "read_all (ts_log m') = Inr rs"
  shows "log_pages rs = log_pages rs0"
proof -
  from first_commit_log [OF assms(1-6,8,9)] obtain n where
    ks: "map wr_kind rs = map wr_kind rs0 @ BeginTx (TxId 1) # take n (tx_kinds u)" and tx: "tr_tx_id u = TxId 1" .
  have own: "k = CommitTx (TxId 1) \<or> (\<exists>p. k = image_kind (TxId 1) p)" if "k \<in> set (take n (tx_kinds u))" for k
    using in_set_takeD [OF that] by (auto simp: tx_kinds_def tx)
  then have out: "CommitTx x \<in> set (take n (tx_kinds u)) \<Longrightarrow> x = TxId 1" "AbortTx x \<notin> set (take n (tx_kinds u))" for x
    by (auto simp: image_kind_def)
  have ab: "AbortTx (TxId 1) \<in> set (map wr_kind rs0)" using assms(7) by simp
  have eq: "kind_wins (map wr_kind rs) = kind_wins (map wr_kind rs0)"
    unfolding ks fun_eq_iff using out ab by (auto simp: kind_wins_def split: wal_record_kind.splits)
  have "\<not> kind_wins (map wr_kind rs0) k" if "k \<in> set (BeginTx (TxId 1) # take n (tx_kinds u))" for k
    using that own [of k] ab by (auto simp: kind_wins_def image_kind_def)
  then have "filter (kind_wins (map wr_kind rs)) (map wr_kind rs) = filter (kind_wins (map wr_kind rs0)) (map wr_kind rs0)"
    unfolding eq unfolding ks by (simp add: filter_empty_conv)
  then show ?thesis by (simp only: log_pages_kinds)
qed

theorem reused_id_loses_commit_witness:
  "\<exists>w rs0 s t m1 row u m' rs. wal_append_all empty_wal aborted_kinds = (Inr (), w) \<and> read_all (ww_file w) = Inr rs0 \<and>
     tx_begin (ts_new s w) = (Inr t, m1) \<and> tx_insert_row t (RelationId 1) [1, 2, 3] = (Inr row, u) \<and> tx_commit u = (Inr (), m') \<and>
     read_all (ts_log m') = Inr rs \<and> log_pages rs = log_pages rs0"
proof -
  have ks: "\<forall>k \<in> set aborted_kinds. kind_wf k" "length aborted_kinds \<le> 2" by (simp_all add: aborted_kinds_def kind_wf_def)
  from old_log [OF ks] obtain w rs0 where w: "wal_append_all empty_wal aborted_kinds = (Inr (), w)" "wal_wf w" "reads_ok (ww_file w)"
    "writes_ok (ww_file w)" "read_all (ww_file w) = Inr rs0" "map wr_kind rs0 = aborted_kinds" "length (fl_bytes (ww_file w)) \<le> 10000" .
  from old_commit [OF w(2-5,7)] obtain s t m1 row u m' rs where
    c: "tx_begin (ts_new s w) = (Inr t, m1)" "tx_insert_row t (RelationId 1) [1, 2, 3] = (Inr row, u)" "tx_run t u" "tx_base u"
    "tx_commit u = (Inr (), m')" "read_all (ts_log m') = Inr rs" .
  have "AbortTx (TxId 1) \<in> set (map wr_kind rs0)" by (simp add: w(6) aborted_kinds_def)
  then have "AbortTx (TxId 1) \<in> wr_kind ` set rs0" by simp
  from reused_id_loses_commit [OF c(1,3,4) w(2,3,5) this c(5,6)] w(1,5) c show ?thesis by blast
qed

text \<open>C38: when a session ended after logging page images of its first transaction but before its
  commit record, the first successful commit of the reopened store commits those old images too: recovery then
  replays pages of a transaction that never committed.\<close>

theorem reused_id_commits_unfinished_pages:
  assumes "tx_begin (ts_new s w) = (Inr t, m1)" and "tx_run t u" and "tx_base u"
    and "wal_wf w" and "reads_ok (ww_file w)" and "read_all (ww_file w) = Inr rs0"
    and "PageImage (TxId 1) pid img \<in> wr_kind ` set rs0" and "AbortTx (TxId 1) \<notin> wr_kind ` set rs0"
    and "CommitTx (TxId 1) \<notin> wr_kind ` set rs0" and "tx_commit u = (Inr (), m')" and "read_all (ts_log m') = Inr rs"
  shows "\<lparr>page_bytes = img\<rparr> \<in> set (log_pages rs)"
proof -
  from first_commit_log [OF assms(1-6,10,11)] obtain n where
    ks: "map wr_kind rs = map wr_kind rs0 @ BeginTx (TxId 1) # take n (tx_kinds u)" and n: "n = length (tx_kinds u)"
    and tx: "tr_tx_id u = TxId 1" by auto
  have "CommitTx (TxId 1) \<in> set (map wr_kind rs)" "AbortTx (TxId 1) \<notin> set (map wr_kind rs)"
    using assms(8) unfolding ks by (auto simp: n tx_kinds_def tx image_kind_def)
  moreover have "PageImage (TxId 1) pid img \<in> set (map wr_kind rs)" using assms(7) unfolding ks by simp
  ultimately have "PageImage (TxId 1) pid img \<in> set (filter (kind_wins (map wr_kind rs)) (map wr_kind rs))"
    unfolding set_filter by (simp only: mem_Collect_eq kind_wins_def wal_record_kind.case simp_thms)
  then have "kind_page (PageImage (TxId 1) pid img) \<in> kind_page ` set (filter (kind_wins (map wr_kind rs)) (map wr_kind rs))" by (rule imageI)
  then show ?thesis by (simp only: log_pages_kinds set_map kind_page.simps)
qed

theorem reused_id_commits_unfinished_pages_witness:
  "\<exists>w s t m1 row u m' rs. wal_append_all empty_wal unfinished_kinds = (Inr (), w) \<and>
     tx_begin (ts_new s w) = (Inr t, m1) \<and> tx_insert_row t (RelationId 1) [1, 2, 3] = (Inr row, u) \<and> tx_commit u = (Inr (), m') \<and>
     read_all (ts_log m') = Inr rs \<and> page_new (PageId 7) Heap \<in> set (log_pages rs)"
proof -
  have ks: "\<forall>k \<in> set unfinished_kinds. kind_wf k" "length unfinished_kinds \<le> 2" by (simp_all add: unfinished_kinds_def kind_wf_def)
  from old_log [OF ks] obtain w rs0 where w: "wal_append_all empty_wal unfinished_kinds = (Inr (), w)" "wal_wf w" "reads_ok (ww_file w)"
    "writes_ok (ww_file w)" "read_all (ww_file w) = Inr rs0" "map wr_kind rs0 = unfinished_kinds" "length (fl_bytes (ww_file w)) \<le> 10000" .
  from old_commit [OF w(2-5,7)] obtain s t m1 row u m' rs where
    c: "tx_begin (ts_new s w) = (Inr t, m1)" "tx_insert_row t (RelationId 1) [1, 2, 3] = (Inr row, u)" "tx_run t u" "tx_base u"
    "tx_commit u = (Inr (), m')" "read_all (ts_log m') = Inr rs" .
  have "wr_kind ` set rs0 = set unfinished_kinds" using arg_cong [OF w(6), of set] by simp
  then have k: "PageImage (TxId 1) (PageId 7) (page_bytes (page_new (PageId 7) Heap)) \<in> wr_kind ` set rs0"
    "AbortTx (TxId 1) \<notin> wr_kind ` set rs0" "CommitTx (TxId 1) \<notin> wr_kind ` set rs0" by (simp_all add: unfinished_kinds_def)
  from reused_id_commits_unfinished_pages [OF c(1,3,4) w(2,3,5) k c(5,6)] have "page_new (PageId 7) Heap \<in> set (log_pages rs)" by simp
  with w(1) c show ?thesis by blast
qed

end
