(* ===== verification/Rdbms_Index_Props.thy ===== *)
theory Rdbms_Index_Props
  imports Rdbms_Tx_Spec "HOL-Library.Multiset"
begin

text \<open>
  The contract of the B+Tree index: its searches agree with linear reference versions, its node
  records can be read back, and an index behaves as a multimap from keys to row ids, inside the
  transaction that fills it and after commit.
\<close>

section \<open>Reference versions\<close>

lemma sorted_eq_by_mset:
  assumes "sorted (map f xs)" "sorted (map f ys)" "mset xs = mset ys" "inj f"
  shows "xs = ys"
proof -
  have "mset (map f xs) = mset (map f ys)" using assms(3) by simp
  then have "map f xs = map f ys" using assms(1,2) by (metis properties_for_sort)
  then show ?thesis using assms(4) by (rule map_injective)
qed

lemma insert_leaf_insort:
  assumes "sorted (map entry_order es)"
  shows "insert_leaf_entry es k r = insort_key entry_order \<lparr>ie_key = k, ie_row_id = r\<rparr> es"
proof -
  from insert_leaf_entry_spec [OF assms, of k r] obtain xs ys where x: "es = xs @ ys"
    "insert_leaf_entry es k r = xs @ \<lparr>ie_key = k, ie_row_id = r\<rparr> # ys" "sorted (map entry_order (insert_leaf_entry es k r))" .
  show ?thesis
  proof (rule sorted_eq_by_mset [where f = entry_order])
    show "mset (insert_leaf_entry es k r) = mset (insort_key entry_order \<lparr>ie_key = k, ie_row_id = r\<rparr> es)" using x(1,2) by simp
  qed (use x(3) assms in \<open>simp_all add: sorted_insort_key inj_def\<close>)
qed

lemma takeWhile_prefix:
  assumes "n \<le> length xs" "\<And>j. j < n \<Longrightarrow> P (xs ! j)" "n < length xs \<Longrightarrow> \<not> P (xs ! n)"
  shows "takeWhile P xs = take n xs"
  using assms by (intro takeWhile_eq_take_P_nth) auto

section \<open>A sequence of insertions\<close>

fun tx_insert_entries :: "transaction \<Rightarrow> relation_id \<Rightarrow> (index_key \<times> row_id) list \<Rightarrow> (transaction, db_error, unit) stres option" where
  "tx_insert_entries t rid [] = Some (Inr (), t)"
| "tx_insert_entries t rid ((key, row) # es) =
     (case tx_insert_index_entry t rid key row of
        None \<Rightarrow> None
      | Some (Inl e, t1) \<Rightarrow> Some (Inl e, t1)
      | Some (Inr _, t1) \<Rightarrow> tx_insert_entries t1 rid es)"

definition entry_of :: "index_key \<times> row_id \<Rightarrow> index_entry" where
  "entry_of kr = \<lparr>ie_key = fst kr, ie_row_id = snd kr\<rparr>"

text \<open>The size of the catalog record does not depend on the ids in it.\<close>

definition enc_size :: "byte_list db_result \<Rightarrow> nat option" where
  "enc_size r = (case r of Inl e \<Rightarrow> None | Inr bs \<Rightarrow> Some (length bs))"

lemma enc_size_simps [simp]: "enc_size (Inl e) = None" "enc_size (Inr bs) = Some (length bs)"
  by (simp_all add: enc_size_def)

lemma enc_size_bind:
  assumes "enc_size a = enc_size b" "\<And>x y. length x = length y \<Longrightarrow> enc_size (f x) = enc_size (g y)"
  shows "enc_size (bindR a f) = enc_size (bindR b g)"
  using assms by (cases a; cases b) auto

lemma enc_size_each: "list_all2 (\<lambda>x y. enc_size (enc x) = enc_size (enc y)) xs ys \<Longrightarrow>
    enc_size (encode_each enc xs) = enc_size (encode_each enc ys)"
  by (induction rule: list_all2_induct) (auto intro!: enc_size_bind)

lemma catalog_fits_size: "catalog_fits c \<longleftrightarrow> (\<exists>n. enc_size (encode_catalog c) = Some n \<and> n \<le> 4056)"
  by (auto simp: catalog_fits_def split: sum.splits)

lemma encode_catalog_size:
  assumes "list_all2 (\<lambda>x y. enc_size (encode_relation x) = enc_size (encode_relation y)) (cat_relations c) (cat_relations c')"
    "cat_extensions c' = cat_extensions c"
  shows "catalog_fits c' = catalog_fits c"
proof -
  have "length (cat_relations c') = length (cat_relations c)" using list_all2_lengthD [OF assms(1)] by simp
  then have "enc_size (encode_catalog c) = enc_size (encode_catalog c')"
    unfolding encode_catalog_def assms(2)
    by (intro enc_size_bind enc_size_each [OF assms(1)]) (simp_all add: push_u64_def)
  then show ?thesis by (simp add: catalog_fits_size)
qed

lemma set_index_root_page_fits:
  assumes "index_at c rid root" "set_index_root_page c rid root' = (r, c')"
  shows "catalog_fits c' = catalog_fits c"
proof -
  from set_index_root_page_at [OF assms(1), of root'] obtain as x bs i where x: "cat_relations c = as @ x # bs" "ri_storage x = StorageBPlusTree i"
    "set_index_root_page c rid root' = (Inr (), c\<lparr>cat_relations := as @ x\<lparr>ri_storage := StorageBPlusTree (i\<lparr>is_root_page_id := root'\<rparr>)\<rparr> # bs\<rparr>)" .
  let ?y = "x\<lparr>ri_storage := StorageBPlusTree (i\<lparr>is_root_page_id := root'\<rparr>)\<rparr>"
  have "enc_size (encode_relation x) = enc_size (encode_relation ?y)"
    unfolding encode_relation_def x(2)
    by (intro enc_size_bind) (auto simp: encode_storage_object_def push_u64_def intro!: enc_size_bind)
  then have "list_all2 (\<lambda>x y. enc_size (encode_relation x) = enc_size (encode_relation y)) (cat_relations c) (as @ ?y # bs)"
    unfolding x(1) by (intro list_all2_appendI list.rel_intros) (simp_all add: list_all2_refl)
  with encode_catalog_size [of c c'] x(3) assms(2) show ?thesis by auto
qed

lemma finish_index_insert_succeeds:
  assumes "index_at (tr_working_catalog u) rid root" "catalog_fits (tr_working_catalog u)"
  shows "\<exists>t'. finish_index_insert rid root root' u = (Inr (), t') \<and> catalog_fits (tr_working_catalog t')"
proof -
  obtain r t1 where t1: "(if root' \<noteq> root then on_catalog (\<lambda>c. set_index_root_page c rid root') u else (Inr (), u)) = (r, t1)" by fastforce
  have r: "r = Inr () \<and> catalog_fits (tr_working_catalog t1)"
  proof (cases "root' = root")
    case False
    then have "on_catalog (\<lambda>c. set_index_root_page c rid root') u = (r, t1)" using t1 by simp
    from on_catalog_facts(1) [OF this] set_index_root_page_Inr(1) [OF assms(1)] set_index_root_page_fits [OF assms(1)] assms(2)
    show ?thesis by blast
  qed (use t1 assms(2) in simp)
  then obtain p where "mark_catalog_dirty t1 = (Inr (), tx_put_page t1 (PageId 0) p)" using mark_catalog_dirty_ok by blast
  with t1 r show ?thesis by (simp add: finish_index_insert_def tx_put_page_def)
qed

lemma tx_insert_entries_ok:
  assumes "tx_index_ok t rid tree" "tr_state t = Active" "\<forall>(key, row) \<in> set es. key_good key"
    "length es * (bt_height tree + length es + 2) \<le> spare_pages (tr_working_catalog t)"
    "catalog_fits (tr_working_catalog t)"
  shows "\<exists>t' tree'. tx_insert_entries t rid es = Some (Inr (), t') \<and> tx_index_ok t' rid tree' \<and> tx_frame t t' \<and>
    mset (tree_entries tree') = mset (tree_entries tree) + mset (map entry_of es)"
  using assms
proof (induction es arbitrary: t tree)
  case (Cons e es)
  obtain key row where e: "e = (key, row)" by fastforce
  have key: "key_good key" "\<forall>(key, row) \<in> set es. key_good key" using Cons.prems(3) e by auto
  have room: "bt_height tree + 2 \<le> spare_pages (tr_working_catalog t)"
    "length es * (Suc (bt_height tree) + length es + 2) + bt_height tree + 2 \<le> spare_pages (tr_working_catalog t)"
    using Cons.prems(4) by (simp_all add: algebra_simps)
  from tx_insert_index_entry_ok [OF Cons.prems(1,2) key(1) room(1), of row] obtain r t1 tree1 xs ys u where
    i: "tx_insert_index_entry t rid key row = Some (r, t1)"
    and es: "tree_entries tree = xs @ ys" "tree_entries tree1 = xs @ \<lparr>ie_key = key, ie_row_id = row\<rparr> # ys"
    and ok: "r = Inr () \<longrightarrow> tx_index_ok t1 rid tree1 \<and> tx_staged t1 \<and> bt_height tree1 \<le> Suc (bt_height tree) \<and>
      spare_pages (tr_working_catalog t) \<le> spare_pages (tr_working_catalog t1) + bt_height tree + 2 \<and>
      (\<forall>q \<in> allocated (tr_working_catalog t) - set (tree_pids tree) - {PageId 0}. tx_pages t1 q = tx_pages t q)"
    and u: "index_insert tx_index_store (root_pid tree) key row t = Some (Inr (root_pid tree1), u)"
    "index_at (tr_working_catalog u) rid (root_pid tree)" "finish_index_insert rid (root_pid tree) (root_pid tree1) u = (r, t1)" .
  have "catalog_fits (tr_working_catalog u)"
    using encode_catalog_size [of "tr_working_catalog t" "tr_working_catalog u"] tx_index_insert_relations [OF u(1)] Cons.prems(5)
    by (simp add: list_all2_refl)
  from finish_index_insert_succeeds [OF u(2) this, of "root_pid tree1"] u(3)
  have r: "r = Inr ()" "catalog_fits (tr_working_catalog t1)" by auto
  with ok have t1: "tx_index_ok t1 rid tree1" "bt_height tree1 \<le> Suc (bt_height tree)"
    "spare_pages (tr_working_catalog t) \<le> spare_pages (tr_working_catalog t1) + bt_height tree + 2" by simp_all
  note fr = tx_insert_index_entry_frame [OF i]
  have act: "tr_state t1 = Active" using fr Cons.prems(2) by (simp add: tx_frame_def)
  have "length es * (bt_height tree1 + length es + 2) \<le> length es * (Suc (bt_height tree) + length es + 2)"
    using t1(2) by (intro mult_le_mono2) simp
  then have "length es * (bt_height tree1 + length es + 2) \<le> spare_pages (tr_working_catalog t1)"
    using room(2) t1(3) by linarith
  from Cons.IH [OF t1(1) act key(2) this r(2)] i e r(1) es fr show ?case by (fastforce simp: entry_of_def intro: tx_frame_trans)
qed auto

lemma lookup_rows:
  assumes "tx_index_ok t rid tree"
  shows "index_lookup tx_index_store (root_pid tree) key t = Some (Inr (map ie_row_id (filter (\<lambda>e. ie_key e = key) (tree_entries tree))), t)"
  using assms by (intro tx_index.stored_lookup) (simp add: tx_index_ok_def)

lemma rows_mset:
  assumes "mset xs = mset (map entry_of es)"
  shows "mset (map ie_row_id (filter (\<lambda>e. ie_key e = key) xs)) = mset (map snd (filter (\<lambda>(k, row). k = key) es))"
proof -
  have "mset (map ie_row_id (filter (\<lambda>e. ie_key e = key) xs)) = image_mset ie_row_id (filter_mset (\<lambda>e. ie_key e = key) (mset (map entry_of es)))"
    using assms by simp
  also have "\<dots> = mset (map snd (filter (\<lambda>(k, row). k = key) es))"
    by (induction es) (auto simp: entry_of_def)
  finally show ?thesis .
qed

section \<open>An index on the sample table\<close>

definition sample_index_catalog :: catalog where
  "sample_index_catalog = \<lparr>cat_next_relation_id = 3, cat_next_page_id = 3, cat_relations = [sample_relation,
     \<lparr>ri_id = RelationId 2, ri_name = ''i'', ri_kind = RelIndex,
       ri_storage = StorageBPlusTree \<lparr>is_table_id = RelationId 1, is_column_name = ''id'', is_root_page_id = PageId 2\<rparr>,
       ri_columns = [\<lparr>cd_name = ''id'', cd_type_name = ''INDEX_KEY''\<rparr>]\<rparr>], cat_extensions = []\<rparr>"

lemma sample_index_metadata:
  "create_index_metadata sample_catalog ''i'' (RelationId 1) ''id'' = (Inr (RelationId 2, PageId 2), sample_index_catalog)"
  by (simp add: create_index_metadata_def check_new_index_def validate_name_def relation_by_name_def relation_by_id_def
      indexes_on_table_def is_heap_table_def allocate_relation_id_def allocate_page_id_def checked_add_def
      sample_catalog_def sample_relation_def sample_columns_def sample_index_catalog_def)

lemma sample_index_fits: "catalog_fits sample_index_catalog"
  by (simp add: catalog_fits_def encode_catalog_def sample_index_catalog_def sample_relation_def sample_columns_def
      encode_relation_def encode_storage_object_def encode_column_def write_string_def write_u16_len_def write_u32_len_def
      push_u32_def push_u64_def push_u16_def CATALOG_MAGIC_def)

lemma sample_index:
  assumes "tx_base t" "tr_state t = Active" "tr_working_catalog t = sample_catalog"
  obtains t' where "tx_create_index t ''i'' (RelationId 1) ''id'' = (Inr (RelationId 2, PageId 2), t')" "tr_working_catalog t' = sample_index_catalog"
proof -
  let ?t = "t\<lparr>tr_working_catalog := sample_index_catalog\<rparr>"
  have oc: "on_catalog (\<lambda>c. create_index_metadata c ''i'' (RelationId 1) ''id'') t = (Inr (RelationId 2, PageId 2), ?t)"
    using assms(3) by (simp add: on_catalog_def sample_index_metadata)
  have b: "tx_base ?t" using on_catalog_facts(4) [OF oc] assms(1) by simp
  have "PageId 2 \<in> allocated (tr_working_catalog ?t)" by (simp add: allocated_def sample_index_catalog_def)
  from tx_index.initialize_root_ok [OF b this] obtain t2 where t2: "initialize_root tx_index_store (PageId 2) ?t = (Inr (), t2)" by blast
  have c2: "tr_working_catalog t2 = sample_index_catalog"
    using t2 by (auto simp: initialize_root_def store_node_def tx_index_store_def tx_put_page_def split: sum.splits)
  then obtain p where "mark_catalog_dirty t2 = (Inr (), tx_put_page t2 (PageId 0) p)" using mark_catalog_dirty_ok sample_index_fits by metis
  with oc t2 c2 assms(2) show thesis
    by (intro that [of "tx_put_page t2 (PageId 0) p"]) (simp_all add: tx_create_index_def ensure_active_def tx_put_page_def)
qed

lemma fresh_transaction:
  obtains t m1 l s where "tx_wf t" "tr_working_catalog t = sample_catalog" "tr_dirty_pages t = []" "tr_manager t = m1"
    "log_holds m1 [\<lparr>wr_lsn = l, wr_kind = BeginTx (TxId 1)\<rparr>]" "writes_ok (ts_log m1)" "length (fl_bytes (ts_log m1)) = 40"
    "writes_ok (pf_file (tx_file t))" "tx_begin (ts_new s empty_wal) = (Inr t, m1)" "store_wf s" "persisted s" "cs_catalog s = sample_catalog"
    "store_full_scan s (RelationId 1) = Inr []"
proof -
  from sample_store obtain s0 s where s0: "store_wf s0" "store_create_table s0 ''t'' sample_columns = (Inr (RelationId 1), s)"
    and s: "store_wf s" "persisted s" "store_writes_ok s" "cs_catalog s = sample_catalog" .
  let ?m = "ts_new s empty_wal"
  have m: "ts_store ?m = s" "log_holds ?m []" "writes_ok (ts_log ?m)" "length (fl_bytes (ts_log ?m)) = 0" "wal_wf (ts_wal ?m)"
    "\<not> ts_active_writer ?m" "unat (ts_next_tx_id ?m) + 1 < 2 ^ 64" "writes_ok (pf_file (ts_file ?m))" "ts_next_tx_id ?m = 1"
    using s(3) by (simp_all add: ts_new_def log_holds_def ts_log_def ts_file_def store_writes_ok_def)
  from begin_ok [OF m(6,7,5,3)] m(4) obtain t m1 where beg: "tx_begin ?m = (Inr t, m1)" by (auto simp: MAX_FILE_SIZE_def)
  from begin_facts [of ?m, unfolded m(1,9), OF s(1,2) m(2) beg] obtain l where
    "tx_wf t" "tr_manager t = m1" "log_holds m1 ([] @ [\<lparr>wr_lsn = l, wr_kind = BeginTx (tr_tx_id t)\<rparr>])" "tr_tx_id t = TxId 1"
    "tr_working_catalog t = cs_catalog s" "tr_dirty_pages t = []" "tx_file t = ts_file ?m"
    "length (fl_bytes (ts_log m1)) = length (fl_bytes (ts_log ?m)) + 40" "writes_ok (ts_log ?m) \<longrightarrow> writes_ok (ts_log m1)" .
  with m s beg store_create_table_Inr(3) [OF s0] show thesis by (intro that [of t m1 l s]) simp_all
qed

text \<open>Inserting into the empty root leaf rewrites that page and the catalog page.\<close>

lemma sample_entry:
  assumes ok: "tx_index_ok t (RelationId 2) (BLeaf (PageId 2) [])" and t: "tr_state t = Active" "tr_working_catalog t = sample_index_catalog"
    and f: "tx_fits t"
  obtains t' where "tx_insert_index_entry t (RelationId 2) (IntegerKey 5) row = Some (Inr (), t')" "tx_fits t'"
    "length (tr_dirty_pages t') \<le> length (tr_dirty_pages t) + 2"
proof -
  have b: "tx_base t" and root: "index_root (tr_working_catalog t) (RelationId 2) = Inr (PageId 2)"
    and nd: "nodes_of (tx_pages t) (PageId 2) = Some (LeafNode None [])"
    using ok by (auto simp: tx_index_ok_def tx_index.stored_def index_at_root forest_def head_pid_def)
  from nd obtain p where p: "tx_pages t (PageId 2) = Some p" "node_from_page p = Inr (LeafNode None [])" by (auto simp: nodes_of_Some)
  let ?n = "LeafNode None [\<lparr>ie_key = IntegerKey 5, ie_row_id = row\<rparr>]"
  have leaf: "insert_leaf_entry [] (IntegerKey 5) row = [\<lparr>ie_key = IntegerKey 5, ie_row_id = row\<rparr>]"
    by (simp add: insert_leaf_entry_def binary_search_by_def insert_at_def)
  have "node_fits ?n" by (simp add: key_fits_def)
  from node_fits_page [OF this, of "PageId 2"] obtain p' where p': "node_to_page (PageId 2) ?n = Inr p'" by blast
  have "node_ok ?n" by (simp add: entry_ok_def)
  note w = node_to_page_Inr [OF p' this]
  let ?u = "tx_put_page t (PageId 2) p'"
  have "header p' = Inr (hdr_of (page_bytes p'))" "h_page_id (hdr_of (page_bytes p')) = PageId 2"
    using w(1,2) by (simp_all add: page_id_of_def)
  then have ins: "index_insert tx_index_store (PageId 2) (IntegerKey 5) row t = Some (Inr (PageId 2), ?u)"
    using tx_load [OF b p(1)] p(2) leaf p'
    by (simp add: index_insert_def insert_recursive.simps tx_index_store_def finish_leaf_def store_node_def MAX_KEYS_def)
  have fu: "tx_base ?u" "tx_fits ?u" "length (tr_dirty_pages ?u) \<le> Suc (length (tr_dirty_pages t))"
    using tx_put_page_facts(2) [OF b w(1,2)] put_page_grows [OF b f, of "PageId 2" p'] by (simp_all add: page_id_fits_def MAX_FILE_SIZE_def)
  have "catalog_fits (tr_working_catalog ?u)" using t(2) sample_index_fits by (simp add: tx_put_page_def)
  then obtain q where md: "mark_catalog_dirty ?u = (Inr (), tx_put_page ?u (PageId 0) q)" by (rule mark_catalog_dirty_ok)
  have "tx_insert_index_entry t (RelationId 2) (IntegerKey 5) row = Some (Inr (), tx_put_page ?u (PageId 0) q)"
    using t(1) root ins md by (simp add: tx_insert_index_entry_def ensure_active_def finish_index_insert_def)
  with mark_catalog_dirty_grows(1) [OF fu(1,2) md] order_trans [OF mark_catalog_dirty_grows(2) [OF fu(1,2) md] Suc_le_mono [THEN iffD2, OF fu(3)]]
  show thesis by (intro that) simp_all
qed

lemma tx_create_index_dirty:
  assumes "tx_create_index t name tid col = (Inr x, t')"
  shows "length (tr_dirty_pages t') \<le> length (tr_dirty_pages t) + 2"
proof -
  from assms obtain rid root t1 t2 where c: "on_catalog (\<lambda>c. create_index_metadata c name tid col) t = (Inr (rid, root), t1)"
    and i: "initialize_root tx_index_store root t1 = (Inr (), t2)" and md: "mark_catalog_dirty t2 = (Inr (), t')"
    by (auto simp: tx_create_index_def bindS_eq_Inr)
  have "length (tr_dirty_pages t2) \<le> Suc (length (tr_dirty_pages t))"
    using i on_catalog_facts(5) [OF c] length_bmap_insert
    by (auto simp: initialize_root_def store_node_def tx_index_store_def tx_put_page_def split: sum.splits)
  moreover have "length (tr_dirty_pages t') \<le> Suc (length (tr_dirty_pages t2))"
    using md length_bmap_insert by (auto simp: mark_catalog_dirty_def tx_put_page_def split: sum.splits)
  ultimately show ?thesis by simp
qed

lemma sample_index_fits_pages:
  assumes "tx_create_index t ''i'' (RelationId 1) ''id'' = (Inr (RelationId 2, PageId 2), t')" "tx_base t" "cat_wf (tr_working_catalog t)" "tx_fits t"
  shows "tx_fits t'"
  unfolding tx_fits_def
proof (intro allI impI)
  fix q assume q: "tx_pages t' q \<noteq> None"
  show "page_id_fits q"
  proof (cases "q \<in> {PageId 0, PageId 2}")
    case False
    from tx_create_index_ok(4) [OF assms(2,3,1) False] q assms(4) show ?thesis by (simp add: tx_fits_def)
  qed (auto simp: page_id_fits_def MAX_FILE_SIZE_def)
qed

section \<open>Properties\<close>

text \<open>C31: the binary searches of the index agree with linear reference versions: inserting an entry into a
  sorted leaf is sorted insertion, and the child for a key is the number of separators below it.\<close>

theorem binary_search_is_linear_search:
  assumes "sorted (map (\<lambda>e. (ie_key e, ie_row_id e)) es)" and "sorted keys"
  shows "insert_leaf_entry es key row = insort_key (\<lambda>e. (ie_key e, ie_row_id e)) \<lparr>ie_key = key, ie_row_id = row\<rparr> es \<and>
    child_index_for_key keys key = length (takeWhile (\<lambda>k. k < key) keys)"
proof -
  have eo: "(\<lambda>e. (ie_key e, ie_row_id e)) = entry_order" by (simp add: fun_eq_iff entry_order_def)
  note c = child_index_spec [OF assms(2), where key = key]
  have "takeWhile (\<lambda>k. k < key) keys = take (child_index_for_key keys key) keys"
    by (rule takeWhile_prefix) (use c in \<open>auto simp: not_less\<close>)
  with c(1) have "child_index_for_key keys key = length (takeWhile (\<lambda>k. k < key) keys)" by simp
  then show ?thesis using insert_leaf_insort assms(1) unfolding eo by blast
qed

theorem binary_search_is_linear_search_witness:
  "insert_leaf_entry [\<lparr>ie_key = IntegerKey 3, ie_row_id = RowId (PageId 1) (SlotId 0)\<rparr>] (IntegerKey 5) (RowId (PageId 1) (SlotId 1)) =
     [\<lparr>ie_key = IntegerKey 3, ie_row_id = RowId (PageId 1) (SlotId 0)\<rparr>, \<lparr>ie_key = IntegerKey 5, ie_row_id = RowId (PageId 1) (SlotId 1)\<rparr>] \<and>
   child_index_for_key [IntegerKey 2, IntegerKey 4, IntegerKey 6] (IntegerKey 5) = 2"
  using binary_search_is_linear_search [of "[\<lparr>ie_key = IntegerKey 3, ie_row_id = RowId (PageId 1) (SlotId 0)\<rparr>]"
      "[IntegerKey 2, IntegerKey 4, IntegerKey 6]" "IntegerKey 5" "RowId (PageId 1) (SlotId 1)"]
  by (simp add: less_index_key_def)

text \<open>A node that was written to a page is read back from it, and the page is a valid index page with
  the given id.\<close>

theorem index_node_round_trip:
  assumes "node_ok n" and "node_to_page pid n = Inr p"
  shows "node_from_page p = Inr n \<and> page_validate p = Inr () \<and> page_id_of p = pid"
  using node_to_page_Inr [OF assms(2,1)] page_wf_validate by simp

theorem index_node_round_trip_witness:
  "\<exists>p. node_to_page (PageId 9) (InternalNode [IntegerKey 7] [PageId 3, PageId 4]) = Inr p \<and>
     node_from_page p = Inr (InternalNode [IntegerKey 7] [PageId 3, PageId 4])"
proof -
  have "node_fits (InternalNode [IntegerKey 7] [PageId 3, PageId 4])" by (simp add: key_fits_def)
  from node_fits_page [OF this, of "PageId 9"] obtain p where p: "node_to_page (PageId 9) (InternalNode [IntegerKey 7] [PageId 3, PageId 4]) = Inr p" by blast
  from index_node_round_trip [OF _ p] p show ?thesis by simp
qed

text \<open>C6: an index is a multimap. After creating it and inserting entries, which all succeed while pages
  can be allocated and the catalog fits its page, every lookup returns, leaves the transaction as it is, and gives exactly the
  row ids inserted under that key, as often as they were inserted.\<close>

theorem index_is_multimap:
  assumes "tx_base t" and "cat_wf (tr_working_catalog t)" and "tr_state t = Active"
    and "tx_create_index t name table_id column_name = (Inr (rid, root), t1)"
    and "catalog_fits (tr_working_catalog t1)" and "list_all (\<lambda>(key, row). key_good key) es"
    and "length es * (length es + 3) \<le> spare_pages (tr_working_catalog t1)"
  shows "\<exists>t2 root2. tx_insert_entries t1 rid es = Some (Inr (), t2) \<and> index_root (tr_working_catalog t2) rid = Inr root2 \<and>
    (\<forall>key. \<exists>rows. index_lookup tx_index_store root2 key t2 = Some (Inr rows, t2) \<and>
       mset rows = mset (map snd (filter (\<lambda>(k, row). k = key) es)))"
proof -
  note c = tx_create_index_ok [OF assms(1,2,4)]
  have act: "tr_state t1 = Active" using c(3) assms(3) by (simp add: tx_frame_def)
  have room: "length es * (bt_height (BLeaf root []) + length es + 2) \<le> spare_pages (tr_working_catalog t1)"
    using assms(7) by (simp add: algebra_simps)
  have keys: "\<forall>(key, row) \<in> set es. key_good key" using assms(6) by (simp add: list_all_iff)
  from tx_insert_entries_ok [OF c(1) act keys room assms(5)] obtain t2 tree where
    t2: "tx_insert_entries t1 rid es = Some (Inr (), t2)" "tx_index_ok t2 rid tree" "mset (tree_entries tree) = mset (map entry_of es)"
    by auto
  have "index_root (tr_working_catalog t2) rid = Inr (root_pid tree)" using t2(2) by (simp add: tx_index_ok_def index_at_root)
  with t2(1) lookup_rows [OF t2(2)] rows_mset [OF t2(3)] show ?thesis by blast
qed

theorem index_is_multimap_witness:
  "\<exists>t t1 t2 root2 rows. tx_create_index t ''i'' (RelationId 1) ''id'' = (Inr (RelationId 2, PageId 2), t1) \<and>
     tx_insert_entries t1 (RelationId 2) [(IntegerKey 5, RowId (PageId 1) (SlotId 0)), (IntegerKey 7, RowId (PageId 1) (SlotId 1))] =
       Some (Inr (), t2) \<and>
     index_lookup tx_index_store root2 (IntegerKey 7) t2 = Some (Inr rows, t2) \<and> mset rows = {#RowId (PageId 1) (SlotId 1)#}"
proof -
  let ?es = "[(IntegerKey 5, RowId (PageId 1) (SlotId 0)), (IntegerKey 7, RowId (PageId 1) (SlotId 1))]"
  from first_transaction obtain s t where t: "tx_wf t" "tr_working_catalog t = sample_catalog" .
  have b: "tx_base t" "tr_state t = Active" "cat_wf (tr_working_catalog t)" using t(1) by (simp_all add: tx_wf_def heap_ok_def)
  from sample_index [OF b(1,2) t(2)] obtain t1 where t1: "tx_create_index t ''i'' (RelationId 1) ''id'' = (Inr (RelationId 2, PageId 2), t1)"
    "tr_working_catalog t1 = sample_index_catalog" .
  have "list_all (\<lambda>(key, row). key_good key) ?es" by (simp add: key_good_def key_fits_def)
  moreover have "length ?es * (length ?es + 3) \<le> spare_pages (tr_working_catalog t1)"
    by (simp add: t1(2) spare_pages_def sample_index_catalog_def)
  ultimately obtain t2 root2 where r: "tx_insert_entries t1 (RelationId 2) ?es = Some (Inr (), t2)"
    "\<forall>key. \<exists>rows. index_lookup tx_index_store root2 key t2 = Some (Inr rows, t2) \<and> mset rows = mset (map snd (filter (\<lambda>(k, row). k = key) ?es))"
    using index_is_multimap [OF b(1,3,2) t1(1)] sample_index_fits t1(2) by metis
  from r(2) [rule_format, of "IntegerKey 7"] obtain rows where
    "index_lookup tx_index_store root2 (IntegerKey 7) t2 = Some (Inr rows, t2)" "mset rows = {#RowId (PageId 1) (SlotId 1)#}" by auto
  with t1(1) r(1) show ?thesis by blast
qed

text \<open>After a successful commit, looking up a key in the committed index gives the same rows as in the
  transaction, and changes nothing.\<close>

theorem committed_index_lookup:
  assumes "tx_base t" and "tr_state t = Active" and "tx_index_ok t rid tree" and "log_holds (tr_manager t) rs0"
   
    and "tx_commit t = (Inr (), m')"
  shows "ts_lookup_index m' rid key = Some (Inr (map ie_row_id (filter (\<lambda>e. ie_key e = key) (tree_entries tree))), m') \<and>
    index_lookup tx_index_store (root_pid tree) key t = Some (Inr (map ie_row_id (filter (\<lambda>e. ie_key e = key) (tree_entries tree))), t)"
proof -
  from commit_outcome(1) [OF assms(1,2,4,5)] have "commit_done t m'" by auto
  then have m: "store_pages (ts_store m') = tx_pages t" "cs_catalog (ts_store m') = tr_working_catalog t"
    by (simp_all add: commit_done_def store_pages_def ts_file_def)
  have f: "forest (nodes_of (tx_pages t)) None [] [tree] (bt_height tree)" and r: "index_root (tr_working_catalog t) rid = Inr (root_pid tree)"
    using assms(3) by (simp_all add: tx_index_ok_def tx_index.stored_def index_at_root)
  have "index_lookup committed_index_store (root_pid tree) key (ts_store m') =
      Some (Inr (map ie_row_id (filter (\<lambda>e. ie_key e = key) (tree_entries tree))), ts_store m')"
    by (rule committed_index.index_lookup_ok) (use committed_file_wf [OF assms(1,2,5)] f m(1) in \<open>simp_all add: ts_file_def\<close>)
  with lookup_rows [OF assms(3)] r m(2) show ?thesis by (simp add: ts_lookup_index_def)
qed

theorem committed_index_lookup_witness:
  "\<exists>t t1 t2 m'. tx_create_index t ''i'' (RelationId 1) ''id'' = (Inr (RelationId 2, PageId 2), t1) \<and>
     tx_insert_index_entry t1 (RelationId 2) (IntegerKey 5) (RowId (PageId 1) (SlotId 0)) = Some (Inr (), t2) \<and>
     tx_commit t2 = (Inr (), m') \<and> ts_lookup_index m' (RelationId 2) (IntegerKey 5) = Some (Inr [RowId (PageId 1) (SlotId 0)], m')"
proof -
  let ?row = "RowId (PageId 1) (SlotId 0)"
  from fresh_transaction obtain t m1 l where t: "tx_wf t" "tr_working_catalog t = sample_catalog" "tr_dirty_pages t = []" "tr_manager t = m1"
    "log_holds m1 [\<lparr>wr_lsn = l, wr_kind = BeginTx (TxId 1)\<rparr>]" "writes_ok (ts_log m1)" "length (fl_bytes (ts_log m1)) = 40"
    "writes_ok (pf_file (tx_file t))" .
  have b: "tx_base t" "tr_state t = Active" "cat_wf (tr_working_catalog t)" using t(1) by (simp_all add: tx_wf_def heap_ok_def)
  from sample_index [OF b(1,2) t(2)] obtain t1 where t1: "tx_create_index t ''i'' (RelationId 1) ''id'' = (Inr (RelationId 2, PageId 2), t1)"
    "tr_working_catalog t1 = sample_index_catalog" .
  note c = tx_create_index_ok [OF b(1,3) t1(1)]
  have a1: "tr_state t1 = Active" using c(3) b(2) by (simp add: tx_frame_def)
  note f1 = sample_index_fits_pages [OF t1(1) b(1,3) tx_fits_base [OF b(1) t(3)]]
  from sample_entry [OF c(1) a1 t1(2) f1, of ?row] obtain t2 where
    t2: "tx_insert_index_entry t1 (RelationId 2) (IntegerKey 5) ?row = Some (Inr (), t2)" "tx_fits t2"
    "length (tr_dirty_pages t2) \<le> length (tr_dirty_pages t1) + 2" .
  have d1: "length (tr_dirty_pages t1) \<le> 2" using tx_create_index_dirty [OF t1(1)] t(3) by simp
  have room: "bt_height (BLeaf (PageId 2) []) + 2 \<le> spare_pages (tr_working_catalog t1)" by (simp add: t1(2) spare_pages_def sample_index_catalog_def)
  have "key_good (IntegerKey 5)" by (simp add: key_good_def key_fits_def)
  from tx_insert_index_entry_ok [OF c(1) a1 this room, of ?row] t2(1) obtain tree where
    tree: "tx_index_ok t2 (RelationId 2) tree" "tree_entries tree = [\<lparr>ie_key = IntegerKey 5, ie_row_id = ?row\<rparr>]"
    by (auto simp: tree_entries_def)
  have fr: "tr_manager t2 = m1" "tr_state t2 = Active" "tx_file t2 = tx_file t"
    using tx_insert_index_entry_frame [OF t2(1)] c(3) t(4) b(2) by (simp_all add: tx_frame_def tx_file_def)
  have b2: "tx_base t2" using tree(1) by (simp add: tx_index_ok_def tx_index.stored_def)
  have "\<exists>m'. commit_pages t2 = (Inr (), m')"
    by (rule commit_pages_ok [OF b2])
      (use t(5-8) fr t2(3) d1 tx_fits_values [OF b2 t2(2)] in \<open>simp_all add: log_holds_def MAX_FILE_SIZE_def\<close>)
  then obtain m' where com: "tx_commit t2 = (Inr (), m')" using fr(2) by (auto simp: tx_commit_def ensure_active_def)
  from committed_index_lookup [OF b2 fr(2) tree(1) _ com] t(5) fr(1) tree(2) t1(1) t2(1) com show ?thesis by fastforce
qed

section \<open>Keys that are too long\<close>

lemma encode_each_min:
  assumes "encode_each enc xs = Inr bs" "\<And>x b. x \<in> set xs \<Longrightarrow> enc x = Inr b \<Longrightarrow> n \<le> length b"
  shows "n * length xs \<le> length bs"
  using assms
proof (induction xs arbitrary: bs)
  case (Cons x xs)
  from Cons.prems(1) obtain b bs' where b: "enc x = Inr b" "encode_each enc xs = Inr bs'" "bs = b @ bs'"
    by (auto simp: res_simps)
  from Cons.IH [OF b(2)] Cons.prems(2) [OF _ b(1)] Cons.prems(2) b(3) show ?case by fastforce
qed simp

text \<open>Nodes are split by the number of their entries, never by their size: a leaf of four entries
  with texts of at least 997 bytes is not split but refused, although every entry fits a page of
  its own, and nothing is stored.\<close>

theorem long_keys_do_not_split:
  assumes "length es = 4" and "\<forall>e \<in> set es. \<exists>t. ie_key e = TextKey t \<and> 997 \<le> length t"
  shows "\<exists>err. finish_leaf ops pid nxt es s = (Inl err, s)"
proof -
  have "node_to_page pid (LeafNode nxt es) \<noteq> Inr p" for p
  proof
    assume "node_to_page pid (LeafNode nxt es) = Inr p"
    then obtain bs where bs: "encode_node (LeafNode nxt es) = Inr bs"
      and ins: "(case insert_record (page_new pid Index) bs of (Inl e, _) \<Rightarrow> Inl e | (Inr _, p) \<Rightarrow> Inr p) = Inr p"
      by (auto simp: node_to_page_def bindR_eq_Inr)
    from ins obtain slot where slot: "insert_record (page_new pid Index) bs = (Inr slot, p)"
      by (cases "insert_record (page_new pid Index) bs") (auto split: sum.splits)
    from bs obtain b where b: "encode_each encode_entry es = Inr b" "length b + 18 \<le> length bs"
      by (auto simp: encode_node_def res_simps write_u16_len_def push_u16_def push_u64_def INDEX_NODE_MAGIC_def split: if_splits option.splits)
    have "1010 * length es \<le> length b"
    proof (rule encode_each_min [OF b(1)])
      fix e c assume "e \<in> set es" "encode_entry e = Inr c"
      with assms(2) show "1010 \<le> length c"
        by (fastforce simp: encode_entry_def encode_key_def res_simps write_u16_len_def push_u16_def push_u64_def split: if_splits)
    qed
    with b(2) insert_fresh_len [OF slot] assms(1) show False by simp
  qed
  then obtain err where "node_to_page pid (LeafNode nxt es) = Inl err" by (cases "node_to_page pid (LeafNode nxt es)") auto
  then show ?thesis using assms(1) by (simp add: finish_leaf_def store_node_def)
qed

end
