(* ===== verification/Rdbms_Sql_Trees.thy ===== *)
theory Rdbms_Sql_Trees
  imports Rdbms_Index_Props
begin

text \<open>
  Heap tables and index trees that share one page space. A view of the database, a catalog and
  a map of pages, carries for every index relation a tree; the trees use allocated pages that
  belong to no heap, to no other tree and not to the catalog. The operations of a transaction
  keep this layout, each one changing only the part it is meant to change.
\<close>

section \<open>Schemas\<close>

lemma same_relation_refl [simp]: "same_relation x x"
  by (auto simp: same_relation_def split: storage_object.splits)

lemma same_relation_sym: "same_relation x y \<Longrightarrow> same_relation y x"
  by (auto simp: same_relation_def split: storage_object.splits)

lemma same_relation_trans: "same_relation x y \<Longrightarrow> same_relation y z \<Longrightarrow> same_relation x z"
  by (cases "ri_storage x"; cases "ri_storage y"; cases "ri_storage z") (auto simp: same_relation_def)

definition same_schema :: "catalog \<Rightarrow> catalog \<Rightarrow> bool" where
  "same_schema c c' \<longleftrightarrow> list_all2 same_relation (cat_relations c) (cat_relations c') \<and> cat_extensions c' = cat_extensions c"

lemma same_schema_refl [simp]: "same_schema c c"
  by (simp add: same_schema_def list_all2_refl)

lemma same_schema_sym: "same_schema c c' \<Longrightarrow> same_schema c' c"
  by (auto simp: same_schema_def list_all2_conv_all_nth intro: same_relation_sym)

lemma same_schema_trans: "same_schema a b \<Longrightarrow> same_schema b c \<Longrightarrow> same_schema a c"
  unfolding same_schema_def using list_all2_trans [of same_relation same_relation same_relation] same_relation_trans by metis

lemma find_related:
  assumes "list_all2 R xs ys" "\<And>x y. R x y \<Longrightarrow> P x = Q y"
  shows "rel_option R (find P xs) (find Q ys)"
  using assms(1) by (induction rule: list_all2_induct) (use assms(2) in auto)

lemma same_schema_by_id:
  assumes "same_schema c c'" "relation_by_id c rid = Some r"
  obtains r' where "relation_by_id c' rid = Some r'" "same_relation r r'"
proof -
  have "rel_option same_relation (relation_by_id c rid) (relation_by_id c' rid)"
    using assms(1) unfolding relation_by_id_def same_schema_def by (auto intro!: find_related simp: same_relation_def)
  with assms(2) show thesis by (auto simp: option_rel_Some1 intro: that)
qed

lemma same_schema_by_name:
  assumes "same_schema c c'"
  shows "rel_option same_relation (relation_by_name c name) (relation_by_name c' name)"
  using assms unfolding relation_by_name_def same_schema_def by (auto intro!: find_related simp: same_relation_def)

section \<open>Trees beside heaps\<close>

definition heap_page_set :: "catalog \<Rightarrow> page_id set" where
  "heap_page_set c = (\<Union>r \<in> set (cat_relations c). set (relation_heap_pages r))"

definition tree_in :: "catalog \<Rightarrow> page_map \<Rightarrow> btree \<Rightarrow> bool" where
  "tree_in c P tr \<longleftrightarrow> forest (nodes_of P) None [] [tr] (bt_height tr) \<and>
     set (tree_pids tr) \<subseteq> allocated c - {PageId 0} - heap_page_set c"

definition trees_ok :: "catalog \<Rightarrow> page_map \<Rightarrow> (relation_id \<Rightarrow> btree) \<Rightarrow> bool" where
  "trees_ok c P T \<longleftrightarrow> (\<forall>rid root. index_at c rid root \<longrightarrow> tree_in c P (T rid) \<and> root_pid (T rid) = root \<and>
     (\<forall>rid2 root2. index_at c rid2 root2 \<longrightarrow> rid2 \<noteq> rid \<longrightarrow> set (tree_pids (T rid)) \<inter> set (tree_pids (T rid2)) = {}))"

lemma trees_okD:
  assumes "trees_ok c P T" "index_at c rid root"
  shows "tree_in c P (T rid)" "root_pid (T rid) = root"
    "index_at c rid2 root2 \<Longrightarrow> rid2 \<noteq> rid \<Longrightarrow> set (tree_pids (T rid)) \<inter> set (tree_pids (T rid2)) = {}"
  using assms by (auto simp: trees_ok_def)

lemma heap_page_set_allocated:
  assumes "cat_wf c"
  shows "heap_page_set c \<subseteq> allocated c" "PageId 0 \<notin> heap_page_set c"
  using assms heap_page_in_cat unfolding heap_page_set_def allocated_def cat_wf_def by force+

lemma tree_in_frame:
  assumes "tree_in c P tr" "allocated c \<subseteq> allocated c'" "heap_page_set c' \<inter> allocated c \<subseteq> heap_page_set c"
    "\<forall>q \<in> set (tree_pids tr). P' q = P q"
  shows "tree_in c' P' tr"
proof -
  have "forest (nodes_of P') None [] [tr] (bt_height tr)"
    by (rule forest_frame [where nd = "nodes_of P"]) (use assms(1,4) in \<open>auto simp: tree_in_def intro: nodes_of_cong\<close>)
  with assms(1-3) show ?thesis by (auto simp: tree_in_def)
qed

lemma trees_ok_frame:
  assumes "trees_ok c P T" "allocated c \<subseteq> allocated c'" "heap_page_set c' \<inter> allocated c \<subseteq> heap_page_set c"
    "\<And>rid root. index_at c' rid root = index_at c rid root"
    "\<forall>q \<in> allocated c - {PageId 0} - heap_page_set c. P' q = P q"
  shows "trees_ok c' P' T"
  unfolding trees_ok_def assms(4)
proof (intro allI impI conjI)
  fix rid root assume i: "index_at c rid root"
  note d = trees_okD [OF assms(1) i]
  show "tree_in c' P' (T rid)" by (rule tree_in_frame [OF d(1) assms(2,3)]) (use d(1) assms(5) in \<open>auto simp: tree_in_def\<close>)
  show "root_pid (T rid) = root" by (rule d)
  show "set (tree_pids (T rid)) \<inter> set (tree_pids (T rid2)) = {}" if "index_at c rid2 root2" "rid2 \<noteq> rid" for rid2 root2
    using d(3) that by blast
qed

lemma bt_height_less_pids:
  assumes "\<And>c. c \<in> set cs \<Longrightarrow> bt_height c < length (tree_pids c)" "cs \<noteq> []"
  shows "Max (set (map bt_height cs)) < length (concat (map tree_pids cs))"
proof -
  from assms(2) obtain c where c: "c \<in> set cs" "Max (set (map bt_height cs)) = bt_height c"
    using Max_in [of "set (map bt_height cs)"] by (auto simp del: Max_in)
  have "length (tree_pids c) \<le> length (concat (map tree_pids cs))"
    using c(1) by (auto simp: length_concat member_le_sum_list)
  with assms(1) [OF c(1)] c(2) show ?thesis by simp
qed

lemma bt_height_pids: "bt_ok t \<Longrightarrow> bt_height t < length (tree_pids t)"
proof (induction t)
  case (BNode pid ks cs)
  have "cs \<noteq> []" using BNode.prems by auto
  then have "Max (set (map bt_height cs)) < length (concat (map tree_pids cs))"
    by (rule bt_height_less_pids [rotated]) (use BNode in auto)
  then show ?case by (simp add: forest_pids_def)
qed simp

lemma tree_height_bound:
  assumes "tree_in c P tr"
  shows "bt_height tr < unat (cat_next_page_id c)"
proof -
  have "bt_ok tr" "distinct (tree_pids tr)" and sub: "set (tree_pids tr) \<subseteq> allocated c"
    using assms by (auto simp: tree_in_def forest_def)
  then have "bt_height tr < card (set (tree_pids tr))" using bt_height_pids by (simp add: distinct_card)
  also have "set (tree_pids tr) \<subseteq> (\<lambda>n. PageId (of_nat n)) ` {..<unat (cat_next_page_id c)}"
  proof
    fix q assume "q \<in> set (tree_pids tr)"
    then have "unat (page_no q) < unat (cat_next_page_id c)" using sub by (auto simp: allocated_def word_less_nat_alt)
    then show "q \<in> (\<lambda>n. PageId (of_nat n)) ` {..<unat (cat_next_page_id c)}"
      by (cases q) (auto intro!: image_eqI [where x = "unat (page_no q)"])
  qed
  then have "card (set (tree_pids tr)) \<le> card {..<unat (cat_next_page_id c)}" by (intro surj_card_le) auto
  finally show ?thesis by simp
qed

section \<open>Views with the same heaps\<close>

text \<open>The tables have the same pages with the same contents; only index roots may differ.\<close>

definition same_heaps :: "catalog \<Rightarrow> page_map \<Rightarrow> catalog \<Rightarrow> page_map \<Rightarrow> bool" where
  "same_heaps c P c' P' \<longleftrightarrow> same_schema c c' \<and>
     list_all2 (\<lambda>x y. relation_heap_pages y = relation_heap_pages x) (cat_relations c) (cat_relations c') \<and>
     (\<forall>q \<in> heap_page_set c. P' q = P q)"

lemma same_heaps_refl [simp]: "same_heaps c P c P"
  by (simp add: same_heaps_def list_all2_refl)

lemma heap_page_set_same:
  assumes "list_all2 (\<lambda>x y. relation_heap_pages y = relation_heap_pages x) (cat_relations c) (cat_relations c')"
  shows "heap_page_set c' = heap_page_set c"
proof -
  have "map (\<lambda>r. set (relation_heap_pages r)) (cat_relations c') = map (\<lambda>r. set (relation_heap_pages r)) (cat_relations c)"
    using assms by (auto simp: list_all2_conv_all_nth intro: nth_equalityI)
  from arg_cong [OF this, of "\<lambda>l. \<Union> (set l)"] show ?thesis by (simp add: heap_page_set_def)
qed

lemma same_heaps_trans: "same_heaps a P b Q \<Longrightarrow> same_heaps b Q c R \<Longrightarrow> same_heaps a P c R"
  using heap_page_set_same [of a b]
  by (auto simp: same_heaps_def list_all2_conv_all_nth intro: same_schema_trans)

lemma same_heaps_table:
  assumes "same_heaps c P c' P'" "relation_by_id c rid = Some r"
  obtains r' where "relation_by_id c' rid = Some r'" "same_relation r r'" "relation_heap_pages r' = relation_heap_pages r"
proof -
  let ?R = "\<lambda>x y. same_relation x y \<and> relation_heap_pages y = relation_heap_pages x"
  have "list_all2 ?R (cat_relations c) (cat_relations c')"
    using assms(1) by (auto simp: same_heaps_def same_schema_def list_all2_conv_all_nth)
  then have "rel_option ?R (relation_by_id c rid) (relation_by_id c' rid)"
    unfolding relation_by_id_def by (rule find_related) (simp add: same_relation_def)
  with assms(2) show thesis by (auto simp: option_rel_Some1 intro: that)
qed

lemma same_heaps_scan:
  assumes "same_heaps c P c' P'" "relation_by_id c rid = Some r" "ri_kind r = RelTable"
  shows "view_scan c' P' rid = view_scan c P rid"
proof -
  from same_heaps_table [OF assms(1,2)] obtain r' where r': "relation_by_id c' rid = Some r'" "ri_kind r' = RelTable"
    "relation_heap_pages r' = relation_heap_pages r" using assms(3) by (auto simp: same_relation_def)
  have "scan_pages (map_load P') (relation_heap_pages r) = scan_pages (map_load P) (relation_heap_pages r)"
    by (rule scan_pages_cong) (use assms(1) relation_by_id_Some [OF assms(2)] in \<open>auto simp: same_heaps_def heap_page_set_def map_load_def\<close>)
  then show ?thesis using scan_with_table [OF r'(1,2)] scan_with_table [OF assms(2,3)] r'(3) by (simp add: view_scan_def)
qed

lemma same_heaps_ok:
  assumes "same_heaps c P c' P'" "heap_ok c P" "cat_wf c'"
  shows "heap_ok c' P'"
  unfolding heap_ok_def
proof (intro conjI ballI)
  fix r' q assume "r' \<in> set (cat_relations c')" "q \<in> set (relation_heap_pages r')"
  then have q: "q \<in> heap_page_set c" using heap_page_set_same [of c c'] assms(1) by (auto simp: same_heaps_def heap_page_set_def)
  with assms(2) obtain p where "P q = Some p" "heap_page_ok p" by (auto simp: heap_ok_def heap_page_set_def)
  with assms(1) q show "\<exists>p. P' q = Some p \<and> heap_page_ok p" by (simp add: same_heaps_def)
qed (rule assms(3))

section \<open>Rows and trees\<close>

lemma append_heap_page_layout:
  assumes "append_heap_page c rid pid = (Inr (), c')" "cat_wf c"
  shows "same_schema c c'" "heap_page_set c' = insert pid (heap_page_set c)" "index_at c' x root = index_at c x root"
    "allocated c' = allocated c"
proof -
  from append_heap_page_Inr [OF assms(1)] obtain as r bs h where r: "cat_relations c = as @ r # bs" "ri_id r = rid"
    "ri_kind r = RelTable" "ri_storage r = StorageHeap h"
    "c' = c\<lparr>cat_relations := as @ r\<lparr>ri_storage := StorageHeap (h\<lparr>hs_pages := hs_pages h @ [pid]\<rparr>)\<rparr> # bs\<rparr>"
    "\<forall>a \<in> set as. ri_id a \<noteq> rid" .
  let ?y = "r\<lparr>ri_storage := StorageHeap (h\<lparr>hs_pages := hs_pages h @ [pid]\<rparr>)\<rparr>"
  have "list_all2 same_relation (as @ r # bs) (as @ ?y # bs)"
    using r(3,4) by (intro list_all2_appendI list.rel_intros) (simp_all add: list_all2_refl same_relation_def)
  then show "same_schema c c'" by (simp add: same_schema_def r(1,5))
  have "relation_heap_pages ?y = relation_heap_pages r @ [pid]" using r(4) by (simp add: relation_heap_pages_def)
  then show "heap_page_set c' = insert pid (heap_page_set c)" by (auto simp: heap_page_set_def r(1,5))
  show "allocated c' = allocated c" by (simp add: allocated_def r(5))
  from append_heap_page_lookup [OF assms(1)] obtain y where y: "relation_by_id c rid = Some y" "ri_kind y = RelTable"
    "\<exists>r'. relation_by_id c' rid = Some r' \<and> ri_kind r' = RelTable" "\<And>rid2. rid2 \<noteq> rid \<Longrightarrow> relation_by_id c' rid2 = relation_by_id c rid2"
    by metis
  then show "index_at c' x root = index_at c x root" by (cases "x = rid") (auto simp: index_at_def)
qed

lemma allocate_page_id_layout:
  assumes "allocate_page_id c = (Inr pid, c')"
  shows "same_schema c c'" "heap_page_set c' = heap_page_set c" "index_at c' x root = index_at c x root"
    "allocated c' = insert pid (allocated c)" "pid \<notin> allocated c" "spare_pages c = Suc (spare_pages c')"
proof -
  have "checked_add (cat_next_page_id c) 1 \<noteq> None" using assms by (auto simp: allocate_page_id_def split: option.splits)
  then have "0 < spare_pages c" by (auto simp: checked_add_def spare_pages_def split: if_splits)
  from allocate_page_id_spare [OF this] obtain c2 where "allocate_page_id c = (Inr (PageId (cat_next_page_id c)), c2)"
    "cat_relations c2 = cat_relations c" "cat_extensions c2 = cat_extensions c" "PageId (cat_next_page_id c) \<notin> allocated c"
    "allocated c2 = insert (PageId (cat_next_page_id c)) (allocated c)" "Suc (spare_pages c2) = spare_pages c" .
  with assms show "same_schema c c'" "heap_page_set c' = heap_page_set c" "index_at c' x root = index_at c x root"
    "allocated c' = insert pid (allocated c)" "pid \<notin> allocated c" "spare_pages c = Suc (spare_pages c')"
    by (auto simp: same_schema_def heap_page_set_def index_at_def relation_by_id_def list_all2_refl)
qed

lemma tx_insert_row_layout:
  assumes wf: "tx_wf t" and ins: "tx_insert_row t rid bytes = (Inr row, t')" and trees: "trees_ok (tr_working_catalog t) (tx_pages t) T"
  shows "trees_ok (tr_working_catalog t') (tx_pages t') T" "same_schema (tr_working_catalog t) (tr_working_catalog t')"
    "index_at (tr_working_catalog t') x root = index_at (tr_working_catalog t) x root"
    "spare_pages (tr_working_catalog t) \<le> Suc (spare_pages (tr_working_catalog t'))"
proof -
  let ?c = "tr_working_catalog t" and ?c' = "tr_working_catalog t'"
  have ok: "heap_ok ?c (tx_pages t)" and b: "tx_base t" and cwf: "cat_wf ?c" using wf by (simp_all add: tx_wf_def heap_ok_def)
  from tx_insert_row_cases [OF ins] obtain r found t1 where r: "relation_by_id ?c rid = Some r" "ri_kind r = RelTable"
    and i: "tx_insert_into_pages t bytes (relation_heap_pages r) = (Inr found, t1)"
    and k: "(case found of Some x \<Rightarrow> row = x \<and> t' = t1 | None \<Rightarrow> tx_insert_into_new_page t1 rid bytes = (Inr row, t'))" .
  have "trees_ok ?c' (tx_pages t') T \<and> same_schema ?c ?c' \<and> (\<forall>x root. index_at ?c' x root = index_at ?c x root) \<and>
      spare_pages ?c \<le> Suc (spare_pages ?c')"
  proof (cases found)
    case (Some x)
    with k tx_insert_into_pages_cases [OF i] obtain pid p' where q: "pid \<in> set (relation_heap_pages r)" "t' = tx_put_page t pid p'" by auto
    have "pid \<in> heap_page_set ?c" using q(1) relation_by_id_Some [OF r(1)] by (auto simp: heap_page_set_def)
    with tx_put_page_facts(1,4) [OF b, where pid = pid and p = p'] q(2) trees_ok_frame [OF trees, of ?c "tx_pages t'"]
    show ?thesis by auto
  next
    case None
    with tx_insert_into_pages_cases [OF i] k have "tx_insert_into_new_page t rid bytes = (Inr row, t')" by simp
    then obtain pid u1 slot p u2 where al: "on_catalog allocate_page_id t = (Inr pid, u1)"
      and p: "insert_record (page_new pid Heap) bytes = (Inr slot, p)"
      and ap: "on_catalog (\<lambda>c. append_heap_page c rid pid) u1 = (Inr (), u2)"
      and md: "mark_catalog_dirty (tx_put_page u2 pid p) = (Inr (), t')" by (rule tx_insert_into_new_page_Inr)
    note f1 = on_catalog_facts [OF al] and f2 = on_catalog_facts [OF ap]
    note a = allocate_page_id_layout [OF f1(1)]
    have cwf1: "cat_wf (tr_working_catalog u1)" using allocate_page_id_wf(1) [OF cwf f1(1)] .
    note h = append_heap_page_layout [OF f2(1) cwf1]
    have b2: "tx_base u2" using b f1(4) f2(4) by simp
    note fresh = insert_fresh_page [OF p]
    have b3: "tx_base (tx_put_page u2 pid p)" by (rule tx_put_page_facts(2) [OF b2]) (use fresh in simp_all)
    note f3 = mark_catalog_dirty_facts [OF b3 md]
    have c': "?c' = tr_working_catalog u2" using f3(3) by (simp add: tx_put_page_def)
    have pg: "q = PageId 0 \<or> q = pid \<or> tx_pages t' q = tx_pages t q" for q
      using f3(4) [of q] tx_put_page_facts(1) [OF b2, where pid = pid and p = p] f1(3) f2(3) by (cases "q = PageId 0") auto
    have "\<forall>q \<in> allocated ?c - {PageId 0} - heap_page_set ?c. tx_pages t' q = tx_pages t q" using pg a(5) by blast
    then have "trees_ok ?c' (tx_pages t') T"
      by (intro trees_ok_frame [OF trees]) (use a h in \<open>simp_all add: c', auto\<close>)
    moreover have "spare_pages ?c' = spare_pages (tr_working_catalog u1)" using append_heap_page_lookup [OF f2(1)] c'
      by (metis spare_pages_def)
    ultimately show ?thesis using a h by (auto simp: c' intro: same_schema_trans)
  qed
  then show "trees_ok ?c' (tx_pages t') T" "same_schema ?c ?c'" "index_at ?c' x root = index_at ?c x root"
    "spare_pages ?c \<le> Suc (spare_pages ?c')" by auto
qed

section \<open>Index entries\<close>

lemma tree_in_stored:
  "tx_base t \<Longrightarrow> tree_in (tr_working_catalog t) (tx_pages t) tr \<Longrightarrow> tx_index.stored t tr"
  by (auto simp: tree_in_def tx_index.stored_def)

lemma set_index_root_page_layout:
  assumes "index_at c rid root" "set_index_root_page c rid root' = (r, c')"
  shows "same_schema c c'" "list_all2 (\<lambda>x y. relation_heap_pages y = relation_heap_pages x) (cat_relations c) (cat_relations c')"
    "index_at c' x rt = (if x = rid then rt = root' else index_at c x rt)" "allocated c' = allocated c" "spare_pages c' = spare_pages c"
proof -
  from set_index_root_page_at [OF assms(1), of root'] obtain as y bs i where y: "cat_relations c = as @ y # bs" "ri_storage y = StorageBPlusTree i"
    "set_index_root_page c rid root' = (Inr (), c\<lparr>cat_relations := as @ y\<lparr>ri_storage := StorageBPlusTree (i\<lparr>is_root_page_id := root'\<rparr>)\<rparr> # bs\<rparr>)"
    "index_at (snd (set_index_root_page c rid root')) rid root'" "ri_id y = rid" "\<forall>a \<in> set as. ri_id a \<noteq> rid" .
  let ?z = "y\<lparr>ri_storage := StorageBPlusTree (i\<lparr>is_root_page_id := root'\<rparr>)\<rparr>"
  have c': "c' = c\<lparr>cat_relations := as @ ?z # bs\<rparr>" "index_at c' rid root'" using y(3,4) assms(2) by simp_all
  have sr: "same_relation y ?z" using y(2) by (simp add: same_relation_def)
  then have "list_all2 same_relation (as @ y # bs) (as @ ?z # bs)"
    by (intro list_all2_appendI list.rel_intros) (simp_all add: list_all2_refl)
  then show "same_schema c c'" by (simp add: same_schema_def y(1) c'(1))
  have "list_all2 (\<lambda>x y. relation_heap_pages y = relation_heap_pages x) (as @ y # bs) (as @ ?z # bs)"
    using y(2) by (intro list_all2_appendI list.rel_intros) (simp_all add: list_all2_refl relation_heap_pages_def)
  then show "list_all2 (\<lambda>x y. relation_heap_pages y = relation_heap_pages x) (cat_relations c) (cat_relations c')"
    by (simp add: y(1) c'(1))
  show "allocated c' = allocated c" "spare_pages c' = spare_pages c" by (simp_all add: allocated_def spare_pages_def c'(1))
  have "find (\<lambda>r. ri_id r = x) (as @ ?z # bs) = find (\<lambda>r. ri_id r = x) (as @ y # bs)" if "x \<noteq> rid"
    using that y(5) by (induction as) auto
  then have "relation_by_id c' x = relation_by_id c x" if "x \<noteq> rid" using that by (simp add: relation_by_id_def c'(1) y(1))
  with c'(2) show "index_at c' x rt = (if x = rid then rt = root' else index_at c x rt)" by (auto simp: index_at_def)
qed

lemma tx_index_insert_wf:
  assumes "index_insert tx_index_store root key row t = Some (r, u)" "cat_wf (tr_working_catalog t)"
  shows "cat_wf (tr_working_catalog u)"
proof (rule index_insert_inv [where P = "\<lambda>u. cat_wf (tr_working_catalog u)", OF _ _ _ assms])
  fix pid n and s :: transaction assume "cat_wf (tr_working_catalog s)"
  then show "cat_wf (tr_working_catalog (snd (store_node tx_index_store pid n s)))"
    by (auto simp: store_node_def tx_index_store_def tx_put_page_def split: sum.splits)
next
  fix s :: transaction assume s: "cat_wf (tr_working_catalog s)"
  obtain x v where v: "on_catalog allocate_page_id s = (x, v)" by fastforce
  from allocate_page_id_wf(1) [OF s on_catalog_facts(1) [OF v]] v
  show "cat_wf (tr_working_catalog (snd (ps_allocate tx_index_store s)))" by (simp add: tx_index_store_def)
qed (simp add: tx_index_store_def)

text \<open>Recording the root of a grown tree in the catalog.\<close>

lemma finish_index_insert_layout:
  assumes base: "tx_base u" "cat_wf (tr_working_catalog u)" and root: "index_at (tr_working_catalog u) rid root"
    and new: "root' = root \<or> root' \<notin> set (cat_pages (tr_working_catalog u)) \<and> page_no root' \<noteq> 0 \<and> root' \<in> allocated (tr_working_catalog u)"
    and fin: "finish_index_insert rid root root' u = (Inr (), t')"
  shows "tx_base t'" "tx_staged t'" "cat_wf (tr_working_catalog t')" "same_schema (tr_working_catalog u) (tr_working_catalog t')"
    "list_all2 (\<lambda>x y. relation_heap_pages y = relation_heap_pages x) (cat_relations (tr_working_catalog u)) (cat_relations (tr_working_catalog t'))"
    "index_at (tr_working_catalog t') x rt = (if x = rid then rt = root' else index_at (tr_working_catalog u) x rt)"
    "allocated (tr_working_catalog t') = allocated (tr_working_catalog u)"
    "spare_pages (tr_working_catalog t') = spare_pages (tr_working_catalog u)" "q \<noteq> PageId 0 \<Longrightarrow> tx_pages t' q = tx_pages u q"
proof -
  from fin obtain t1 where t1: "(if root' \<noteq> root then on_catalog (\<lambda>c. set_index_root_page c rid root') u
      else (Inr (), u)) = (Inr (), t1)" and md: "mark_catalog_dirty t1 = (Inr (), t')"
    by (auto simp: finish_index_insert_def bindS_eq_Inr)
  let ?c = "tr_working_catalog u" and ?c1 = "tr_working_catalog t1"
  have c1: "tx_base t1 \<and> tx_pages t1 = tx_pages u \<and> cat_wf ?c1 \<and> same_schema ?c ?c1 \<and>
      list_all2 (\<lambda>x y. relation_heap_pages y = relation_heap_pages x) (cat_relations ?c) (cat_relations ?c1) \<and>
      (\<forall>x rt. index_at ?c1 x rt = (if x = rid then rt = root' else index_at ?c x rt)) \<and>
      allocated ?c1 = allocated ?c \<and> spare_pages ?c1 = spare_pages ?c"
  proof (cases "root' = root")
    case True
    with t1 have "t1 = u" by simp
    moreover have "index_at ?c rid rt \<longleftrightarrow> rt = root" for rt using root by (auto simp: index_at_def)
    ultimately show ?thesis using base True by (simp add: list_all2_refl)
  next
    case False
    then have oc: "on_catalog (\<lambda>c. set_index_root_page c rid root') u = (Inr (), t1)" using t1 by simp
    note f = on_catalog_facts [OF oc]
    have "cat_wf ?c1" by (rule set_index_root_page_wf [OF base(2) f(1)]) (use new False in \<open>auto simp: allocated_def\<close>)
    with set_index_root_page_layout [OF root f(1)] f(3,4) base(1) show ?thesis by simp
  qed
  then have b1: "tx_base t1" by simp
  note m = mark_catalog_dirty_facts [OF b1 md]
  from c1 m show "tx_base t'" "tx_staged t'" "cat_wf (tr_working_catalog t')" "same_schema ?c (tr_working_catalog t')"
    "list_all2 (\<lambda>x y. relation_heap_pages y = relation_heap_pages x) (cat_relations ?c) (cat_relations (tr_working_catalog t'))"
    "index_at (tr_working_catalog t') x rt = (if x = rid then rt = root' else index_at ?c x rt)"
    "allocated (tr_working_catalog t') = allocated ?c" "spare_pages (tr_working_catalog t') = spare_pages ?c"
    "q \<noteq> PageId 0 \<Longrightarrow> tx_pages t' q = tx_pages u q"
    by simp_all
qed

lemma trees_ok_replace:
  assumes trees: "trees_ok c P T" and idx: "index_at c rid root" "\<And>x rt. index_at c' x rt = (if x = rid then rt = root_pid tr else index_at c x rt)"
    and pages: "\<forall>q \<in> allocated c - set (tree_pids (T rid)) - {PageId 0}. P' q = P q"
    and c': "allocated c \<subseteq> allocated c'" "heap_page_set c' = heap_page_set c" "heap_page_set c \<subseteq> allocated c"
    and tr: "forest (nodes_of P') None [] [tr] (bt_height tr)" "PageId 0 \<notin> set (tree_pids tr)"
      "set (tree_pids tr) \<subseteq> set (tree_pids (T rid)) \<union> (allocated c' - allocated c)"
  shows "trees_ok c' P' (T(rid := tr))"
proof -
  note d = trees_okD [OF trees idx(1)]
  have own: "tree_in c' P' tr" using tr d(1) c' by (auto simp: tree_in_def)
  have other: "tree_in c' P' (T x) \<and> root_pid (T x) = rt \<and> set (tree_pids tr) \<inter> set (tree_pids (T x)) = {}"
    if x: "index_at c x rt" "x \<noteq> rid" for x rt
  proof -
    note e = trees_okD [OF trees x(1)]
    have dis: "set (tree_pids (T x)) \<inter> set (tree_pids (T rid)) = {}" using e(3) [OF idx(1)] x(2) by blast
    have "tree_in c' P' (T x)"
      by (rule tree_in_frame [OF e(1) c'(1)]) (use e(1) dis pages c'(2) in \<open>auto simp: tree_in_def\<close>)
    moreover have "set (tree_pids tr) \<inter> set (tree_pids (T x)) = {}" using tr(3) dis e(1) by (auto simp: tree_in_def)
    ultimately show ?thesis using e(2) by simp
  qed
  have two: "y = x" if "q \<in> set (tree_pids (T x))" "q \<in> set (tree_pids (T y))" "index_at c x rt" "index_at c y ry" for q x y rt ry
    using trees_okD(3) [OF trees that(3,4)] that(1,2) by auto
  show ?thesis unfolding trees_ok_def idx(2)
    using own other two by (auto split: if_splits dest: two)
qed

text \<open>
  An insertion into an index returns; on success the tree of that index has the new entry, the
  other trees and all tables are as before.
\<close>

lemma tx_insert_index_entry_layout:
  assumes wf: "tx_wf t" and trees: "trees_ok (tr_working_catalog t) (tx_pages t) T"
    and idx: "index_at (tr_working_catalog t) rid root" and key: "key_good key"
    and room: "bt_height (T rid) + 2 \<le> spare_pages (tr_working_catalog t)"
  obtains r t' tr where "tx_insert_index_entry t rid key row = Some (r, t')" "tx_frame t t'"
    "r = Inr () \<longrightarrow> tx_wf t' \<and> tx_staged t' \<and> trees_ok (tr_working_catalog t') (tx_pages t') (T(rid := tr)) \<and>
      same_heaps (tr_working_catalog t) (tx_pages t) (tr_working_catalog t') (tx_pages t') \<and>
      (\<forall>x. (\<exists>rt. index_at (tr_working_catalog t') x rt) = (\<exists>rt. index_at (tr_working_catalog t) x rt)) \<and>
      mset (tree_entries tr) = add_mset \<lparr>ie_key = key, ie_row_id = row\<rparr> (mset (tree_entries (T rid))) \<and>
      bt_height tr \<le> Suc (bt_height (T rid)) \<and>
      spare_pages (tr_working_catalog t) \<le> spare_pages (tr_working_catalog t') + bt_height (T rid) + 2"
proof -
  let ?c = "tr_working_catalog t"
  have b: "tx_base t" and act: "tr_state t = Active" and ok: "heap_ok ?c (tx_pages t)" and cwf: "cat_wf ?c"
    using wf by (simp_all add: tx_wf_def heap_ok_def)
  note d = trees_okD [OF trees idx]
  note hp = heap_page_set_allocated [OF cwf]
  from tx_index.index_insert_ok [OF tree_in_stored [OF b d(1)] key room, of row] obtain u tr xs ys where
    ins: "index_insert tx_index_store root key row t = Some (Inr (root_pid tr), u)" and st: "tx_index.stored u tr"
    and es: "tree_entries (T rid) = xs @ ys" "tree_entries tr = xs @ \<lparr>ie_key = key, ie_row_id = row\<rparr> # ys"
    and h: "bt_height tr \<le> Suc (bt_height (T rid))"
    and pg: "\<forall>q \<in> allocated ?c - set (tree_pids (T rid)). tx_pages u q = tx_pages t q"
    and pids: "set (tree_pids tr) \<subseteq> set (tree_pids (T rid)) \<union> (allocated (tr_working_catalog u) - allocated ?c)"
    and rt: "root_pid tr = root \<or> root_pid tr \<notin> allocated ?c" and al: "allocated ?c \<subseteq> allocated (tr_working_catalog u)"
    and sp: "spare_pages ?c \<le> spare_pages (tr_working_catalog u) + bt_height (T rid) + 2"
    unfolding d(2) by blast
  let ?u = "tr_working_catalog u"
  have rel: "cat_relations ?u = cat_relations ?c" "cat_extensions ?u = cat_extensions ?c"
    using tx_index_insert_relations [OF ins] by simp_all
  have same: "index_at ?u x y = index_at ?c x y" "heap_page_set ?u = heap_page_set ?c" for x y
    by (simp_all add: index_at_def relation_by_id_def heap_page_set_def rel)
  have zero: "PageId 0 \<in> allocated ?c" using cwf by (simp add: cat_wf_def allocated_def)
  have nz: "PageId 0 \<notin> set (tree_pids tr)" using pids d(1) zero by (auto simp: tree_in_def)
  have bu: "tx_base u" and fu: "forest (nodes_of (tx_pages u)) None [] [tr] (bt_height tr)" and su: "set (tree_pids tr) \<subseteq> allocated ?u"
    using st by (simp_all add: tx_index.stored_def)
  obtain r t' where fin: "finish_index_insert rid root (root_pid tr) u = (r, t')" by fastforce
  have call: "tx_insert_index_entry t rid key row = Some (r, t')"
    using index_at_root [OF idx] ins fin act by (simp add: tx_insert_index_entry_def ensure_active_def)
  note fr = tx_insert_index_entry_frame [OF call]
  have res: "tx_wf t' \<and> tx_staged t' \<and> trees_ok (tr_working_catalog t') (tx_pages t') (T(rid := tr)) \<and>
      same_heaps ?c (tx_pages t) (tr_working_catalog t') (tx_pages t') \<and>
      (\<forall>x. (\<exists>rt. index_at (tr_working_catalog t') x rt) = (\<exists>rt. index_at ?c x rt)) \<and>
      spare_pages ?c \<le> spare_pages (tr_working_catalog t') + bt_height (T rid) + 2" if "r = Inr ()"
  proof -
    have "root_pid tr = root \<or> root_pid tr \<notin> set (cat_pages ?u) \<and> page_no (root_pid tr) \<noteq> 0 \<and> root_pid tr \<in> allocated ?u"
    proof (cases "root_pid tr = root")
      case False
      then have new: "root_pid tr \<notin> allocated ?c" using rt by simp
      have "set (cat_pages ?u) \<subseteq> allocated ?c" using cwf by (auto simp: cat_wf_def cat_pages_def rel allocated_def)
      moreover have "page_no (root_pid tr) \<noteq> 0" using new zero by (cases "root_pid tr") auto
      moreover have "root_pid tr \<in> allocated ?u" using su root_in_pids by blast
      ultimately show ?thesis using new by blast
    qed simp
    note f = finish_index_insert_layout [OF bu tx_index_insert_wf [OF ins cwf] idx [folded same(1)] this fin [unfolded that]]
    let ?c' = "tr_working_catalog t'"
    have heaps: "heap_page_set ?c' = heap_page_set ?c" using heap_page_set_same [OF f(5)] same(2) by simp
    have pg': "\<forall>q \<in> allocated ?c - set (tree_pids (T rid)) - {PageId 0}. tx_pages t' q = tx_pages t q" using f(9) pg by auto
    have "forest (nodes_of (tx_pages t')) None [] [tr] (bt_height tr)"
    proof (rule forest_frame [OF fu])
      fix q assume "q \<in> set (forest_pids [tr])"
      then have "q \<noteq> PageId 0" using nz by auto
      then show "nodes_of (tx_pages t') q = nodes_of (tx_pages u) q" by (rule nodes_of_cong [OF f(9)])
    qed
    then have "trees_ok ?c' (tx_pages t') (T(rid := tr))"
      by (intro trees_ok_replace [OF trees idx _ pg' _ heaps hp(1) _ nz]) (use f(6,7) same al pids in auto)
    moreover have sh: "same_heaps ?c (tx_pages t) ?c' (tx_pages t')"
      unfolding same_heaps_def
    proof (intro conjI ballI)
      show "same_schema ?c ?c'" using f(4) by (simp add: same_schema_def rel)
      show "list_all2 (\<lambda>x y. relation_heap_pages y = relation_heap_pages x) (cat_relations ?c) (cat_relations ?c')" using f(5) by (simp add: rel)
      fix q assume "q \<in> heap_page_set ?c"
      with hp d(1) have "q \<in> allocated ?c - set (tree_pids (T rid)) - {PageId 0}" by (auto simp: tree_in_def)
      with pg' show "tx_pages t' q = tx_pages t q" by blast
    qed
    moreover have "tx_wf t'" using f(1) fr act same_heaps_ok [OF sh ok f(3)] by (simp add: tx_wf_def tx_frame_def)
    moreover have "(\<exists>rt. index_at ?c' x rt) = (\<exists>rt. index_at ?c x rt)" for x using f(6) [of x] same(1) idx by auto
    ultimately show ?thesis using f(2,8) sp by simp
  qed
  have "mset (tree_entries tr) = add_mset \<lparr>ie_key = key, ie_row_id = row\<rparr> (mset (tree_entries (T rid)))" using es by simp
  with call fr res h show thesis by (intro that [of r t' tr]) auto
qed

section \<open>New relations\<close>

lemma create_index_metadata_layout:
  assumes "cat_wf c" "create_index_metadata c name tid col = (Inr (rid, root), c')"
  obtains x where "cat_relations c' = cat_relations c @ [x]" "ri_id x = rid" "ri_name x = name" "ri_kind x = RelIndex"
    "ri_storage x = StorageBPlusTree \<lparr>is_table_id = tid, is_column_name = col, is_root_page_id = root\<rparr>"
    "ri_columns x = [\<lparr>cd_name = col, cd_type_name = ''INDEX_KEY''\<rparr>]"
    "cat_extensions c' = cat_extensions c" "rid \<notin> ri_id ` set (cat_relations c)" "name \<notin> ri_name ` set (cat_relations c)"
    "allocated c' = insert root (allocated c)" "root \<notin> allocated c" "spare_pages c = Suc (spare_pages c')"
proof -
  from assms(2) obtain c1 c2 where chk: "check_new_index c name tid col = Inr ()" and a1: "allocate_relation_id c = (Inr rid, c1)"
    and a2: "allocate_page_id c1 = (Inr root, c2)"
    and c': "c' = c2\<lparr>cat_relations := cat_relations c2 @ [\<lparr>ri_id = rid, ri_name = name, ri_kind = RelIndex,
      ri_storage = StorageBPlusTree \<lparr>is_table_id = tid, is_column_name = col, is_root_page_id = root\<rparr>,
      ri_columns = [\<lparr>cd_name = col, cd_type_name = ''INDEX_KEY''\<rparr>]\<rparr>]\<rparr>"
    by (auto simp: create_index_metadata_def bindS_eq_Inr split: sum.splits)
  note w1 = allocate_relation_id_wf [OF assms(1) a1] and w2 = allocate_page_id_wf [OF allocate_relation_id_wf(1) [OF assms(1) a1] a2]
  note l = allocate_page_id_layout [OF a2]
  have al: "allocated c1 = allocated c" "spare_pages c1 = spare_pages c" using w1(3) by (simp_all add: allocated_def spare_pages_def)
  have "allocated c' = allocated c2" "spare_pages c' = spare_pages c2" by (simp_all add: c' allocated_def spare_pages_def)
  with l al c' w1(2,4) w2(2,4) w1(5) [OF refl] fresh_relation_id [OF assms(1)] check_new_index_Inr(1) [OF chk]
  show thesis by (intro that [of "\<lparr>ri_id = rid, ri_name = name, ri_kind = RelIndex,
      ri_storage = StorageBPlusTree \<lparr>is_table_id = tid, is_column_name = col, is_root_page_id = root\<rparr>,
      ri_columns = [\<lparr>cd_name = col, cd_type_name = ''INDEX_KEY''\<rparr>]\<rparr>"]) simp_all
qed

lemma same_heaps_extended:
  assumes "cat_relations c' = cat_relations c @ [x]" "relation_heap_pages x = []" "heap_ok c P"
    "\<forall>q \<in> heap_page_set c. P' q = P q" "cat_wf c'"
  shows "heap_ok c' P'" "rid \<noteq> ri_id x \<Longrightarrow> view_scan c' P' rid = view_scan c P rid" "heap_page_set c' = heap_page_set c"
proof -
  show "heap_page_set c' = heap_page_set c" using assms(1,2) by (simp add: heap_page_set_def)
  show "heap_ok c' P'" using assms unfolding heap_ok_def heap_page_set_def by fastforce
  show "view_scan c' P' rid = view_scan c P rid" if "rid \<noteq> ri_id x"
  proof (rule view_scan_same)
    show "relation_by_id c' rid = relation_by_id c rid" using assms(1) that by (simp add: relation_by_id_def find_append split: option.splits)
  qed (use assms(4) relation_by_id_Some in \<open>auto simp: heap_page_set_def\<close>)
qed

lemma tx_create_index_layout:
  assumes wf: "tx_wf t" and trees: "trees_ok (tr_working_catalog t) (tx_pages t) T"
    and cr: "tx_create_index t name tid col = (Inr (rid, root), t')"
  shows "tx_wf t'" "tx_staged t'" "tx_frame t t'" "trees_ok (tr_working_catalog t') (tx_pages t') (T(rid := BLeaf root []))"
    "create_index_metadata (tr_working_catalog t) name tid col = (Inr (rid, root), tr_working_catalog t')"
    "rid2 \<noteq> rid \<Longrightarrow> view_scan (tr_working_catalog t') (tx_pages t') rid2 = view_scan (tr_working_catalog t) (tx_pages t) rid2"
proof -
  let ?c = "tr_working_catalog t" and ?c' = "tr_working_catalog t'"
  have b: "tx_base t" and ok: "heap_ok ?c (tx_pages t)" and cwf: "cat_wf ?c" using wf by (simp_all add: tx_wf_def heap_ok_def)
  note ci = tx_create_index_ok [OF b cwf cr]
  from cr obtain t1 t2 where c: "on_catalog (\<lambda>c. create_index_metadata c name tid col) t = (Inr (rid, root), t1)"
    and i: "initialize_root tx_index_store root t1 = (Inr (), t2)" and md: "mark_catalog_dirty t2 = (Inr (), t')"
    by (auto simp: tx_create_index_def bindS_eq_Inr)
  have "tr_working_catalog t2 = tr_working_catalog t1"
    using i by (auto simp: initialize_root_def store_node_def tx_index_store_def tx_put_page_def split: sum.splits)
  moreover have "?c' = tr_working_catalog t2" using md by (auto simp: mark_catalog_dirty_def tx_put_page_def split: sum.splits)
  ultimately show meta: "create_index_metadata ?c name tid col = (Inr (rid, root), ?c')" using on_catalog_facts(1) [OF c] by simp
  from create_index_metadata_layout [OF cwf meta] obtain x where x: "cat_relations ?c' = cat_relations ?c @ [x]" "ri_id x = rid"
    "ri_kind x = RelIndex" "ri_storage x = StorageBPlusTree \<lparr>is_table_id = tid, is_column_name = col, is_root_page_id = root\<rparr>"
    "rid \<notin> ri_id ` set (cat_relations ?c)" "allocated ?c' = insert root (allocated ?c)" "root \<notin> allocated ?c" .
  have cwf': "cat_wf ?c'" by (rule create_index_metadata_wf [OF cwf meta])
  note hp = heap_page_set_allocated [OF cwf]
  have pg: "q = root \<or> q = PageId 0 \<or> tx_pages t' q = tx_pages t q" for q using ci(4) [of q] by auto
  have zero: "PageId 0 \<in> allocated ?c" using cwf by (simp add: cat_wf_def allocated_def)
  have heaps: "\<forall>q \<in> heap_page_set ?c. tx_pages t' q = tx_pages t q"
  proof
    fix q assume "q \<in> heap_page_set ?c"
    then have "q \<noteq> root" "q \<noteq> PageId 0" using hp x(7) by auto
    with pg [of q] show "tx_pages t' q = tx_pages t q" by simp
  qed
  have nh: "relation_heap_pages x = []" by (simp add: relation_heap_pages_def x(4))
  show "tx_staged t'" "tx_frame t t'" by (rule ci)+
  have bt: "tx_base t'" using ci(1) by (simp add: tx_index_ok_def tx_index.stored_def)
  have "heap_ok ?c' (tx_pages t')" using same_heaps_extended(1) [OF x(1) nh ok heaps cwf'] .
  then show "tx_wf t'" using bt wf ci(3) by (simp add: tx_wf_def tx_frame_def)
  show "rid2 \<noteq> rid \<Longrightarrow> view_scan ?c' (tx_pages t') rid2 = view_scan ?c (tx_pages t) rid2"
    using same_heaps_extended(2) [OF x(1) nh ok heaps cwf'] x(2) by simp
  have ix: "index_at ?c' y rt = (if y = rid then rt = root else index_at ?c y rt)" for y rt
  proof -
    have "find (\<lambda>r. ri_id r = rid) (cat_relations ?c) = None" using x(5) by (auto simp: find_None_iff)
    then show ?thesis using x(2-4) by (auto simp: index_at_def relation_by_id_def x(1) find_append split: option.splits)
  qed
  have hs: "heap_page_set ?c' = heap_page_set ?c" using x(1) nh by (simp add: heap_page_set_def)
  have own: "tree_in ?c' (tx_pages t') (BLeaf root [])"
    using ci(1) x(6,7) hs hp zero by (auto simp: tx_index_ok_def tx_index.stored_def tree_in_def)
  have other: "tree_in ?c' (tx_pages t') (T y) \<and> root_pid (T y) = rt \<and> root \<notin> set (tree_pids (T y))" if y: "index_at ?c y rt" for y rt
  proof -
    note d = trees_okD [OF trees y]
    have "\<forall>q \<in> set (tree_pids (T y)). tx_pages t' q = tx_pages t q"
    proof
      fix q assume "q \<in> set (tree_pids (T y))"
      then have "q \<noteq> root" "q \<noteq> PageId 0" using d(1) x(7) by (auto simp: tree_in_def)
      with pg [of q] show "tx_pages t' q = tx_pages t q" by simp
    qed
    then have "tree_in ?c' (tx_pages t') (T y)" by (intro tree_in_frame [OF d(1)]) (use x(6) hs in auto)
    with d x(7) show ?thesis by (auto simp: tree_in_def)
  qed
  have two: "z = y" if "q \<in> set (tree_pids (T y))" "q \<in> set (tree_pids (T z))" "index_at ?c y rt" "index_at ?c z rz" for q y z rt rz
    using trees_okD(3) [OF trees that(3,4)] that(1,2) by auto
  show "trees_ok ?c' (tx_pages t') (T(rid := BLeaf root []))"
    unfolding trees_ok_def ix using own other two by (auto split: if_splits)
qed

lemma tx_create_table_layout:
  assumes wf: "tx_wf t" and trees: "trees_ok (tr_working_catalog t) (tx_pages t) T"
    and cr: "tx_create_table t name columns = (Inr rid, t')"
  shows "trees_ok (tr_working_catalog t') (tx_pages t') T" "index_at (tr_working_catalog t') x root = index_at (tr_working_catalog t) x root"
    "\<exists>pid. create_table_metadata (tr_working_catalog t) name columns = (Inr (rid, pid), tr_working_catalog t')"
proof -
  let ?c = "tr_working_catalog t" and ?c' = "tr_working_catalog t'"
  have b: "tx_base t" and cwf: "cat_wf ?c" using wf by (simp_all add: tx_wf_def heap_ok_def)
  from cr obtain pid t1 where md: "on_catalog (\<lambda>c. create_table_metadata c name columns) t = (Inr (rid, pid), t1)"
    and mk: "mark_catalog_dirty (tx_put_page t1 pid (page_new pid Heap)) = (Inr (), t')"
    by (auto simp: tx_create_table_def bindS_eq_Inr split: prod.splits)
  note f1 = on_catalog_facts [OF md]
  have b1: "tx_base t1" using b f1(4) by simp
  note f2 = tx_put_page_facts [OF b1, where pid = pid and p = "page_new pid Heap"]
  note f3 = mark_catalog_dirty_facts [OF f2(2) [OF page_new_wf page_new_id] mk]
  have cat: "?c' = tr_working_catalog t1" using f3(3) f2(4) by simp
  with f1(1) have meta: "create_table_metadata ?c name columns = (Inr (rid, pid), ?c')" by simp
  then show "\<exists>pid. create_table_metadata ?c name columns = (Inr (rid, pid), ?c')" ..
  from create_table_metadata_Inr [OF cwf meta] obtain c: "rid = RelationId (cat_next_relation_id ?c)" "pid = PageId (cat_next_page_id ?c)"
    "cat_relations ?c' = cat_relations ?c @ [\<lparr>ri_id = rid, ri_name = name, ri_kind = RelTable,
        ri_storage = StorageHeap \<lparr>hs_pages = [pid]\<rparr>, ri_columns = columns\<rparr>]" (is "_ = _ @ [?r]") by metis
  from meta obtain c1 c2 where "allocate_relation_id ?c = (Inr rid, c1)" and al: "allocate_page_id c1 = (Inr pid, c2)"
    and c2: "?c' = c2\<lparr>cat_relations := cat_relations c2 @ [?r]\<rparr>"
    using create_table_metadata_cases [OF meta] by (auto simp: bindS_eq_Inr)
  note w1 = allocate_relation_id_wf [OF cwf this(1)] and l = allocate_page_id_layout [OF al]
  have al: "allocated ?c' = insert pid (allocated ?c)" "pid \<notin> allocated ?c"
    using l(4,5) w1(3) by (simp_all add: c2 allocated_def)
  have "find (\<lambda>r. ri_id r = rid) (cat_relations ?c) = None" using fresh_relation_id [OF cwf] c(1) by (force simp: find_None_iff)
  then have ix: "index_at ?c' x root = index_at ?c x root" for x root
    by (auto simp: index_at_def relation_by_id_def c(3) find_append split: option.splits)
  then show "index_at ?c' x root = index_at ?c x root" .
  have hs: "heap_page_set ?c' = insert pid (heap_page_set ?c)" by (auto simp: heap_page_set_def c(3) relation_heap_pages_def)
  have pg: "q = pid \<or> q = PageId 0 \<or> tx_pages t' q = tx_pages t q" for q
    using f3(4) [of q] f2(1) f1(3) by (cases "q = PageId 0") auto
  have "\<forall>q \<in> allocated ?c - {PageId 0} - heap_page_set ?c. tx_pages t' q = tx_pages t q"
  proof
    fix q assume "q \<in> allocated ?c - {PageId 0} - heap_page_set ?c"
    then have "q \<noteq> pid" "q \<noteq> PageId 0" using al(2) by auto
    with pg [of q] show "tx_pages t' q = tx_pages t q" by simp
  qed
  then show "trees_ok ?c' (tx_pages t') T" by (intro trees_ok_frame [OF trees]) (use al hs ix in auto)
qed

lemma tx_register_extension_layout:
  assumes wf: "tx_wf t" "tx_staged t" and trees: "trees_ok (tr_working_catalog t) (tx_pages t) T"
    and cr: "tx_register_extension t name v kind = (Inr b, t')"
  shows "tx_wf t'" "tx_staged t'" "tx_frame t t'" "trees_ok (tr_working_catalog t') (tx_pages t') T"
    "cat_relations (tr_working_catalog t') = cat_relations (tr_working_catalog t)" "q \<noteq> PageId 0 \<Longrightarrow> tx_pages t' q = tx_pages t q"
    "set (cat_extensions (tr_working_catalog t')) \<subseteq> insert \<lparr>ei_name = name, ei_abi_version = v, ei_kind = kind\<rparr> (set (cat_extensions (tr_working_catalog t)))"
proof -
  let ?c = "tr_working_catalog t" and ?c' = "tr_working_catalog t'"
  have b: "tx_base t" and cwf: "cat_wf ?c" and ok: "heap_ok ?c (tx_pages t)" using wf(1) by (simp_all add: tx_wf_def heap_ok_def)
  from cr obtain t1 where oc: "on_catalog (\<lambda>c. register_extension_metadata c name v kind) t = (Inr b, t1)"
    and k: "(if b then bindS (mark_catalog_dirty t1) (\<lambda>_ t2. (Inr b, t2)) else (Inr b, t1)) = (Inr b, t')"
    by (auto simp: tx_register_extension_def bindS_eq_Inr split: if_splits)
  note f1 = on_catalog_facts [OF oc]
  have b1: "tx_base t1" using b f1(4) by simp
  have meta: "cat_relations (tr_working_catalog t1) = cat_relations ?c \<and> cat_next_page_id (tr_working_catalog t1) = cat_next_page_id ?c \<and>
      (\<not> b \<longrightarrow> tr_working_catalog t1 = ?c) \<and>
      set (cat_extensions (tr_working_catalog t1)) \<subseteq> insert \<lparr>ei_name = name, ei_abi_version = v, ei_kind = kind\<rparr> (set (cat_extensions ?c))"
    using f1(1) by (auto simp: register_extension_metadata_def split: sum.splits option.splits if_splits dest!: sym [of _ "tr_working_catalog t1"])
  have t': "tx_base t' \<and> tx_frame t t' \<and> ?c' = tr_working_catalog t1 \<and> (\<forall>q. q \<noteq> PageId 0 \<longrightarrow> tx_pages t' q = tx_pages t q) \<and> tx_staged t'"
  proof (cases b)
    case True
    with k have "mark_catalog_dirty t1 = (Inr (), t')" by (auto simp: bindS_eq_Inr)
    from mark_catalog_dirty_facts [OF b1 this] f1(2,3) show ?thesis by (auto intro: tx_frame_trans)
  next
    case False
    with k have "t' = t1" by simp
    moreover have "tx_staged t1" using wf(2) meta False f1(3) by (simp add: tx_staged_def)
    ultimately show ?thesis using b1 f1 by simp
  qed
  then show "tx_staged t'" "tx_frame t t'" "cat_relations ?c' = cat_relations ?c" "q \<noteq> PageId 0 \<Longrightarrow> tx_pages t' q = tx_pages t q"
    "set (cat_extensions ?c') \<subseteq> insert \<lparr>ei_name = name, ei_abi_version = v, ei_kind = kind\<rparr> (set (cat_extensions ?c))"
    using meta by simp_all
  have rel: "cat_relations ?c' = cat_relations ?c" "allocated ?c' = allocated ?c" using t' meta by (simp_all add: allocated_def)
  have pg: "tx_pages t' q = tx_pages t q" if "q \<noteq> PageId 0" for q using t' that by blast
  show "trees_ok ?c' (tx_pages t') T"
    by (rule trees_ok_frame [OF trees]) (use rel pg in \<open>auto simp: heap_page_set_def index_at_def relation_by_id_def\<close>)
  have cwf': "cat_wf ?c'" using register_extension_metadata_wf [OF cwf f1(1)] t' by simp
  have "tx_pages t' q = tx_pages t q" if "q \<in> heap_page_set ?c" for q
    using pg heap_page_set_allocated(2) [OF cwf] that by metis
  then have "same_heaps (?c\<lparr>cat_extensions := cat_extensions ?c'\<rparr>) (tx_pages t) ?c' (tx_pages t')"
    using rel(1) by (auto simp: same_heaps_def same_schema_def heap_page_set_def intro!: list_all2_refl)
  moreover have "heap_ok (?c\<lparr>cat_extensions := cat_extensions ?c'\<rparr>) (tx_pages t)"
    using ok cwf' rel(1) by (auto simp: heap_ok_def cat_wf_def cat_pages_def)
  ultimately have "heap_ok ?c' (tx_pages t')" using cwf' by (rule same_heaps_ok)
  then show "tx_wf t'" using t' wf(1) by (simp add: tx_wf_def tx_frame_def)
qed

end
