(* ===== verification/Rdbms_Extension.thy ===== *)
theory Rdbms_Extension
  imports Rdbms_Text
begin

text \<open>
  The extension ABI constants of \<open>crates/rdbms_ext_abi\<close> and the static extension
  registry of \<open>crates/rdbms_extension\<close>. A function of an extension indexes its argument
  slice, which panics when the slice is too short; a panic is the value \<open>None\<close> here, so
  that the arity check of \<open>call_scalar\<close> has something to prevent. The two
  \<open>BTreeMap\<close>s of the registry are only inserted into and looked up, never iterated, and
  are maps.
\<close>

section \<open>The ABI\<close>

definition RDBMS_EXT_ABI_VERSION :: u32 where "RDBMS_EXT_ABI_VERSION = 1"

definition abi_version_supported :: "u32 \<Rightarrow> bool" where
  "abi_version_supported version \<longleftrightarrow> version = RDBMS_EXT_ABI_VERSION"

datatype rdbms_status = StatusOk | StatusError

fun rdbms_status_code :: "rdbms_status \<Rightarrow> u32" where
  "rdbms_status_code StatusOk = 0"
| "rdbms_status_code StatusError = 1"

section \<open>Descriptors\<close>

datatype extension_kind = Static

fun extension_kind_as_str :: "extension_kind \<Rightarrow> string" where
  "extension_kind_as_str Static = ''static''"

datatype scalar_arity = Exact nat

fun arity_accepts :: "scalar_arity \<Rightarrow> nat \<Rightarrow> bool" where
  "arity_accepts (Exact expected) len = (expected = len)"

fun arity_describe :: "scalar_arity \<Rightarrow> string" where
  "arity_describe (Exact expected) = fmt_nat expected"

type_synonym scalar_eval = "sql_value list \<Rightarrow> sql_value db_result option"

record scalar_function =
  sf_name :: string
  sf_arity :: scalar_arity
  sf_return_type :: string
  sf_eval :: scalar_eval

record extension_descriptor =
  ed_name :: string
  ed_abi_version :: u32
  ed_kind :: extension_kind
  ed_scalar_functions :: "scalar_function list"

record extension_registry =
  er_extensions :: "string \<rightharpoonup> extension_descriptor"
  er_scalar_functions :: "string \<rightharpoonup> scalar_function"

definition normalize_name :: "string \<Rightarrow> string" where
  "normalize_name name = to_ascii_lowercase name"

section \<open>The standard library\<close>

text \<open>\<open>match &args[0]\<close>: the first argument, or a panic.\<close>

definition first_arg :: "(sql_value \<Rightarrow> sql_value db_result) \<Rightarrow> scalar_eval" where
  "first_arg f args = (case args of [] \<Rightarrow> None | v # _ \<Rightarrow> Some (f v))"

definition ext_length :: scalar_eval where
  "ext_length = first_arg (\<lambda>v. case v of
     Null \<Rightarrow> Inr Null
   | Text s \<Rightarrow> (let n = length (utf8_chars s)
       in if n < 2 ^ 63 then Inr (Integer (of_nat n)) else Inl (User ''text length does not fit into INT''))
   | _ \<Rightarrow> Inl (User ''length() expects TEXT''))"

definition ext_lower :: scalar_eval where
  "ext_lower = first_arg (\<lambda>v. case v of
     Null \<Rightarrow> Inr Null
   | Text s \<Rightarrow> Inr (Text (to_ascii_lowercase s))
   | _ \<Rightarrow> Inl (User ''lower() expects TEXT''))"

definition ext_upper :: scalar_eval where
  "ext_upper = first_arg (\<lambda>v. case v of
     Null \<Rightarrow> Inr Null
   | Text s \<Rightarrow> Inr (Text (to_ascii_uppercase s))
   | _ \<Rightarrow> Inl (User ''upper() expects TEXT''))"

definition abs_value :: scalar_eval where
  "abs_value = first_arg (\<lambda>v. case v of
     Null \<Rightarrow> Inr Null
   | Integer i \<Rightarrow> bindR (ok_or (checked_abs i) (User ''abs(INT) overflow'')) (\<lambda>j. Inr (Integer j))
   | Double d \<Rightarrow> Inr (Double (f64_abs d))
   | _ \<Rightarrow> Inl (User ''abs() expects INT or DOUBLE''))"

definition typeof_value :: scalar_eval where
  "typeof_value = first_arg (\<lambda>v. Inr (Text (case v of
     Null \<Rightarrow> ''NULL'' | Integer _ \<Rightarrow> ''INT'' | Text _ \<Rightarrow> ''TEXT'' | Double _ \<Rightarrow> ''DOUBLE'')))"

definition rdbms_version :: scalar_eval where
  "rdbms_version args =
     Some (if args \<noteq> [] then Inl (InternalInvariant ''arity check did not run'')
           else Inr (Text ''rdbms-stage9-extension-v0''))"

definition STDLIB_FUNCTIONS :: "scalar_function list" where
  "STDLIB_FUNCTIONS =
     [\<lparr>sf_name = ''length'', sf_arity = Exact 1, sf_return_type = ''INT'', sf_eval = ext_length\<rparr>,
      \<lparr>sf_name = ''lower'', sf_arity = Exact 1, sf_return_type = ''TEXT'', sf_eval = ext_lower\<rparr>,
      \<lparr>sf_name = ''upper'', sf_arity = Exact 1, sf_return_type = ''TEXT'', sf_eval = ext_upper\<rparr>,
      \<lparr>sf_name = ''abs'', sf_arity = Exact 1, sf_return_type = ''DYNAMIC'', sf_eval = abs_value\<rparr>,
      \<lparr>sf_name = ''typeof'', sf_arity = Exact 1, sf_return_type = ''TEXT'', sf_eval = typeof_value\<rparr>,
      \<lparr>sf_name = ''rdbms_version'', sf_arity = Exact 0, sf_return_type = ''TEXT'', sf_eval = rdbms_version\<rparr>]"

definition STDLIB_EXTENSION :: extension_descriptor where
  "STDLIB_EXTENSION =
     \<lparr>ed_name = ''stdlib'', ed_abi_version = RDBMS_EXT_ABI_VERSION, ed_kind = Static,
      ed_scalar_functions = STDLIB_FUNCTIONS\<rparr>"

section \<open>The registry\<close>

definition registry_new :: extension_registry where
  "registry_new = \<lparr>er_extensions = Map.empty, er_scalar_functions = Map.empty\<rparr>"

definition builtin_extension_names :: "string list" where
  "builtin_extension_names = [''stdlib'']"

definition builtin_extension_descriptor :: "string \<Rightarrow> extension_descriptor db_result" where
  "builtin_extension_descriptor name =
     (if normalize_name name = ''stdlib'' then Inr STDLIB_EXTENSION
      else Inl (Extension (''unknown static extension: '' @ normalize_name name)))"

definition msg_unsupported_abi :: "extension_descriptor \<Rightarrow> string" where
  "msg_unsupported_abi d = ''extension '' @ [CHR 0x27] @ ed_name d @ [CHR 0x27] @
     '' requires unsupported ABI version '' @ fmt_nat (unat (ed_abi_version d))"

definition registry_load :: "extension_registry \<Rightarrow> extension_descriptor \<Rightarrow> (extension_registry, db_error, unit) stres" where
  "registry_load r d =
     (if \<not> abi_version_supported (ed_abi_version d) then (Inl (Extension (msg_unsupported_abi d)), r)
      else if er_extensions r (normalize_name (ed_name d)) \<noteq> None then (Inr (), r)
      else case for_each (\<lambda>f. if er_scalar_functions r (normalize_name (sf_name f)) \<noteq> None
                then Inl (Extension (''scalar function already registered: '' @ sf_name f)) else Inr ())
              (ed_scalar_functions d) of
          Inl e \<Rightarrow> (Inl e, r)
        | Inr _ \<Rightarrow> (Inr (), r\<lparr>
            er_scalar_functions := foldl (\<lambda>m f. m(normalize_name (sf_name f) \<mapsto> f))
              (er_scalar_functions r) (ed_scalar_functions d),
            er_extensions := (er_extensions r)(normalize_name (ed_name d) \<mapsto> d)\<rparr>))"

definition load_static :: "extension_registry \<Rightarrow> string \<Rightarrow> (extension_registry, db_error, extension_descriptor) stres" where
  "load_static r name =
     (case builtin_extension_descriptor name of
        Inl e \<Rightarrow> (Inl e, r)
      | Inr d \<Rightarrow> bindS (registry_load r d) (\<lambda>_ r1. (Inr d, r1)))"

definition is_loaded :: "extension_registry \<Rightarrow> string \<Rightarrow> bool" where
  "is_loaded r name \<longleftrightarrow> er_extensions r (normalize_name name) \<noteq> None"

definition registry_scalar_function :: "extension_registry \<Rightarrow> string \<Rightarrow> scalar_function option" where
  "registry_scalar_function r name = er_scalar_functions r (normalize_name name)"

definition msg_arity :: "scalar_function \<Rightarrow> nat \<Rightarrow> string" where
  "msg_arity f n = ''scalar function '' @ [CHR 0x27] @ sf_name f @ [CHR 0x27] @ '' expects '' @
     arity_describe (sf_arity f) @ '' argument(s), got '' @ fmt_nat n"

definition call_scalar :: "extension_registry \<Rightarrow> string \<Rightarrow> sql_value list \<Rightarrow> sql_value db_result option" where
  "call_scalar r name args =
     (case registry_scalar_function r name of
        None \<Rightarrow> Some (Inl (User (''unknown scalar function: '' @ name)))
      | Some f \<Rightarrow>
          if \<not> arity_accepts (sf_arity f) (length args) then Some (Inl (User (msg_arity f (length args))))
          else sf_eval f args)"

definition msg_extension_kind :: "string \<Rightarrow> string \<Rightarrow> string" where
  "msg_extension_kind name kind = ''unsupported extension kind for '' @ [CHR 0x27] @ name @ [CHR 0x27] @ '': '' @ kind"

definition msg_abi_mismatch :: "string \<Rightarrow> u32 \<Rightarrow> u32 \<Rightarrow> string" where
  "msg_abi_mismatch name c r = ''installed extension '' @ [CHR 0x27] @ name @ [CHR 0x27] @
     '' ABI mismatch: catalog='' @ fmt_nat (unat c) @ '', runtime='' @ fmt_nat (unat r)"

definition install_extension ::
  "string \<times> u32 \<times> string \<Rightarrow> extension_registry \<Rightarrow> (extension_registry, db_error, unit) stres" where
  "install_extension x r = (case x of (name, abi_version, kind) \<Rightarrow>
     if kind \<noteq> extension_kind_as_str Static then (Inl (Extension (msg_extension_kind name kind)), r)
     else case builtin_extension_descriptor name of
         Inl e \<Rightarrow> (Inl e, r)
       | Inr d \<Rightarrow>
           if ed_abi_version d \<noteq> abi_version
           then (Inl (Extension (msg_abi_mismatch name abi_version (ed_abi_version d))), r)
           else registry_load r d)"

definition registry_from_installed_extensions :: "(string \<times> u32 \<times> string) list \<Rightarrow> extension_registry db_result" where
  "registry_from_installed_extensions installed =
     (case for_eachS install_extension installed registry_new of
        (Inl e, _) \<Rightarrow> Inl e
      | (Inr _, r) \<Rightarrow> Inr r)"

section \<open>What a registry built from the catalog offers\<close>

text \<open>
  A registry either is empty or holds the standard library: its functions never panic when
  they are called with the number of arguments they declare.
\<close>

definition stdlib_registry :: extension_registry where
  "stdlib_registry =
     \<lparr>er_extensions = [''stdlib'' \<mapsto> STDLIB_EXTENSION],
      er_scalar_functions = map_of (map (\<lambda>f. (sf_name f, f)) STDLIB_FUNCTIONS)\<rparr>"

lemma load_stdlib:
  "registry_load registry_new STDLIB_EXTENSION = (Inr (), stdlib_registry)"
  "registry_load stdlib_registry STDLIB_EXTENSION = (Inr (), stdlib_registry)"
  by (simp_all add: registry_load_def registry_new_def stdlib_registry_def STDLIB_EXTENSION_def
      STDLIB_FUNCTIONS_def abi_version_supported_def normalize_name_def to_ascii_lowercase_def
      ascii_lower_def fun_eq_iff)

lemma install_extension_cases:
  assumes "r = registry_new \<or> r = stdlib_registry"
  shows "fst (install_extension x r) = Inr () \<and> snd (install_extension x r) = stdlib_registry \<or>
    (\<exists>e. fst (install_extension x r) = Inl e)"
  using assms load_stdlib
  by (auto simp: install_extension_def builtin_extension_descriptor_def split: prod.splits)

lemma install_extensions_Inr:
  assumes "for_eachS install_extension xs r = (Inr (), r')" "r = registry_new \<or> r = stdlib_registry"
  shows "r' = (if xs = [] then r else stdlib_registry)"
  using assms
proof (induction xs arbitrary: r)
  case (Cons x xs)
  then obtain r1 where "install_extension x r = (Inr (), r1)" and rest: "for_eachS install_extension xs r1 = (Inr (), r')"
    by (auto simp: res_simps)
  then have "r1 = stdlib_registry" using install_extension_cases [OF Cons.prems(2), of x] by auto
  with Cons.IH [OF rest] show ?case by simp
qed simp

lemma installed_registry:
  "registry_from_installed_extensions installed = Inr r \<Longrightarrow>
    r = (if installed = [] then registry_new else stdlib_registry)"
  using install_extensions_Inr [of installed registry_new r]
  by (auto simp: registry_from_installed_extensions_def split: prod.splits sum.splits)

text \<open>The values a declared return type admits; \<open>DYNAMIC\<close> admits every value.\<close>

definition value_type :: "sql_value \<Rightarrow> string" where
  "value_type v = (case v of
     Null \<Rightarrow> ''NULL'' | Integer _ \<Rightarrow> ''INT'' | Text _ \<Rightarrow> ''TEXT'' | Double _ \<Rightarrow> ''DOUBLE'')"

definition admits :: "string \<Rightarrow> sql_value \<Rightarrow> bool" where
  "admits ty v \<longleftrightarrow> v = Null \<or> ty = ''DYNAMIC'' \<or> value_type v = ty"

definition function_ok :: "scalar_function \<Rightarrow> bool" where
  "function_ok f \<longleftrightarrow> (\<forall>args. arity_accepts (sf_arity f) (length args) \<longrightarrow>
     (\<exists>res. sf_eval f args = Some res \<and> (\<forall>v. res = Inr v \<longrightarrow> admits (sf_return_type f) v)))"

lemma first_arg_ok:
  assumes "\<And>v w. g v = Inr w \<Longrightarrow> admits ty w"
  shows "function_ok \<lparr>sf_name = n, sf_arity = Exact 1, sf_return_type = ty, sf_eval = first_arg g\<rparr>"
  using assms by (auto simp: function_ok_def first_arg_def split: list.splits)

lemma stdlib_functions_ok: "\<forall>f \<in> set STDLIB_FUNCTIONS. function_ok f"
proof -
  note defs = admits_def value_type_def Let_def res_simps
  have "function_ok \<lparr>sf_name = ''length'', sf_arity = Exact 1, sf_return_type = ''INT'', sf_eval = ext_length\<rparr>"
    unfolding ext_length_def by (rule first_arg_ok) (auto simp: defs split: sql_value.splits if_splits)
  moreover have "function_ok \<lparr>sf_name = ''lower'', sf_arity = Exact 1, sf_return_type = ''TEXT'', sf_eval = ext_lower\<rparr>"
    unfolding ext_lower_def by (rule first_arg_ok) (auto simp: defs split: sql_value.splits)
  moreover have "function_ok \<lparr>sf_name = ''upper'', sf_arity = Exact 1, sf_return_type = ''TEXT'', sf_eval = ext_upper\<rparr>"
    unfolding ext_upper_def by (rule first_arg_ok) (auto simp: defs split: sql_value.splits)
  moreover have "function_ok \<lparr>sf_name = ''abs'', sf_arity = Exact 1, sf_return_type = ''DYNAMIC'', sf_eval = abs_value\<rparr>"
    unfolding abs_value_def by (rule first_arg_ok) (simp add: admits_def)
  moreover have "function_ok \<lparr>sf_name = ''typeof'', sf_arity = Exact 1, sf_return_type = ''TEXT'', sf_eval = typeof_value\<rparr>"
    unfolding typeof_value_def by (rule first_arg_ok) (auto simp: defs)
  moreover have "function_ok \<lparr>sf_name = ''rdbms_version'', sf_arity = Exact 0, sf_return_type = ''TEXT'', sf_eval = rdbms_version\<rparr>"
    by (auto simp: function_ok_def rdbms_version_def defs)
  ultimately show ?thesis by (simp add: STDLIB_FUNCTIONS_def)
qed

lemma installed_function_ok:
  assumes "registry_from_installed_extensions installed = Inr r" "registry_scalar_function r name = Some f"
  shows "function_ok f"
proof -
  have "f \<in> set STDLIB_FUNCTIONS"
    using installed_registry [OF assms(1)] assms(2)
    by (auto simp: registry_scalar_function_def stdlib_registry_def registry_new_def
        split: if_splits dest!: map_of_SomeD)
  with stdlib_functions_ok show ?thesis by blast
qed

text \<open>C25: A scalar function called through a registry built from the installed extensions
  never panics on its argument slice, whatever its name and arguments; a value it returns has
  the declared return type of the function that was looked up, or is \<open>NULL\<close>.\<close>

theorem scalar_call_well_typed:
  assumes "registry_from_installed_extensions installed = Inr r"
  shows "\<exists>res. call_scalar r name args = Some res \<and>
    (\<forall>v. res = Inr v \<longrightarrow> (\<exists>f. registry_scalar_function r name = Some f \<and>
       arity_accepts (sf_arity f) (length args) \<and> admits (sf_return_type f) v))"
proof (cases "registry_scalar_function r name")
  case (Some f)
  with installed_function_ok [OF assms Some] show ?thesis
    by (auto simp: call_scalar_def function_ok_def)
qed (simp add: call_scalar_def)

theorem scalar_call_well_typed_witness:
  "\<exists>res. call_scalar stdlib_registry ''Length'' [Text ''ada''] = Some res \<and>
    (\<forall>v. res = Inr v \<longrightarrow> (\<exists>f. registry_scalar_function stdlib_registry ''Length'' = Some f \<and>
       arity_accepts (sf_arity f) (length [Text ''ada'']) \<and> admits (sf_return_type f) v))"
proof (rule scalar_call_well_typed [of "[(''stdlib'', 1, ''static'')]"])
  show "registry_from_installed_extensions [(''stdlib'', 1, ''static'')] = Inr stdlib_registry"
    using load_stdlib(1)
    by (simp add: registry_from_installed_extensions_def install_extension_def
        builtin_extension_descriptor_def normalize_name_def to_ascii_lowercase_def ascii_lower_def
        STDLIB_EXTENSION_def RDBMS_EXT_ABI_VERSION_def)
qed

end
