(* ===== verification/Rdbms_Sql_Parse.thy ===== *)
theory Rdbms_Sql_Parse
  imports Rdbms_Catalog Rdbms_Text
begin

text \<open>
  The lexer and the recursive-descent parser of \<open>crates/rdbms_sql\<close>. The lexer's state is
  the list of characters that remain, its lookahead being the head; the parser's is the token
  vector with an offset, and its methods return the parser they leave behind. Every loop is a
  function with a termination proof except the one that skips semicolons, which ends only
  because the token vector ends in \<open>Eof\<close>: it is a partial function, \<open>None\<close>
  stands for a run that does not end, and \<open>parse_statement\<close> is shown to return on every
  input.
\<close>

section \<open>Statements\<close>

datatype projection = ProjectAll | ProjectColumns "string list"

record selection =
  sel_column :: string
  sel_value :: sql_value

datatype statement =
    CreateTable string "column_def list"
  | Insert string "sql_value list"
  | CreateIndex string string string
  | LoadExtension string
  | SelectFunction string "sql_value list"
  | Select projection string "selection option"

section \<open>The lexer\<close>

datatype token = Ident string | Number string | StringLit string | Comma | LParen | RParen
  | Semicolon | Star | EqSign | Eof

definition is_identifier_start :: "rchar \<Rightarrow> bool" where
  "is_identifier_start ch \<longleftrightarrow> is_ascii_alphabetic ch \<or> ch = ''_''"

definition is_identifier_continue :: "rchar \<Rightarrow> bool" where
  "is_identifier_continue ch \<longleftrightarrow> is_ascii_alphabetic ch \<or> is_ascii_digit ch \<or> ch = ''_''"

definition skip_whitespace :: "rchar list \<Rightarrow> rchar list" where
  "skip_whitespace cs = dropWhile is_whitespace cs"

definition read_identifier :: "rchar list \<Rightarrow> string \<times> rchar list" where
  "read_identifier cs =
     (concat (takeWhile is_identifier_continue cs), dropWhile is_identifier_continue cs)"

definition is_number_char :: "rchar \<Rightarrow> bool" where
  "is_number_char ch \<longleftrightarrow> is_ascii_digit ch \<or> ch = ''.''"

definition msg_digit_expected :: string where
  "msg_digit_expected = ''expected digit after '' @ [CHR 0x27, CHR ''-'', CHR 0x27]"

definition read_number :: "rchar list \<Rightarrow> (string \<times> rchar list) db_result" where
  "read_number cs =
     (let digits = (\<lambda>ds. (concat (takeWhile is_number_char ds), dropWhile is_number_char ds))
      in case cs of
           c # rest \<Rightarrow>
             if c = ''-'' then
               (case rest of
                  d # _ \<Rightarrow> if is_ascii_digit d
                     then Inr (''-'' @ fst (digits rest), snd (digits rest))
                     else Inl (User msg_digit_expected)
                | [] \<Rightarrow> Inl (User msg_digit_expected))
             else Inr (digits cs)
         | [] \<Rightarrow> Inr (digits cs))"

text \<open>The body of a string literal, after its opening quote.\<close>

fun read_string :: "rchar list \<Rightarrow> string \<Rightarrow> (string \<times> rchar list) db_result" where
  "read_string [] acc = Inl (User ''unterminated string literal'')"
| "read_string (c # cs) acc =
     (if c = [CHR 0x27] then
        (case cs of
           d # rest \<Rightarrow> if d = [CHR 0x27] then read_string rest (acc @ [CHR 0x27]) else Inr (acc, cs)
         | [] \<Rightarrow> Inr (acc, cs))
      else read_string cs (acc @ c))"

definition msg_unexpected_char :: "rchar \<Rightarrow> string" where
  "msg_unexpected_char ch = ''unexpected character in SQL: '' @ ch"

text \<open>The \<open>match\<close> on the lookahead \<open>c\<close>.\<close>

definition lex_token :: "rchar \<Rightarrow> rchar list \<Rightarrow> (token \<times> rchar list) db_result" where
  "lex_token c cs =
     (if c = '','' then Inr (Comma, cs)
      else if c = ''('' then Inr (LParen, cs)
      else if c = '')'' then Inr (RParen, cs)
      else if c = '';'' then Inr (Semicolon, cs)
      else if c = ''*'' then Inr (Star, cs)
      else if c = ''='' then Inr (EqSign, cs)
      else if c = [CHR 0x27] then bindR (read_string cs []) (\<lambda>(s, rest). Inr (StringLit s, rest))
      else if is_identifier_start c then
        (case read_identifier (c # cs) of (s, rest) \<Rightarrow> Inr (Ident s, rest))
      else if is_ascii_digit c \<or> c = ''-'' then
        bindR (read_number (c # cs)) (\<lambda>(s, rest). Inr (Number s, rest))
      else Inl (User (msg_unexpected_char c)))"

lemma read_string_length: "read_string cs acc = Inr (s, rest) \<Longrightarrow> length rest < length cs"
  by (induction cs acc rule: read_string.induct) (auto split: list.splits if_splits)

lemma identifier_start_continue: "is_identifier_start c \<Longrightarrow> is_identifier_continue c"
  by (auto simp: is_identifier_start_def is_identifier_continue_def)

lemma number_start: "is_ascii_digit c \<Longrightarrow> is_number_char c"
  by (simp add: is_number_char_def)

lemma read_number_length:
  assumes "read_number (c # cs) = Inr (s, rest)" "is_ascii_digit c \<or> c = ''-''"
  shows "length rest \<le> length cs"
  using assms length_dropWhile_le [of is_number_char cs]
  by (auto simp: read_number_def number_start is_ascii_digit_def Let_def split: if_splits list.splits)

lemma lex_token_length: "lex_token c cs = Inr (t, rest) \<Longrightarrow> length rest \<le> length cs"
  using length_dropWhile_le [of is_identifier_continue cs]
  by (auto simp: lex_token_def res_simps read_identifier_def identifier_start_continue
      split: if_splits dest: read_number_length read_string_length)

lemma tokenize_step:
  "skip_whitespace cs = c # rest \<Longrightarrow> lex_token c rest = Inr (t, cs') \<Longrightarrow> length cs' < length cs"
  using length_dropWhile_le [of is_whitespace cs] lex_token_length [of c rest t cs']
  by (simp add: skip_whitespace_def)

function tokenize :: "rchar list \<Rightarrow> token list db_result" where
  "tokenize cs =
     (case skip_whitespace cs of
        [] \<Rightarrow> Inr [Eof]
      | c # rest \<Rightarrow> bindR (lex_token c rest) (\<lambda>(t, cs').
          bindR (tokenize cs') (\<lambda>ts. Inr (t # ts))))"
  by pat_completeness auto

termination by (relation "measure length") (auto intro: tokenize_step)

declare tokenize.simps [simp del]

section \<open>The parser\<close>

record parser =
  pa_tokens :: "token list"
  pa_offset :: nat

definition advance :: "parser \<Rightarrow> parser" where
  "advance p = p\<lparr>pa_offset := pa_offset p + 1\<rparr>"

definition peek_n :: "nat \<Rightarrow> parser \<Rightarrow> token" where
  "peek_n n p =
     (if pa_offset p + n < length (pa_tokens p) then pa_tokens p ! (pa_offset p + n)
      else pa_tokens p ! (length (pa_tokens p) - 1))"

definition peek :: "parser \<Rightarrow> token" where
  "peek p =
     (if pa_offset p < length (pa_tokens p) then pa_tokens p ! pa_offset p
      else pa_tokens p ! (length (pa_tokens p) - 1))"

definition peek_is_function_call :: "parser \<Rightarrow> bool" where
  "peek_is_function_call p \<longleftrightarrow> (case peek p of Ident _ \<Rightarrow> peek_n 1 p = LParen | _ \<Rightarrow> False)"

definition consume_token :: "token \<Rightarrow> parser \<Rightarrow> bool \<times> parser" where
  "consume_token t p = (if peek p = t then (True, advance p) else (False, p))"

definition expect_token :: "token \<Rightarrow> string \<Rightarrow> parser \<Rightarrow> parser db_result" where
  "expect_token t message p =
     (case consume_token t p of (True, p') \<Rightarrow> Inr p' | (False, p') \<Rightarrow> Inl (User message))"

definition consume_keyword :: "string \<Rightarrow> parser \<Rightarrow> bool \<times> parser" where
  "consume_keyword keyword p =
     (case peek p of
        Ident value \<Rightarrow> if eq_ignore_ascii_case value keyword then (True, advance p) else (False, p)
      | _ \<Rightarrow> (False, p))"

definition expect_keyword :: "string \<Rightarrow> parser \<Rightarrow> parser db_result" where
  "expect_keyword keyword p =
     (case consume_keyword keyword p of
        (True, p') \<Rightarrow> Inr p' | (False, p') \<Rightarrow> Inl (User (''expected keyword '' @ keyword)))"

definition expect_identifier :: "string \<Rightarrow> parser \<Rightarrow> (string \<times> parser) db_result" where
  "expect_identifier description p =
     (case peek p of
        Ident value \<Rightarrow> Inr (value, advance p)
      | _ \<Rightarrow> Inl (User (''expected '' @ description)))"

definition parse_number :: "string \<Rightarrow> sql_value db_result" where
  "parse_number s =
     (if CHR ''.'' \<in> set s
      then bindR (ok_or (parse_f64 s) (User (''invalid double literal: '' @ s))) (\<lambda>d. Inr (Double d))
      else bindR (ok_or (parse_i64 s) (User (''invalid integer literal: '' @ s))) (\<lambda>i. Inr (Integer i)))"

definition parse_literal :: "parser \<Rightarrow> (sql_value \<times> parser) db_result" where
  "parse_literal p =
     (case peek p of
        Ident value \<Rightarrow> if eq_ignore_ascii_case value ''NULL'' then Inr (Null, advance p)
          else Inl (User ''expected literal value'')
      | StringLit value \<Rightarrow> Inr (Text value, advance p)
      | Number value \<Rightarrow> bindR (parse_number value) (\<lambda>v. Inr (v, advance p))
      | _ \<Rightarrow> Inl (User ''expected literal value''))"

definition normalize_identifier :: "string \<Rightarrow> string" where
  "normalize_identifier s = to_ascii_lowercase s"

definition SQL_TYPES :: "string list" where
  "SQL_TYPES = [''INT'', ''INTEGER'', ''TEXT'', ''DOUBLE'', ''REAL'', ''FLOAT'']"

definition normalize_type_name :: "string \<Rightarrow> string db_result" where
  "normalize_type_name ty =
     (if to_ascii_uppercase ty \<in> set SQL_TYPES then Inr (to_ascii_uppercase ty)
      else Inl (User (''unsupported SQL type: '' @ ty)))"

text \<open>\<open>normalize_identifier(self.expect_identifier(..)?)\<close>\<close>

definition parse_name :: "string \<Rightarrow> parser \<Rightarrow> (string \<times> parser) db_result" where
  "parse_name description p =
     bindR (expect_identifier description p) (\<lambda>(s, p1). Inr (normalize_identifier s, p1))"

lemma peek_advance: "pa_offset p < length (pa_tokens p) \<or> peek (advance p) = peek p"
  by (simp add: peek_def advance_def)

lemma advance_tokens [simp]:
  "pa_tokens (advance p) = pa_tokens p" "pa_offset (advance p) = pa_offset p + 1"
  by (simp_all add: advance_def)

lemma consume_token_True: "consume_token t p = (True, q) \<longleftrightarrow> peek p = t \<and> q = advance p"
  by (auto simp: consume_token_def)

lemma parse_name_Inr:
  "parse_name d p = Inr (s, q) \<longleftrightarrow> (\<exists>v. peek p = Ident v \<and> s = normalize_identifier v \<and> q = advance p)"
  by (auto simp: parse_name_def expect_identifier_def res_simps split: token.splits)

lemma expect_identifier_Inr:
  "expect_identifier d p = Inr (s, q) \<longleftrightarrow> peek p = Ident s \<and> q = advance p"
  by (auto simp: expect_identifier_def split: token.splits)

lemma parse_literal_advance: "parse_literal p = Inr (v, q) \<Longrightarrow> q = advance p \<and> peek p \<noteq> Comma"
  by (auto simp: parse_literal_def res_simps split: token.splits if_splits)

subsection \<open>The loops\<close>

abbreviation remaining :: "parser \<Rightarrow> nat" where
  "remaining p \<equiv> length (pa_tokens p) - pa_offset p"

lemma column_step:
  "parse_name d p = Inr (c, p1) \<Longrightarrow> expect_identifier e p1 = Inr (ty, p2) \<Longrightarrow>
    consume_token Comma p2 = (True, p3) \<Longrightarrow> remaining p3 < remaining p"
  using peek_advance [of p] peek_advance [of p1]
  by (auto simp: parse_name_Inr expect_identifier_Inr consume_token_True)

lemma literal_step:
  "parse_literal p = Inr (v, p1) \<Longrightarrow> consume_token Comma p1 = (True, p2) \<Longrightarrow> remaining p2 < remaining p"
  using peek_advance [of p] by (auto simp: consume_token_True dest!: parse_literal_advance)

lemma selected_step:
  "parse_name d p = Inr (c, p1) \<Longrightarrow> consume_token Comma p1 = (True, p2) \<Longrightarrow> remaining p2 < remaining p"
  using peek_advance [of p] by (auto simp: consume_token_True parse_name_Inr)

function parse_columns :: "parser \<Rightarrow> column_def list \<Rightarrow> (column_def list \<times> parser) db_result" where
  "parse_columns p columns =
     bindR (parse_name ''column name'' p) (\<lambda>(column_name, p1).
     bindR (expect_identifier ''column type'' p1) (\<lambda>(ty, p2).
     bindR (normalize_type_name ty) (\<lambda>type_name.
       case consume_token Comma p2 of
         (True, p3) \<Rightarrow> parse_columns p3 (columns @ [\<lparr>cd_name = column_name, cd_type_name = type_name\<rparr>])
       | (False, p3) \<Rightarrow> Inr (columns @ [\<lparr>cd_name = column_name, cd_type_name = type_name\<rparr>], p3))))"
  by pat_completeness auto

termination by (relation "measure (\<lambda>(p, _). remaining p)") (auto intro: column_step)

function parse_literals :: "string \<Rightarrow> parser \<Rightarrow> sql_value list \<Rightarrow> (sql_value list \<times> parser) db_result" where
  "parse_literals message p vs =
     bindR (parse_literal p) (\<lambda>(v, p1).
       case consume_token Comma p1 of
         (True, p2) \<Rightarrow> parse_literals message p2 (vs @ [v])
       | (False, p2) \<Rightarrow> bindR (expect_token RParen message p2) (\<lambda>p3. Inr (vs @ [v], p3)))"
  by pat_completeness auto

termination by (relation "measure (\<lambda>(_, p, _). remaining p)") (auto intro: literal_step)

function parse_selected :: "parser \<Rightarrow> string list \<Rightarrow> (string list \<times> parser) db_result" where
  "parse_selected p columns =
     bindR (parse_name ''selected column'' p) (\<lambda>(column, p1).
       case consume_token Comma p1 of
         (True, p2) \<Rightarrow> parse_selected p2 (columns @ [column])
       | (False, p2) \<Rightarrow> Inr (columns @ [column], p2))"
  by pat_completeness auto

termination by (relation "measure (\<lambda>(p, _). remaining p)") (auto intro: selected_step)

declare parse_columns.simps [simp del] parse_literals.simps [simp del] parse_selected.simps [simp del]

text \<open>The argument list of a function and the list after \<open>VALUES\<close>: possibly empty.\<close>

definition parse_literal_list :: "string \<Rightarrow> parser \<Rightarrow> (sql_value list \<times> parser) db_result" where
  "parse_literal_list message p =
     (case consume_token RParen p of
        (True, p1) \<Rightarrow> Inr ([], p1)
      | (False, p1) \<Rightarrow> parse_literals message p1 [])"

subsection \<open>Statements\<close>

definition quoted :: "string \<Rightarrow> string" where
  "quoted s = [CHR 0x27] @ s @ [CHR 0x27]"

definition parse_create_table :: "parser \<Rightarrow> (statement \<times> parser) db_result" where
  "parse_create_table p =
     bindR (parse_name ''table name'' p) (\<lambda>(name, p1).
     bindR (expect_token LParen (''expected '' @ quoted ''('' @ '' after table name'') p1) (\<lambda>p2.
     bindR (parse_columns p2 []) (\<lambda>(columns, p3).
     bindR (expect_token RParen (''expected '' @ quoted '')'' @ '' after column list'') p3) (\<lambda>p4.
       Inr (CreateTable name columns, p4)))))"

definition parse_create_index :: "parser \<Rightarrow> (statement \<times> parser) db_result" where
  "parse_create_index p =
     bindR (parse_name ''index name'' p) (\<lambda>(name, p1).
     bindR (expect_keyword ''ON'' p1) (\<lambda>p2.
     bindR (parse_name ''table name'' p2) (\<lambda>(table, p3).
     bindR (expect_token LParen (''expected '' @ quoted ''('' @ '' before indexed column'') p3) (\<lambda>p4.
     bindR (parse_name ''indexed column'' p4) (\<lambda>(column, p5).
     bindR (expect_token RParen (''expected '' @ quoted '')'' @ '' after indexed column'') p5) (\<lambda>p6.
       Inr (CreateIndex name table column, p6)))))))"

definition parse_insert :: "parser \<Rightarrow> (statement \<times> parser) db_result" where
  "parse_insert p =
     bindR (expect_keyword ''INTO'' p) (\<lambda>p1.
     bindR (parse_name ''table name'' p1) (\<lambda>(table, p2).
     bindR (expect_keyword ''VALUES'' p2) (\<lambda>p3.
     bindR (expect_token LParen (''expected '' @ quoted ''('' @ '' before VALUES list'') p3) (\<lambda>p4.
     bindR (parse_literal_list (''expected '' @ quoted '')'' @ '' after VALUES list'') p4) (\<lambda>(vs, p5).
       Inr (Insert table vs, p5))))))"

definition parse_load_extension :: "parser \<Rightarrow> (statement \<times> parser) db_result" where
  "parse_load_extension p =
     bindR (expect_keyword ''EXTENSION'' p) (\<lambda>p1.
     bindR (parse_name ''extension name'' p1) (\<lambda>(name, p2). Inr (LoadExtension name, p2)))"

definition parse_select_function :: "parser \<Rightarrow> (statement \<times> parser) db_result" where
  "parse_select_function p =
     bindR (parse_name ''function name'' p) (\<lambda>(name, p1).
     bindR (expect_token LParen (''expected '' @ quoted ''('' @ '' after function name'') p1) (\<lambda>p2.
     bindR (parse_literal_list (''expected '' @ quoted '')'' @ '' after function arguments'') p2) (\<lambda>(args, p3).
       Inr (SelectFunction name args, p3))))"

definition parse_projection :: "parser \<Rightarrow> (projection \<times> parser) db_result" where
  "parse_projection p =
     (case consume_token Star p of
        (True, p1) \<Rightarrow> Inr (ProjectAll, p1)
      | (False, p1) \<Rightarrow> bindR (parse_selected p1 []) (\<lambda>(columns, p2). Inr (ProjectColumns columns, p2)))"

definition parse_where :: "parser \<Rightarrow> (selection option \<times> parser) db_result" where
  "parse_where p =
     (case consume_keyword ''WHERE'' p of
        (True, p1) \<Rightarrow>
          bindR (parse_name ''predicate column'' p1) (\<lambda>(column, p2).
          bindR (expect_token EqSign (''expected '' @ quoted ''='' @ '' in WHERE predicate'') p2) (\<lambda>p3.
          bindR (parse_literal p3) (\<lambda>(v, p4).
            Inr (Some \<lparr>sel_column = column, sel_value = v\<rparr>, p4))))
      | (False, p1) \<Rightarrow> Inr (None, p1))"

definition parse_select :: "parser \<Rightarrow> (statement \<times> parser) db_result" where
  "parse_select p =
     (if peek_is_function_call p then parse_select_function p
      else
        bindR (parse_projection p) (\<lambda>(projection, p1).
        bindR (expect_keyword ''FROM'' p1) (\<lambda>p2.
        bindR (parse_name ''table name'' p2) (\<lambda>(table, p3).
        bindR (parse_where p3) (\<lambda>(selection, p4).
          Inr (Select projection table selection, p4))))))"

definition parser_parse_statement :: "parser \<Rightarrow> (statement \<times> parser) db_result" where
  "parser_parse_statement p =
     (case consume_keyword ''CREATE'' p of
        (True, p1) \<Rightarrow>
          (case consume_keyword ''TABLE'' p1 of
             (True, p2) \<Rightarrow> parse_create_table p2
           | (False, p2) \<Rightarrow>
               (case consume_keyword ''INDEX'' p2 of
                  (True, p3) \<Rightarrow> parse_create_index p3
                | (False, p3) \<Rightarrow> Inl (User ''expected TABLE or INDEX after CREATE'')))
      | (False, p1) \<Rightarrow>
     (case consume_keyword ''INSERT'' p1 of
        (True, p2) \<Rightarrow> parse_insert p2
      | (False, p2) \<Rightarrow>
     (case consume_keyword ''LOAD'' p2 of
        (True, p3) \<Rightarrow> parse_load_extension p3
      | (False, p3) \<Rightarrow>
     (case consume_keyword ''SELECT'' p3 of
        (True, p4) \<Rightarrow> parse_select p4
      | (False, p4) \<Rightarrow> Inl (User ''expected CREATE, INSERT, LOAD or SELECT'')))))"

subsection \<open>The end of the statement\<close>

partial_function (option) skip_semicolons :: "parser \<Rightarrow> parser option" where
  [code]: "skip_semicolons p =
     (if fst (consume_token Semicolon p) then skip_semicolons (snd (consume_token Semicolon p)) else Some p)"

text \<open>
  \<open>{:?}\<close> of a token. The escapes are those of ASCII characters; a character outside
  ASCII is printed as it is.
\<close>

fun fmt_hex :: "nat \<Rightarrow> string" where
  "fmt_hex n =
     (let d = n mod 16; c = char_of (if d < 10 then 48 + d else 87 + d)
      in if n < 16 then [c] else fmt_hex (n div 16) @ [c])"

declare fmt_hex.simps [simp del]

definition escape_debug :: "char \<Rightarrow> string" where
  "escape_debug c =
     (if c = CHR 0x22 \<or> c = CHR 0x5C then [CHR 0x5C, c]
      else if c = CHR 0x00 then [CHR 0x5C, CHR ''0'']
      else if c = CHR 0x09 then [CHR 0x5C, CHR ''t'']
      else if c = CHR 0x0A then [CHR 0x5C, CHR ''n'']
      else if c = CHR 0x0D then [CHR 0x5C, CHR ''r'']
      else if of_char c < (0x20 :: nat) \<or> c = CHR 0x7F
        then [CHR 0x5C] @ ''u{'' @ fmt_hex (of_char c) @ ''}''
      else [c])"

definition debug_str :: "string \<Rightarrow> string" where
  "debug_str s = [CHR 0x22] @ concat (map escape_debug s) @ [CHR 0x22]"

fun debug_token :: "token \<Rightarrow> string" where
  "debug_token (Ident s) = ''Ident('' @ debug_str s @ '')''"
| "debug_token (Number s) = ''Number('' @ debug_str s @ '')''"
| "debug_token (StringLit s) = ''String('' @ debug_str s @ '')''"
| "debug_token Comma = ''Comma''"
| "debug_token LParen = ''LParen''"
| "debug_token RParen = ''RParen''"
| "debug_token Semicolon = ''Semicolon''"
| "debug_token Star = ''Star''"
| "debug_token EqSign = ''Eq''"
| "debug_token Eof = ''Eof''"

definition msg_trailing_token :: "token \<Rightarrow> string" where
  "msg_trailing_token t = ''unexpected token after SQL statement: '' @ debug_token t"

definition finish :: "parser \<Rightarrow> unit db_result option" where
  "finish p =
     map_option (\<lambda>p2. if peek p2 = Eof then Inr () else Inl (User (msg_trailing_token (peek p2))))
       (case consume_token Semicolon p of (True, p1) \<Rightarrow> skip_semicolons p1 | (False, p1) \<Rightarrow> Some p1)"

definition parser_new :: "string \<Rightarrow> parser db_result" where
  "parser_new sql = bindR (tokenize (utf8_chars sql)) (\<lambda>tokens. Inr \<lparr>pa_tokens = tokens, pa_offset = 0\<rparr>)"

definition parse_statement :: "string \<Rightarrow> statement db_result option" where
  "parse_statement sql =
     (case bindR (parser_new sql) parser_parse_statement of
        Inl e \<Rightarrow> Some (Inl e)
      | Inr (st, p) \<Rightarrow> map_option (\<lambda>r. bindR r (\<lambda>_. Inr st)) (finish p))"

end
