(* ===== verification/Rdbms_Sql.thy ===== *)
theory Rdbms_Sql
  imports Rdbms_Tx Rdbms_Extension Rdbms_Sql_Parse
begin

text \<open>
  The SQL executor of \<open>crates/rdbms_sql\<close>: the row codec, the checks and coercions of
  values, and one function per statement over the transactional store. A result is an option
  because the index operations are partial functions and a scalar function may panic:
  \<open>None\<close> is a call that does not return. A statement that fails inside its transaction
  drops it, which the source leaves to \<open>Drop\<close>. The value vectors that the code indexes
  have the length of the column list at each place, by the checks that precede it.
\<close>

section \<open>Rows\<close>

definition SQL_ROW_MAGIC :: byte_list where "SQL_ROW_MAGIC = string_bytes ''RDBR''"
definition SQL_ROW_VERSION :: u16 where "SQL_ROW_VERSION = 1"
definition TAG_NULL :: u8 where "TAG_NULL = 0"
definition TAG_INTEGER :: u8 where "TAG_INTEGER = 1"
definition TAG_TEXT :: u8 where "TAG_TEXT = 2"
definition TAG_DOUBLE :: u8 where "TAG_DOUBLE = 3"

fun encode_value :: "sql_value \<Rightarrow> byte_list db_result" where
  "encode_value Null = Inr [TAG_NULL]"
| "encode_value (Integer v) = Inr (TAG_INTEGER # push_u64 v)"
| "encode_value (Text s) =
     bindR (write_u32_len (length s) ''SQL text literal length'') (\<lambda>n. Inr (TAG_TEXT # n @ string_bytes s))"
| "encode_value (Double v) = Inr (TAG_DOUBLE # push_u64 v)"

definition encode_row :: "sql_value list \<Rightarrow> byte_list db_result" where
  "encode_row vs =
     bindR (write_u16_len (length vs) ''SQL row value count'') (\<lambda>n.
     bindR (encode_each encode_value vs) (\<lambda>body.
       Inr (SQL_ROW_MAGIC @ push_u16 SQL_ROW_VERSION @ n @ body)))"

definition row_texts :: cursor_texts where
  "row_texts = \<lparr>ct_overflow = ''SQL row offset overflow'', ct_truncated = ''SQL row is truncated'',
     ct_trailing = ''SQL row has trailing bytes''\<rparr>"

definition msg_row_tag :: "u8 \<Rightarrow> string" where
  "msg_row_tag tag = ''unknown SQL row value tag: '' @ fmt_nat (unat tag)"

definition decode_text :: "string decoder" where
  "decode_text c =
     bindR (cursor_read_u32 row_texts c) (\<lambda>(len, c1).
     bindR (cursor_read_bytes row_texts (unat len) c1) (\<lambda>(bs, c2).
       if valid_utf8 bs then Inr (bytes_string bs, c2)
       else Inl (Corruption ''SQL text value is not valid UTF-8'')))"

definition decode_tagged :: "u8 \<Rightarrow> sql_value decoder" where
  "decode_tagged tag c =
     (if tag = TAG_NULL then Inr (Null, c)
      else if tag = TAG_INTEGER then bindR (cursor_read_u64 row_texts c) (\<lambda>(v, c1). Inr (Integer v, c1))
      else if tag = TAG_TEXT then bindR (decode_text c) (\<lambda>(s, c1). Inr (Text s, c1))
      else if tag = TAG_DOUBLE then bindR (cursor_read_u64 row_texts c) (\<lambda>(v, c1). Inr (Double v, c1))
      else Inl (Corruption (msg_row_tag tag)))"

definition decode_value :: "sql_value decoder" where
  "decode_value c = bindR (cursor_read_u8 row_texts c) (\<lambda>(tag, c1). decode_tagged tag c1)"

definition msg_row_version :: "u16 \<Rightarrow> string" where
  "msg_row_version v = ''unsupported SQL row version: '' @ fmt_nat (unat v)"

definition decode_row :: "byte_list \<Rightarrow> sql_value list db_result" where
  "decode_row bytes =
     bindR (cursor_read_bytes row_texts 4 (cursor_new bytes)) (\<lambda>(magic, c1).
       if magic \<noteq> SQL_ROW_MAGIC then Inl (Corruption ''invalid SQL row magic'')
       else bindR (cursor_read_u16 row_texts c1) (\<lambda>(version, c2).
         if version \<noteq> SQL_ROW_VERSION then Inl (Corruption (msg_row_version version))
         else bindR (cursor_read_u16 row_texts c2) (\<lambda>(value_count, c3).
              bindR (decode_many (unat value_count) decode_value c3) (\<lambda>(vs, c4).
              bindR (cursor_finish row_texts c4) (\<lambda>_. Inr vs)))))"

section \<open>Values and columns\<close>

definition msg_unknown_table_name :: "string \<Rightarrow> string" where
  "msg_unknown_table_name table = ''unknown relation: '' @ table"

definition lookup_relation :: "transactional_store \<Rightarrow> string \<Rightarrow> relation_info db_result" where
  "lookup_relation m table =
     ok_or (relation_by_name (cs_catalog (ts_store m)) table) (User (msg_unknown_table_name table))"

text \<open>\<open>Iterator::position\<close>\<close>

fun position :: "('a \<Rightarrow> bool) \<Rightarrow> 'a list \<Rightarrow> nat option" where
  "position P [] = None"
| "position P (x # xs) = (if P x then Some 0 else map_option Suc (position P xs))"

definition msg_unknown_column :: "string \<Rightarrow> string \<Rightarrow> string" where
  "msg_unknown_column column relation = ''unknown column '' @ quoted column @ '' on relation '' @ quoted relation"

definition resolve_column_index :: "relation_info \<Rightarrow> string \<Rightarrow> nat db_result" where
  "resolve_column_index rel column_name =
     ok_or (position (\<lambda>c. cd_name c = column_name) (ri_columns rel))
       (User (msg_unknown_column column_name (ri_name rel)))"

definition resolve_projection :: "relation_info \<Rightarrow> projection \<Rightarrow> nat list db_result" where
  "resolve_projection rel projection = (case projection of
     ProjectAll \<Rightarrow> Inr [0..<length (ri_columns rel)]
   | ProjectColumns columns \<Rightarrow> collectR (resolve_column_index rel) columns)"

definition find_index_on_column :: "transactional_store \<Rightarrow> relation_id \<Rightarrow> string \<Rightarrow> relation_info option" where
  "find_index_on_column m table_id column_name =
     find (\<lambda>r. case relation_index_storage r of Some s \<Rightarrow> is_column_name s = column_name | None \<Rightarrow> False)
       (indexes_on_table (cs_catalog (ts_store m)) table_id)"

definition msg_row_width :: "nat \<Rightarrow> nat \<Rightarrow> string" where
  "msg_row_width n k = ''SQL row value count '' @ fmt_nat n @ '' does not match catalog column count '' @ fmt_nat k"

definition validate_row_width :: "relation_info \<Rightarrow> sql_value list \<Rightarrow> unit db_result" where
  "validate_row_width rel vs =
     (if length vs \<noteq> length (ri_columns rel)
      then Inl (Corruption (msg_row_width (length vs) (length (ri_columns rel)))) else Inr ())"

definition msg_not_indexable :: "column_def \<Rightarrow> string" where
  "msg_not_indexable c = ''column '' @ quoted (cd_name c) @ '' of type '' @ quoted (cd_type_name c) @
     '' is not indexable in Stage 8''"

definition ensure_indexable_column :: "column_def \<Rightarrow> unit db_result" where
  "ensure_indexable_column c =
     (if cd_type_name c \<in> {''INT'', ''INTEGER'', ''TEXT''} then Inr () else Inl (User (msg_not_indexable c)))"

fun index_key_from_value :: "sql_value \<Rightarrow> index_key option db_result" where
  "index_key_from_value Null = Inr None"
| "index_key_from_value (Integer v) = Inr (Some (IntegerKey v))"
| "index_key_from_value (Text s) = Inr (Some (TextKey s))"
| "index_key_from_value (Double _) = Inr None"

definition type_error :: "column_def \<Rightarrow> string \<Rightarrow> db_error" where
  "type_error c expected =
     User (''column '' @ quoted (cd_name c) @ '' expects '' @ expected @ '', type is '' @ cd_type_name c)"

definition msg_column_type :: "column_def \<Rightarrow> string" where
  "msg_column_type c = ''unsupported SQL column type '' @ quoted (cd_type_name c) @ '' on column '' @ quoted (cd_name c)"

definition coerce_value :: "column_def \<Rightarrow> sql_value \<Rightarrow> sql_value db_result" where
  "coerce_value c v =
     (if v = Null then Inr Null
      else if cd_type_name c \<in> {''INT'', ''INTEGER''} then
        (case v of Integer _ \<Rightarrow> Inr v | _ \<Rightarrow> Inl (type_error c ''integer''))
      else if cd_type_name c = ''TEXT'' then
        (case v of Text _ \<Rightarrow> Inr v | _ \<Rightarrow> Inl (type_error c ''text''))
      else if cd_type_name c \<in> {''DOUBLE'', ''REAL'', ''FLOAT''} then
        (case v of Double _ \<Rightarrow> Inr v | Integer i \<Rightarrow> Inr (Double (i64_as_f64 i))
                 | _ \<Rightarrow> Inl (type_error c ''double''))
      else Inl (User (msg_column_type c)))"

definition msg_value_count :: "nat \<Rightarrow> nat \<Rightarrow> string" where
  "msg_value_count n k = ''INSERT value count '' @ fmt_nat n @ '' does not match column count '' @ fmt_nat k"

definition coerce_values :: "column_def list \<Rightarrow> sql_value list \<Rightarrow> sql_value list db_result" where
  "coerce_values columns vs =
     (if length columns \<noteq> length vs then Inl (User (msg_value_count (length vs) (length columns)))
      else collectR (\<lambda>(c, v). coerce_value c v) (zip columns vs))"

fun sql_values_equal :: "sql_value \<Rightarrow> sql_value \<Rightarrow> bool" where
  "sql_values_equal Null Null = True"
| "sql_values_equal (Integer a) (Integer b) = (a = b)"
| "sql_values_equal (Text a) (Text b) = (a = b)"
| "sql_values_equal (Double a) (Double b) = f64_eq a b"
| "sql_values_equal (Double a) (Integer b) = f64_eq a (i64_as_f64 b)"
| "sql_values_equal (Integer a) (Double b) = f64_eq (i64_as_f64 a) b"
| "sql_values_equal _ _ = False"

definition scalar_result_type :: "string \<Rightarrow> sql_value \<Rightarrow> string" where
  "scalar_result_type declared v =
     (if declared \<noteq> ''DYNAMIC'' then declared
      else case v of Null \<Rightarrow> ''NULL'' | Integer _ \<Rightarrow> ''INT'' | Text _ \<Rightarrow> ''TEXT'' | Double _ \<Rightarrow> ''DOUBLE'')"

section \<open>Statements\<close>

definition bindSO :: "('s, 'e, 'a) stres option \<Rightarrow> ('a \<Rightarrow> 's \<Rightarrow> ('s, 'e, 'b) stres option) \<Rightarrow> ('s, 'e, 'b) stres option" where
  "bindSO m f = (case m of
     None \<Rightarrow> None
   | Some (Inl e, s) \<Rightarrow> Some (Inl e, s)
   | Some (Inr x, s) \<Rightarrow> f x s)"

lemma bindSO_simps [simp]:
  "bindSO None f = None"
  "bindSO (Some (Inl e, s)) f = Some (Inl e, s)"
  "bindSO (Some (Inr x, s)) f = f x s"
  by (simp_all add: bindSO_def)

text \<open>A transaction that is dropped on the first error and committed at the end.\<close>

definition in_transaction ::
  "(transaction \<Rightarrow> (transaction, db_error, 'a) stres option) \<Rightarrow> transactional_store \<Rightarrow>
     (transactional_store, db_error, 'a) stres option" where
  "in_transaction f m =
     bindSO (Some (tx_begin m)) (\<lambda>t _.
       case f t of
         None \<Rightarrow> None
       | Some (Inl e, t1) \<Rightarrow> Some (Inl e, tx_drop t1)
       | Some (Inr x, t1) \<Rightarrow> Some (bindS (tx_commit t1) (\<lambda>_ m1. (Inr x, m1))))"

text \<open>An entry of one index for one row: the key of the indexed column, if it has one.\<close>

definition add_index_entry ::
  "relation_id \<Rightarrow> sql_value \<Rightarrow> row_id \<Rightarrow> transaction \<Rightarrow> (transaction, db_error, unit) stres option" where
  "add_index_entry index_id v row t =
     (case index_key_from_value v of
        Inl e \<Rightarrow> Some (Inl e, t)
      | Inr None \<Rightarrow> Some (Inr (), t)
      | Inr (Some key) \<Rightarrow> tx_insert_index_entry t index_id key row)"

definition msg_no_index_storage :: string where
  "msg_no_index_storage = ''index relation without index storage''"

fun insert_index_entries ::
  "relation_info \<Rightarrow> sql_value list \<Rightarrow> row_id \<Rightarrow> relation_info list \<Rightarrow> transaction \<Rightarrow>
     (transaction, db_error, unit) stres option" where
  "insert_index_entries rel vs row [] t = Some (Inr (), t)"
| "insert_index_entries rel vs row (ix # rest) t =
     (case bindR (ok_or (relation_index_storage ix) (InternalInvariant msg_no_index_storage)) (\<lambda>st.
             resolve_column_index rel (is_column_name st)) of
        Inl e \<Rightarrow> Some (Inl e, t)
      | Inr ci \<Rightarrow> bindSO (add_index_entry (ri_id ix) (vs ! ci) row t) (\<lambda>_ t1.
          insert_index_entries rel vs row rest t1))"

definition insert_body ::
  "relation_info \<Rightarrow> sql_value list \<Rightarrow> byte_list \<Rightarrow> relation_info list \<Rightarrow> transaction \<Rightarrow>
     (transaction, db_error, unit) stres option" where
  "insert_body rel vs bytes indexes t =
     bindSO (Some (tx_insert_row t (ri_id rel) bytes)) (\<lambda>row t1.
       insert_index_entries rel vs row indexes t1)"

definition execute_insert ::
  "transactional_store \<Rightarrow> string \<Rightarrow> sql_value list \<Rightarrow> (transactional_store, db_error, exec_result) stres option" where
  "execute_insert m table literals =
     (case bindR (lookup_relation m table) (\<lambda>rel.
           bindR (coerce_values (ri_columns rel) literals) (\<lambda>vs.
           bindR (encode_row vs) (\<lambda>bytes. Inr (rel, vs, bytes)))) of
        Inl e \<Rightarrow> Some (Inl e, m)
      | Inr (rel, vs, bytes) \<Rightarrow>
          bindSO (in_transaction
              (insert_body rel vs bytes (indexes_on_table (cs_catalog (ts_store m)) (ri_id rel))) m)
            (\<lambda>_ m1. Some (Inr (StatementComplete 1), m1)))"

fun index_existing_rows ::
  "relation_info \<Rightarrow> nat \<Rightarrow> relation_id \<Rightarrow> heap_row list \<Rightarrow> transaction \<Rightarrow> (transaction, db_error, unit) stres option" where
  "index_existing_rows rel ci index_id [] t = Some (Inr (), t)"
| "index_existing_rows rel ci index_id (row # rest) t =
     (case bindR (decode_row (hr_bytes row)) (\<lambda>vs. bindR (validate_row_width rel vs) (\<lambda>_. Inr vs)) of
        Inl e \<Rightarrow> Some (Inl e, t)
      | Inr vs \<Rightarrow> bindSO (add_index_entry index_id (vs ! ci) (hr_row_id row) t) (\<lambda>_ t1.
          index_existing_rows rel ci index_id rest t1))"

definition create_index_body ::
  "relation_info \<Rightarrow> nat \<Rightarrow> string \<Rightarrow> string \<Rightarrow> transaction \<Rightarrow> (transaction, db_error, unit) stres option" where
  "create_index_body rel ci name column t =
     bindSO (Some (tx_create_index t name (ri_id rel) column)) (\<lambda>(index_id, _) t1.
       case tx_full_scan t1 (ri_id rel) of
         Inl e \<Rightarrow> Some (Inl e, t1)
       | Inr rows \<Rightarrow> index_existing_rows rel ci index_id rows t1)"

definition execute_create_index ::
  "transactional_store \<Rightarrow> string \<Rightarrow> string \<Rightarrow> string \<Rightarrow> (transactional_store, db_error, exec_result) stres option" where
  "execute_create_index m name table column =
     (case bindR (lookup_relation m table) (\<lambda>rel.
           bindR (resolve_column_index rel column) (\<lambda>ci.
           bindR (ensure_indexable_column (ri_columns rel ! ci)) (\<lambda>_. Inr (rel, ci)))) of
        Inl e \<Rightarrow> Some (Inl e, m)
      | Inr (rel, ci) \<Rightarrow>
          bindSO (in_transaction (create_index_body rel ci name column) m)
            (\<lambda>_ m1. Some (Inr (StatementComplete 0), m1)))"

definition execute_load_extension ::
  "transactional_store \<Rightarrow> string \<Rightarrow> (transactional_store, db_error, exec_result) stres" where
  "execute_load_extension m name =
     (case builtin_extension_descriptor name of
        Inl e \<Rightarrow> (Inl e, m)
      | Inr d \<Rightarrow>
          bindS (register_extension_autocommit m (ed_name d) (ed_abi_version d) (extension_kind_as_str (ed_kind d)))
            (\<lambda>_ m1. (Inr (StatementComplete 0), m1)))"

definition msg_function_gone :: string where
  "msg_function_gone = ''function disappeared after call''"

definition execute_select_function ::
  "transactional_store \<Rightarrow> string \<Rightarrow> sql_value list \<Rightarrow> exec_result db_result option" where
  "execute_select_function m name args =
     (case registry_from_installed_extensions
             (map (\<lambda>e. (ei_name e, ei_abi_version e, ei_kind e)) (cat_extensions (cs_catalog (ts_store m)))) of
        Inl e \<Rightarrow> Some (Inl e)
      | Inr registry \<Rightarrow>
          map_option (\<lambda>r. bindR r (\<lambda>v.
            bindR (ok_or (registry_scalar_function registry name) (InternalInvariant msg_function_gone)) (\<lambda>f.
              Inr (Query [\<lparr>ci_name = sf_name f, ci_type_name = scalar_result_type (sf_return_type f) v\<rparr>] [[v]]))))
            (call_scalar registry name args))"

text \<open>The rows that may satisfy the predicate: by an index on its column, else all of them.\<close>

fun read_rows :: "transactional_store \<Rightarrow> relation_id \<Rightarrow> row_id list \<Rightarrow> heap_row list db_result" where
  "read_rows m rid [] = Inr []"
| "read_rows m rid (row # rest) =
     bindR (ts_read_row m rid row) (\<lambda>r. bindR (read_rows m rid rest) (\<lambda>rows.
       Inr (case r of Some x \<Rightarrow> x # rows | None \<Rightarrow> rows)))"

definition candidate_rows ::
  "transactional_store \<Rightarrow> relation_info \<Rightarrow> selection option \<Rightarrow>
     (transactional_store, db_error, heap_row list) stres option" where
  "candidate_rows m rel selection =
     (case selection of
        None \<Rightarrow> Some (ts_full_scan m (ri_id rel), m)
      | Some sel \<Rightarrow>
     (case find_index_on_column m (ri_id rel) (sel_column sel) of
        None \<Rightarrow> Some (ts_full_scan m (ri_id rel), m)
      | Some ix \<Rightarrow>
     (case index_key_from_value (sel_value sel) of
        Inl e \<Rightarrow> Some (Inl e, m)
      | Inr None \<Rightarrow> Some (ts_full_scan m (ri_id rel), m)
      | Inr (Some key) \<Rightarrow>
          bindSO (ts_lookup_index m (ri_id ix) key) (\<lambda>row_ids m1.
            Some (read_rows m1 (ri_id rel) row_ids, m1)))))"

definition row_matches :: "(nat \<times> sql_value) option \<Rightarrow> sql_value list \<Rightarrow> bool" where
  "row_matches predicate vs = (case predicate of
     None \<Rightarrow> True | Some (ci, v) \<Rightarrow> sql_values_equal (vs ! ci) v)"

fun select_rows ::
  "relation_info \<Rightarrow> (nat \<times> sql_value) option \<Rightarrow> nat list \<Rightarrow> heap_row list \<Rightarrow> sql_value list list db_result" where
  "select_rows rel predicate projected [] = Inr []"
| "select_rows rel predicate projected (row # rest) =
     bindR (decode_row (hr_bytes row)) (\<lambda>vs.
     bindR (validate_row_width rel vs) (\<lambda>_.
     bindR (select_rows rel predicate projected rest) (\<lambda>rows.
       Inr (if row_matches predicate vs then map (\<lambda>i. vs ! i) projected # rows else rows))))"

definition resolve_selection :: "relation_info \<Rightarrow> selection option \<Rightarrow> (nat \<times> sql_value) option db_result" where
  "resolve_selection rel selection = (case selection of
     None \<Rightarrow> Inr None
   | Some sel \<Rightarrow> bindR (resolve_column_index rel (sel_column sel)) (\<lambda>ci. Inr (Some (ci, sel_value sel))))"

definition execute_select ::
  "transactional_store \<Rightarrow> projection \<Rightarrow> string \<Rightarrow> selection option \<Rightarrow>
     (transactional_store, db_error, exec_result) stres option" where
  "execute_select m projection table selection =
     (case bindR (lookup_relation m table) (\<lambda>rel.
           bindR (resolve_projection rel projection) (\<lambda>projected.
           bindR (resolve_selection rel selection) (\<lambda>predicate. Inr (rel, projected, predicate)))) of
        Inl e \<Rightarrow> Some (Inl e, m)
      | Inr (rel, projected, predicate) \<Rightarrow>
          bindSO (candidate_rows m rel selection) (\<lambda>rows m1.
            Some (bindR (select_rows rel predicate projected rows) (\<lambda>out.
              Inr (Query (map (\<lambda>i. \<lparr>ci_name = cd_name (ri_columns rel ! i),
                                    ci_type_name = cd_type_name (ri_columns rel ! i)\<rparr>) projected) out)), m1)))"

definition execute_statement ::
  "transactional_store \<Rightarrow> statement \<Rightarrow> (transactional_store, db_error, exec_result) stres option" where
  "execute_statement m st = (case st of
     CreateTable name columns \<Rightarrow>
       Some (bindS (create_table_autocommit m name columns) (\<lambda>_ m1. (Inr (StatementComplete 0), m1)))
   | Insert table vs \<Rightarrow> execute_insert m table vs
   | CreateIndex name table column \<Rightarrow> execute_create_index m name table column
   | LoadExtension name \<Rightarrow> Some (execute_load_extension m name)
   | SelectFunction name args \<Rightarrow> map_option (\<lambda>r. (r, m)) (execute_select_function m name args)
   | Select projection table selection \<Rightarrow> execute_select m projection table selection)"

definition msg_no_params :: string where
  "msg_no_params = ''SQL parameters are not supported in Stage 9''"

definition execute ::
  "transactional_store \<Rightarrow> string \<Rightarrow> sql_value list \<Rightarrow> (transactional_store, db_error, exec_result) stres option" where
  "execute m sql params =
     (if params \<noteq> [] then Some (Inl (User msg_no_params), m)
      else case parse_statement sql of
          None \<Rightarrow> None
        | Some (Inl e) \<Rightarrow> Some (Inl e, m)
        | Some (Inr st) \<Rightarrow> execute_statement m st)"

section \<open>Sessions\<close>

record sql_session =
  ss_store :: transactional_store

definition session_new :: "transactional_store \<Rightarrow> sql_session" where
  "session_new m = \<lparr>ss_store = m\<rparr>"

definition session_execute ::
  "sql_session \<Rightarrow> string \<Rightarrow> sql_value list \<Rightarrow> (sql_session, db_error, exec_result) stres option" where
  "session_execute s sql params =
     map_option (\<lambda>(r, m). (r, s\<lparr>ss_store := m\<rparr>)) (execute (ss_store s) sql params)"

definition into_store :: "sql_session \<Rightarrow> transactional_store" where
  "into_store s = ss_store s"

end
