(* ===== verification/Rdbms_F64.thy ===== *)
theory Rdbms_F64
  imports Rdbms_Text
begin

text \<open>
  The rounding conversions to doubles are exact on representable values. A bit pattern below
  or at infinity stands for the natural \<open>f64_scaled\<close> times \<open>2 ^ - 1074\<close>, the
  smallest positive double; infinity gets the value that follows the largest finite double,
  which is the least that rounds to infinity among the multiples of its spacing.
\<close>

definition f64_scaled :: "nat \<Rightarrow> nat" where
  "f64_scaled b = (if b div 2 ^ 52 = 0 then b mod 2 ^ 52 else (2 ^ 52 + b mod 2 ^ 52) * 2 ^ (b div 2 ^ 52 - 1))"

lemma ilog2_bounds: "0 < n \<Longrightarrow> 2 ^ ilog2 n \<le> n \<and> n < 2 ^ Suc (ilog2 n)"
proof (induction n rule: ilog2.induct)
  case (1 n)
  show ?case
  proof (cases "n < 2")
    case True
    with "1.prems" show ?thesis by (simp add: ilog2.simps [of n])
  next
    case False
    with "1.IH" have "2 ^ ilog2 (n div 2) \<le> n div 2 \<and> n div 2 < 2 ^ Suc (ilog2 (n div 2))" by simp
    with False show ?thesis by (subst (1 2) ilog2.simps) auto
  qed
qed

definition reaches :: "nat \<Rightarrow> nat \<Rightarrow> int \<Rightarrow> bool" where
  "reaches n d e \<longleftrightarrow> d * 2 ^ nat e \<le> n * 2 ^ nat (- e)"

lemma reaches_mono:
  assumes "reaches n d e" "e' \<le> e"
  shows "reaches n d e'"
proof -
  have "d * 2 ^ nat e' \<le> d * 2 ^ nat e" "n * 2 ^ nat (- e) \<le> n * 2 ^ nat (- e')"
    using assms(2) by (simp_all add: nat_mono)
  with assms(1) show ?thesis unfolding reaches_def by linarith
qed

lemma reaches_log:
  assumes "0 < n" "0 < d"
  shows "reaches n d (int (ilog2 n) - int (ilog2 d) - 1)"
    and "\<not> reaches n d (int (ilog2 n) - int (ilog2 d) + 1)"
proof -
  define a b where "a = ilog2 n" and "b = ilog2 d"
  have n: "2 ^ a \<le> n" "n < 2 ^ Suc a" and d: "2 ^ b \<le> d" "d < 2 ^ Suc b"
    using ilog2_bounds assms by (auto simp: a_def b_def)
  have "reaches n d (int a - int b - 1)"
  proof (cases "b < a")
    case True
    then have *: "nat (int a - int b - 1) = a - Suc b" "nat (- (int a - int b - 1)) = 0" by auto
    have "d * 2 ^ (a - Suc b) \<le> 2 ^ Suc b * 2 ^ (a - Suc b)" using d by (intro mult_right_mono) auto
    also have "\<dots> = 2 ^ a" using True by (simp flip: power_add power_Suc)
    finally show ?thesis using n(1) unfolding reaches_def * by simp
  next
    case False
    then have *: "nat (int a - int b - 1) = 0" "nat (- (int a - int b - 1)) = Suc b - a" by auto
    have "2 ^ Suc b = 2 ^ a * (2 :: nat) ^ (Suc b - a)" using False by (simp flip: power_add power_Suc)
    also have "\<dots> \<le> n * 2 ^ (Suc b - a)" using n by (intro mult_right_mono) auto
    finally show ?thesis using d(2) unfolding reaches_def * by simp
  qed
  moreover have "\<not> reaches n d (int a - int b + 1)"
  proof (cases "b \<le> Suc a")
    case True
    then have *: "nat (int a - int b + 1) = Suc a - b" "nat (- (int a - int b + 1)) = 0" by auto
    have "2 ^ Suc a = 2 ^ b * (2 :: nat) ^ (Suc a - b)" using True by (simp flip: power_add power_Suc)
    also have "\<dots> \<le> d * 2 ^ (Suc a - b)" using d by (intro mult_right_mono) auto
    finally show ?thesis using n(2) unfolding reaches_def * by simp
  next
    case False
    then have *: "nat (int a - int b + 1) = 0" "nat (- (int a - int b + 1)) = b - Suc a" by auto
    have "n * 2 ^ (b - Suc a) < 2 ^ Suc a * 2 ^ (b - Suc a)" using n(2) by (intro mult_strict_right_mono) auto
    also have "\<dots> = 2 ^ b" using False by (simp flip: power_add power_Suc)
    finally show ?thesis using d(1) unfolding reaches_def * by simp
  qed
  ultimately show "reaches n d (int (ilog2 n) - int (ilog2 d) - 1)"
    "\<not> reaches n d (int (ilog2 n) - int (ilog2 d) + 1)"
    by (simp_all add: a_def b_def)
qed

lemma ratio_exponent_eq:
  assumes "0 < n" "0 < d" "reaches n d e" "\<not> reaches n d (e + 1)"
  shows "ratio_exponent n d = e"
proof -
  define e0 where "e0 = int (ilog2 n) - int (ilog2 d)"
  have lo: "reaches n d (e0 - 1)" and hi: "\<not> reaches n d (e0 + 1)"
    using reaches_log [OF assms(1,2)] by (simp_all add: e0_def)
  have "e0 - 1 \<le> e" using reaches_mono [OF lo, of "e + 1"] assms(4) by fastforce
  moreover have "e \<le> e0" using reaches_mono [OF assms(3), of "e0 + 1"] hi by fastforce
  ultimately have "e = e0 \<or> e = e0 - 1" by linarith
  then show ?thesis using assms(3,4) by (auto simp: ratio_exponent_def reaches_def e0_def Let_def)
qed

lemma round_half_even_exact [simp]: "0 < d \<Longrightarrow> round_half_even (d * q) d = q"
  by (simp add: round_half_even_def)

text \<open>A quotient that is a representable value has that value's exponent.\<close>

lemma reaches_scaled:
  assumes "n * 2 ^ s = d * (m * 2 ^ x)" "0 < d"
  shows "reaches n d (int x + int k - int s) \<longleftrightarrow> 2 ^ k \<le> m"
proof -
  define e where "e = int x + int k - int s"
  have "nat e + s = x + k + nat (- e)" by (simp add: e_def)
  then have p: "2 ^ nat e * 2 ^ s = (2 :: nat) ^ (x + k) * 2 ^ nat (- e)"
    by (simp flip: power_add)
  have "reaches n d e \<longleftrightarrow> d * (2 ^ nat e * 2 ^ s) \<le> n * 2 ^ s * 2 ^ nat (- e)"
    by (simp add: reaches_def mult.assoc mult.left_commute)
  also have "\<dots> \<longleftrightarrow> d * (2 ^ k * (2 ^ x * 2 ^ nat (- e))) \<le> d * (m * (2 ^ x * 2 ^ nat (- e)))"
    unfolding p assms(1) by (simp add: power_add ac_simps)
  also have "\<dots> \<longleftrightarrow> 2 ^ k \<le> m" using assms(2) by simp
  finally show ?thesis by (simp add: e_def)
qed

text \<open>The significand that is rounded is then an integer.\<close>

lemma significand_exact:
  assumes "n * 2 ^ s = d * (m * 2 ^ x)" "0 < d" "k = int s - int x"
  shows "round_half_even (n * 2 ^ nat k) (d * 2 ^ nat (- k)) = m"
proof -
  have "s = x + nat k - nat (- k)" "nat k + x = s + nat (- k)" using assms(3) by auto
  then have "n * 2 ^ nat k * 2 ^ x = n * 2 ^ s * 2 ^ nat (- k)"
    by (metis mult.assoc power_add)
  also have "\<dots> = d * 2 ^ nat (- k) * m * 2 ^ x" by (simp add: assms(1) ac_simps)
  finally have "n * 2 ^ nat k = d * 2 ^ nat (- k) * m" by simp
  with assms(2) show ?thesis by simp
qed

lemma reaches_ratio_exponent: "0 < n \<Longrightarrow> 0 < d \<Longrightarrow> reaches n d (ratio_exponent n d)"
  using reaches_log(1) [of n d] by (simp add: ratio_exponent_def reaches_def Let_def)

lemma f64_magnitude_exact:
  assumes "n * 2 ^ s = d * f64_scaled b" "0 < d" "b \<le> F64_INFINITY" "s = 1074"
  shows "f64_magnitude n d = b"
proof (cases "n = 0")
  case True
  with assms(1,2) have "f64_scaled b = 0" by simp
  then have "b = 0" by (auto simp: f64_scaled_def split: if_splits)
  with True show ?thesis by (simp add: f64_magnitude_def)
next
  case False
  define x f where "x = b div 2 ^ 52" and "f = b mod 2 ^ 52"
  have b: "b = x * 2 ^ 52 + f" and f: "f < 2 ^ 52" by (simp_all add: x_def f_def)
  show ?thesis
  proof (cases "x = 0")
    case True
    then have eq: "n * 2 ^ s = d * (f * 2 ^ 0)" using assms(1) by (simp add: f64_scaled_def x_def f_def)
    have "\<not> reaches n d (- 1022)"
      using reaches_scaled [OF eq assms(2), of 52] f assms(4) by simp
    then have "ratio_exponent n d < - 1022"
      using reaches_mono [OF reaches_ratio_exponent [of n d], of "- 1022"] False assms(2) by force
    then have e: "max (ratio_exponent n d) (- 1022) = - 1022" by simp
    have "round_half_even (n * 2 ^ nat 1074) (d * 2 ^ nat (- 1074)) = f"
      by (rule significand_exact [OF eq assms(2)]) (simp add: assms(4))
    then show ?thesis using False True b assms(3) by (simp add: f64_magnitude_def e Let_def)
  next
    case x: False
    then have eq: "n * 2 ^ s = d * ((2 ^ 52 + f) * 2 ^ (x - 1))"
      using assms(1) by (simp add: f64_scaled_def x_def f_def)
    have "reaches n d (int x - 1023)" "\<not> reaches n d (int x - 1023 + 1)"
      using reaches_scaled [OF eq assms(2), of 52] reaches_scaled [OF eq assms(2), of 53] f x assms(4)
      by (simp_all add: of_nat_diff algebra_simps)
    then have "ratio_exponent n d = int x - 1023" using False assms(2) by (intro ratio_exponent_eq) auto
    then have e: "max (ratio_exponent n d) (- 1022) = int x - 1023" using x by simp
    have "round_half_even (n * 2 ^ nat (1075 - int x)) (d * 2 ^ nat (- (1075 - int x))) = 2 ^ 52 + f"
      by (rule significand_exact [OF eq assms(2)]) (use assms(4) x in \<open>simp add: of_nat_diff\<close>)
    moreover have "52 - (int x - 1023) = 1075 - int x" "nat (int x - 1023 + 1022) = x - 1" by auto
    moreover have "(x - 1) * 2 ^ 52 + (2 ^ 52 + f) = b" using x b by (cases x) auto
    ultimately show ?thesis using False assms(3) unfolding f64_magnitude_def e Let_def by simp
  qed
qed

section \<open>Decimal numerals\<close>

lemma is_ascii_digit_iff: "is_ascii_digit [c] \<longleftrightarrow> 48 \<le> (of_char c :: nat) \<and> of_char c \<le> (57 :: nat)"
  by (simp add: is_ascii_digit_def less_eq_char_def)

lemma of_char_char_of_digit [simp]: "d < 10 \<Longrightarrow> of_char (char_of (48 + d :: nat)) = 48 + d"
  by simp

lemma digits_value_snoc: "digits_value (ds @ [c]) = 10 * digits_value ds + (of_char c - 48)"
  by (simp add: digits_value_def)

lemma fmt_nat_digits: "all_digits (fmt_nat n) \<and> digits_value (fmt_nat n) = n \<and> fmt_nat n \<noteq> []"
proof (induction n rule: fmt_nat.induct)
  case (1 n)
  show ?case
  proof (cases "n < 10")
    case True
    then show ?thesis
      by (subst (1 2 3) fmt_nat.simps) (simp add: all_digits_def is_ascii_digit_iff digits_value_def)
  next
    case False
    then have "fmt_nat n = fmt_nat (n div 10) @ [char_of (48 + n mod 10)]" by (subst fmt_nat.simps) simp
    with 1 [OF False] show ?thesis
      by (simp add: all_digits_def is_ascii_digit_iff digits_value_snoc)
  qed
qed

lemma digits_value_zeros: "digits_value (replicate k (CHR ''0'') @ ds) = digits_value ds"
proof -
  have "foldl (\<lambda>n c. 10 * n + (of_char c - 48)) 0 (replicate k (CHR ''0'')) = (0 :: nat)"
    by (induction k) simp_all
  then show ?thesis by (simp add: digits_value_def)
qed

text \<open>The decimal numerals of an \<open>i64\<close> and, exactly, of a double.\<close>

definition fmt_i64 :: "u64 \<Rightarrow> string" where
  "fmt_i64 v = (if sint v < 0 then CHR ''-'' # fmt_nat (nat (- sint v)) else fmt_nat (nat (sint v)))"

definition F64_PLACES :: nat where "F64_PLACES = 1074"

definition f64_digits :: "u64 \<Rightarrow> string" where
  "f64_digits v =
     (let ds = fmt_nat (f64_scaled (unat (f64_abs v)) * 5 ^ F64_PLACES)
      in replicate (Suc F64_PLACES - length ds) (CHR ''0'') @ ds)"

definition fmt_f64 :: "u64 \<Rightarrow> string" where
  "fmt_f64 v =
     (let ds = f64_digits v; k = length ds - F64_PLACES
      in (if sint v < 0 then ''-'' else []) @ take k ds @ CHR ''.'' # drop k ds)"

lemma digit_not_sign:
  assumes "is_ascii_digit [c]"
  shows "c \<noteq> CHR ''-''" "c \<noteq> CHR ''+''" "c \<noteq> CHR ''.''"
  using assms by (auto simp: is_ascii_digit_def)

lemma split_sign_digits: "all_digits ds \<Longrightarrow> split_sign ds = (False, ds)"
  by (auto simp: split_sign_def all_digits_def split: list.splits dest: digit_not_sign)

lemma parse_fmt_i64: "parse_i64 (fmt_i64 v) = Some v"
proof (cases "sint v < 0")
  case True
  have "- (2 ^ 63) \<le> sint v" using sint_greater_eq [of v] by simp
  then have "nat (- sint v) \<le> 2 ^ 63" using True by simp
  moreover have "- of_nat (nat (- sint v)) = v" using True by (simp flip: of_int_minus)
  ultimately show ?thesis using True fmt_nat_digits [of "nat (- sint v)"]
    by (simp add: parse_i64_def fmt_i64_def split_sign_def)
next
  case False
  have "sint v < 2 ^ 63" using sint_less [of v] by simp
  then have "nat (sint v) < 2 ^ 63" using False by simp
  moreover have "of_nat (nat (sint v)) = v" using False by simp
  ultimately show ?thesis using False fmt_nat_digits [of "nat (sint v)"]
    by (simp add: parse_i64_def fmt_i64_def split_sign_digits)
qed

lemma f64_digits_facts:
  shows "all_digits (f64_digits v)"
    and "digits_value (f64_digits v) = f64_scaled (unat (f64_abs v)) * 5 ^ F64_PLACES"
    and "Suc F64_PLACES \<le> length (f64_digits v)"
  using fmt_nat_digits [of "f64_scaled (unat (f64_abs v)) * 5 ^ F64_PLACES"]
  unfolding f64_digits_def Let_def
  by (simp_all only: digits_value_zeros)
    (auto simp: all_digits_def is_ascii_digit_def list_all_iff)

lemma sign_and_magnitude:
  "(if sint v < 0 then F64_SIGN OR f64_abs v else f64_abs v) = v"
proof -
  have sign: "F64_SIGN = 2 ^ 63" by (simp add: F64_SIGN_def)
  have s: "bit F64_SIGN n \<longleftrightarrow> n = 63" for n
    unfolding sign bit_exp_iff possible_bit_word by auto
  have m: "(0x7FFFFFFFFFFFFFFF :: u64) = mask 63" by (simp add: mask_eq_exp_minus_1)
  have neg: "sint v < 0 \<longleftrightarrow> bit v 63" using bit_last_iff [of v] by simp
  show ?thesis
    unfolding neg f64_abs_def m
  proof (rule bit_word_eqI)
    fix n assume "n < LENGTH(64)"
    then consider "n = 63" | "n < 63" by force
    then show "bit (if bit v 63 then F64_SIGN OR v AND mask 63 else v AND mask 63) n = bit v n"
      by cases (simp_all add: bit_or_iff bit_and_iff bit_mask_iff s)
  qed
qed

lemma f64_of_ratio_exact:
  assumes "\<not> f64_is_nan v" "n * 2 ^ s = d * f64_scaled (unat (f64_abs v))" "0 < d" "s = F64_PLACES"
  shows "f64_of_ratio (sint v < 0) n d = v"
proof -
  have "unat (f64_abs v) \<le> F64_INFINITY"
    using assms(1) by (simp add: f64_is_nan_def F64_INFINITY_def word_less_nat_alt)
  then have "f64_magnitude n d = unat (f64_abs v)"
    using f64_magnitude_exact [OF assms(2,3)] assms(4) by (simp add: F64_PLACES_def)
  then show ?thesis using sign_and_magnitude [of v] by (simp add: f64_of_ratio_def split: if_splits)
qed

lemma parse_fmt_f64:
  assumes "\<not> f64_is_nan v"
  shows "parse_f64 (fmt_f64 v) = Some v"
proof -
  define ds k where "ds = f64_digits v" and "k = length ds - F64_PLACES"
  have ds: "all_digits ds" "digits_value ds = f64_scaled (unat (f64_abs v)) * 5 ^ F64_PLACES" "Suc F64_PLACES \<le> length ds"
    using f64_digits_facts [of v] by (simp_all add: ds_def)
  have k: "take k ds \<noteq> []" "length (drop k ds) = F64_PLACES" using ds(3) by (auto simp: k_def)
  have digit: "is_ascii_digit [c]" if "c \<in> set ds" for c
    using ds(1) that by (auto simp: all_digits_def list_all_iff)
  then have nodot: "\<forall>c \<in> set (take k ds). c \<noteq> CHR ''.''"
    using digit_not_sign(3) in_set_takeD by metis
  let ?rest = "take k ds @ CHR ''.'' # drop k ds"
  have parts: "takeWhile (\<lambda>c. c \<noteq> CHR ''.'') ?rest = take k ds"
    "dropWhile (\<lambda>c. c \<noteq> CHR ''.'') ?rest = CHR ''.'' # drop k ds"
    using nodot by (auto simp: takeWhile_append dropWhile_append)
  obtain c r where c: "take k ds = c # r" using k(1) by (cases "take k ds") auto
  then have "c \<in> set ds" by (metis in_set_takeD list.set_intros(1))
  then have "split_sign (fmt_f64 v) = (sint v < 0, ?rest)"
    using digit_not_sign [OF digit] c
    by (simp add: fmt_f64_def split_sign_def Let_def flip: ds_def k_def)
  moreover have "f64_of_ratio (sint v < 0) (digits_value ds) (10 ^ length (drop k ds)) = v"
  proof (rule f64_of_ratio_exact [OF assms _ _ refl])
    have "(10 :: nat) ^ length (drop k ds) = 5 ^ F64_PLACES * 2 ^ F64_PLACES"
      unfolding k(2) power_mult_distrib [symmetric] by simp
    then show "digits_value ds * 2 ^ F64_PLACES = 10 ^ length (drop k ds) * f64_scaled (unat (f64_abs v))"
      unfolding ds(2) by (simp only: ac_simps)
  qed simp
  ultimately show ?thesis using ds(1) k(1) unfolding parse_f64_def by (simp add: parts Let_def)
qed

text \<open>The conversions never produce a NaN.\<close>

lemma f64_of_ratio_not_nan: "\<not> f64_is_nan (f64_of_ratio neg n d)"
proof -
  have le: "f64_magnitude n d \<le> F64_INFINITY" by (simp add: f64_magnitude_def Let_def)
  then have u: "unat (of_nat (f64_magnitude n d) :: u64) = f64_magnitude n d"
    by (intro unat_of_nat_widths) (simp add: F64_INFINITY_def)
  define w where "w = (of_nat (f64_magnitude n d) :: u64)"
  have "F64_SIGN AND 0x7FFFFFFFFFFFFFFF = 0" by (simp add: F64_SIGN_def)
  then have "f64_abs (f64_of_ratio neg n d) = w AND 0x7FFFFFFFFFFFFFFF"
    by (simp add: f64_of_ratio_def f64_abs_def w_def bit.conj_disj_distrib2)
  also have "\<dots> \<le> w" by (simp add: word_and_le2)
  finally have "f64_abs (f64_of_ratio neg n d) \<le> w" .
  moreover have "w \<le> 0x7FF0000000000000"
    using le u by (simp add: w_def word_le_nat_alt F64_INFINITY_def)
  ultimately show ?thesis by (simp add: f64_is_nan_def not_less)
qed

lemma parse_f64_not_nan: "parse_f64 s = Some d \<Longrightarrow> \<not> f64_is_nan d"
  by (auto simp: parse_f64_def Let_def f64_of_ratio_not_nan split: prod.splits if_splits)

lemma i64_as_f64_not_nan: "\<not> f64_is_nan (i64_as_f64 v)"
  by (simp add: i64_as_f64_def f64_of_ratio_not_nan)

end
