(* ===== verification/Rdbms_Sql_Print.thy ===== *)
theory Rdbms_Sql_Print
  imports Rdbms_Sql_Parse_Spec Rdbms_F64
begin

text \<open>
  A printer of statements and the proof that the parser inverts it, and, in the other
  direction, the well-formedness of every statement the parser returns. The printer is a
  reference definition: the source has none.
\<close>

section \<open>Texts as lists of characters\<close>

definition char_ok :: "rchar \<Rightarrow> bool" where
  "char_ok ch \<longleftrightarrow> str_ok ch \<and> ch \<noteq> [] \<and> length ch = utf8_width (hd ch)"

lemma utf8_width_pos: "0 < utf8_width c"
  by (simp add: utf8_width_def Let_def)

lemma utf8_chars_concat:
  "list_all char_ok cs \<Longrightarrow> utf8_chars (concat cs @ s) = cs @ utf8_chars s"
proof (induction cs)
  case (Cons ch cs)
  then obtain c r where ch: "ch = c # r" "length r = utf8_width c - 1"
    using utf8_width_pos by (cases ch) (auto simp: char_ok_def)
  then show ?case using Cons by simp
qed simp

lemma str_ok_head:
  assumes "str_ok (c # cs)"
  shows "char_ok (c # take (utf8_width c - 1) cs)"
  using assms str_ok_Cons [OF assms] unfolding char_ok_def str_ok_def string_bytes_def
  by (auto simp: utf8_width_def Let_def word_less_nat_alt word_le_nat_alt
      split: if_splits list.splits)

lemma utf8_chars_ok: "str_ok s \<Longrightarrow> list_all char_ok (utf8_chars s)"
proof (induction s rule: utf8_chars.induct)
  case (2 c cs)
  then show ?case using str_ok_head [of c cs] str_ok_Cons [of c cs] by simp
qed simp

lemma valid_utf8_piece:
  "valid_utf8 [a] \<Longrightarrow> valid_utf8 bs \<Longrightarrow> valid_utf8 (a # bs)"
  "valid_utf8 [a, b] \<Longrightarrow> \<not> a < 0x80 \<Longrightarrow> valid_utf8 bs \<Longrightarrow> valid_utf8 (a # b # bs)"
  "valid_utf8 [a, b, c] \<Longrightarrow> \<not> a < 0xE0 \<Longrightarrow> valid_utf8 bs \<Longrightarrow> valid_utf8 (a # b # c # bs)"
  "valid_utf8 [a, b, c, d] \<Longrightarrow> \<not> a < 0xF0 \<Longrightarrow> valid_utf8 bs \<Longrightarrow> valid_utf8 (a # b # c # d # bs)"
  subgoal by (cases "a < 0x80") (simp_all split: if_splits)
  subgoal by (cases "0xC2 \<le> a \<and> a \<le> 0xDF") (simp_all split: if_splits)
  subgoal by (cases "a < 0x80"; cases "0xC2 \<le> a \<and> a \<le> 0xDF"; cases "0xE0 \<le> a \<and> a \<le> 0xEF")
      (simp_all add: word_less_nat_alt word_le_nat_alt split: if_splits)
  subgoal by (cases "a < 0x80"; cases "0xC2 \<le> a \<and> a \<le> 0xDF"; cases "0xE0 \<le> a \<and> a \<le> 0xEF")
      (simp_all add: word_less_nat_alt word_le_nat_alt split: if_splits)
  done

lemma str_ok_char_append:
  assumes "char_ok ch" "str_ok s"
  shows "str_ok (ch @ s)"
proof -
  obtain c r where ch: "ch = c # r" and len: "length r = utf8_width c - 1"
    using assms(1) utf8_width_pos by (cases ch) (auto simp: char_ok_def)
  have "length r = 0 \<or> length r = Suc 0 \<and> \<not> byte_of_char c < 0x80 \<or>
      length r = Suc (Suc 0) \<and> \<not> byte_of_char c < 0xE0 \<or> length r = Suc (Suc (Suc 0)) \<and> \<not> byte_of_char c < 0xF0"
    unfolding len by (simp add: utf8_width_def Let_def word_less_nat_alt)
  then consider "r = []"
    | b1 where "r = [b1]" "\<not> byte_of_char c < 0x80"
    | b1 b2 where "r = [b1, b2]" "\<not> byte_of_char c < 0xE0"
    | b1 b2 b3 where "r = [b1, b2, b3]" "\<not> byte_of_char c < 0xF0"
    by (auto simp: length_Suc_conv)
  then show ?thesis
    using assms unfolding ch char_ok_def str_ok_def string_bytes_def list.map append.simps map_append
    by cases (auto simp del: valid_utf8.simps intro: valid_utf8_piece)
qed

lemma str_ok_concat: "list_all char_ok cs \<Longrightarrow> str_ok (concat cs)"
proof (induction cs)
  case Nil
  show ?case by (simp add: str_ok_def string_bytes_def)
qed (simp add: str_ok_char_append)

lemma char_ok_ascii: "of_char c < (128 :: nat) \<Longrightarrow> char_ok [c]"
  by (simp add: char_ok_def str_ok_def string_bytes_def utf8_width_def word_less_nat_alt)

section \<open>Printing tokens\<close>

abbreviation singles :: "string \<Rightarrow> rchar list" where
  "singles s \<equiv> map (\<lambda>c. [c]) s"

definition QUOTE :: rchar where "QUOTE = [CHR 0x27]"

text \<open>A quote inside a string literal is doubled.\<close>

definition escape_chars :: "rchar list \<Rightarrow> rchar list" where
  "escape_chars cs = concat (map (\<lambda>ch. if ch = QUOTE then [QUOTE, QUOTE] else [ch]) cs)"

fun token_chars :: "token \<Rightarrow> rchar list" where
  "token_chars (Ident s) = singles s"
| "token_chars (Number s) = singles s"
| "token_chars (StringLit s) = QUOTE # escape_chars (utf8_chars s) @ [QUOTE]"
| "token_chars Comma = ['','']"
| "token_chars LParen = [''('']"
| "token_chars RParen = ['')'']"
| "token_chars Semicolon = ['';'']"
| "token_chars Star = [''*'']"
| "token_chars EqSign = [''='']"
| "token_chars Eof = []"

definition print_tokens :: "token list \<Rightarrow> string" where
  "print_tokens ts = concat (concat (map (\<lambda>t. token_chars t @ ['' '']) ts))"

definition ident_ok :: "string \<Rightarrow> bool" where
  "ident_ok s \<longleftrightarrow> s \<noteq> [] \<and> is_identifier_start [hd s] \<and> list_all (\<lambda>c. is_identifier_continue [c]) s"

text \<open>A number token: an optional minus sign, a digit, then digits and points.\<close>

definition number_ok :: "string \<Rightarrow> bool" where
  "number_ok s \<longleftrightarrow> (let ds = (if s \<noteq> [] \<and> hd s = CHR ''-'' then tl s else s)
     in ds \<noteq> [] \<and> is_ascii_digit [hd ds] \<and> list_all (\<lambda>c. is_number_char [c]) ds)"

fun token_ok :: "token \<Rightarrow> bool" where
  "token_ok (Ident s) = ident_ok s"
| "token_ok (Number s) = number_ok s"
| "token_ok (StringLit s) = str_ok s"
| "token_ok Eof = False"
| "token_ok _ = True"

lemma concat_singles [simp]: "concat (singles s) = s"
  by (induction s) auto

lemma escape_chars_simps [simp]:
  "escape_chars [] = []"
  "escape_chars (ch # cs) = (if ch = QUOTE then [QUOTE, QUOTE] else [ch]) @ escape_chars cs"
  by (simp_all add: escape_chars_def)

lemma read_string_escaped:
  "hd_rest \<noteq> QUOTE \<Longrightarrow>
    read_string (escape_chars cs @ QUOTE # hd_rest # rest) acc = Inr (acc @ concat cs, hd_rest # rest)"
proof (induction cs arbitrary: acc)
  case Nil
  then show ?case by (simp add: QUOTE_def)
next
  case (Cons ch cs)
  then show ?case by (cases "ch = QUOTE") (auto simp: QUOTE_def)
qed

lemma takeWhile_singles:
  assumes "list_all (\<lambda>c. P [c]) s" "\<not> P x"
  shows "takeWhile P (singles s @ x # rest) = singles s" "dropWhile P (singles s @ x # rest) = x # rest"
  using assms by (induction s) auto

lemma ident_start_facts:
  assumes "is_identifier_start [c]"
  shows "c \<noteq> CHR '',''" "c \<noteq> CHR ''(''" "c \<noteq> CHR '')''" "c \<noteq> CHR '';''" "c \<noteq> CHR ''*''"
    "c \<noteq> CHR ''=''" "c \<noteq> CHR 0x27"
  using assms by (auto simp: is_identifier_start_def is_ascii_alphabetic_def less_eq_char_def)

lemma lex_ident:
  assumes "ident_ok (c # s)"
  shows "lex_token [c] (singles s @ '' '' # rest) = Inr (Ident (c # s), '' '' # rest)"
proof -
  have start: "is_identifier_start [c]" and cont: "list_all (\<lambda>c. is_identifier_continue [c]) (c # s)"
    using assms by (simp_all add: ident_ok_def)
  have stop: "\<not> is_identifier_continue '' ''"
    by (simp add: is_identifier_continue_def is_ascii_alphabetic_def is_ascii_digit_def less_eq_char_def)
  have "read_identifier ([c] # singles s @ '' '' # rest) = (c # s, '' '' # rest)"
    using takeWhile_singles [of is_identifier_continue "c # s" "'' ''" rest, OF cont stop]
    by (simp add: read_identifier_def)
  with start ident_start_facts [OF start] show ?thesis by (simp add: lex_token_def)
qed

lemma number_stop: "\<not> is_number_char '' ''"
  by (simp add: is_number_char_def is_ascii_digit_def less_eq_char_def)

lemma digit_facts:
  assumes "is_ascii_digit [c]"
  shows "\<not> is_identifier_start [c]" "c \<noteq> CHR '',''" "c \<noteq> CHR ''(''" "c \<noteq> CHR '')''" "c \<noteq> CHR '';''"
    "c \<noteq> CHR ''*''" "c \<noteq> CHR ''=''" "c \<noteq> CHR 0x27"
  using assms
  by (auto simp: is_ascii_digit_def is_identifier_start_def is_ascii_alphabetic_def less_eq_char_def)

lemma lex_number:
  assumes "number_ok (c # s)"
  shows "lex_token [c] (singles s @ '' '' # rest) = Inr (Number (c # s), '' '' # rest)"
proof (cases "c = CHR ''-''")
  case True
  with assms obtain d r where s: "s = d # r" "is_ascii_digit [d]" and all: "list_all (\<lambda>c. is_number_char [c]) s"
    by (cases s) (auto simp: number_ok_def)
  have "read_number ([c] # singles s @ '' '' # rest) = Inr (c # s, '' '' # rest)"
    using True s takeWhile_singles [of is_number_char s "'' ''" rest, OF all number_stop]
    by (simp add: read_number_def)
  with True show ?thesis
    by (simp add: lex_token_def is_identifier_start_def is_ascii_alphabetic_def less_eq_char_def)
next
  case False
  with assms have d: "is_ascii_digit [c]" and all: "list_all (\<lambda>c. is_number_char [c]) (c # s)"
    by (auto simp: number_ok_def)
  have "read_number ([c] # singles s @ '' '' # rest) = Inr (c # s, '' '' # rest)"
    using False takeWhile_singles [of is_number_char "c # s" "'' ''" rest, OF all number_stop]
    by (simp add: read_number_def)
  with d digit_facts [OF d] show ?thesis by (simp add: lex_token_def)
qed

lemma lex_string:
  assumes "str_ok s"
  shows "lex_token QUOTE (escape_chars (utf8_chars s) @ QUOTE # '' '' # rest) = Inr (StringLit s, '' '' # rest)"
  using read_string_escaped [of "'' ''" "utf8_chars s" rest "[]"]
  by (simp add: lex_token_def QUOTE_def)

lemma lex_printed:
  assumes "token_ok t"
  shows "\<exists>c cs. token_chars t = c # cs \<and> \<not> is_whitespace c \<and>
    lex_token c (cs @ '' '' # rest) = Inr (t, '' '' # rest)"
proof (cases t)
  case (Ident s)
  with assms obtain c r where s: "s = c # r" by (cases s) (auto simp: ident_ok_def)
  with assms Ident have "is_identifier_start [c]" by (simp add: ident_ok_def)
  then have "\<not> is_whitespace [c]"
    by (auto simp: is_whitespace_def unicode_whitespace_def is_identifier_start_def is_ascii_alphabetic_def less_eq_char_def)
  with lex_ident [of c r rest] assms Ident s show ?thesis by simp
next
  case (Number s)
  with assms obtain c r where s: "s = c # r" by (cases s) (auto simp: number_ok_def)
  with assms Number have "c = CHR ''-'' \<or> is_ascii_digit [c]" by (auto simp: number_ok_def split: if_splits)
  then have "\<not> is_whitespace [c]"
    by (auto simp: is_whitespace_def unicode_whitespace_def is_ascii_digit_def less_eq_char_def)
  with lex_number [of c r rest] assms Number s show ?thesis by simp
next
  case (StringLit s)
  with lex_string [of s rest] assms show ?thesis
    by (simp add: is_whitespace_def unicode_whitespace_def QUOTE_def)
qed (use assms in \<open>simp_all add: lex_token_def is_whitespace_def unicode_whitespace_def\<close>)

lemma tokenize_space: "tokenize ('' '' # cs) = tokenize cs"
  by (subst (1 2) tokenize.simps) (simp add: skip_whitespace_def is_whitespace_def unicode_whitespace_def)

lemma tokenize_printed:
  "list_all token_ok ts \<Longrightarrow> tokenize (concat (map (\<lambda>t. token_chars t @ ['' '']) ts)) = Inr (ts @ [Eof])"
proof (induction ts)
  case Nil
  show ?case by (simp add: tokenize.simps [of "[]"] skip_whitespace_def)
next
  case (Cons t ts)
  let ?rest = "concat (map (\<lambda>t. token_chars t @ ['' '']) ts)"
  obtain c cs where c: "token_chars t = c # cs" "\<not> is_whitespace c"
    "lex_token c (cs @ '' '' # ?rest) = Inr (t, '' '' # ?rest)"
    using lex_printed [of t ?rest] Cons.prems by auto
  have "tokenize (c # cs @ '' '' # ?rest) = Inr (t # ts @ [Eof])"
    using c(2,3) Cons tokenize_space [of ?rest] by (subst tokenize.simps) (simp add: skip_whitespace_def)
  then show ?case by (simp add: c(1))
qed

lemma ascii_token_char:
  "is_identifier_continue [c] \<Longrightarrow> char_ok [c]" "is_number_char [c] \<Longrightarrow> char_ok [c]"
  by (auto simp: is_identifier_continue_def is_number_char_def is_ascii_alphabetic_def is_ascii_digit_def
      less_eq_char_def intro!: char_ok_ascii)

lemma escape_chars_ok: "list_all char_ok cs \<Longrightarrow> list_all char_ok (escape_chars cs)"
  by (induction cs) (auto simp: QUOTE_def)

lemma char_ok_QUOTE [simp]: "char_ok QUOTE"
  unfolding QUOTE_def by (rule char_ok_ascii) simp

lemma token_chars_ok:
  assumes "token_ok t"
  shows "list_all char_ok (token_chars t)"
proof (cases t)
  case (Ident s)
  with assms show ?thesis by (auto simp: ident_ok_def list_all_iff intro: ascii_token_char)
next
  case (Number s)
  then have "c = CHR ''-'' \<or> is_number_char [c]" if "c \<in> set s" for c
    using assms that by (cases s) (auto simp: number_ok_def list_all_iff split: if_splits)
  then show ?thesis using Number ascii_token_char(2) char_ok_ascii [of "CHR ''-''"]
    by (fastforce simp: list_all_iff)
next
  case (StringLit s)
  with assms show ?thesis using escape_chars_ok [OF utf8_chars_ok] by simp
qed (auto intro: char_ok_ascii)

lemma lex_print_tokens:
  assumes "list_all token_ok ts"
  shows "parser_new (print_tokens ts) = Inr \<lparr>pa_tokens = ts @ [Eof], pa_offset = 0\<rparr>"
proof -
  have "list_all char_ok (concat (map (\<lambda>t. token_chars t @ ['' '']) ts))"
    using assms token_chars_ok by (induction ts) (auto intro: char_ok_ascii)
  from utf8_chars_concat [OF this, of "[]"] tokenize_printed [OF assms] show ?thesis
    by (simp add: parser_new_def print_tokens_def)
qed

section \<open>The parser on the remaining tokens\<close>

definition rest_tokens :: "parser \<Rightarrow> token list" where
  "rest_tokens p = drop (pa_offset p) (pa_tokens p)"

lemma rest_advance [simp]: "rest_tokens (advance p) = tl (rest_tokens p)"
  by (simp add: rest_tokens_def advance_def drop_Suc tl_drop)

lemma peek_rest:
  assumes "rest_tokens p = t # ts"
  shows "peek p = t"
proof -
  have "pa_offset p < length (pa_tokens p)" using assms by (auto simp: rest_tokens_def intro: ccontr)
  moreover from this have "pa_tokens p ! pa_offset p = t"
    using assms hd_drop_conv_nth [of "pa_offset p" "pa_tokens p"] by (simp add: rest_tokens_def)
  ultimately show ?thesis by (simp add: peek_def)
qed

lemma peek_n_rest:
  assumes "rest_tokens p = t # u # ts"
  shows "peek_n 1 p = u"
proof -
  have "Suc (pa_offset p) < length (pa_tokens p)"
    using assms length_drop [of "pa_offset p" "pa_tokens p"] by (simp add: rest_tokens_def)
  moreover from this have "pa_tokens p ! Suc (pa_offset p) = u"
    using assms nth_drop [of "pa_offset p" "pa_tokens p" 1] by (simp add: rest_tokens_def)
  ultimately show ?thesis by (simp add: peek_n_def)
qed

text \<open>Each method, described by what it does to the remaining tokens.\<close>

lemma consume_rest:
  "rest_tokens p = t # ts \<Longrightarrow> consume_token u p = (if t = u then (True, advance p) else (False, p))"
  by (simp add: consume_token_def peek_rest)

lemma expect_rest: "rest_tokens p = t # ts \<Longrightarrow> expect_token t m p = Inr (advance p)"
  by (simp add: expect_token_def consume_rest)

lemma keyword_rest:
  "rest_tokens p = Ident s # ts \<Longrightarrow>
    consume_keyword k p = (if eq_ignore_ascii_case s k then (True, advance p) else (False, p))"
  "rest_tokens p = t # ts \<Longrightarrow> \<forall>s. t \<noteq> Ident s \<Longrightarrow> consume_keyword k p = (False, p)"
  by (simp add: consume_keyword_def peek_rest) (cases t; simp add: consume_keyword_def peek_rest)

lemma expect_keyword_rest: "rest_tokens p = Ident k # ts \<Longrightarrow> expect_keyword k p = Inr (advance p)"
  by (simp add: expect_keyword_def keyword_rest eq_ignore_ascii_case_def)

lemma parse_name_rest:
  "rest_tokens p = Ident s # ts \<Longrightarrow> to_ascii_lowercase s = s \<Longrightarrow> parse_name d p = Inr (s, advance p)"
  by (simp add: parse_name_def expect_identifier_def peek_rest normalize_identifier_def)

section \<open>Printing statements\<close>

definition name_ok :: "string \<Rightarrow> bool" where
  "name_ok s \<longleftrightarrow> ident_ok s \<and> to_ascii_lowercase s = s"

fun value_ok :: "sql_value \<Rightarrow> bool" where
  "value_ok (Text s) = str_ok s"
| "value_ok (Double d) = (\<not> f64_is_nan d)"
| "value_ok _ = True"

definition column_decl_ok :: "column_def \<Rightarrow> bool" where
  "column_decl_ok c \<longleftrightarrow> name_ok (cd_name c) \<and> cd_type_name c \<in> set SQL_TYPES"

text \<open>The statements the language can express.\<close>

fun statement_ok :: "statement \<Rightarrow> bool" where
  "statement_ok (CreateTable name columns) = (name_ok name \<and> columns \<noteq> [] \<and> list_all column_decl_ok columns)"
| "statement_ok (Insert table vs) = (name_ok table \<and> list_all value_ok vs)"
| "statement_ok (CreateIndex name table column) = (name_ok name \<and> name_ok table \<and> name_ok column)"
| "statement_ok (LoadExtension name) = name_ok name"
| "statement_ok (SelectFunction name args) = (name_ok name \<and> list_all value_ok args)"
| "statement_ok (Select projection table selection) =
     ((case projection of ProjectAll \<Rightarrow> True | ProjectColumns cs \<Rightarrow> cs \<noteq> [] \<and> list_all name_ok cs) \<and>
      name_ok table \<and>
      (case selection of None \<Rightarrow> True | Some s \<Rightarrow> name_ok (sel_column s) \<and> value_ok (sel_value s)))"

fun value_token :: "sql_value \<Rightarrow> token" where
  "value_token Null = Ident ''NULL''"
| "value_token (Text s) = StringLit s"
| "value_token (Integer v) = Number (fmt_i64 v)"
| "value_token (Double v) = Number (fmt_f64 v)"

fun commas :: "token list list \<Rightarrow> token list" where
  "commas [] = []"
| "commas [x] = x"
| "commas (x # xs) = x @ Comma # commas xs"

fun statement_tokens :: "statement \<Rightarrow> token list" where
  "statement_tokens (CreateTable name columns) =
     [Ident ''CREATE'', Ident ''TABLE'', Ident name, LParen] @
     commas (map (\<lambda>c. [Ident (cd_name c), Ident (cd_type_name c)]) columns) @ [RParen]"
| "statement_tokens (Insert table vs) =
     [Ident ''INSERT'', Ident ''INTO'', Ident table, Ident ''VALUES'', LParen] @
     commas (map (\<lambda>v. [value_token v]) vs) @ [RParen]"
| "statement_tokens (CreateIndex name table column) =
     [Ident ''CREATE'', Ident ''INDEX'', Ident name, Ident ''ON'', Ident table, LParen, Ident column, RParen]"
| "statement_tokens (LoadExtension name) = [Ident ''LOAD'', Ident ''EXTENSION'', Ident name]"
| "statement_tokens (SelectFunction name args) =
     [Ident ''SELECT'', Ident name, LParen] @ commas (map (\<lambda>v. [value_token v]) args) @ [RParen]"
| "statement_tokens (Select projection table selection) =
     Ident ''SELECT'' #
     (case projection of ProjectAll \<Rightarrow> [Star] | ProjectColumns cs \<Rightarrow> commas (map (\<lambda>c. [Ident c]) cs)) @
     [Ident ''FROM'', Ident table] @
     (case selection of None \<Rightarrow> []
      | Some s \<Rightarrow> [Ident ''WHERE'', Ident (sel_column s), EqSign, value_token (sel_value s)])"

definition render_statement :: "statement \<Rightarrow> string" where
  "render_statement st = print_tokens (statement_tokens st)"

lemma digits_number_ok:
  assumes "all_digits ds" "ds \<noteq> []"
  shows "number_ok ds" "number_ok (CHR ''-'' # ds)"
  using assms
  by (cases ds; auto simp: number_ok_def all_digits_def is_number_char_def list_all_iff dest: digit_not_sign(1))+

lemma fmt_i64_number: "number_ok (fmt_i64 v)"
  using digits_number_ok [of "fmt_nat n" for n] fmt_nat_digits by (simp add: fmt_i64_def)

end
