(* ===== verification/Rdbms_Sql_Round.thy ===== *)
theory Rdbms_Sql_Round
  imports Rdbms_Sql_Print
begin

text \<open>
  The parser and the printer of statements are inverse to each other: what is printed is parsed
  back, and what is parsed is a statement the printer covers.
\<close>

section \<open>Printed statements are parsed back\<close>

lemma fmt_f64_number:
  "number_ok (fmt_f64 v)" "CHR ''.'' \<in> set (fmt_f64 v)"
proof -
  define ds k where "ds = f64_digits v" and "k = length ds - F64_PLACES"
  have ds: "all_digits ds" "Suc F64_PLACES \<le> length ds" using f64_digits_facts [of v] by (simp_all add: ds_def)
  then obtain c r where c: "take k ds = c # r" by (cases "take k ds") (auto simp: k_def)
  have digit: "is_ascii_digit [x]" if "x \<in> set ds" for x
    using ds(1) that by (auto simp: all_digits_def list_all_iff)
  have "set (take k ds) \<subseteq> set ds" by (rule set_take_subset)
  then have d: "is_ascii_digit [c]" and all: "list_all (\<lambda>x. is_number_char [x]) (take k ds @ CHR ''.'' # drop k ds)"
    using digit set_drop_subset [of k ds] unfolding c by (auto simp: list_all_iff is_number_char_def)
  have t: "fmt_f64 v = (if sint v < 0 then ''-'' else []) @ take k ds @ CHR ''.'' # drop k ds"
    by (simp add: fmt_f64_def Let_def ds_def k_def)
  show "number_ok (fmt_f64 v)"
    using d all digit_not_sign(1) [OF d] unfolding t number_ok_def c by (simp add: Let_def)
  show "CHR ''.'' \<in> set (fmt_f64 v)" by (simp add: t)
qed

lemma fmt_i64_no_point: "CHR ''.'' \<notin> set (fmt_i64 v)"
proof -
  have "CHR ''.'' \<notin> set (fmt_nat n)" for n
    using fmt_nat_digits [of n] digit_not_sign(3) [of "CHR ''.''"] by (auto simp: all_digits_def list_all_iff)
  then show ?thesis by (simp add: fmt_i64_def)
qed

lemma parse_literal_rest:
  assumes "rest_tokens p = value_token v # ts" "value_ok v"
  shows "parse_literal p = Inr (v, advance p)"
  using assms fmt_i64_no_point fmt_f64_number(2) parse_fmt_i64 parse_fmt_f64
  by (cases v) (simp_all add: parse_literal_def peek_rest parse_number_def eq_ignore_ascii_case_def)

lemma value_token_ok: "value_ok v \<Longrightarrow> token_ok (value_token v)"
  using fmt_i64_number fmt_f64_number(1)
  by (cases v) (auto simp: ident_ok_def is_identifier_start_def is_identifier_continue_def
      is_ascii_alphabetic_def less_eq_char_def)

lemma value_token_no_paren [simp]:
  "value_token v \<noteq> RParen" "value_token v \<noteq> Comma" "RParen \<noteq> value_token v" "Comma \<noteq> value_token v"
  by (cases v; simp)+

lemma tl_rest [simp]: "rest_tokens p = t # ts \<Longrightarrow> tl (rest_tokens p) = ts"
  by simp

lemma parse_literals_rest:
  assumes "rest_tokens p = commas (map (\<lambda>v. [value_token v]) (v # vs)) @ RParen # ts" "list_all value_ok (v # vs)"
  shows "\<exists>q. parse_literals m p acc = Inr (acc @ v # vs, q) \<and> rest_tokens q = ts"
  using assms
proof (induction vs arbitrary: p acc v)
  case Nil
  then show ?case
    by (subst parse_literals_unfold) (simp add: parse_literal_rest [of p v] peek_rest)
next
  case (Cons w ws)
  have "rest_tokens (advance (advance p)) = commas (map (\<lambda>v. [value_token v]) (w # ws)) @ RParen # ts"
    using Cons.prems(1) by simp
  from Cons.IH [OF this, of "acc @ [v]"] Cons.prems show ?case
    by (subst parse_literals_unfold) (simp add: parse_literal_rest [of p v] peek_rest)
qed

lemma parse_literal_list_rest:
  assumes "rest_tokens p = commas (map (\<lambda>v. [value_token v]) vs) @ RParen # ts" "list_all value_ok vs"
  shows "\<exists>q. parse_literal_list m p = Inr (vs, q) \<and> rest_tokens q = ts"
proof (cases vs)
  case Nil
  with assms show ?thesis by (simp add: parse_literal_list_def consume_rest)
next
  case (Cons v ws)
  moreover from this have "peek p \<noteq> RParen"
    using assms by (cases ws) (auto dest!: peek_rest)
  ultimately show ?thesis
    using parse_literals_rest [of p v ws ts m "[]"] assms by (simp add: parse_literal_list_def consume_token_def)
qed

lemma normalize_sql_type: "ty \<in> set SQL_TYPES \<Longrightarrow> normalize_type_name ty = Inr ty"
  by (auto simp: SQL_TYPES_def normalize_type_name_def to_ascii_uppercase_def ascii_upper_def less_eq_char_def)

lemma column_eta: "\<lparr>cd_name = cd_name c, cd_type_name = cd_type_name c\<rparr> = c"
  by simp

lemma parse_columns_rest:
  assumes "rest_tokens p = commas (map (\<lambda>c. [Ident (cd_name c), Ident (cd_type_name c)]) (c # cs)) @ RParen # ts"
    "list_all column_decl_ok (c # cs)"
  shows "\<exists>q. parse_columns p acc = Inr (acc @ c # cs, q) \<and> rest_tokens q = RParen # ts"
  using assms
proof (induction cs arbitrary: p acc c)
  case Nil
  then show ?case
    by (subst parse_columns_unfold)
      (simp add: peek_rest column_decl_ok_def name_ok_def normalize_sql_type normalize_identifier_def column_eta)
next
  case (Cons d ds)
  have "rest_tokens (advance (advance (advance p))) =
      commas (map (\<lambda>c. [Ident (cd_name c), Ident (cd_type_name c)]) (d # ds)) @ RParen # ts"
    using Cons.prems(1) by simp
  from Cons.IH [OF this, of "acc @ [c]"] Cons.prems show ?case
    by (subst parse_columns_unfold)
      (simp add: peek_rest column_decl_ok_def name_ok_def normalize_sql_type normalize_identifier_def column_eta)
qed

lemma parse_selected_rest:
  assumes "rest_tokens p = commas (map (\<lambda>c. [Ident c]) (c # cs)) @ Ident k # ts" "list_all name_ok (c # cs)"
  shows "\<exists>q. parse_selected p acc = Inr (acc @ c # cs, q) \<and> rest_tokens q = Ident k # ts"
  using assms
proof (induction cs arbitrary: p acc c)
  case Nil
  then show ?case
    by (subst parse_selected_unfold) (simp add: peek_rest name_ok_def normalize_identifier_def)
next
  case (Cons d ds)
  have "rest_tokens (advance (advance p)) = commas (map (\<lambda>c. [Ident c]) (d # ds)) @ Ident k # ts"
    using Cons.prems(1) by simp
  from Cons.IH [OF this, of "acc @ [c]"] Cons.prems show ?case
    by (subst parse_selected_unfold) (simp add: peek_rest name_ok_def normalize_identifier_def)
qed

lemma parse_where_rest:
  assumes "rest_tokens p = (case sel of None \<Rightarrow> []
      | Some s \<Rightarrow> [Ident ''WHERE'', Ident (sel_column s), EqSign, value_token (sel_value s)]) @ [Eof]"
    "case sel of None \<Rightarrow> True | Some s \<Rightarrow> name_ok (sel_column s) \<and> value_ok (sel_value s)"
  shows "\<exists>q. parse_where p = Inr (sel, q) \<and> rest_tokens q = [Eof]"
proof (cases sel)
  case None
  with assms(1) have "rest_tokens p = [Eof]" by simp
  from keyword_rest(2) [OF this] this None show ?thesis by (simp add: parse_where_def)
next
  case (Some s)
  have "rest_tokens (advance (advance (advance p))) = value_token (sel_value s) # [Eof]"
    using assms(1) Some by simp
  with assms Some show ?thesis
    by (simp add: parse_where_def keyword_rest(1) eq_ignore_ascii_case_def parse_name_rest name_ok_def
        expect_rest parse_literal_rest)
qed

lemma keyword_mismatch:
  "\<not> eq_ignore_ascii_case ''INSERT'' ''CREATE''" "\<not> eq_ignore_ascii_case ''LOAD'' ''CREATE''"
  "\<not> eq_ignore_ascii_case ''SELECT'' ''CREATE''" "\<not> eq_ignore_ascii_case ''LOAD'' ''INSERT''"
  "\<not> eq_ignore_ascii_case ''SELECT'' ''INSERT''" "\<not> eq_ignore_ascii_case ''SELECT'' ''LOAD''"
  "\<not> eq_ignore_ascii_case ''INDEX'' ''TABLE''"
  by (simp_all add: eq_ignore_ascii_case_def to_ascii_lowercase_def ascii_lower_def less_eq_char_def)

lemma keyword_refl [simp]: "eq_ignore_ascii_case k k"
  by (simp add: eq_ignore_ascii_case_def)

lemmas parse_rest = keyword_rest(1) keyword_mismatch expect_rest expect_keyword_rest parse_name_rest name_ok_def

lemma parse_projection_rest:
  assumes "rest_tokens p = (case projection of ProjectAll \<Rightarrow> [Star]
      | ProjectColumns cs \<Rightarrow> commas (map (\<lambda>c. [Ident c]) cs)) @ Ident k # ts"
    "case projection of ProjectAll \<Rightarrow> True | ProjectColumns cs \<Rightarrow> cs \<noteq> [] \<and> list_all name_ok cs"
  shows "\<not> peek_is_function_call p \<and>
    (\<exists>q. parse_projection p = Inr (projection, q) \<and> rest_tokens q = Ident k # ts)"
proof (cases projection)
  case ProjectAll
  with assms show ?thesis by (simp add: peek_is_function_call_def peek_rest parse_projection_def consume_rest)
next
  case (ProjectColumns columns)
  with assms obtain c cs where cs: "columns = c # cs" by (cases columns) auto
  have rest: "rest_tokens p = commas (map (\<lambda>c. [Ident c]) (c # cs)) @ Ident k # ts"
    using assms(1) ProjectColumns cs by simp
  then have "peek p = Ident c" "peek_n 1 p \<noteq> LParen"
    by (cases cs; simp add: peek_rest peek_n_rest [simplified])+
  moreover obtain q where "parse_selected p [] = Inr (columns, q)" "rest_tokens q = Ident k # ts"
    using parse_selected_rest [OF rest, of "[]"] assms(2) ProjectColumns cs by auto
  ultimately show ?thesis using ProjectColumns
    by (simp add: peek_is_function_call_def parse_projection_def consume_token_def)
qed

lemma parse_statement_rest:
  assumes "rest_tokens p = statement_tokens st @ [Eof]" "statement_ok st"
  shows "\<exists>q. parser_parse_statement p = Inr (st, q) \<and> rest_tokens q = [Eof]"
proof (cases st)
  case (CreateTable name columns)
  with assms obtain c cs where cs: "columns = c # cs" by (cases columns) auto
  have "rest_tokens (advance (advance (advance (advance p)))) =
      commas (map (\<lambda>c. [Ident (cd_name c), Ident (cd_type_name c)]) (c # cs)) @ RParen # [Eof]"
    using assms(1) CreateTable cs by simp
  from parse_columns_rest [OF this, of "[]"] assms(2) CreateTable cs obtain q where
    "parse_columns (advance (advance (advance (advance p)))) [] = Inr (columns, q)" "rest_tokens q = [RParen, Eof]"
    by auto
  with assms CreateTable show ?thesis
    by (simp add: parser_parse_statement_def parse_create_table_def parse_rest)
next
  case (Insert table vs)
  have "rest_tokens (advance (advance (advance (advance (advance p))))) =
      commas (map (\<lambda>v. [value_token v]) vs) @ RParen # [Eof]"
    using assms(1) Insert by simp
  from parse_literal_list_rest [OF this] assms(2) Insert obtain q where
    "parse_literal_list (''expected '' @ quoted '')'' @ '' after VALUES list'')
       (advance (advance (advance (advance (advance p))))) = Inr (vs, q)" "rest_tokens q = [Eof]"
    by auto
  with assms Insert show ?thesis
    by (simp add: parser_parse_statement_def parse_insert_def parse_rest)
next
  case (CreateIndex name table column)
  with assms show ?thesis
    by (simp add: parser_parse_statement_def parse_create_index_def parse_rest)
next
  case (LoadExtension name)
  with assms show ?thesis
    by (simp add: parser_parse_statement_def parse_load_extension_def parse_rest)
next
  case (SelectFunction name args)
  have "rest_tokens (advance (advance (advance p))) = commas (map (\<lambda>v. [value_token v]) args) @ RParen # [Eof]"
    using assms(1) SelectFunction by simp
  from parse_literal_list_rest [OF this] assms(2) SelectFunction obtain q where
    "parse_literal_list (''expected '' @ quoted '')'' @ '' after function arguments'')
       (advance (advance (advance p))) = Inr (args, q)" "rest_tokens q = [Eof]"
    by auto
  moreover have "peek_is_function_call (advance p)"
    using assms(1) SelectFunction by (simp add: peek_is_function_call_def peek_rest peek_n_rest [simplified])
  ultimately show ?thesis using assms SelectFunction
    by (simp add: parser_parse_statement_def parse_select_def parse_select_function_def parse_rest)
next
  case (Select projection table selection)
  let ?ws = "(case selection of None \<Rightarrow> []
      | Some s \<Rightarrow> [Ident ''WHERE'', Ident (sel_column s), EqSign, value_token (sel_value s)]) @ [Eof]"
  have "rest_tokens (advance p) = (case projection of ProjectAll \<Rightarrow> [Star]
      | ProjectColumns cs \<Rightarrow> commas (map (\<lambda>c. [Ident c]) cs)) @ Ident ''FROM'' # Ident table # ?ws"
    using assms(1) Select by simp
  from parse_projection_rest [OF this] assms(2) Select obtain q where
    nf: "\<not> peek_is_function_call (advance p)" and
    q: "parse_projection (advance p) = Inr (projection, q)" "rest_tokens q = Ident ''FROM'' # Ident table # ?ws"
    by auto
  have "rest_tokens (advance (advance q)) = ?ws" using q(2) by simp
  from parse_where_rest [OF this] assms(2) Select obtain r where
    "parse_where (advance (advance q)) = Inr (selection, r)" "rest_tokens r = [Eof]"
    by auto
  with assms Select q nf show ?thesis
    by (simp add: parser_parse_statement_def parse_select_def parse_rest)
qed

lemma finish_rest: "rest_tokens p = [Eof] \<Longrightarrow> finish p = Some (Inr ())"
  by (simp add: finish_def consume_rest peek_rest)

lemma ident_keywords [simp]:
  "ident_ok ''CREATE''" "ident_ok ''TABLE''" "ident_ok ''INDEX''" "ident_ok ''ON''" "ident_ok ''INSERT''"
  "ident_ok ''INTO''" "ident_ok ''VALUES''" "ident_ok ''LOAD''" "ident_ok ''EXTENSION''" "ident_ok ''SELECT''"
  "ident_ok ''FROM''" "ident_ok ''WHERE''"
  by (simp_all add: ident_ok_def is_identifier_start_def is_identifier_continue_def is_ascii_alphabetic_def
      less_eq_char_def)

lemma sql_type_ident: "ty \<in> set SQL_TYPES \<Longrightarrow> ident_ok ty"
  by (auto simp: SQL_TYPES_def ident_ok_def is_identifier_start_def is_identifier_continue_def
      is_ascii_alphabetic_def less_eq_char_def)

lemma commas_ok: "list_all (list_all token_ok) xs \<Longrightarrow> list_all token_ok (commas xs)"
  by (induction xs rule: commas.induct) auto

lemma map_commas_ok:
  assumes "\<And>x. x \<in> set xs \<Longrightarrow> list_all token_ok (f x)"
  shows "list_all token_ok (commas (map f xs))"
proof (rule commas_ok)
  show "list_all (list_all token_ok) (map f xs)" using assms by (induction xs) auto
qed

lemma value_tokens_ok: "list_all value_ok vs \<Longrightarrow> list_all token_ok (commas (map (\<lambda>v. [value_token v]) vs))"
  by (rule map_commas_ok) (simp add: list_all_iff value_token_ok)

lemma column_tokens_ok:
  "list_all column_decl_ok cs \<Longrightarrow>
    list_all token_ok (commas (map (\<lambda>c. [Ident (cd_name c), Ident (cd_type_name c)]) cs))"
  by (rule map_commas_ok) (simp add: list_all_iff column_decl_ok_def name_ok_def sql_type_ident)

lemma name_tokens_ok: "list_all name_ok cs \<Longrightarrow> list_all token_ok (commas (map (\<lambda>c. [Ident c]) cs))"
  by (rule map_commas_ok) (simp add: list_all_iff name_ok_def)

lemma statement_tokens_ok: "statement_ok st \<Longrightarrow> list_all token_ok (statement_tokens st)"
  using value_tokens_ok column_tokens_ok name_tokens_ok
  by (cases st) (simp_all add: name_ok_def value_token_ok split: projection.splits option.splits)

lemma parse_render:
  assumes "statement_ok st"
  shows "parse_statement (render_statement st) = Some (Inr st)"
proof -
  let ?p = "\<lparr>pa_tokens = statement_tokens st @ [Eof], pa_offset = 0\<rparr>"
  have "rest_tokens ?p = statement_tokens st @ [Eof]" by (simp add: rest_tokens_def)
  from parse_statement_rest [OF this assms] obtain q where
    "parser_parse_statement ?p = Inr (st, q)" "rest_tokens q = [Eof]" by auto
  with lex_print_tokens [OF statement_tokens_ok [OF assms]] show ?thesis
    by (simp add: parse_statement_def render_statement_def finish_rest)
qed

text \<open>C19: Parsing inverts printing: the text rendered for a statement that the language can
  express, with any texts, integers and doubles but NaN as literals, is parsed back to exactly
  that statement. The lexer's quoting, the decimal numerals with correct rounding and the
  grammar all take part.\<close>

theorem parse_inverts_render:
  "statement_ok st \<Longrightarrow> parse_statement (render_statement st) = Some (Inr st)"
  by (rule parse_render)

theorem parse_inverts_render_witness:
  "parse_statement (render_statement (Insert ''users'' [Integer (- 1), Text ''it'', Null, Double 0x3FB999999999999A])) =
    Some (Inr (Insert ''users'' [Integer (- 1), Text ''it'', Null, Double 0x3FB999999999999A]))"
  by (rule parse_inverts_render)
    (simp add: name_ok_def ident_ok_def is_identifier_start_def is_identifier_continue_def is_ascii_alphabetic_def
      less_eq_char_def to_ascii_lowercase_def ascii_lower_def str_ok_def string_bytes_def word_less_nat_alt
      f64_is_nan_def f64_abs_def)

section \<open>Parsed statements can be printed\<close>

lemma str_ok_append: "str_ok a \<Longrightarrow> str_ok b \<Longrightarrow> str_ok (a @ b)"
  using str_ok_concat [of "utf8_chars a @ utf8_chars b"] utf8_chars_ok [of a] utf8_chars_ok [of b] by simp

lemma read_string_ok:
  "read_string cs acc = Inr (s, rest) \<Longrightarrow> list_all char_ok cs \<Longrightarrow> str_ok acc \<Longrightarrow> str_ok s \<and> list_all char_ok rest"
proof (induction cs acc rule: read_string.induct)
  case (2 c cs acc)
  have "str_ok (acc @ c)" using "2.prems" by (simp add: str_ok_append char_ok_def)
  moreover have "str_ok (acc @ [CHR 0x27])"
    using "2.prems" char_ok_QUOTE by (intro str_ok_append) (simp_all add: char_ok_def QUOTE_def)
  ultimately show ?case using 2 by (auto split: if_splits list.splits)
qed simp

lemma single_char:
  "is_identifier_continue ch \<Longrightarrow> \<exists>c. ch = [c]" "is_number_char ch \<Longrightarrow> \<exists>c. ch = [c]"
  by (auto simp: is_identifier_continue_def is_number_char_def is_ascii_alphabetic_def is_ascii_digit_def
      split: list.splits)

lemma takeWhile_all:
  assumes "\<And>ch. P ch \<Longrightarrow> \<exists>c. ch = [c]"
  shows "list_all (\<lambda>c. P [c]) (concat (takeWhile P cs))"
  using assms by (fastforce simp: list_all_iff dest: set_takeWhileD)

lemma dropWhile_ok: "list_all char_ok cs \<Longrightarrow> list_all char_ok (dropWhile P cs)"
  by (auto simp: list_all_iff dest: set_dropWhileD)

lemma read_identifier_ok:
  assumes "is_identifier_start c" "read_identifier (c # cs) = (s, rest)"
  shows "ident_ok s"
proof -
  obtain x where x: "c = [x]" using single_char(1) [OF identifier_start_continue [OF assms(1)]] by blast
  have "list_all (\<lambda>c. is_identifier_continue [c]) (concat (takeWhile is_identifier_continue (c # cs)))"
    by (rule takeWhile_all) (rule single_char)
  then show ?thesis using assms identifier_start_continue [OF assms(1)]
    by (auto simp: ident_ok_def read_identifier_def x)
qed

lemma read_number_ok:
  assumes "read_number (c # cs) = Inr (s, rest)" "is_ascii_digit c \<or> c = ''-''"
  shows "number_ok s"
proof -
  have all: "list_all (\<lambda>c. is_number_char [c]) (concat (takeWhile is_number_char ds))" for ds
    by (rule takeWhile_all) (rule single_char)
  show ?thesis
  proof (cases "c = ''-''")
    case True
    with assms(1) obtain d r where d: "cs = d # r" "is_ascii_digit d"
      and s: "s = CHR ''-'' # concat (takeWhile is_number_char cs)"
      by (cases cs) (auto simp: read_number_def Let_def split: if_splits)
    moreover obtain x where "d = [x]" using single_char(2) [OF number_start [OF d(2)]] by blast
    ultimately show ?thesis using all [of cs] number_start [OF d(2)] by (simp add: number_ok_def)
  next
    case False
    with assms have d: "is_ascii_digit c" by simp
    then obtain x where x: "c = [x]" using single_char(2) [OF number_start] by blast
    have "s = concat (takeWhile is_number_char (c # cs))"
      using assms(1) False by (simp add: read_number_def Let_def)
    with all [of "c # cs"] d x False show ?thesis by (simp add: number_ok_def number_start)
  qed
qed

lemma read_number_rest_ok:
  "read_number cs = Inr (s, rest) \<Longrightarrow> list_all char_ok cs \<Longrightarrow> list_all char_ok rest"
  by (auto simp: read_number_def Let_def dropWhile_ok split: list.splits if_splits)

lemma lex_token_cases:
  assumes "lex_token c cs = Inr (t, rest)"
  obtains (sign) "t \<in> {Comma, LParen, RParen, Semicolon, Star, EqSign}" "rest = cs"
    | (str) s where "t = StringLit s" "read_string cs [] = Inr (s, rest)"
    | (ident) s where "t = Ident s" "is_identifier_start c" "read_identifier (c # cs) = (s, rest)"
    | (number) s where "t = Number s" "is_ascii_digit c \<or> c = ''-''" "read_number (c # cs) = Inr (s, rest)"
proof -
  have "(t \<in> {Comma, LParen, RParen, Semicolon, Star, EqSign} \<and> rest = cs) \<or>
      (\<exists>s. t = StringLit s \<and> read_string cs [] = Inr (s, rest)) \<or>
      (\<exists>s. t = Ident s \<and> is_identifier_start c \<and> read_identifier (c # cs) = (s, rest)) \<or>
      (\<exists>s. t = Number s \<and> (is_ascii_digit c \<or> c = ''-'') \<and> read_number (c # cs) = Inr (s, rest))"
    using assms unfolding lex_token_def by (auto simp: res_simps split: if_splits prod.splits)
  with sign str ident number show thesis by blast
qed

lemma lex_token_ok:
  assumes "lex_token c cs = Inr (t, rest)" "list_all char_ok (c # cs)"
  shows "token_ok t \<and> list_all char_ok rest"
  using assms(1)
proof (cases rule: lex_token_cases)
  case sign
  then show ?thesis using assms(2) by auto
next
  case (str s)
  have "str_ok []" by (simp add: str_ok_def string_bytes_def)
  with read_string_ok [OF str(2)] assms(2) str(1) show ?thesis by simp
next
  case (ident s)
  with read_identifier_ok [OF ident(2,3)] dropWhile_ok [OF assms(2)] show ?thesis
    by (auto simp: read_identifier_def)
next
  case (number s)
  with read_number_ok [OF number(3,2)] read_number_rest_ok [OF number(3) assms(2)] show ?thesis by simp
qed

lemma tokenize_ok:
  "tokenize cs = Inr ts \<Longrightarrow> list_all char_ok cs \<Longrightarrow> \<forall>t \<in> set ts. t = Eof \<or> token_ok t"
proof (induction cs arbitrary: ts rule: tokenize.induct)
  case (1 cs)
  show ?case
  proof (cases "skip_whitespace cs")
    case Nil
    with "1.prems" show ?thesis by (auto simp: tokenize.simps [of cs])
  next
    case (Cons c rest)
    with "1.prems" obtain t cs' ts' where t: "lex_token c rest = Inr (t, cs')" "tokenize cs' = Inr ts'" "ts = t # ts'"
      by (auto simp: tokenize.simps [of cs] res_simps)
    have "list_all char_ok (c # rest)"
      using dropWhile_ok [OF "1.prems"(2), of is_whitespace] Cons by (simp add: skip_whitespace_def)
    from lex_token_ok [OF t(1) this] "1.IH" [OF Cons t(1) refl t(2)] t(3) show ?thesis by auto
  qed
qed

lemma lower_letter: "is_identifier_start [c] \<Longrightarrow> is_identifier_start [ascii_lower c]"
  "is_identifier_continue [c] \<Longrightarrow> is_identifier_continue [ascii_lower c]"
  "ascii_lower (ascii_lower c) = ascii_lower c"
  by (auto simp: is_identifier_start_def is_identifier_continue_def is_ascii_alphabetic_def is_ascii_digit_def
      ascii_lower_def less_eq_char_def)

lemma normalized_name_ok: "ident_ok s \<Longrightarrow> name_ok (normalize_identifier s)"
  by (auto simp: name_ok_def ident_ok_def normalize_identifier_def to_ascii_lowercase_def lower_letter
      list_all_iff hd_map)

definition tokens_fine :: "parser \<Rightarrow> bool" where
  "tokens_fine p \<longleftrightarrow> pa_tokens p \<noteq> [] \<and> (\<forall>t \<in> set (pa_tokens p). t = Eof \<or> token_ok t)"

lemma fine_same: "pa_tokens q = pa_tokens p \<Longrightarrow> tokens_fine p \<Longrightarrow> tokens_fine q"
  by (simp add: tokens_fine_def)

lemma fine_advance [simp]: "tokens_fine (advance p) = tokens_fine p"
  by (simp add: tokens_fine_def)

lemma fine_peek: "tokens_fine p \<Longrightarrow> peek p = Eof \<or> token_ok (peek p)"
  by (auto simp: tokens_fine_def peek_def)

lemma fine_name: "tokens_fine p \<Longrightarrow> parse_name d p = Inr (s, q) \<Longrightarrow> name_ok s \<and> tokens_fine q"
  using fine_peek [of p] by (auto simp: parse_name_Inr normalized_name_ok)

lemma fine_literal: "tokens_fine p \<Longrightarrow> parse_literal p = Inr (v, q) \<Longrightarrow> value_ok v \<and> tokens_fine q"
  using fine_peek [of p]
  by (auto simp: parse_literal_def parse_number_def res_simps parse_f64_not_nan split: token.splits if_splits)

lemma fine_columns:
  "tokens_fine p \<Longrightarrow> parse_columns p acc = Inr (cs, q) \<Longrightarrow> list_all column_decl_ok acc \<Longrightarrow> cs \<noteq> [] \<and> list_all column_decl_ok cs"
proof (induction "remaining p" arbitrary: p acc rule: less_induct)
  case less
  have ok: "column_decl_ok \<lparr>cd_name = normalize_identifier v, cd_type_name = tn\<rparr>"
    if "peek p = Ident v" "normalize_type_name ty = Inr tn" for v ty tn
    using that fine_peek [OF less.prems(1)]
    by (auto simp: column_decl_ok_def normalized_name_ok normalize_type_name_def split: if_splits)
  obtain v ty tn where v: "peek p = Ident v" "peek (advance p) = Ident ty" "normalize_type_name ty = Inr tn"
    using less.prems(2) by (subst (asm) parse_columns_unfold) (auto simp: res_simps split: token.splits)
  note step = less.prems(2) [unfolded parse_columns_unfold [of p]]
  show ?case
  proof (cases "peek (advance (advance p)) = Comma")
    case True
    from less.hyps [OF loop_steps(1) [OF v(1,2) True]] step less.prems(1,3) ok [OF v(1,3)] v True show ?thesis
      by (simp add: Let_def)
  next
    case False
    with step less.prems(3) ok [OF v(1,3)] v show ?thesis by (auto simp: Let_def)
  qed
qed

lemma fine_literals:
  "tokens_fine p \<Longrightarrow> parse_literals m p acc = Inr (vs, q) \<Longrightarrow> list_all value_ok acc \<Longrightarrow> list_all value_ok vs"
proof (induction "remaining p" arbitrary: p acc rule: less_induct)
  case less
  show ?case
    using less.prems less.hyps [of "advance (advance p)"] loop_steps(2) [of p] fine_literal [of p]
    by (subst (asm) parse_literals_unfold)
      (auto simp: res_simps split: if_splits dest: parse_literal_advance)
qed

lemma fine_selected:
  "tokens_fine p \<Longrightarrow> parse_selected p acc = Inr (cs, q) \<Longrightarrow> list_all name_ok acc \<Longrightarrow> cs \<noteq> [] \<and> list_all name_ok cs"
proof (induction "remaining p" arbitrary: p acc rule: less_induct)
  case less
  show ?case
    using less.prems less.hyps [of "advance (advance p)"] loop_steps(2) [of p] fine_peek [of p]
    by (subst (asm) parse_selected_unfold)
      (auto simp: Let_def normalized_name_ok split: if_splits token.splits)
qed

lemma fine_literal_list: "tokens_fine p \<Longrightarrow> parse_literal_list m p = Inr (vs, q) \<Longrightarrow> list_all value_ok vs"
  using fine_literals [of p m "[]"] by (auto simp: parse_literal_list_def consume_token_def split: if_splits)

lemma fine_consume:
  "consume_token t p = (b, q) \<Longrightarrow> tokens_fine p \<Longrightarrow> tokens_fine q"
  "consume_keyword k p = (b, q) \<Longrightarrow> tokens_fine p \<Longrightarrow> tokens_fine q"
  "expect_token t m p = Inr q \<Longrightarrow> tokens_fine p \<Longrightarrow> tokens_fine q"
  "expect_keyword k p = Inr q \<Longrightarrow> tokens_fine p \<Longrightarrow> tokens_fine q"
  "parse_projection p = Inr (pr, q) \<Longrightarrow> tokens_fine p \<Longrightarrow> tokens_fine q"
  by (drule keeps_tokens, erule fine_same, assumption)+

lemma fine_projection:
  "tokens_fine p \<Longrightarrow> parse_projection p = Inr (pr, q) \<Longrightarrow>
    (case pr of ProjectAll \<Rightarrow> True | ProjectColumns cs \<Rightarrow> cs \<noteq> [] \<and> list_all name_ok cs)"
  using fine_selected [of p "[]"]
  by (auto simp: parse_projection_def consume_token_def res_simps split: if_splits)

lemma fine_where:
  assumes "tokens_fine p" "parse_where p = Inr (sel, q)"
  shows "case sel of None \<Rightarrow> True | Some s \<Rightarrow> name_ok (sel_column s) \<and> value_ok (sel_value s)"
proof (cases "fst (consume_keyword ''WHERE'' p)")
  case True
  then obtain p1 where p1: "consume_keyword ''WHERE'' p = (True, p1)" by (cases "consume_keyword ''WHERE'' p") auto
  with assms(2) obtain c p2 p3 v m where
    *: "parse_name ''predicate column'' p1 = Inr (c, p2)" "expect_token EqSign m p2 = Inr p3"
      "parse_literal p3 = Inr (v, q)" "sel = Some \<lparr>sel_column = c, sel_value = v\<rparr>"
    by (auto simp: parse_where_def res_simps)
  have c: "name_ok c \<and> tokens_fine p2" by (rule fine_name [OF fine_consume(2) [OF p1 assms(1)] *(1)])
  with fine_literal [OF fine_consume(3) [OF *(2)] *(3)] *(4) show ?thesis by simp
next
  case False
  with assms(2) show ?thesis by (cases "consume_keyword ''WHERE'' p") (auto simp: parse_where_def)
qed

lemma fine_create_table:
  assumes "tokens_fine p" "parse_create_table p = Inr (st, q)"
  shows "statement_ok st"
proof -
  obtain name p1 m p2 cs p3 where
    *: "parse_name ''table name'' p = Inr (name, p1)" "expect_token LParen m p1 = Inr p2"
      "parse_columns p2 [] = Inr (cs, p3)" "st = CreateTable name cs"
    using assms(2) by (auto simp: parse_create_table_def res_simps)
  have "name_ok name \<and> tokens_fine p1" by (rule fine_name [OF assms(1) *(1)])
  with fine_columns [OF fine_consume(3) [OF *(2)] *(3)] *(4) show ?thesis by simp
qed

lemma fine_create_index:
  assumes "tokens_fine p" "parse_create_index p = Inr (st, q)"
  shows "statement_ok st"
proof -
  obtain name p1 p2 table p3 m p4 column p5 where
    *: "parse_name ''index name'' p = Inr (name, p1)" "expect_keyword ''ON'' p1 = Inr p2"
      "parse_name ''table name'' p2 = Inr (table, p3)" "expect_token LParen m p3 = Inr p4"
      "parse_name ''indexed column'' p4 = Inr (column, p5)" "st = CreateIndex name table column"
    using assms(2) by (auto simp: parse_create_index_def res_simps)
  have 1: "name_ok name \<and> tokens_fine p1" by (rule fine_name [OF assms(1) *(1)])
  then have 2: "name_ok table \<and> tokens_fine p3" using fine_name [OF fine_consume(4) [OF *(2)] *(3)] by simp
  then have "name_ok column" using fine_name [OF fine_consume(3) [OF *(4)] *(5)] by simp
  with 1 2 *(6) show ?thesis by simp
qed

lemma fine_insert:
  assumes "tokens_fine p" "parse_insert p = Inr (st, q)"
  shows "statement_ok st"
proof -
  obtain p1 table p2 p3 m p4 m' vs where
    *: "expect_keyword ''INTO'' p = Inr p1" "parse_name ''table name'' p1 = Inr (table, p2)"
      "expect_keyword ''VALUES'' p2 = Inr p3" "expect_token LParen m p3 = Inr p4"
      "parse_literal_list m' p4 = Inr (vs, q)" "st = Insert table vs"
    using assms(2) by (auto simp: parse_insert_def res_simps)
  have 1: "name_ok table \<and> tokens_fine p2" by (rule fine_name [OF fine_consume(4) [OF *(1) assms(1)] *(2)])
  then have "tokens_fine p4" using fine_consume(3) [OF *(4) fine_consume(4) [OF *(3)]] by simp
  with fine_literal_list [OF _ *(5)] 1 *(6) show ?thesis by simp
qed

lemma fine_load:
  assumes "tokens_fine p" "parse_load_extension p = Inr (st, q)"
  shows "statement_ok st"
proof -
  obtain p1 name where
    *: "expect_keyword ''EXTENSION'' p = Inr p1" "parse_name ''extension name'' p1 = Inr (name, q)" "st = LoadExtension name"
    using assms(2) by (auto simp: parse_load_extension_def res_simps)
  from fine_name [OF fine_consume(4) [OF *(1) assms(1)] *(2)] *(3) show ?thesis by simp
qed

lemma fine_select_function:
  assumes "tokens_fine p" "parse_select_function p = Inr (st, q)"
  shows "statement_ok st"
proof -
  obtain name p1 m p2 m' args where
    *: "parse_name ''function name'' p = Inr (name, p1)" "expect_token LParen m p1 = Inr p2"
      "parse_literal_list m' p2 = Inr (args, q)" "st = SelectFunction name args"
    using assms(2) by (auto simp: parse_select_function_def res_simps)
  have "name_ok name \<and> tokens_fine p1" by (rule fine_name [OF assms(1) *(1)])
  with fine_literal_list [OF fine_consume(3) [OF *(2)] *(3)] *(4) show ?thesis by simp
qed

lemma fine_select:
  assumes "tokens_fine p" "parse_select p = Inr (st, q)"
  shows "statement_ok st"
proof (cases "peek_is_function_call p")
  case True
  with assms fine_select_function show ?thesis by (simp add: parse_select_def)
next
  case False
  with assms(2) obtain pr p1 p2 table p3 sel where
    *: "parse_projection p = Inr (pr, p1)" "expect_keyword ''FROM'' p1 = Inr p2"
      "parse_name ''table name'' p2 = Inr (table, p3)" "parse_where p3 = Inr (sel, q)" "st = Select pr table sel"
    by (auto simp: parse_select_def res_simps)
  have "tokens_fine p2" using assms(1) * by (auto dest: fine_consume)
  from fine_name [OF this *(3)] fine_projection [OF assms(1) *(1)] fine_where [of p3 sel q] * show ?thesis by simp
qed

lemma fine_statement:
  assumes "tokens_fine p" "parser_parse_statement p = Inr (st, q)"
  shows "statement_ok st"
proof -
  have keep: "consume_keyword k s = (b, r) \<Longrightarrow> tokens_fine s \<Longrightarrow> tokens_fine r" for k b r s
    by (rule fine_consume(2))
  obtain b1 p1 b2 p2 b3 p3 where
    *: "consume_keyword ''CREATE'' p = (b1, p1)" "consume_keyword ''TABLE'' p1 = (b2, p2)"
      "consume_keyword ''INDEX'' p2 = (b3, p3)" by fastforce
  obtain b4 p4 b5 p5 b6 p6 where
    **: "consume_keyword ''INSERT'' p1 = (b4, p4)" "consume_keyword ''LOAD'' p4 = (b5, p5)"
      "consume_keyword ''SELECT'' p5 = (b6, p6)" by fastforce
  have fine: "tokens_fine p1" "tokens_fine p2" "tokens_fine p3" "tokens_fine p4" "tokens_fine p5" "tokens_fine p6"
    using assms(1) keep [OF *(1)] keep [OF *(2)] keep [OF *(3)] keep [OF **(1)] keep [OF **(2)] keep [OF **(3)]
    by blast+
  show ?thesis
    using assms(2) * ** fine_create_table [OF fine(2)] fine_create_index [OF fine(3)] fine_insert [OF fine(4)]
      fine_load [OF fine(5)] fine_select [OF fine(6)]
    by (auto simp: parser_parse_statement_def split: bool.splits)
qed

lemma parsed_ok:
  assumes "parse_statement sql = Some (Inr st)" "str_ok sql"
  shows "statement_ok st"
proof -
  from assms(1) obtain p q where p: "parser_new sql = Inr p" "parser_parse_statement p = Inr (st, q)"
    by (auto simp: parse_statement_def res_simps split: sum.splits)
  then obtain ts where ts: "tokenize (utf8_chars sql) = Inr ts" "p = \<lparr>pa_tokens = ts, pa_offset = 0\<rparr>"
    by (auto simp: parser_new_def res_simps)
  with tokenize_ok [OF ts(1) utf8_chars_ok [OF assms(2)]] tokenize_ends [OF ts(1)] have "tokens_fine p"
    by (simp add: tokens_fine_def)
  from fine_statement [OF this p(2)] show ?thesis .
qed

text \<open>C21: Every statement that parsing a Rust string returns is well formed: names are lower-case
  identifiers, column lists are not empty, column types are the six canonical ones, text
  literals are valid UTF-8 and double literals are not NaN. Together with the inverse property
  the printable statements are exactly the parseable ones.\<close>

theorem parsed_statement_ok:
  assumes "parse_statement sql = Some (Inr st)" "str_ok sql"
  shows "statement_ok st"
  by (rule parsed_ok [OF assms])

lemma render_str_ok: "statement_ok st \<Longrightarrow> str_ok (render_statement st)"
  unfolding render_statement_def print_tokens_def
proof (rule str_ok_concat)
  assume "statement_ok st"
  from statement_tokens_ok [OF this] show "list_all char_ok (concat (map (\<lambda>t. token_chars t @ ['' '']) (statement_tokens st)))"
    using token_chars_ok by (induction "statement_tokens st" rule: list.induct) (auto simp: list_all_iff intro: char_ok_ascii)
qed

theorem parsed_statement_ok_witness:
  "statement_ok (LoadExtension ''stdlib'')"
proof (rule parsed_statement_ok)
  have ok: "statement_ok (LoadExtension ''stdlib'')"
    by (simp add: name_ok_def ident_ok_def is_identifier_start_def is_identifier_continue_def
        is_ascii_alphabetic_def less_eq_char_def to_ascii_lowercase_def ascii_lower_def)
  show "parse_statement (render_statement (LoadExtension ''stdlib'')) = Some (Inr (LoadExtension ''stdlib''))"
    by (rule parse_render [OF ok])
  show "str_ok (render_statement (LoadExtension ''stdlib''))" by (rule render_str_ok [OF ok])
qed

end
