(* ===== verification/Rdbms_Sql_Row.thy ===== *)
theory Rdbms_Sql_Row
  imports Rdbms_Sql Rdbms_Sql_Round
begin

text \<open>
  Rows of SQL values: the row codec is an instance of the codec contract, coercion gives rows
  that have the types of their columns, and the equality of a predicate agrees with the keys of
  an index.
\<close>

section \<open>The row codec\<close>

fun text_ok :: "sql_value \<Rightarrow> bool" where
  "text_ok (Text s) = str_ok s"
| "text_ok _ = True"

lemma reads_text:
  assumes "str_ok s" "length s < 2 ^ 32"
  shows "reads decode_text (push_u32 (of_nat (length s)) @ string_bytes s) s"
proof -
  have body: "reads (\<lambda>c. bindR (cursor_read_bytes row_texts (unat (of_nat (length s) :: u32)) c)
      (\<lambda>(bs, c2). if valid_utf8 bs then Inr (bytes_string bs, c2)
        else Inl (Corruption ''SQL text value is not valid UTF-8''))) (string_bytes s) s"
    using reads_bytes [of "length s" "string_bytes s" row_texts] assms by (simp add: reads_def str_ok_def)
  show ?thesis unfolding decode_text_def [abs_def] by (rule reads_bind [OF reads_u32]) (rule body)
qed

lemma reads_tagged:
  assumes "text_ok v" "encode_value v = Inr bs"
  obtains tag body where "bs = [tag] @ body" "reads (decode_tagged tag) body v"
proof (cases v)
  case Null
  have "reads (decode_tagged TAG_NULL) [] Null" by (simp add: reads_def decode_tagged_def)
  with Null assms show thesis by (intro that [of TAG_NULL "[]"]) auto
next
  case (Text s)
  with assms have s: "str_ok s" "length s < 2 ^ 32" and bs: "bs = TAG_TEXT # push_u32 (of_nat (length s)) @ string_bytes s"
    by (auto simp: res_simps write_u32_len_def split: if_splits)
  have "reads (\<lambda>c. bindR (decode_text c) (\<lambda>(s, c1). Inr (Text s, c1)))
      (push_u32 (of_nat (length s)) @ string_bytes s) (Text s)"
    by (rule reads_map [OF reads_text [OF s]]) simp
  then show thesis using Text bs
    by (intro that [of TAG_TEXT]) (auto simp: decode_tagged_def [abs_def] TAG_TEXT_def TAG_NULL_def TAG_INTEGER_def)
next
  case (Integer i)
  have "reads (\<lambda>c. bindR (cursor_read_u64 row_texts c) (\<lambda>(v, c1). Inr (Integer v, c1))) (push_u64 i) (Integer i)"
    by (rule reads_map [OF reads_u64]) simp
  then show thesis using Integer assms(2)
    by (intro that [of TAG_INTEGER]) (auto simp: decode_tagged_def [abs_def] TAG_NULL_def TAG_INTEGER_def)
next
  case (Double d)
  have "reads (\<lambda>c. bindR (cursor_read_u64 row_texts c) (\<lambda>(v, c1). Inr (Double v, c1))) (push_u64 d) (Double d)"
    by (rule reads_map [OF reads_u64]) simp
  then show thesis using Double assms(2)
    by (intro that [of TAG_DOUBLE])
      (auto simp: decode_tagged_def [abs_def] TAG_NULL_def TAG_INTEGER_def TAG_TEXT_def TAG_DOUBLE_def)
qed

interpretation value_codec: codec text_ok encode_value decode_value
proof
  fix v bs assume "text_ok v" "encode_value v = Inr bs"
  then obtain tag body where bs: "bs = [tag] @ body" and r: "reads (decode_tagged tag) body v" by (rule reads_tagged)
  show "reads decode_value bs v"
    unfolding decode_value_def [abs_def] bs by (rule reads_bind [OF reads_u8]) (rule r)
qed

lemma encode_value_length: "encode_value v = Inr bs \<Longrightarrow> length bs \<le> 2 ^ 32 + 4"
  by (cases v) (auto simp: res_simps write_u32_len_def push_u32_def push_u64_def split: if_splits)

lemma encode_each_length:
  "encode_each encode_value vs = Inr bs \<Longrightarrow> length bs \<le> length vs * (2 ^ 32 + 4)"
proof (induction vs arbitrary: bs)
  case (Cons v vs)
  then obtain b bs' where "encode_value v = Inr b" "encode_each encode_value vs = Inr bs'" "bs = b @ bs'"
    by (auto simp: res_simps)
  with encode_value_length [of v b] Cons.IH [of bs'] show ?case by simp
qed simp

lemma decode_encode_row:
  assumes "encode_row vs = Inr bs" "list_all text_ok vs"
  shows "decode_row bs = Inr vs"
proof -
  obtain body where n: "length vs < 65536" and body: "encode_each encode_value vs = Inr body"
    and bs: "bs = SQL_ROW_MAGIC @ push_u16 SQL_ROW_VERSION @ push_u16 (of_nat (length vs)) @ body"
    using assms(1) by (auto simp: encode_row_def res_simps write_u16_len_def split: if_splits)
  have "length body \<le> length vs * (2 ^ 32 + 4)" by (rule encode_each_length [OF body])
  also have "\<dots> \<le> 65536 * (2 ^ 32 + 4)" using n by (intro mult_right_mono) simp_all
  finally have len: "length bs < 2 ^ 64" by (simp add: bs SQL_ROW_MAGIC_def push_u16_def)
  have values_read: "reads (decode_many (length vs) decode_value) body vs"
    by (rule value_codec.many_round_trip [OF assms(2) body])
  let ?rest = "\<lambda>c3. bindR (decode_many (unat (of_nat (length vs) :: u16)) decode_value c3) (\<lambda>(vs, c4). Inr (vs, c4))"
  have r3: "reads ?rest body vs" using values_read n by (simp add: reads_def)
  have r2: "reads (\<lambda>c2. bindR (cursor_read_u16 row_texts c2) (\<lambda>(k, c3).
      bindR (decode_many (unat k) decode_value c3) (\<lambda>(vs, c4). Inr (vs, c4)))) (push_u16 (of_nat (length vs)) @ body) vs"
    by (rule reads_bind [OF reads_u16]) (rule r3)
  have r1: "reads (\<lambda>c1. bindR (cursor_read_u16 row_texts c1) (\<lambda>(v, c2).
      if v \<noteq> SQL_ROW_VERSION then Inl (Corruption (msg_row_version v))
      else bindR (cursor_read_u16 row_texts c2) (\<lambda>(k, c3).
        bindR (decode_many (unat k) decode_value c3) (\<lambda>(vs, c4). Inr (vs, c4)))))
      (push_u16 SQL_ROW_VERSION @ push_u16 (of_nat (length vs)) @ body) vs"
    by (rule reads_bind [OF reads_u16]) (use r2 in simp)
  have r0: "reads (\<lambda>c. bindR (cursor_read_bytes row_texts 4 c) (\<lambda>(magic, c1).
      if magic \<noteq> SQL_ROW_MAGIC then Inl (Corruption ''invalid SQL row magic'')
      else bindR (cursor_read_u16 row_texts c1) (\<lambda>(v, c2).
        if v \<noteq> SQL_ROW_VERSION then Inl (Corruption (msg_row_version v))
        else bindR (cursor_read_u16 row_texts c2) (\<lambda>(k, c3).
          bindR (decode_many (unat k) decode_value c3) (\<lambda>(vs, c4). Inr (vs, c4)))))) bs vs"
    unfolding bs by (rule reads_bind [OF reads_bytes]) (use r1 in \<open>simp_all add: SQL_ROW_MAGIC_def\<close>)
  from decode_top [OF r0 len] show ?thesis
    by (clarsimp simp: decode_row_def bindR_eq_Inr split: if_splits) (simp add: cursor_finish_def)
qed

text \<open>C22: A row that was encoded is decoded to the same values, null, integer, text and double,
  whatever its texts contain; the encoder fails only on more than 65535 values or a text of
  4 GiB.\<close>

theorem row_round_trip:
  assumes "list_all text_ok vs" and "length vs < 65536" and "\<forall>s. Text s \<in> set vs \<longrightarrow> length s < 2 ^ 32"
  shows "\<exists>bs. encode_row vs = Inr bs \<and> decode_row bs = Inr vs"
proof -
  have "\<exists>bs. encode_each encode_value vs = Inr bs"
    using assms(3)
  proof (induction vs)
    case (Cons v vs)
    then have "\<exists>b. encode_value v = Inr b" by (cases v) (auto simp: write_u32_len_def)
    with Cons show ?case by auto
  qed simp
  then obtain bs where "encode_row vs = Inr bs" using assms(2) by (auto simp: encode_row_def write_u16_len_def)
  with decode_encode_row [OF _ assms(1)] show ?thesis by blast
qed

theorem row_round_trip_witness:
  "\<exists>bs. encode_row [Integer 42, Text ''hello'', Null, Double 0x3FF8000000000000] = Inr bs \<and>
    decode_row bs = Inr [Integer 42, Text ''hello'', Null, Double 0x3FF8000000000000]"
  by (rule row_round_trip) (simp_all add: str_ok_def string_bytes_def word_less_nat_alt)

section \<open>Types\<close>

text \<open>The values a column admits.\<close>

definition value_typed :: "column_def \<Rightarrow> sql_value \<Rightarrow> bool" where
  "value_typed c v = (case v of
     Null \<Rightarrow> True
   | Integer _ \<Rightarrow> cd_type_name c \<in> {''INT'', ''INTEGER''}
   | Text s \<Rightarrow> cd_type_name c = ''TEXT'' \<and> str_ok s
   | Double _ \<Rightarrow> cd_type_name c \<in> {''DOUBLE'', ''REAL'', ''FLOAT''})"

lemma coerce_value_typed: "coerce_value c v = Inr w \<Longrightarrow> text_ok v \<Longrightarrow> value_typed c w \<and> text_ok w"
  by (auto simp: coerce_value_def value_typed_def split: if_splits sql_value.splits)

lemma coerce_values_Inr:
  assumes "coerce_values cs vs = Inr ws"
  shows "length cs = length vs" "list_all2 (\<lambda>x w. coerce_value (fst x) (snd x) = Inr w) (zip cs vs) ws"
  using assms by (auto simp: coerce_values_def collectR_eq_Inr case_prod_beta split: if_splits)

lemma coerce_values_typed:
  assumes "coerce_values cs vs = Inr ws" "list_all text_ok vs"
  shows "list_all2 value_typed cs ws" "list_all text_ok ws"
proof -
  have len: "length cs = length vs" and co: "list_all2 (\<lambda>x w. coerce_value (fst x) (snd x) = Inr w) (zip cs vs) ws"
    by (rule coerce_values_Inr [OF assms(1)])+
  have "list_all2 value_typed cs ws \<and> list_all text_ok ws"
    using len co assms(2)
    by (induction cs vs arbitrary: ws rule: list_induct2)
      (auto simp: list_all2_Cons1 dest: coerce_value_typed)
  then show "list_all2 value_typed cs ws" "list_all text_ok ws" by auto
qed

text \<open>An integer literal in a double column is the only value that coercion changes.\<close>

definition stored_as :: "column_def \<Rightarrow> sql_value \<Rightarrow> sql_value" where
  "stored_as c v = (case v of
     Integer i \<Rightarrow> if cd_type_name c \<in> {''DOUBLE'', ''REAL'', ''FLOAT''} then Double (i64_as_f64 i) else v
   | _ \<Rightarrow> v)"

lemma coerce_value_stored: "coerce_value c v = Inr w \<Longrightarrow> w = stored_as c v"
  by (auto simp: coerce_value_def stored_as_def split: if_splits sql_value.splits)

lemma coerce_values_stored:
  assumes "coerce_values cs vs = Inr ws"
  shows "ws = map2 stored_as cs vs"
proof -
  have len: "length cs = length vs" and co: "list_all2 (\<lambda>x w. coerce_value (fst x) (snd x) = Inr w) (zip cs vs) ws"
    by (rule coerce_values_Inr [OF assms])+
  then show ?thesis
    by (induction cs vs arbitrary: ws rule: list_induct2) (auto simp: list_all2_Cons1 dest: coerce_value_stored)
qed

text \<open>C23: What \<open>INSERT\<close> stores is typed: coercion succeeds only on one value per column,
  every stored value is null or of the type of its column, and it is the literal itself except
  for an integer in a double column, which becomes the double it converts to. Here the code goes
  beyond its documentation: section 8 of \<open>docs/sql.md\<close> lists type coercion among the things that
  do not exist.\<close>

theorem coerced_row_is_typed:
  assumes "coerce_values columns vs = Inr ws" and "list_all text_ok vs"
  shows "list_all2 value_typed columns ws \<and> ws = map2 stored_as columns vs"
  using coerce_values_stored [OF assms(1)] coerce_values_typed(1) [OF assms] by blast

theorem coerced_row_is_typed_witness:
  "list_all2 value_typed [\<lparr>cd_name = ''id'', cd_type_name = ''INT''\<rparr>, \<lparr>cd_name = ''score'', cd_type_name = ''DOUBLE''\<rparr>]
     [Integer 2, Double 0x401C000000000000] \<and>
   [Integer 2, Double 0x401C000000000000] =
     map2 stored_as [\<lparr>cd_name = ''id'', cd_type_name = ''INT''\<rparr>, \<lparr>cd_name = ''score'', cd_type_name = ''DOUBLE''\<rparr>]
       [Integer 2, Integer 7]"
proof (rule coerced_row_is_typed)
  have "i64_as_f64 7 = 0x401C000000000000"
    by (simp add: i64_as_f64_def f64_of_ratio_def f64_magnitude_def ratio_exponent_def round_half_even_def
        ilog2.simps F64_INFINITY_def Let_def)
  then show "coerce_values [\<lparr>cd_name = ''id'', cd_type_name = ''INT''\<rparr>, \<lparr>cd_name = ''score'', cd_type_name = ''DOUBLE''\<rparr>]
      [Integer 2, Integer 7] = Inr [Integer 2, Double 0x401C000000000000]"
    by (simp add: coerce_values_def coerce_value_def)
qed simp

section \<open>Predicates and keys\<close>

fun key_of :: "sql_value \<Rightarrow> index_key option" where
  "key_of (Integer v) = Some (IntegerKey v)"
| "key_of (Text s) = Some (TextKey s)"
| "key_of _ = None"

lemma index_key_from_value_eq: "index_key_from_value v = Inr (key_of v)"
  by (cases v) auto

definition indexable :: "column_def \<Rightarrow> bool" where
  "indexable c \<longleftrightarrow> cd_type_name c \<in> {''INT'', ''INTEGER'', ''TEXT''}"

text \<open>
  On a column that can be indexed, a value equals a literal that has a key exactly when the two
  have the same key.
\<close>

lemma sql_equal_key:
  assumes "value_typed c v" "indexable c" "key_of w = Some k"
  shows "sql_values_equal v w \<longleftrightarrow> key_of v = Some k"
  using assms by (cases v; cases w) (auto simp: value_typed_def indexable_def)

end
