(* ===== verification/Rdbms_Sql_State.thy ===== *)
theory Rdbms_Sql_State
  imports Rdbms_Sql_Trees Rdbms_Sql_Row
begin

text \<open>
  The state a SQL database is in between statements: every stored row decodes to values of the
  types of its columns, and every index tree holds exactly the keys of the rows of its table.
  On such a database a \<open>SELECT\<close> through an index returns what the scan of the table gives.
\<close>

section \<open>Consistent databases\<close>

definition row_values :: "heap_row \<Rightarrow> sql_value list" where
  "row_values h = (case decode_row (hr_bytes h) of Inl e \<Rightarrow> [] | Inr vs \<Rightarrow> vs)"

definition row_typed :: "column_def list \<Rightarrow> heap_row \<Rightarrow> bool" where
  "row_typed cols h \<longleftrightarrow> decode_row (hr_bytes h) = Inr (row_values h) \<and> list_all2 value_typed cols (row_values h)"

definition entry_for :: "sql_value \<Rightarrow> row_id \<Rightarrow> index_entry list" where
  "entry_for v row = (case key_of v of None \<Rightarrow> [] | Some k \<Rightarrow> [\<lparr>ie_key = k, ie_row_id = row\<rparr>])"

definition index_image :: "nat \<Rightarrow> heap_row list \<Rightarrow> index_entry list" where
  "index_image ci rows = concat (map (\<lambda>h. entry_for (row_values h ! ci) (hr_row_id h)) rows)"

definition column_at :: "relation_info \<Rightarrow> string \<Rightarrow> nat option" where
  "column_at r col = position (\<lambda>c. cd_name c = col) (ri_columns r)"

definition rows_ok :: "catalog \<Rightarrow> page_map \<Rightarrow> bool" where
  "rows_ok c P \<longleftrightarrow> (\<forall>r \<in> set (cat_relations c). ri_kind r = RelTable \<longrightarrow>
     (\<exists>rows. view_scan c P (ri_id r) = Inr rows \<and> list_all (row_typed (ri_columns r)) rows))"

definition index_covers :: "catalog \<Rightarrow> page_map \<Rightarrow> index_storage \<Rightarrow> btree \<Rightarrow> bool" where
  "index_covers c P i tr \<longleftrightarrow> (\<exists>r ci rows. relation_by_id c (is_table_id i) = Some r \<and> ri_kind r = RelTable \<and>
     column_at r (is_column_name i) = Some ci \<and> indexable (ri_columns r ! ci) \<and>
     view_scan c P (ri_id r) = Inr rows \<and> mset (tree_entries tr) = mset (index_image ci rows))"

definition db_view :: "catalog \<Rightarrow> page_map \<Rightarrow> (relation_id \<Rightarrow> btree) \<Rightarrow> bool" where
  "db_view c P T \<longleftrightarrow> heap_ok c P \<and> catalog_ok c \<and> rows_ok c P \<and> trees_ok c P T \<and>
     (\<forall>x \<in> set (cat_relations c). \<forall>i. ri_storage x = StorageBPlusTree i \<longrightarrow> index_covers c P i (T (ri_id x)))"

definition db_ok :: "transactional_store \<Rightarrow> bool" where
  "db_ok m \<longleftrightarrow> store_wf (ts_store m) \<and> persisted (ts_store m) \<and> (\<exists>rs. log_holds m rs) \<and>
     (\<exists>T. db_view (cs_catalog (ts_store m)) (store_pages (ts_store m)) T)"

lemma db_viewD:
  assumes "db_view c P T"
  shows "heap_ok c P" "cat_wf c" "rows_ok c P" "trees_ok c P T"
    "x \<in> set (cat_relations c) \<Longrightarrow> ri_storage x = StorageBPlusTree i \<Longrightarrow> index_covers c P i (T (ri_id x))"
    "catalog_ok c"
  using assms by (auto simp: db_view_def heap_ok_def)

lemma rows_okE:
  assumes "rows_ok c P" "relation_by_id c rid = Some r" "ri_kind r = RelTable"
  obtains rows where "view_scan c P rid = Inr rows" "list_all (row_typed (ri_columns r)) rows"
  using assms relation_by_id_Some [OF assms(2)] by (auto simp: rows_ok_def)

lemma position_Some:
  "position Q xs = Some i \<Longrightarrow> i < length xs \<and> Q (xs ! i)"
  by (induction xs arbitrary: i) (auto split: if_splits)

lemma column_at_length: "column_at r col = Some ci \<Longrightarrow> ci < length (ri_columns r)"
  by (auto simp: column_at_def dest: position_Some)

lemma resolve_column: "resolve_column_index r col = Inr ci \<longleftrightarrow> column_at r col = Some ci"
  by (simp add: resolve_column_index_def column_at_def res_simps)

lemma index_relation:
  assumes "cat_wf c" "x \<in> set (cat_relations c)"
  shows "ri_kind x = RelIndex \<longleftrightarrow> (\<exists>i. ri_storage x = StorageBPlusTree i)"
    "ri_storage x = StorageBPlusTree i \<Longrightarrow> index_at c (ri_id x) (is_root_page_id i)"
proof -
  have t: "relation_typed x" using assms by (simp add: cat_wf_def)
  then show k: "ri_kind x = RelIndex \<longleftrightarrow> (\<exists>i. ri_storage x = StorageBPlusTree i)"
    by (auto simp: relation_typed_def split: storage_object.splits)
  show "ri_storage x = StorageBPlusTree i \<Longrightarrow> index_at c (ri_id x) (is_root_page_id i)"
    using k relation_by_id_wf [OF assms] by (auto simp: index_at_def)
qed

section \<open>Reading rows\<close>

lemma page_row_read:
  assumes "heap_page_ok p" "h \<in> set (page_rows pid p)"
  shows "row_page_id (hr_row_id h) = pid" "read_record p (row_slot_id (hr_row_id h)) = Inr (Some (hr_bytes h))"
proof -
  from assms(2) obtain i b where i: "(i, b) \<in> set (live_from 0 (page_slots p))" "h = slot_row pid (i, b)" by (auto simp: page_rows_def)
  have wf: "page_wf p" using assms(1) by (simp add: heap_page_ok_def)
  have l: "i < slot_total (page_bytes p)" "page_slots p ! i = SLive b" using i(1) by (simp_all add: live_from_mem)
  have "unat (of_nat i :: u16) = i" using page_wf_slot_in [OF wf l(1)] by simp
  then show "row_page_id (hr_row_id h) = pid" "read_record p (row_slot_id (hr_row_id h)) = Inr (Some (hr_bytes h))"
    using wf l by (simp_all add: i(2) slot_row_def read_record_eq spec_read_def del: nth_page_slots)
qed

lemma scan_row_at:
  assumes "heap_ok c P" "relation_by_id c rid = Some r" "ri_kind r = RelTable" "view_scan c P rid = Inr rows" "h \<in> set rows"
  shows "row_at c P rid (hr_row_id h) (hr_bytes h)"
proof -
  from assms(4,5) view_scan_rows [OF assms(1-3)] obtain q where q: "q \<in> set (relation_heap_pages r)" "h \<in> set (page_rows q (view_page P q))"
    by auto
  from heap_ok_page [OF assms(1) relation_by_id_Some(1) [OF assms(2)] q(1)] obtain p where p: "P q = Some p" "heap_page_ok p" .
  with q(2) have "h \<in> set (page_rows q p)" by (simp add: view_page_def)
  from page_row_read [OF p(2) this] q(1) p assms(2,3) show ?thesis by (auto simp: row_at_def)
qed

lemma read_rows_ok:
  assumes "\<And>row. row \<in> set ids \<Longrightarrow> ts_read_row m rid row = Inr (Some (f row))"
  shows "read_rows m rid ids = Inr (map f ids)"
  using assms by (induction ids) auto

text \<open>Looking up row ids of scanned rows gives those rows.\<close>

lemma read_rows_scanned:
  assumes wf: "store_wf (ts_store m)" and r: "relation_by_id (cs_catalog (ts_store m)) rid = Some r" "ri_kind r = RelTable"
    and scan: "view_scan (cs_catalog (ts_store m)) (store_pages (ts_store m)) rid = Inr rows"
    and ids: "mset ids = mset (map hr_row_id hs)" "set hs \<subseteq> set rows"
  obtains hs' where "read_rows m rid ids = Inr hs'" "mset hs' = mset hs"
proof -
  define f where "f row = (case ts_read_row m rid row of Inr (Some h) \<Rightarrow> h | _ \<Rightarrow> undefined)" for row
  have rd: "ts_read_row m rid (hr_row_id h) = Inr (Some h)" if "h \<in> set rows" for h
    using store_read_row_view [OF wf scan_row_at [OF _ r scan that]] wf by (simp add: ts_read_row_def store_wf_def)
  then have inv: "f (hr_row_id h) = h" if "h \<in> set rows" for h using that by (simp add: f_def)
  have "set ids = hr_row_id ` set hs" using arg_cong [OF ids(1), of set_mset] by simp
  then have "ts_read_row m rid row = Inr (Some (f row))" if "row \<in> set ids" for row using that rd inv ids(2) by auto
  then have "read_rows m rid ids = Inr (map f ids)" by (rule read_rows_ok)
  moreover have "mset (map f ids) = mset (map f (map hr_row_id hs))" using ids(1) by (metis mset_map)
  moreover have "map f (map hr_row_id hs) = hs" using inv ids(2) by (auto intro!: map_idI)
  ultimately show thesis using that by metis
qed

lemma select_rows_ok:
  assumes "list_all (row_typed (ri_columns rel)) rows"
  shows "select_rows rel pred idx rows = Inr (map (\<lambda>vs. map (\<lambda>i. vs ! i) idx) (filter (row_matches pred) (map row_values rows)))"
  using assms
  by (induction rows) (auto simp: row_typed_def validate_row_width_def dest: list_all2_lengthD)

section \<open>Lookups through an index\<close>

lemma index_image_rows:
  "map ie_row_id (filter (\<lambda>e. ie_key e = k) (index_image ci rows)) =
     map hr_row_id (filter (\<lambda>h. key_of (row_values h ! ci) = Some k) rows)"
  by (induction rows) (auto simp: index_image_def entry_for_def split: option.splits)

lemma lookup_covers:
  assumes "mset es = mset (index_image ci rows)"
  shows "mset (map ie_row_id (filter (\<lambda>e. ie_key e = k) es)) = mset (map hr_row_id (filter (\<lambda>h. key_of (row_values h ! ci) = Some k) rows))"
proof -
  have "mset (map ie_row_id (filter (\<lambda>e. ie_key e = k) es)) = mset (map ie_row_id (filter (\<lambda>e. ie_key e = k) (index_image ci rows)))"
    using assms by simp
  then show ?thesis unfolding index_image_rows .
qed

lemma find_index_Some:
  assumes "find_index_on_column m tid col = Some ix"
  obtains i where "ix \<in> set (cat_relations (cs_catalog (ts_store m)))" "ri_storage ix = StorageBPlusTree i" "is_table_id i = tid" "is_column_name i = col"
  using assms
  by (cases "ri_storage ix")
    (auto simp: find_index_on_column_def indexes_on_table_def relation_index_storage_def find_Some_iff split: option.splits
      dest!: nth_mem intro: that)

text \<open>
  The candidates for a predicate: rows of the table, among them every row that satisfies it as
  often as the scan has it, and in the order of the scan when no index is used.
\<close>

lemma candidate_rows_ok:
  assumes ok: "db_ok m" and rel: "relation_by_id (cs_catalog (ts_store m)) (ri_id rel) = Some rel" "ri_kind rel = RelTable"
    and pred: "resolve_selection rel sel = Inr pred" and scan: "ts_full_scan m (ri_id rel) = Inr rows"
    and typed: "list_all (row_typed (ri_columns rel)) rows"
  obtains hs where "candidate_rows m rel sel = Some (Inr hs, m)" "set hs \<subseteq> set rows"
    "mset (filter (\<lambda>h. row_matches pred (row_values h)) hs) = mset (filter (\<lambda>h. row_matches pred (row_values h)) rows)"
proof -
  have wf: "store_wf (ts_store m)" using ok by (simp add: db_ok_def)
  let ?c = "cs_catalog (ts_store m)" and ?P = "store_pages (ts_store m)"
  from ok obtain T where view: "db_view ?c ?P T" by (auto simp: db_ok_def)
  note v = db_viewD [OF view]
  have vscan: "view_scan ?c ?P (ri_id rel) = Inr rows" using scan store_full_scan_view [OF wf] by (simp add: ts_full_scan_def)
  show thesis
  proof (cases "\<exists>s ix k. sel = Some s \<and> find_index_on_column m (ri_id rel) (sel_column s) = Some ix \<and> key_of (sel_value s) = Some k")
    case False
    then have "candidate_rows m rel sel = Some (Inr rows, m)"
      by (auto simp: candidate_rows_def scan index_key_from_value_eq split: option.splits)
    then show thesis by (intro that) simp_all
  next
    case True
    then obtain s ix k where s: "sel = Some s" "find_index_on_column m (ri_id rel) (sel_column s) = Some ix" "key_of (sel_value s) = Some k" by blast
    from find_index_Some [OF s(2)] obtain i where ix: "ix \<in> set (cat_relations ?c)" "ri_storage ix = StorageBPlusTree i"
      "is_table_id i = ri_id rel" "is_column_name i = sel_column s" .
    have covers: "index_covers ?c ?P i (T (ri_id ix))" by (rule v(5) [OF ix(1,2)])
    then obtain ci where ci: "column_at rel (sel_column s) = Some ci" "indexable (ri_columns rel ! ci)"
      "mset (tree_entries (T (ri_id ix))) = mset (index_image ci rows)"
      using rel(1) vscan by (auto simp: index_covers_def ix(3,4))
    have at: "index_at ?c (ri_id ix) (is_root_page_id i)" by (rule index_relation(2) [OF v(2) ix(1,2)])
    note d = trees_okD [OF v(4) at]
    define ids where "ids = map ie_row_id (filter (\<lambda>e. ie_key e = k) (tree_entries (T (ri_id ix))))"
    have "index_lookup committed_index_store (root_pid (T (ri_id ix))) k (ts_store m) = Some (Inr ids, ts_store m)"
      unfolding ids_def by (rule committed_index.index_lookup_ok [where h = "bt_height (T (ri_id ix))"]) (use wf d(1) in \<open>simp_all add: store_wf_def tree_in_def\<close>)
    then have look: "ts_lookup_index m (ri_id ix) k = Some (Inr ids, m)"
      using index_at_root [OF at] d(2) by (simp add: ts_lookup_index_def)
    let ?hs = "filter (\<lambda>h. key_of (row_values h ! ci) = Some k) rows"
    have "mset ids = mset (map hr_row_id ?hs)" unfolding ids_def by (rule lookup_covers [OF ci(3)])
    from read_rows_scanned [OF wf rel vscan this] obtain hs where hs: "read_rows m (ri_id rel) ids = Inr hs" "mset hs = mset ?hs" by auto
    have "pred = Some (ci, sel_value s)" using pred ci(1) by (auto simp: resolve_selection_def s(1) res_simps resolve_column)
    then have match: "row_matches pred (row_values h) \<longleftrightarrow> key_of (row_values h ! ci) = Some k" if "h \<in> set rows" for h
      using that typed column_at_length [OF ci(1)] sql_equal_key [OF _ ci(2) s(3)]
      by (auto simp: row_matches_def list_all_iff row_typed_def list_all2_conv_all_nth)
    have "candidate_rows m rel sel = Some (Inr hs, m)"
      by (simp add: candidate_rows_def s index_key_from_value_eq look hs(1))
    moreover have sub: "set hs \<subseteq> set rows" using mset_eq_setD [OF hs(2)] by auto
    moreover have "filter (\<lambda>h. row_matches pred (row_values h)) hs = hs"
      by (rule filter_True) (use match mset_eq_setD [OF hs(2)] in auto)
    moreover have "filter (\<lambda>h. row_matches pred (row_values h)) rows = ?hs" by (rule filter_cong [OF refl]) (rule match)
    ultimately show thesis using hs(2) by (intro that [of hs]) simp_all
  qed
qed

end
