(* ===== verification/Rdbms_Sql_Crash.thy ===== *)
theory Rdbms_Sql_Crash
  imports Rdbms_Sql_State
begin

text \<open>
  Crashes around a statement: what recovery over the log and the data file that a transaction
  left gives, and that opening the catalog on it shows either the database before the
  transaction or the one it built. This composes the transaction manager, the log, the recovery
  pass and the catalog.
\<close>

section \<open>Logs and files that agree\<close>

text \<open>The data file has every committed page of the log, and the ids still to be given out are new to it.\<close>

definition log_current :: "transactional_store \<Rightarrow> wal_record list \<Rightarrow> bool" where
  "log_current m rs \<longleftrightarrow> log_holds m rs \<and> log_ok rs \<and> (\<forall>n. ts_next_tx_id m \<le> n \<longrightarrow> tx_silent (TxId n) rs) \<and>
     pf_pages (ts_file m) ++ committed_page rs = pf_pages (ts_file m)"

text \<open>A stop at this point: a recovery pass over the bytes of both files that succeeds.\<close>

definition recovers_to :: "transactional_store \<Rightarrow> page_file \<Rightarrow> bool" where
  "recovers_to m pf' \<longleftrightarrow> (\<exists>pf db. fl_bytes (pf_file pf) = fl_bytes (pf_file (ts_file m)) \<and>
     reads_ok (pf_file pf) \<and> recover_page_file pf (ts_log m) = (Inr db, pf'))"

text \<open>The database found by opening the catalog on a recovered file.\<close>

definition reopens :: "page_file \<Rightarrow> catalog \<Rightarrow> page_map \<Rightarrow> bool" where
  "reopens pf c P \<longleftrightarrow> store_open pf = (Inr \<lparr>cs_page_file = pf, cs_catalog = c\<rparr>, pf) \<and> pf_pages pf = P \<and>
     (\<exists>T. db_view c P T) \<and> store_wf \<lparr>cs_page_file = pf, cs_catalog = c\<rparr> \<and> persisted \<lparr>cs_page_file = pf, cs_catalog = c\<rparr>"

definition crash_ok :: "transactional_store \<Rightarrow> transactional_store \<Rightarrow> (catalog \<Rightarrow> page_map \<Rightarrow> bool) \<Rightarrow> bool" where
  "crash_ok m m' D \<longleftrightarrow> (\<forall>rs0 pf'. log_current m rs0 \<longrightarrow> recovers_to m' pf' \<longrightarrow> (\<exists>c P. reopens pf' c P \<and> D c P))"

lemma crash_ok_mono: "crash_ok m m' D \<Longrightarrow> (\<And>c P. D c P \<Longrightarrow> D' c P) \<Longrightarrow> crash_ok m m' D'"
  unfolding crash_ok_def by blast

lemma reopensI:
  assumes "db_view c P T" "pf_pages pf = P" "pf_wf pf" "reads_ok (pf_file pf)" "to_page c = Inr p" "P (PageId 0) = Some p"
  shows "reopens pf c P"
proof -
  let ?s = "\<lparr>cs_page_file = pf, cs_catalog = c\<rparr>"
  note v = db_viewD [OF assms(1)]
  have s: "store_wf ?s" "persisted ?s" using v(1) assms(2-6) by (simp_all add: store_wf_def persisted_def store_pages_def)
  from store_reopen [OF this] v(6) assms(1,2) s show ?thesis by (auto simp: reopens_def)
qed

lemma committed_page_begin:
  "committed_page (rs @ [\<lparr>wr_lsn = l, wr_kind = BeginTx tx\<rparr>]) = committed_page rs"
  "log_ok (rs @ [\<lparr>wr_lsn = l, wr_kind = BeginTx tx\<rparr>]) = log_ok rs"
proof -
  have "kind_wins (ks @ [BeginTx tx]) = kind_wins ks" for ks
    by (auto simp: fun_eq_iff kind_wins_def split: wal_record_kind.splits)
  then show "committed_page (rs @ [\<lparr>wr_lsn = l, wr_kind = BeginTx tx\<rparr>]) = committed_page rs"
    "log_ok (rs @ [\<lparr>wr_lsn = l, wr_kind = BeginTx tx\<rparr>]) = log_ok rs"
    by (simp_all add: committed_page_def log_pages_kinds log_ok_kinds) (simp_all add: kind_wins_def)
qed

lemma recover_reads_log: "recover_page_file pf wal = (Inr db, pf') \<Longrightarrow> \<exists>rs. read_all wal = Inr rs"
  by (cases "read_all wal") (auto simp: recover_page_file_def)

lemma write_all_reads:
  assumes "for_eachS (\<lambda>p pf. write_page pf p) ps pf = (Inr (), pf')" "\<forall>p \<in> set ps. length (page_bytes p) = 4096" "reads_ok (pf_file pf)"
  shows "reads_ok (pf_file pf')"
  using assms
proof (induction ps arbitrary: pf)
  case (Cons p ps)
  then obtain pf1 where pf1: "write_page pf p = (Inr (), pf1)" "for_eachS (\<lambda>p pf. write_page pf p) ps pf1 = (Inr (), pf')"
    by (auto simp: bindS_eq_Inr)
  have "length (page_bytes p) = 4096" using Cons.prems by simp
  from file_frame_ok(1) [OF write_page_prefix(2) [OF this pf1(1)]] Cons.IH [OF pf1(2)] Cons.prems show ?case by simp
qed simp

lemma recover_reads_ok:
  assumes "recover_page_file pf wal = (Inr db, pf')" "read_all wal = Inr rs" "log_ok rs" "reads_ok (pf_file pf)"
  shows "reads_ok (pf_file pf')"
proof -
  obtain q s where s: "redo_committed_page_images redo_page_image rs \<lparr>pr_page_file = pf, pr_redone = 0\<rparr> = (q, s)" by fastforce
  obtain v pf2 where sync: "page_file_sync_data (pr_page_file s) = (v, pf2)" by fastforce
  have "q = Inr ()" "pf' = pf2" using assms(1,2) s sync by (auto simp: recover_page_file_def split: sum.splits)
  with redo_log(1) [OF assms(3) s] write_all_reads log_ok_length [OF assms(3)] assms(4)
  have "reads_ok (pf_file (pr_page_file s))" by simp
  with sync_pages [OF sync] \<open>pf' = pf2\<close> show ?thesis by (auto simp: reads_ok_def)
qed

section \<open>Stopping outside the commit\<close>

lemma stopped_unchanged:
  assumes ok: "db_ok m" and cur: "log_current m rs0" and rec: "recovers_to m' pf'" and same: "ts_file m' = ts_file m"
    and log: "read_all (ts_log m') = Inr rs" "log_ok rs" "committed_page rs = committed_page rs0"
  shows "reopens pf' (cs_catalog (ts_store m)) (store_pages (ts_store m))"
proof -
  from rec obtain pf db where pf: "fl_bytes (pf_file pf) = fl_bytes (pf_file (ts_file m))"
    "recover_page_file pf (ts_log m') = (Inr db, pf')" "reads_ok (pf_file pf)" by (auto simp: recovers_to_def same)
  have wf: "pf_wf (ts_file m)" using ok by (simp add: db_ok_def store_wf_def ts_file_def)
  have "pf_pages (ts_file m) ++ committed_page rs = pf_pages (ts_file m)" using cur log(3) by (simp add: log_current_def)
  note r = recovered_unchanged [OF wf log(2) this log(1) pf(1,2)]
  from ok obtain T p where "db_view (cs_catalog (ts_store m)) (store_pages (ts_store m)) T"
    "to_page (cs_catalog (ts_store m)) = Inr p" "store_pages (ts_store m) (PageId 0) = Some p" by (auto simp: db_ok_def persisted_def)
  then show ?thesis using r recover_reads_ok [OF pf(2) log(1,2) pf(3)] by (intro reopensI) (simp_all add: store_pages_def ts_file_def)
qed

lemma crash_ok_unchanged:
  assumes "db_ok m" "ts_store m' = ts_store m"
    and log: "\<And>rs0. log_holds m rs0 \<Longrightarrow> (\<exists>e. read_all (ts_log m') = Inl e) \<or> read_all (ts_log m') = Inr rs0 \<or>
      (\<exists>l. read_all (ts_log m') = Inr (rs0 @ [\<lparr>wr_lsn = l, wr_kind = BeginTx tx\<rparr>]))"
    and D: "D (cs_catalog (ts_store m)) (store_pages (ts_store m))"
  shows "crash_ok m m' D"
  unfolding crash_ok_def
proof (intro allI impI)
  fix rs0 pf' assume cur: "log_current m rs0" and rec: "recovers_to m' pf'"
  have same: "ts_file m' = ts_file m" using assms(2) by (simp add: ts_file_def)
  from rec obtain rs where rs: "read_all (ts_log m') = Inr rs"
    by (auto simp: recovers_to_def dest: recover_reads_log)
  have "log_ok rs \<and> committed_page rs = committed_page rs0"
    using log [of rs0] rs cur by (auto simp: log_current_def committed_page_begin)
  with stopped_unchanged [OF assms(1) cur rec same rs] D
  show "\<exists>c P. reopens pf' c P \<and> D c P" by blast
qed

lemma crash_ok_refl: "db_ok m \<Longrightarrow> D (cs_catalog (ts_store m)) (store_pages (ts_store m)) \<Longrightarrow> crash_ok m m D"
  by (rule crash_ok_unchanged) (auto simp: log_holds_def)

section \<open>The commit\<close>

text \<open>The same log after the begin record of a transaction.\<close>

lemma log_current_begin:
  assumes "log_current m rs0" "log_holds m1 (rs0 @ [\<lparr>wr_lsn = l, wr_kind = BeginTx (TxId (ts_next_tx_id m))\<rparr>])"
  defines "rs \<equiv> rs0 @ [\<lparr>wr_lsn = l, wr_kind = BeginTx (TxId (ts_next_tx_id m))\<rparr>]"
  shows "log_holds m1 rs" "log_ok rs" "\<forall>n. ts_next_tx_id m \<le> n \<longrightarrow> tx_silent (TxId n) rs"
    "pf_pages (ts_file m) ++ committed_page rs = pf_pages (ts_file m)"
  using assms begin_silent(1) by (auto simp: log_current_def committed_page_begin)

lemma tx_silent_later:
  assumes "tx_silent (TxId n) rs0" "map wr_kind rs = tx_kinds t" "tr_tx_id t = TxId k" "n \<noteq> k"
  shows "tx_silent (TxId n) (rs0 @ rs)"
proof -
  have "tx_silent (TxId n) rs"
    unfolding tx_silent_def list_all_iff
  proof
    fix r assume "r \<in> set rs"
    then have "wr_kind r \<in> set (tx_kinds t)" using assms(2) by (metis imageI list.set_map)
    with assms(3,4) show "case wr_kind r of PageImage x _ _ \<Rightarrow> x \<noteq> TxId n | CommitTx x \<Rightarrow> x \<noteq> TxId n | AbortTx x \<Rightarrow> x \<noteq> TxId n | _ \<Rightarrow> True"
      by (auto simp: tx_kinds_def image_kind_def)
  qed
  with assms(1) show ?thesis by (simp add: tx_silent_def)
qed

lemma crash_ok_commit:
  assumes ok: "db_ok m" and b: "tx_begin m = (Inr t0, m1)" and fr: "tx_frame t0 t" and t: "tx_wf t" "tx_staged t"
    and view: "\<exists>T. db_view (tr_working_catalog t) (tx_pages t) T" and com: "tx_commit t = (r, m')"
  shows "crash_ok m m' (\<lambda>c P. c = tr_working_catalog t \<and> P = tx_pages t \<or>
    r \<noteq> Inr () \<and> c = cs_catalog (ts_store m) \<and> P = store_pages (ts_store m))"
  unfolding crash_ok_def
proof (intro allI impI)
  fix rs0 pf' assume cur: "log_current m rs0" and rec: "recovers_to m' pf'"
  have wf: "store_wf (ts_store m)" "persisted (ts_store m)" and log: "log_holds m rs0"
    using ok cur by (simp_all add: db_ok_def log_current_def)
  from begin_facts [OF wf log b] obtain l where b0: "tr_manager t0 = m1"
    "log_holds m1 (rs0 @ [\<lparr>wr_lsn = l, wr_kind = BeginTx (tr_tx_id t0)\<rparr>])" "tr_tx_id t0 = TxId (ts_next_tx_id m)" "tx_file t0 = ts_file m" by metis
  have same: "tr_manager t = m1" "tr_tx_id t = TxId (ts_next_tx_id m)" "tx_file t = ts_file m"
    using fr b0 by (simp_all add: tx_frame_def tx_file_def)
  note c = log_current_begin [OF cur b0(2) [unfolded b0(3)]]
  have base: "tx_base t" "tr_state t = Active" using t(1) by (simp_all add: tx_wf_def)
  from rec obtain pf db where pf: "fl_bytes (pf_file pf) = fl_bytes (pf_file (ts_file m'))"
    "recover_page_file pf (ts_log m') = (Inr db, pf')" "reads_ok (pf_file pf)" by (auto simp: recovers_to_def)
  then obtain rs where rs: "read_all (ts_log m') = Inr rs" using recover_reads_log by blast
  have sil: "tx_silent (tr_tx_id t) (rs0 @ [\<lparr>wr_lsn = l, wr_kind = BeginTx (TxId (ts_next_tx_id m))\<rparr>])" using c(3) same(2) by simp
  from commit_recovers [OF base c(1) [folded same(1)] c(2) sil c(4) [folded same(3)] com rs pf(1,2)]
  have out: "pf_pages pf' = (if CommitTx (tr_tx_id t) \<in> wr_kind ` set rs then tx_pages t else pf_pages (ts_file m))"
    "r = Inr () \<longrightarrow> CommitTx (tr_tx_id t) \<in> wr_kind ` set rs" "pf_wf pf'" "log_ok rs" by (simp_all add: same(3))
  have rd: "reads_ok (pf_file pf')" by (rule recover_reads_ok [OF pf(2) rs out(4) pf(3)])
  show "\<exists>c P. reopens pf' c P \<and> (c = tr_working_catalog t \<and> P = tx_pages t \<or>
    r \<noteq> Inr () \<and> c = cs_catalog (ts_store m) \<and> P = store_pages (ts_store m))"
  proof (cases "CommitTx (tr_tx_id t) \<in> wr_kind ` set rs")
    case True
    from view obtain T where T: "db_view (tr_working_catalog t) (tx_pages t) T" ..
    from t(2) obtain p where p: "to_page (tr_working_catalog t) = Inr p" "tx_pages t (PageId 0) = Some p" by (auto simp: tx_staged_def)
    from reopensI [OF T _ out(3) rd p] out(1) True show ?thesis by auto
  next
    case False
    from ok obtain T p where p: "db_view (cs_catalog (ts_store m)) (store_pages (ts_store m)) T"
      "to_page (cs_catalog (ts_store m)) = Inr p" "store_pages (ts_store m) (PageId 0) = Some p" by (auto simp: db_ok_def persisted_def)
    from reopensI [OF p(1) _ out(3) rd p(2,3)] out(1,2) False show ?thesis by (auto simp: store_pages_def ts_file_def)
  qed
qed

text \<open>After a successful commit the data file agrees with the longer log.\<close>

lemma log_current_commit:
  assumes cur: "log_current m rs0" and wf: "store_wf (ts_store m)" "persisted (ts_store m)" and b: "tx_begin m = (Inr t0, m1)"
    and fr: "tx_frame t0 t" and t: "tx_wf t" and com: "tx_commit t = (Inr (), m')"
  shows "\<exists>rs. log_current m' rs"
proof -
  have log: "log_holds m rs0" using cur by (simp add: log_current_def)
  from begin_facts [OF wf log b] obtain l where b0: "tr_manager t0 = m1"
    "log_holds m1 (rs0 @ [\<lparr>wr_lsn = l, wr_kind = BeginTx (tr_tx_id t0)\<rparr>])" "tr_tx_id t0 = TxId (ts_next_tx_id m)" "tx_file t0 = ts_file m" by metis
  let ?rs = "rs0 @ [\<lparr>wr_lsn = l, wr_kind = BeginTx (TxId (ts_next_tx_id m))\<rparr>]"
  have same: "tr_manager t = m1" "tr_tx_id t = TxId (ts_next_tx_id m)" "tx_file t = ts_file m"
    using fr b0 by (simp_all add: tx_frame_def tx_file_def)
  note c = log_current_begin [OF cur b0(2) [unfolded b0(3)]]
  have base: "tx_base t" "tr_state t = Active" using t by (simp_all add: tx_wf_def)
  from commit_outcome(1) [OF base c(1) [folded same(1)] com] have out: "commit_logged t ?rs m'" "commit_done t m'" by auto
  from out(1) obtain rs where rs: "log_holds m' (?rs @ rs)" "map wr_kind rs = tx_kinds t" by (auto simp: commit_logged_def)
  have sil: "tx_silent (tr_tx_id t) ?rs" using c(3) same(2) by simp
  note lp = log_pages_full [OF base(1) sil rs(2)]
  have cp: "committed_page (?rs @ rs) = committed_page ?rs ++ map_of (tr_dirty_pages t)"
    unfolding committed_page_def lp(1) by (simp add: dirty_map(1) [OF base(1)])
  have "pf_pages (ts_file m') = pf_pages (ts_file m) ++ map_of (tr_dirty_pages t)"
    using out(2) by (simp add: commit_done_def tx_pages_def same(3))
  then have "pf_pages (ts_file m') ++ committed_page (?rs @ rs) = pf_pages (ts_file m')"
    using c(4) unfolding cp by (auto simp: fun_eq_iff map_add_def split: option.splits)
  moreover have later: "ts_next_tx_id m < ts_next_tx_id m'"
  proof -
    from tx_commit_cases [OF base(2) com] obtain m2 where "commit_pages t = (Inr (), m2)" "ts_next_tx_id m' = ts_next_tx_id m2" by metis
    with base(1) have "ts_next_tx_id m' = ts_next_tx_id m1" by (elim commit_pages_cases) (auto simp: same(1))
    moreover from b have "checked_add (ts_next_tx_id m) 1 = Some (ts_next_tx_id m1)"
      by (auto simp: tx_begin_def allocate_tx_id_def ts_append_def split: if_splits option.splits sum.splits prod.splits)
    ultimately show ?thesis using checked_add_unat [of "ts_next_tx_id m" 1] by (simp add: word_less_nat_alt)
  qed
  have "tx_silent (TxId n) (?rs @ rs)" if "ts_next_tx_id m' \<le> n" for n
    using c(3) that later by (intro tx_silent_later [OF _ rs(2) same(2)]) auto
  ultimately show ?thesis using rs(1) lp(2) c(2) by (auto simp: log_current_def)
qed

section \<open>The begin record\<close>

lemma begin_Inl:
  assumes "tx_begin m = (Inl e, m1)"
  shows "ts_store m1 = ts_store m"
    "log_holds m rs0 \<Longrightarrow> (\<exists>e. read_all (ts_log m1) = Inl e) \<or> read_all (ts_log m1) = Inr rs0"
proof -
  let ?k = "BeginTx (TxId (ts_next_tx_id m))"
  obtain r w where w: "wal_append (ts_wal m) ?k = (r, w)" by fastforce
  have cases: "ts_store m1 = ts_store m \<and> (ts_wal m1 = ts_wal m \<or> (\<exists>e. r = Inl e) \<and> ts_wal m1 = w)"
    using assms w
    by (auto simp: tx_begin_def allocate_tx_id_def ts_append_def bindS_def split: if_splits option.splits prod.splits sum.splits)
  then show "ts_store m1 = ts_store m" by simp
  assume log: "log_holds m rs0"
  have "(\<exists>e. read_all (ww_file w) = Inl e) \<or> read_all (ww_file w) = Inr rs0" if "r = Inl e'" for e'
    using wal_append_all_Inl [of "ts_wal m" "[?k]" rs0 e' w] log w that
    by (auto simp: log_holds_def ts_log_def kind_wf_def)
  with cases log show "(\<exists>e. read_all (ts_log m1) = Inl e) \<or> read_all (ts_log m1) = Inr rs0"
    by (auto simp: ts_log_def log_holds_def)
qed

lemma crash_ok_begin_failed:
  assumes "db_ok m" "tx_begin m = (Inl e, m1)" "D (cs_catalog (ts_store m)) (store_pages (ts_store m))"
  shows "crash_ok m m1 D"
  by (rule crash_ok_unchanged [where D = D, OF assms(1) begin_Inl(1) [OF assms(2)] _ assms(3)]) (use begin_Inl(2) [OF assms(2)] in blast)

lemma crash_ok_dropped:
  assumes ok: "db_ok m" and b: "tx_begin m = (Inr t0, m1)" and fr: "tx_frame t0 t"
    and D: "D (cs_catalog (ts_store m)) (store_pages (ts_store m))"
  shows "crash_ok m (tx_drop t) D"
proof (rule crash_ok_unchanged [where D = D, OF ok _ _ D])
  have wf: "store_wf (ts_store m)" "persisted (ts_store m)" using ok by (simp_all add: db_ok_def)
  have t: "ts_store (tx_drop t) = ts_store m" "ts_log (tx_drop t) = ts_log m1"
    using fr begin_state(1,4) [OF b] by (simp_all add: tx_frame_def tx_drop_def finish_writer_def ts_log_def)
  then show "ts_store (tx_drop t) = ts_store m" by simp
  fix rs0 assume "log_holds m rs0"
  from begin_facts [OF wf this b] t(2) begin_state(5) [OF b]
  show "(\<exists>e. read_all (ts_log (tx_drop t)) = Inl e) \<or> read_all (ts_log (tx_drop t)) = Inr rs0 \<or>
      (\<exists>l. read_all (ts_log (tx_drop t)) = Inr (rs0 @ [\<lparr>wr_lsn = l, wr_kind = BeginTx (TxId (ts_next_tx_id m))\<rparr>]))"
    by (metis log_holds_def)
qed

definition log_stays :: "transactional_store \<Rightarrow> transactional_store \<Rightarrow> bool" where
  "log_stays m m' \<longleftrightarrow> ((\<exists>rs. log_current m rs) \<longrightarrow> (\<exists>rs. log_current m' rs))"

lemma log_stays_refl [simp]: "log_stays m m"
  by (simp add: log_stays_def)

end
