(* ===== verification/Rdbms_Sql_Change.thy ===== *)
theory Rdbms_Sql_Change
  imports Rdbms_Sql_Crash
begin

text \<open>
  What the statements that write do to a consistent database: the loops that fill indexes
  return and keep all trees, \<open>INSERT\<close> adds one row to one table and its keys to every index
  of that table, \<open>CREATE INDEX\<close> builds a tree that covers the rows of its table, and the
  commit at the end of a statement publishes the new state.
\<close>

section \<open>Filling indexes\<close>

definition indexes_grow :: "transaction \<Rightarrow> (relation_id \<Rightarrow> btree) \<Rightarrow> transaction \<Rightarrow> (relation_id \<Rightarrow> btree) \<Rightarrow> nat \<Rightarrow> bool" where
  "indexes_grow t T t' T' n \<longleftrightarrow> tx_wf t' \<and> (tx_staged t \<longrightarrow> tx_staged t') \<and> tx_frame t t' \<and> trees_ok (tr_working_catalog t') (tx_pages t') T' \<and>
     same_heaps (tr_working_catalog t) (tx_pages t) (tr_working_catalog t') (tx_pages t') \<and>
     (\<forall>x. (\<exists>rt. index_at (tr_working_catalog t') x rt) = (\<exists>rt. index_at (tr_working_catalog t) x rt)) \<and>
     spare_pages (tr_working_catalog t) \<le> spare_pages (tr_working_catalog t') + n"

lemma indexes_grow_refl: "tx_wf t \<Longrightarrow> trees_ok (tr_working_catalog t) (tx_pages t) T \<Longrightarrow> indexes_grow t T t T 0"
  by (simp add: indexes_grow_def)

lemma indexes_grow_trans: "indexes_grow t T u U n \<Longrightarrow> indexes_grow u U v V k \<Longrightarrow> indexes_grow t T v V (n + k)"
  by (auto simp: indexes_grow_def intro: tx_frame_trans same_heaps_trans)

lemma indexes_grow_mono: "indexes_grow t T u U n \<Longrightarrow> n \<le> k \<Longrightarrow> indexes_grow t T u U k"
  by (auto simp: indexes_grow_def)

definition value_good :: "sql_value \<Rightarrow> bool" where
  "value_good v \<longleftrightarrow> (case key_of v of None \<Rightarrow> True | Some k \<Rightarrow> key_good k)"

lemma add_index_entry_grows:
  assumes "tx_wf t" "trees_ok (tr_working_catalog t) (tx_pages t) T" "\<exists>rt. index_at (tr_working_catalog t) rid rt" "value_good v"
    "bt_height (T rid) + 2 \<le> spare_pages (tr_working_catalog t)"
  obtains r t' tr where "add_index_entry rid v row t = Some (r, t')" "tx_frame t t'"
    "r = Inr () \<longrightarrow> indexes_grow t T t' (T(rid := tr)) (bt_height (T rid) + 2) \<and> bt_height tr \<le> Suc (bt_height (T rid)) \<and>
       mset (tree_entries tr) = mset (tree_entries (T rid)) + mset (entry_for v row)"
proof (cases "key_of v")
  case None
  then show thesis
    using indexes_grow_mono [OF indexes_grow_refl [OF assms(1,2)]]
    by (intro that [of "Inr ()" t "T rid"]) (simp_all add: add_index_entry_def index_key_from_value_eq entry_for_def)
next
  case (Some k)
  with assms(4) have k: "key_good k" by (simp add: value_good_def)
  from assms(3) obtain rt where rt: "index_at (tr_working_catalog t) rid rt" ..
  from tx_insert_index_entry_layout [OF assms(1,2) rt k assms(5), of row] obtain r t' tr where
    i: "tx_insert_index_entry t rid k row = Some (r, t')" "tx_frame t t'"
    "r = Inr () \<longrightarrow> tx_wf t' \<and> tx_staged t' \<and> trees_ok (tr_working_catalog t') (tx_pages t') (T(rid := tr)) \<and>
      same_heaps (tr_working_catalog t) (tx_pages t) (tr_working_catalog t') (tx_pages t') \<and>
      (\<forall>x. (\<exists>rt. index_at (tr_working_catalog t') x rt) = (\<exists>rt. index_at (tr_working_catalog t) x rt)) \<and>
      mset (tree_entries tr) = add_mset \<lparr>ie_key = k, ie_row_id = row\<rparr> (mset (tree_entries (T rid))) \<and>
      bt_height tr \<le> Suc (bt_height (T rid)) \<and>
      spare_pages (tr_working_catalog t) \<le> spare_pages (tr_working_catalog t') + bt_height (T rid) + 2" .
  then show thesis
    by (intro that [of r t' tr])
      (auto simp: add_index_entry_def index_key_from_value_eq Some entry_for_def indexes_grow_def)
qed

text \<open>The keys of one new row, for every index of its table.\<close>

definition column_of :: "relation_info \<Rightarrow> relation_info \<Rightarrow> nat option" where
  "column_of rel ix = (case ri_storage ix of StorageBPlusTree i \<Rightarrow> column_at rel (is_column_name i) | StorageHeap _ \<Rightarrow> None)"

lemma insert_index_entries_unfold:
  assumes "column_of rel ix = Some ci"
  shows "insert_index_entries rel vs row (ix # rest) t =
    bindSO (add_index_entry (ri_id ix) (vs ! ci) row t) (\<lambda>_ t1. insert_index_entries rel vs row rest t1)"
proof -
  from assms obtain i where "ri_storage ix = StorageBPlusTree i" "column_at rel (is_column_name i) = Some ci"
    by (auto simp: column_of_def split: storage_object.splits)
  then show ?thesis by (simp add: relation_index_storage_def resolve_column [THEN iffD2])
qed

lemma insert_index_entries_grow:
  assumes "tx_wf t" "trees_ok (tr_working_catalog t) (tx_pages t) T"
    "\<forall>ix \<in> set ixs. (\<exists>rt. index_at (tr_working_catalog t) (ri_id ix) rt) \<and> column_of rel ix \<noteq> None \<and> bt_height (T (ri_id ix)) \<le> M"
    "distinct (map ri_id ixs)" "\<forall>ix \<in> set ixs. \<forall>ci. column_of rel ix = Some ci \<longrightarrow> value_good (vs ! ci)"
    "length ixs * (M + 2) \<le> spare_pages (tr_working_catalog t)"
  shows "\<exists>r t'. insert_index_entries rel vs row ixs t = Some (r, t') \<and> tx_frame t t' \<and>
    (r = Inr () \<longrightarrow> (\<exists>T'. indexes_grow t T t' T' (length ixs * (M + 2)) \<and> (\<forall>x. x \<notin> ri_id ` set ixs \<longrightarrow> T' x = T x) \<and>
       (\<forall>ix \<in> set ixs. \<forall>ci. column_of rel ix = Some ci \<longrightarrow>
          mset (tree_entries (T' (ri_id ix))) = mset (tree_entries (T (ri_id ix))) + mset (entry_for (vs ! ci) row))))"
  using assms
proof (induction ixs arbitrary: t T)
  case Nil
  then show ?case using indexes_grow_refl by auto
next
  case (Cons ix ixs)
  from Cons.prems(3) obtain ci where ci: "column_of rel ix = Some ci" by auto
  have at: "\<exists>rt. index_at (tr_working_catalog t) (ri_id ix) rt" and h: "bt_height (T (ri_id ix)) \<le> M" using Cons.prems(3) by auto
  have vg: "value_good (vs ! ci)" using Cons.prems(5) ci by auto
  have room: "bt_height (T (ri_id ix)) + 2 \<le> spare_pages (tr_working_catalog t)" using h Cons.prems(6) by simp
  from add_index_entry_grows [OF Cons.prems(1,2) at vg room, of row] obtain r t1 tr where
    a: "add_index_entry (ri_id ix) (vs ! ci) row t = Some (r, t1)" "tx_frame t t1"
    and ok: "r = Inr () \<longrightarrow> indexes_grow t T t1 (T(ri_id ix := tr)) (bt_height (T (ri_id ix)) + 2) \<and> bt_height tr \<le> Suc (bt_height (T (ri_id ix))) \<and>
       mset (tree_entries tr) = mset (tree_entries (T (ri_id ix))) + mset (entry_for (vs ! ci) row)" .
  show ?case
  proof (cases r)
    case (Inl e)
    with a have "insert_index_entries rel vs row (ix # ixs) t = Some (Inl e, t1)" by (simp add: insert_index_entries_unfold [OF ci] del: insert_index_entries.simps)
    with a(2) show ?thesis by (simp del: insert_index_entries.simps)
  next
    case (Inr u)
    let ?T = "T(ri_id ix := tr)"
    have g: "indexes_grow t T t1 ?T (M + 2)" and es: "mset (tree_entries tr) = mset (tree_entries (T (ri_id ix))) + mset (entry_for (vs ! ci) row)"
      using ok Inr h by (auto intro: indexes_grow_mono)
    have keep: "?T (ri_id y) = T (ri_id y)" if "y \<in> set ixs" for y using Cons.prems(4) that by (auto dest!: imageI [of y _ ri_id])
    have 1: "tx_wf t1" "trees_ok (tr_working_catalog t1) (tx_pages t1) ?T" using g by (simp_all add: indexes_grow_def)
    have 2: "\<forall>y \<in> set ixs. (\<exists>rt. index_at (tr_working_catalog t1) (ri_id y) rt) \<and> column_of rel y \<noteq> None \<and> bt_height (?T (ri_id y)) \<le> M"
      using g Cons.prems(3) keep by (auto simp: indexes_grow_def)
    have 3: "length ixs * (M + 2) \<le> spare_pages (tr_working_catalog t1)" using g Cons.prems(6) by (simp add: indexes_grow_def)
    have 4: "distinct (map ri_id ixs)" "\<forall>ix \<in> set ixs. \<forall>ci. column_of rel ix = Some ci \<longrightarrow> value_good (vs ! ci)"
      using Cons.prems(4,5) by simp_all
    from Cons.IH [OF 1 2 4 3] obtain q t' where
      q: "insert_index_entries rel vs row ixs t1 = Some (q, t')" "tx_frame t1 t'"
      and T': "q = Inr () \<longrightarrow> (\<exists>T'. indexes_grow t1 ?T t' T' (length ixs * (M + 2)) \<and> (\<forall>x. x \<notin> ri_id ` set ixs \<longrightarrow> T' x = ?T x) \<and>
       (\<forall>ix \<in> set ixs. \<forall>ci. column_of rel ix = Some ci \<longrightarrow>
          mset (tree_entries (T' (ri_id ix))) = mset (tree_entries (?T (ri_id ix))) + mset (entry_for (vs ! ci) row)))" by blast
    have "insert_index_entries rel vs row (ix # ixs) t = Some (q, t')" using a Inr q(1) by (simp add: insert_index_entries_unfold [OF ci] del: insert_index_entries.simps)
    moreover have "\<exists>T'. indexes_grow t T t' T' (length (ix # ixs) * (M + 2)) \<and> (\<forall>x. x \<notin> ri_id ` set (ix # ixs) \<longrightarrow> T' x = T x) \<and>
       (\<forall>y \<in> set (ix # ixs). \<forall>cj. column_of rel y = Some cj \<longrightarrow>
          mset (tree_entries (T' (ri_id y))) = mset (tree_entries (T (ri_id y))) + mset (entry_for (vs ! cj) row))" if "q = Inr ()"
    proof -
      from T' that obtain T' where t: "indexes_grow t1 ?T t' T' (length ixs * (M + 2))" "\<forall>x. x \<notin> ri_id ` set ixs \<longrightarrow> T' x = ?T x"
        "\<forall>y \<in> set ixs. \<forall>cj. column_of rel y = Some cj \<longrightarrow>
          mset (tree_entries (T' (ri_id y))) = mset (tree_entries (?T (ri_id y))) + mset (entry_for (vs ! cj) row)" by blast
      have "indexes_grow t T t' T' (length (ix # ixs) * (M + 2))" by (rule indexes_grow_mono [OF indexes_grow_trans [OF g t(1)]]) simp
      moreover have "T' (ri_id ix) = tr" using t(2) Cons.prems(4) by simp
      ultimately show ?thesis using t(2,3) es ci keep by (intro exI [of _ T']) auto
    qed
    ultimately show ?thesis using a(2) q(2) tx_frame_trans by blast
  qed
qed

text \<open>The keys of the rows of a table, for one index.\<close>

lemma index_existing_rows_grow:
  assumes "tx_wf t" "trees_ok (tr_working_catalog t) (tx_pages t) T" "\<exists>rt. index_at (tr_working_catalog t) rid rt"
    "list_all (row_typed (ri_columns rel)) rows" "\<forall>h \<in> set rows. value_good (row_values h ! ci)"
    "length rows * (bt_height (T rid) + length rows + 2) \<le> spare_pages (tr_working_catalog t)"
  shows "\<exists>r t'. index_existing_rows rel ci rid rows t = Some (r, t') \<and> tx_frame t t' \<and>
    (r = Inr () \<longrightarrow> (\<exists>T' n. indexes_grow t T t' T' n \<and> (\<forall>x. x \<noteq> rid \<longrightarrow> T' x = T x) \<and>
       mset (tree_entries (T' rid)) = mset (tree_entries (T rid)) + mset (index_image ci rows)))"
  using assms
proof (induction rows arbitrary: t T)
  case Nil
  then show ?case using indexes_grow_refl by (auto simp: index_image_def)
next
  case (Cons h rows)
  have row: "decode_row (hr_bytes h) = Inr (row_values h)" "validate_row_width rel (row_values h) = Inr ()"
    using Cons.prems(4) by (auto simp: row_typed_def validate_row_width_def dest: list_all2_lengthD)
  then have step: "index_existing_rows rel ci rid (h # rows) u = bindSO (add_index_entry rid (row_values h ! ci) (hr_row_id h) u)
      (\<lambda>_ t1. index_existing_rows rel ci rid rows t1)" for u by simp
  have room: "bt_height (T rid) + 2 \<le> spare_pages (tr_working_catalog t)"
    "length rows * (Suc (bt_height (T rid)) + length rows + 2) + bt_height (T rid) + 2 \<le> spare_pages (tr_working_catalog t)"
    using Cons.prems(6) by (simp_all add: algebra_simps)
  have vg: "value_good (row_values h ! ci)" using Cons.prems(5) by simp
  from add_index_entry_grows [OF Cons.prems(1,2,3) vg room(1), of "hr_row_id h"] obtain r t1 tr where
    a: "add_index_entry rid (row_values h ! ci) (hr_row_id h) t = Some (r, t1)" "tx_frame t t1"
    and ok: "r = Inr () \<longrightarrow> indexes_grow t T t1 (T(rid := tr)) (bt_height (T rid) + 2) \<and> bt_height tr \<le> Suc (bt_height (T rid)) \<and>
       mset (tree_entries tr) = mset (tree_entries (T rid)) + mset (entry_for (row_values h ! ci) (hr_row_id h))" .
  show ?case
  proof (cases r)
    case (Inl e)
    with a have "index_existing_rows rel ci rid (h # rows) t = Some (Inl e, t1)" by (simp add: step del: index_existing_rows.simps)
    with a(2) show ?thesis by (simp del: index_existing_rows.simps)
  next
    case (Inr u)
    let ?T = "T(rid := tr)"
    have g: "indexes_grow t T t1 ?T (bt_height (T rid) + 2)" and ht: "bt_height tr \<le> Suc (bt_height (T rid))"
      and es: "mset (tree_entries tr) = mset (tree_entries (T rid)) + mset (entry_for (row_values h ! ci) (hr_row_id h))" using ok Inr by auto
    have 1: "tx_wf t1" "trees_ok (tr_working_catalog t1) (tx_pages t1) ?T" "\<exists>rt. index_at (tr_working_catalog t1) rid rt"
      using g Cons.prems(3) by (simp_all add: indexes_grow_def)
    have "length rows * (bt_height tr + length rows + 2) \<le> length rows * (Suc (bt_height (T rid)) + length rows + 2)"
      using ht by (intro mult_le_mono2) simp
    moreover have "spare_pages (tr_working_catalog t) \<le> spare_pages (tr_working_catalog t1) + (bt_height (T rid) + 2)" using g by (simp add: indexes_grow_def)
    ultimately have "length rows * (bt_height tr + length rows + 2) \<le> spare_pages (tr_working_catalog t1)" using room(2) by linarith
    then have 2: "length rows * (bt_height (?T rid) + length rows + 2) \<le> spare_pages (tr_working_catalog t1)" by simp
    have 3: "list_all (row_typed (ri_columns rel)) rows" "\<forall>h \<in> set rows. value_good (row_values h ! ci)" using Cons.prems(4,5) by simp_all
    from Cons.IH [OF 1 3 2] obtain q t' where
      q: "index_existing_rows rel ci rid rows t1 = Some (q, t')" "tx_frame t1 t'"
      and T': "q = Inr () \<longrightarrow> (\<exists>T' n. indexes_grow t1 ?T t' T' n \<and> (\<forall>x. x \<noteq> rid \<longrightarrow> T' x = ?T x) \<and>
       mset (tree_entries (T' rid)) = mset (tree_entries (?T rid)) + mset (index_image ci rows))" by blast
    have "index_existing_rows rel ci rid (h # rows) t = Some (q, t')" using a Inr q(1) by (simp add: step del: index_existing_rows.simps)
    moreover have "\<exists>T' n. indexes_grow t T t' T' n \<and> (\<forall>x. x \<noteq> rid \<longrightarrow> T' x = T x) \<and>
       mset (tree_entries (T' rid)) = mset (tree_entries (T rid)) + mset (index_image ci (h # rows))" if "q = Inr ()"
    proof -
      from T' that obtain T' n where t: "indexes_grow t1 ?T t' T' n" "\<forall>x. x \<noteq> rid \<longrightarrow> T' x = ?T x"
        "mset (tree_entries (T' rid)) = mset (tree_entries tr) + mset (index_image ci rows)" by auto
      from indexes_grow_trans [OF g t(1)] t(2,3) es show ?thesis by (intro exI [of _ T']) (auto simp: index_image_def)
    qed
    ultimately show ?thesis using a(2) q(2) tx_frame_trans by blast
  qed
qed

section \<open>The tables of a database\<close>

text \<open>The abstract state: for every table name its columns and the multiset of its rows.\<close>

type_synonym tables = "string \<Rightarrow> (column_def list \<times> sql_value list multiset) option"

definition tables_of :: "catalog \<Rightarrow> page_map \<Rightarrow> tables" where
  "tables_of c P name = (case relation_by_name c name of
     Some r \<Rightarrow> if ri_kind r = RelTable
       then (case view_scan c P (ri_id r) of Inr rows \<Rightarrow> Some (ri_columns r, mset (map row_values rows)) | Inl _ \<Rightarrow> None) else None
   | None \<Rightarrow> None)"

lemma relation_by_name_wf:
  assumes "cat_wf c" "relation_by_name c name = Some r"
  shows "relation_by_id c (ri_id r) = Some r" "ri_name r = name" "r \<in> set (cat_relations c)"
proof -
  show "ri_name r = name" "r \<in> set (cat_relations c)" using assms(2) by (auto simp: relation_by_name_def find_Some_iff)
  then show "relation_by_id c (ri_id r) = Some r" using relation_by_id_wf [OF assms(1)] by simp
qed

lemma relation_by_name_self:
  assumes "cat_wf c" "r \<in> set (cat_relations c)"
  shows "relation_by_name c (ri_name r) = Some r"
proof -
  have "find (\<lambda>y. ri_name y = ri_name r) rs = Some r" if "distinct (map ri_name rs)" "r \<in> set rs" for rs
    using that by (induction rs) auto
  with assms show ?thesis by (simp add: relation_by_name_def cat_wf_def)
qed

lemma tables_of_table:
  assumes "cat_wf c" "relation_by_id c rid = Some r" "ri_kind r = RelTable" "view_scan c P rid = Inr rows"
  shows "tables_of c P (ri_name r) = Some (ri_columns r, mset (map row_values rows))"
  using relation_by_name_self [OF assms(1) relation_by_id_Some(1) [OF assms(2)]] relation_by_id_Some(2) [OF assms(2)] assms(3,4)
  by (simp add: tables_of_def)

lemma same_schema_mem:
  assumes "same_schema c c'" "x \<in> set (cat_relations c')"
  obtains y where "y \<in> set (cat_relations c)" "same_relation y x"
proof -
  from assms(2) obtain i where "i < length (cat_relations c')" "x = cat_relations c' ! i" by (auto simp: in_set_conv_nth)
  with assms(1) show thesis by (intro that [of "cat_relations c ! i"]) (auto simp: same_schema_def list_all2_conv_all_nth)
qed

lemma column_at_same: "same_relation r r' \<Longrightarrow> column_at r' col = column_at r col"
  by (simp add: column_at_def same_relation_def)

lemma catalog_ok_schema:
  assumes "same_schema c c'" "catalog_ok c" "cat_wf c'"
  shows "catalog_ok c'"
proof -
  have "relation_ok x" if "x \<in> set (cat_relations c')" for x
  proof -
    from same_schema_mem [OF assms(1) that] obtain y where y: "y \<in> set (cat_relations c)" "same_relation y x" .
    have "relation_ok y" "relation_typed x" using assms(2,3) y(1) that by (simp_all add: catalog_ok_def list_all_iff cat_wf_def)
    with y(2) show ?thesis
      by (auto simp: relation_ok_def same_relation_def storage_ok_def relation_typed_def split: storage_object.splits)
  qed
  with assms(1,2) show ?thesis by (simp add: catalog_ok_def list_all_iff same_schema_def)
qed

lemma index_covers_same:
  assumes "index_covers c P i tr" "is_table_id i' = is_table_id i" "is_column_name i' = is_column_name i"
    "\<And>r. relation_by_id c (is_table_id i) = Some r \<Longrightarrow> ri_kind r = RelTable \<Longrightarrow>
       \<exists>r'. relation_by_id c' (is_table_id i) = Some r' \<and> same_relation r r' \<and> view_scan c' P' (ri_id r) = view_scan c P (ri_id r)"
    "mset (tree_entries tr') = mset (tree_entries tr)"
  shows "index_covers c' P' i' tr'"
proof -
  from assms(1) obtain r ci rows where r: "relation_by_id c (is_table_id i) = Some r" "ri_kind r = RelTable"
    "column_at r (is_column_name i) = Some ci" "indexable (ri_columns r ! ci)" "view_scan c P (ri_id r) = Inr rows"
    "mset (tree_entries tr) = mset (index_image ci rows)" by (auto simp: index_covers_def)
  from assms(4) [OF r(1,2)] obtain r' where r': "relation_by_id c' (is_table_id i) = Some r'" "same_relation r r'"
    "view_scan c' P' (ri_id r) = Inr rows" using r(5) by auto
  have "ri_id r' = ri_id r" "ri_kind r' = RelTable" "ri_columns r' = ri_columns r" using r'(2) r(2) by (simp_all add: same_relation_def)
  with r r' column_at_same [OF r'(2)] assms(2,3,5) show ?thesis
    unfolding index_covers_def by (intro exI [of _ r'] exI [of _ ci] exI [of _ rows]) simp
qed

lemma index_image_append [simp]: "index_image ci (xs @ ys) = index_image ci xs @ index_image ci ys"
  by (simp add: index_image_def)

lemma tables_of_rows_added:
  assumes wf: "cat_wf c" and schema: "same_schema c c'" and rel: "relation_by_id c rid = Some rel" "ri_kind rel = RelTable"
    and scan: "view_scan c' P' rid = Inr rows"
    and other: "\<And>x r. x \<noteq> rid \<Longrightarrow> relation_by_id c x = Some r \<Longrightarrow> ri_kind r = RelTable \<Longrightarrow> view_scan c' P' x = view_scan c P x"
  shows "tables_of c' P' = (tables_of c P)(ri_name rel \<mapsto> (ri_columns rel, mset (map row_values rows)))"
proof -
  have rid: "ri_id rel = rid" using relation_by_id_Some [OF rel(1)] by simp
  have byname: "relation_by_name c (ri_name rel) = Some rel" by (rule relation_by_name_self [OF wf relation_by_id_Some(1) [OF rel(1)]])
  show "tables_of c' P' = (tables_of c P)(ri_name rel \<mapsto> (ri_columns rel, mset (map row_values rows)))"
  proof
    fix name
    show "tables_of c' P' name = ((tables_of c P)(ri_name rel \<mapsto> (ri_columns rel, mset (map row_values rows)))) name"
    proof (cases "relation_by_name c name")
      case None
      then have "relation_by_name c' name = None" "name \<noteq> ri_name rel" using same_schema_by_name [OF schema, of name] byname by auto
      with None show ?thesis by (simp add: tables_of_def)
    next
      case (Some r)
      note w = relation_by_name_wf [OF wf Some]
      from same_schema_by_name [OF schema, of name] Some obtain r' where r': "relation_by_name c' name = Some r'" "same_relation r r'"
        by (auto simp: option_rel_Some1)
      have k: "ri_kind r' = ri_kind r" "ri_columns r' = ri_columns r" "ri_id r' = ri_id r" using r'(2) by (simp_all add: same_relation_def)
      show ?thesis
      proof (cases "name = ri_name rel")
        case True
        with Some byname have "r = rel" by simp
        with True r'(1) k rel(2) rid scan show ?thesis by (simp add: tables_of_def)
      next
        case False
        then have "ri_id r \<noteq> rid" using w rel(1) by auto
        with other [OF _ w(1)] False Some r'(1) k show ?thesis by (auto simp: tables_of_def split: sum.splits)
      qed
    qed
  qed
qed

text \<open>Rows added to one table, with their keys added to the indexes of that table.\<close>

lemma db_view_rows_added:
  assumes view: "db_view c P T" and schema: "same_schema c c'" and heap: "heap_ok c' P'" and trees: "trees_ok c' P' T'"
    and rel: "relation_by_id c rid = Some rel" "ri_kind rel = RelTable"
    and scan: "view_scan c P rid = Inr (xs @ ys)" "view_scan c' P' rid = Inr (xs @ new @ ys)" "list_all (row_typed (ri_columns rel)) new"
    and other: "\<And>x r. x \<noteq> rid \<Longrightarrow> relation_by_id c x = Some r \<Longrightarrow> ri_kind r = RelTable \<Longrightarrow> view_scan c' P' x = view_scan c P x"
    and same: "\<And>x i. x \<in> set (cat_relations c) \<Longrightarrow> ri_storage x = StorageBPlusTree i \<Longrightarrow> is_table_id i \<noteq> rid \<Longrightarrow> T' (ri_id x) = T (ri_id x)"
    and grown: "\<And>x i ci. x \<in> set (cat_relations c) \<Longrightarrow> ri_storage x = StorageBPlusTree i \<Longrightarrow> is_table_id i = rid \<Longrightarrow>
      column_at rel (is_column_name i) = Some ci \<Longrightarrow>
      mset (tree_entries (T' (ri_id x))) = mset (tree_entries (T (ri_id x))) + mset (index_image ci new)"
  shows "db_view c' P' T'" "tables_of c' P' = (tables_of c P)(ri_name rel \<mapsto> (ri_columns rel, mset (map row_values (xs @ new @ ys))))"
proof -
  note v = db_viewD [OF view]
  have "list_all (row_typed (ri_columns rel)) (xs @ ys)" by (rule rows_okE [OF v(3) rel]) (use scan(1) in simp)
  then have typed: "list_all (row_typed (ri_columns rel)) (xs @ new @ ys)" using scan(3) by simp
  have rid: "ri_id rel = rid" using relation_by_id_Some [OF rel(1)] by simp
  have rows: "\<exists>rows. view_scan c' P' (ri_id r') = Inr rows \<and> list_all (row_typed (ri_columns r')) rows"
    if r': "r' \<in> set (cat_relations c')" "ri_kind r' = RelTable" for r'
  proof -
    from same_schema_mem [OF schema r'(1)] obtain r where r: "r \<in> set (cat_relations c)" "same_relation r r'" .
    have byid: "relation_by_id c (ri_id r) = Some r" by (rule relation_by_id_wf [OF v(2) r(1)])
    have k: "ri_kind r = RelTable" "ri_columns r' = ri_columns r" "ri_id r' = ri_id r" using r(2) r'(2) by (simp_all add: same_relation_def)
    show ?thesis
    proof (cases "ri_id r = rid")
      case True
      with byid rel(1) have "r = rel" by simp
      with k typed scan(2) True show ?thesis by auto
    next
      case False
      from rows_okE [OF v(3) byid k(1)] other [OF False byid k(1)] k show ?thesis by metis
    qed
  qed
  have covers: "index_covers c' P' i' (T' (ri_id x'))" if x': "x' \<in> set (cat_relations c')" "ri_storage x' = StorageBPlusTree i'" for x' i'
  proof -
    from same_schema_mem [OF schema x'(1)] obtain x where x: "x \<in> set (cat_relations c)" "same_relation x x'" .
    then obtain i where i: "ri_storage x = StorageBPlusTree i" "is_table_id i' = is_table_id i" "is_column_name i' = is_column_name i"
      "ri_id x' = ri_id x" using x'(2) by (auto simp: same_relation_def split: storage_object.splits)
    note cov = v(5) [OF x(1) i(1)]
    show ?thesis
    proof (cases "is_table_id i = rid")
      case False
      show ?thesis
      proof (rule index_covers_same [OF cov i(2,3)])
        fix r assume r: "relation_by_id c (is_table_id i) = Some r" "ri_kind r = RelTable"
        from same_schema_by_id [OF schema r(1)] relation_by_id_Some(2) [OF r(1)] other [OF False r]
        show "\<exists>r'. relation_by_id c' (is_table_id i) = Some r' \<and> same_relation r r' \<and> view_scan c' P' (ri_id r) = view_scan c P (ri_id r)"
          by auto
      qed (use same [OF x(1) i(1) False] i(4) in simp)
    next
      case True
      with cov rel(1) scan(1) rid obtain ci where ci: "column_at rel (is_column_name i) = Some ci" "indexable (ri_columns rel ! ci)"
        "mset (tree_entries (T (ri_id x))) = mset (index_image ci (xs @ ys))" by (auto simp: index_covers_def)
      from same_schema_by_id [OF schema rel(1)] obtain rel' where rel': "relation_by_id c' rid = Some rel'" "same_relation rel rel'" .
      have "ri_kind rel' = RelTable" "ri_columns rel' = ri_columns rel" "ri_id rel' = rid"
        using rel'(2) rel(2) rid by (simp_all add: same_relation_def)
      with ci rel' True i(2-4) scan(2) grown [OF x(1) i(1) True ci(1)] column_at_same [OF rel'(2)]
      show ?thesis unfolding index_covers_def by (intro exI [of _ rel'] exI [of _ ci] exI [of _ "xs @ new @ ys"]) simp
    qed
  qed
  have "catalog_ok c'" using catalog_ok_schema [OF schema v(6)] heap by (simp add: heap_ok_def)
  then show "db_view c' P' T'" using heap trees rows covers by (simp add: db_view_def rows_ok_def)
  show "tables_of c' P' = (tables_of c P)(ri_name rel \<mapsto> (ri_columns rel, mset (map row_values (xs @ new @ ys))))"
    by (rule tables_of_rows_added [OF v(2) schema rel scan(2) other])
qed

section \<open>Transactions around a statement\<close>

lemma autocommit_in_transaction: "Some (autocommit f m) = in_transaction (\<lambda>t. Some (f t)) m"
proof -
  obtain r m1 where b: "tx_begin m = (r, m1)" by fastforce
  show ?thesis
  proof (cases r)
    case (Inr t)
    obtain q t1 where "f t = (q, t1)" by fastforce
    with b Inr show ?thesis by (cases q) (simp_all add: autocommit_def in_transaction_def)
  qed (use b in \<open>simp add: autocommit_def in_transaction_def\<close>)
qed

definition data_durable :: "transactional_store \<Rightarrow> bool" where
  "data_durable m \<longleftrightarrow> fl_durable (pf_file (ts_file m)) = fl_bytes (pf_file (ts_file m))"

lemma in_transaction_ok:
  assumes ok: "db_ok m"
    and body: "\<And>t T. tx_wf t \<Longrightarrow> tx_staged t \<Longrightarrow> tr_working_catalog t = cs_catalog (ts_store m) \<Longrightarrow> tx_pages t = store_pages (ts_store m) \<Longrightarrow>
      db_view (cs_catalog (ts_store m)) (store_pages (ts_store m)) T \<Longrightarrow>
      \<exists>r t'. f t = Some (r, t') \<and> tx_frame t t' \<and> (\<forall>x. r = Inr x \<longrightarrow> tx_wf t' \<and> tx_staged t' \<and>
        (\<exists>T'. db_view (tr_working_catalog t') (tx_pages t') T') \<and> Q (tr_working_catalog t') (tx_pages t') x)"
  shows "\<exists>r m'. in_transaction f m = Some (r, m') \<and>
    (\<forall>x. r = Inr x \<longrightarrow> db_ok m' \<and> data_durable m' \<and> Q (cs_catalog (ts_store m')) (store_pages (ts_store m')) x \<and>
      crash_ok m m' (\<lambda>c P. c = cs_catalog (ts_store m') \<and> P = store_pages (ts_store m')) \<and> log_stays m m') \<and>
    (\<forall>e. r = Inl e \<longrightarrow>
      crash_ok m m' (\<lambda>c P. c = cs_catalog (ts_store m) \<and> P = store_pages (ts_store m) \<or> (\<exists>x. Q c P x)))"
proof -
  from ok obtain rs T where wf: "store_wf (ts_store m)" "persisted (ts_store m)" and log: "log_holds m rs"
    and view: "db_view (cs_catalog (ts_store m)) (store_pages (ts_store m)) T" by (auto simp: db_ok_def)
  obtain b m1 where b: "tx_begin m = (b, m1)" by fastforce
  show ?thesis
  proof (cases b)
    case (Inl e)
    note b = b [unfolded Inl]
    from crash_ok_begin_failed [OF ok b] b show ?thesis by (simp add: in_transaction_def)
  next
    case (Inr t)
    from begin_facts [OF wf log b [unfolded Inr]] obtain l where t: "tx_wf t" "tx_staged t" "tr_manager t = m1" "ts_store m1 = ts_store m"
      "log_holds m1 (rs @ [\<lparr>wr_lsn = l, wr_kind = BeginTx (tr_tx_id t)\<rparr>])" "tr_tx_id t = TxId (ts_next_tx_id m)"
      "tr_working_catalog t = cs_catalog (ts_store m)" "tr_dirty_pages t = []" "tx_file t = ts_file m" by metis
    have pages: "tx_pages t = store_pages (ts_store m)" by (simp add: tx_pages_def t(8,9) store_pages_def ts_file_def)
    from body [OF t(1,2,7) pages view] obtain r t' where f: "f t = Some (r, t')" "tx_frame t t'"
      and good: "\<forall>x. r = Inr x \<longrightarrow> tx_wf t' \<and> tx_staged t' \<and> (\<exists>T'. db_view (tr_working_catalog t') (tx_pages t') T') \<and>
        Q (tr_working_catalog t') (tx_pages t') x" by blast
    have man: "tr_manager t' = m1" "tr_tx_id t' = TxId (ts_next_tx_id m)" using f(2) t(3,6) by (simp_all add: tx_frame_def)
    show ?thesis
    proof (cases r)
      case (Inl e)
      have "in_transaction f m = Some (Inl e, tx_drop t')" using b Inr f(1) Inl by (simp add: in_transaction_def)
      then show ?thesis using crash_ok_dropped [OF ok b [unfolded Inr] f(2)] by simp
    next
      case x: (Inr x)
      with good have t': "tx_wf t'" "tx_staged t'" and T': "\<exists>T'. db_view (tr_working_catalog t') (tx_pages t') T'"
        and q: "Q (tr_working_catalog t') (tx_pages t') x" by auto
      have base: "tx_base t'" "tr_state t' = Active" using t'(1) by (simp_all add: tx_wf_def)
      obtain cr m2 where com: "tx_commit t' = (cr, m2)" by fastforce
      note out = commit_outcome(1) [OF base t(5) [folded man(1)] com]
      have call: "in_transaction f m = Some (map_sum id (\<lambda>_. x) cr, m2)"
        using b Inr f(1) x com by (cases cr) (simp_all add: in_transaction_def)
      note crash = crash_ok_commit [OF ok b [unfolded Inr] f(2) t' T' com]
      show ?thesis
      proof (cases cr)
        case (Inl e)
        have "crash_ok m m2 (\<lambda>c P. c = cs_catalog (ts_store m) \<and> P = store_pages (ts_store m) \<or> (\<exists>x. Q c P x))"
          by (rule crash_ok_mono [OF crash]) (use q in auto)
        then show ?thesis using call Inl by simp
      next
        case (Inr u)
        with com have com': "tx_commit t' = (Inr (), m2)" by simp
        note st = committed_store_wf [OF t'(1) t(5) [folded man(1)] com']
        have "db_ok m2" "data_durable m2" using st t'(2) T' out Inr by (auto simp: db_ok_def commit_logged_def commit_done_def data_durable_def)
        moreover have "crash_ok m m2 (\<lambda>c P. c = cs_catalog (ts_store m2) \<and> P = store_pages (ts_store m2))"
          by (rule crash_ok_mono [OF crash]) (use Inr st(2,3) in auto)
        moreover have "log_stays m m2"
          unfolding log_stays_def using log_current_commit [OF _ wf b [unfolded \<open>b = Inr t\<close>] f(2) t'(1) com'] by blast
        ultimately show ?thesis using call Inr q st(2,3) by simp
      qed
    qed
  qed
qed

section \<open>INSERT\<close>

text \<open>Page ids for one more page per relation and level remain.\<close>

definition ids_left :: "catalog \<Rightarrow> bool" where
  "ids_left c \<longleftrightarrow> length (cat_relations c) * (unat (cat_next_page_id c) + 3) < spare_pages c"

lemma indexes_on_table_facts:
  assumes "ix \<in> set (indexes_on_table c tid)"
  obtains i where "ix \<in> set (cat_relations c)" "ri_storage ix = StorageBPlusTree i" "is_table_id i = tid"
  using assms by (cases "ri_storage ix") (auto simp: indexes_on_table_def relation_index_storage_def intro: that)

lemma indexes_on_table_ids:
  assumes "cat_wf c" "x \<in> set (cat_relations c)" "ri_storage x = StorageBPlusTree i"
  shows "is_table_id i \<noteq> tid \<Longrightarrow> ri_id x \<notin> ri_id ` set (indexes_on_table c tid)"
    "is_table_id i = tid \<Longrightarrow> x \<in> set (indexes_on_table c tid)"
    "column_of rel x = column_at rel (is_column_name i)"
proof -
  show "ri_id x \<notin> ri_id ` set (indexes_on_table c tid)" if ne: "is_table_id i \<noteq> tid"
  proof
    assume "ri_id x \<in> ri_id ` set (indexes_on_table c tid)"
    then obtain y where y: "y \<in> set (indexes_on_table c tid)" "ri_id y = ri_id x" by auto
    from indexes_on_table_facts [OF y(1)] obtain j where j: "y \<in> set (cat_relations c)" "ri_storage y = StorageBPlusTree j" "is_table_id j = tid" .
    have "Some y = Some x" using relation_by_id_wf [OF assms(1) j(1), unfolded y(2)] relation_by_id_wf [OF assms(1,2)] by (rule trans [OF sym])
    then have "y = x" by simp
    with j assms(3) ne show False by simp
  qed
  show "is_table_id i = tid \<Longrightarrow> x \<in> set (indexes_on_table c tid)" "column_of rel x = column_at rel (is_column_name i)"
    using assms(2,3) index_relation(1) [OF assms(1,2)] by (simp_all add: indexes_on_table_def relation_index_storage_def column_of_def)
qed

lemma row_typed_encoded:
  assumes "encode_row vs = Inr bytes" "list_all text_ok vs" "list_all2 value_typed cols vs"
  shows "row_values \<lparr>hr_row_id = row, hr_bytes = bytes\<rparr> = vs" "row_typed cols \<lparr>hr_row_id = row, hr_bytes = bytes\<rparr>"
  using decode_encode_row [OF assms(1,2)] assms(3) by (simp_all add: row_values_def row_typed_def)

text \<open>A row is in the table and its keys are in all trees: the database is consistent again.\<close>

lemma insert_completes:
  assumes view: "db_view c P T" and rel: "relation_by_id c (ri_id rel) = Some rel" "ri_kind rel = RelTable"
    and row: "encode_row vs = Inr bytes" "list_all text_ok vs" "list_all2 value_typed (ri_columns rel) vs"
    and added: "view_row_added c P c1 P1 (ri_id rel) rowid bytes" and schema: "same_schema c c1"
    and heaps: "same_heaps c1 P1 c' P'" "heap_ok c' P'" and trees: "trees_ok c' P' T'"
    and keep: "\<forall>x. x \<notin> ri_id ` set (indexes_on_table c (ri_id rel)) \<longrightarrow> T' x = T x"
    and es: "\<forall>ix \<in> set (indexes_on_table c (ri_id rel)). \<forall>ci. column_of rel ix = Some ci \<longrightarrow>
      mset (tree_entries (T' (ri_id ix))) = mset (tree_entries (T (ri_id ix))) + mset (entry_for (vs ! ci) rowid)"
  shows "db_view c' P' T'" "\<exists>rows. tables_of c P (ri_name rel) = Some (ri_columns rel, rows) \<and>
    tables_of c' P' = (tables_of c P)(ri_name rel \<mapsto> (ri_columns rel, add_mset vs rows))"
proof -
  note v = db_viewD [OF view]
  let ?h = "\<lparr>hr_row_id = rowid, hr_bytes = bytes\<rparr>"
  from added obtain xs ys where scan: "view_scan c P (ri_id rel) = Inr (xs @ ys)" "view_scan c1 P1 (ri_id rel) = Inr (xs @ ?h # ys)"
    and other: "\<And>x. x \<noteq> ri_id rel \<Longrightarrow> view_scan c1 P1 x = view_scan c P x"
    unfolding view_row_added_def by blast
  have schema': "same_schema c c'" using schema heaps(1) same_schema_trans by (auto simp: same_heaps_def)
  have sc: "view_scan c' P' x = view_scan c1 P1 x" if r: "relation_by_id c x = Some r" "ri_kind r = RelTable" for x r
  proof -
    from same_schema_by_id [OF schema r(1)] obtain r1 where "relation_by_id c1 x = Some r1" "same_relation r r1" .
    with same_heaps_scan [OF heaps(1)] r(2) show ?thesis by (simp add: same_relation_def)
  qed
  have o: "view_scan c' P' x = view_scan c P x" if "x \<noteq> ri_id rel" "relation_by_id c x = Some r" "ri_kind r = RelTable" for x r
    using sc [OF that(2,3)] other [OF that(1)] by simp
  note rt = row_typed_encoded [OF row, of rowid]
  have img: "index_image ci [?h] = entry_for (vs ! ci) rowid" for ci by (simp add: index_image_def rt(1))
  have k: "T' (ri_id x) = T (ri_id x)" if "x \<in> set (cat_relations c)" "ri_storage x = StorageBPlusTree i" "is_table_id i \<noteq> ri_id rel" for x i
    using keep indexes_on_table_ids(1) [OF v(2) that] by blast
  have g: "mset (tree_entries (T' (ri_id x))) = mset (tree_entries (T (ri_id x))) + mset (index_image ci [?h])"
    if "x \<in> set (cat_relations c)" "ri_storage x = StorageBPlusTree i" "is_table_id i = ri_id rel" "column_at rel (is_column_name i) = Some ci" for x i ci
    using es indexes_on_table_ids(2,3) [OF v(2) that(1,2)] that(3,4) unfolding img by simp
  have scan': "view_scan c' P' (ri_id rel) = Inr (xs @ [?h] @ ys)" using sc [OF rel] scan(2) by simp
  have new: "list_all (row_typed (ri_columns rel)) [?h]" using rt(2) by simp
  note res = db_view_rows_added [OF view schema' heaps(2) trees rel scan(1) scan' new o k g]
  show "db_view c' P' T'" by (rule res(1))
  show "\<exists>rows. tables_of c P (ri_name rel) = Some (ri_columns rel, rows) \<and>
    tables_of c' P' = (tables_of c P)(ri_name rel \<mapsto> (ri_columns rel, add_mset vs rows))"
    using res(2) tables_of_table [OF v(2) rel scan(1)] rt(1) by simp
qed

lemma insert_body_ok:
  assumes t: "tx_wf t" "tx_staged t" and view: "db_view (tr_working_catalog t) (tx_pages t) T"
    and rel: "relation_by_id (tr_working_catalog t) (ri_id rel) = Some rel" "ri_kind rel = RelTable"
    and row: "encode_row vs = Inr bytes" "list_all text_ok vs" "list_all2 value_typed (ri_columns rel) vs"
    and vg: "\<forall>ix \<in> set (indexes_on_table (tr_working_catalog t) (ri_id rel)). \<forall>ci. column_of rel ix = Some ci \<longrightarrow> value_good (vs ! ci)"
    and room: "ids_left (tr_working_catalog t)"
  shows "\<exists>r t'. insert_body rel vs bytes (indexes_on_table (tr_working_catalog t) (ri_id rel)) t = Some (r, t') \<and> tx_frame t t' \<and>
    (\<forall>x. r = Inr x \<longrightarrow> tx_wf t' \<and> tx_staged t' \<and> (\<exists>T'. db_view (tr_working_catalog t') (tx_pages t') T') \<and>
      (\<exists>rows. tables_of (tr_working_catalog t) (tx_pages t) (ri_name rel) = Some (ri_columns rel, rows) \<and>
        tables_of (tr_working_catalog t') (tx_pages t') =
          (tables_of (tr_working_catalog t) (tx_pages t))(ri_name rel \<mapsto> (ri_columns rel, add_mset vs rows))))"
proof -
  let ?c = "tr_working_catalog t" and ?ixs = "indexes_on_table (tr_working_catalog t) (ri_id rel)"
  note v = db_viewD [OF view]
  obtain r0 t1 where ins: "tx_insert_row t (ri_id rel) bytes = (r0, t1)" by fastforce
  show ?thesis
  proof (cases r0)
    case (Inl e)
    with ins tx_insert_row_frame [of t "ri_id rel" bytes] show ?thesis by (simp add: insert_body_def)
  next
    case (Inr rowid)
    note ins = ins [unfolded Inr]
    note a = tx_insert_row_added [OF t(1) ins] and l = tx_insert_row_layout [OF t(1) ins v(4)]
    let ?c1 = "tr_working_catalog t1" and ?M = "unat (cat_next_page_id ?c)"
    have ix: "\<forall>ix \<in> set ?ixs. (\<exists>rt. index_at ?c1 (ri_id ix) rt) \<and> column_of rel ix \<noteq> None \<and> bt_height (T (ri_id ix)) \<le> ?M"
    proof
      fix ix assume "ix \<in> set ?ixs"
      from indexes_on_table_facts [OF this] obtain i where i: "ix \<in> set (cat_relations ?c)" "ri_storage ix = StorageBPlusTree i"
        "is_table_id i = ri_id rel" .
      have at: "index_at ?c (ri_id ix) (is_root_page_id i)" by (rule index_relation(2) [OF v(2) i(1,2)])
      have "column_of rel ix \<noteq> None" using v(5) [OF i(1,2)] rel(1) i(2,3) by (auto simp: index_covers_def column_of_def)
      with at l(3) tree_height_bound [OF trees_okD(1) [OF v(4) at]]
      show "(\<exists>rt. index_at ?c1 (ri_id ix) rt) \<and> column_of rel ix \<noteq> None \<and> bt_height (T (ri_id ix)) \<le> ?M" by auto
    qed
    have "length ?ixs \<le> length (cat_relations ?c)" by (simp add: indexes_on_table_def)
    then have "length ?ixs * (?M + 2) \<le> length (cat_relations ?c) * (?M + 3)" by (intro mult_le_mono) simp_all
    with room l(4) have spare: "length ?ixs * (?M + 2) \<le> spare_pages ?c1" by (simp add: ids_left_def)
    have dist: "distinct (map ri_id ?ixs)" using v(2) by (simp add: cat_wf_def indexes_on_table_def distinct_map_filter)
    from insert_index_entries_grow [OF a(2) l(1) ix dist vg spare, of rowid] obtain r t' where
      loop: "insert_index_entries rel vs rowid ?ixs t1 = Some (r, t')" "tx_frame t1 t'"
      and grow: "r = Inr () \<longrightarrow> (\<exists>T'. indexes_grow t1 T t' T' (length ?ixs * (?M + 2)) \<and> (\<forall>x. x \<notin> ri_id ` set ?ixs \<longrightarrow> T' x = T x) \<and>
        (\<forall>ix \<in> set ?ixs. \<forall>ci. column_of rel ix = Some ci \<longrightarrow>
          mset (tree_entries (T' (ri_id ix))) = mset (tree_entries (T (ri_id ix))) + mset (entry_for (vs ! ci) rowid)))" by blast
    have "insert_body rel vs bytes ?ixs t = Some (r, t')" using ins loop(1) by (simp add: insert_body_def)
    moreover have "tx_frame t t'" using a(3) loop(2) by (rule tx_frame_trans)
    moreover have "tx_wf t' \<and> tx_staged t' \<and> (\<exists>T'. db_view (tr_working_catalog t') (tx_pages t') T') \<and>
      (\<exists>rows. tables_of ?c (tx_pages t) (ri_name rel) = Some (ri_columns rel, rows) \<and>
        tables_of (tr_working_catalog t') (tx_pages t') = (tables_of ?c (tx_pages t))(ri_name rel \<mapsto> (ri_columns rel, add_mset vs rows)))"
      if ok: "r = Inr x" for x
    proof -
      from grow ok obtain T' where g: "indexes_grow t1 T t' T' (length ?ixs * (?M + 2))" and keep: "\<forall>x. x \<notin> ri_id ` set ?ixs \<longrightarrow> T' x = T x"
        and es: "\<forall>ix \<in> set ?ixs. \<forall>ci. column_of rel ix = Some ci \<longrightarrow>
          mset (tree_entries (T' (ri_id ix))) = mset (tree_entries (T (ri_id ix))) + mset (entry_for (vs ! ci) rowid)" by auto
      have sh: "same_heaps ?c1 (tx_pages t1) (tr_working_catalog t') (tx_pages t')" and wf': "tx_wf t'" "tx_staged t'"
        and heap: "heap_ok (tr_working_catalog t') (tx_pages t')" and tr: "trees_ok (tr_working_catalog t') (tx_pages t') T'"
        using g a(4) [OF t(2)] by (simp_all add: indexes_grow_def tx_wf_def)
      from insert_completes [OF view rel row a(1) l(2) sh heap tr keep es] wf' show ?thesis by blast
    qed
    ultimately show ?thesis by blast
  qed
qed

end
