(* ===== verification/Rdbms_Sql_Spec.thy ===== *)
theory Rdbms_Sql_Spec
  imports Rdbms_Sql_Change
begin

text \<open>
  SQL statements against an abstract specification: a database is a map from table names to
  columns and multisets of rows. Every statement that succeeds on a consistent database acts on
  the tables as the specification says and leaves a consistent database.
\<close>

section \<open>Names\<close>

lemma str_ok_ascii: "list_all (\<lambda>c. of_char c < (128 :: nat)) s \<Longrightarrow> str_ok s"
  using str_ok_concat [of "singles s"] by (simp add: list_all_iff char_ok_ascii)

lemma name_ok_str: "name_ok s \<Longrightarrow> str_ok s"
  using str_ok_concat [OF token_chars_ok [of "Ident s"]] by (simp add: name_ok_def)

section \<open>New relations\<close>

lemma tables_of_relation_added:
  assumes wf: "cat_wf c" and add: "cat_relations c1 = cat_relations c @ [x]" "cat_wf c1" and schema: "same_schema c1 c'"
    and sc: "\<And>rid r. relation_by_id c rid = Some r \<Longrightarrow> ri_kind r = RelTable \<Longrightarrow> view_scan c' P' rid = view_scan c P rid"
    and table: "ri_kind x = RelTable \<Longrightarrow> view_scan c' P' (ri_id x) = Inr []"
  shows "tables_of c' P' = (if ri_kind x = RelTable then (tables_of c P)(ri_name x \<mapsto> (ri_columns x, {#})) else tables_of c P)"
proof -
  have fresh: "relation_by_name c (ri_name x) = None" using add(1,2) by (simp add: relation_by_name_None cat_wf_def)
  show "tables_of c' P' = (if ri_kind x = RelTable then (tables_of c P)(ri_name x \<mapsto> (ri_columns x, {#})) else tables_of c P)"
  proof
    fix name
    have rel: "rel_option same_relation (relation_by_name c1 name) (relation_by_name c' name)" by (rule same_schema_by_name [OF schema])
    have c1: "relation_by_name c1 name = (case relation_by_name c name of None \<Rightarrow> if ri_name x = name then Some x else None | Some r \<Rightarrow> Some r)"
      by (simp add: relation_by_name_def add(1) find_append split: option.splits)
    show "tables_of c' P' name = (if ri_kind x = RelTable then (tables_of c P)(ri_name x \<mapsto> (ri_columns x, {#})) else tables_of c P) name"
    proof (cases "relation_by_name c name")
      case (Some r)
      with fresh have ne: "name \<noteq> ri_name x" by auto
      from rel c1 Some obtain r' where r': "relation_by_name c' name = Some r'" "same_relation r r'" by (auto simp: option_rel_Some1)
      have k: "ri_kind r' = ri_kind r" "ri_columns r' = ri_columns r" "ri_id r' = ri_id r" using r'(2) by (simp_all add: same_relation_def)
      with sc [OF relation_by_name_wf(1) [OF wf Some]] r'(1) Some ne show ?thesis by (auto simp: tables_of_def split: sum.splits)
    next
      case None
      show ?thesis
      proof (cases "ri_name x = name")
        case True
        with rel c1 None obtain r' where r': "relation_by_name c' name = Some r'" "same_relation x r'" by (auto simp: option_rel_Some1)
        have k: "ri_kind r' = ri_kind x" "ri_columns r' = ri_columns x" "ri_id r' = ri_id x" using r'(2) by (simp_all add: same_relation_def)
        with table r'(1) None True show ?thesis by (auto simp: tables_of_def)
      next
        case False
        with rel c1 None have "relation_by_name c' name = None" by simp
        with None False show ?thesis by (simp add: tables_of_def)
      qed
    qed
  qed
qed

lemma db_view_relation_added:
  assumes view: "db_view c P T" and add: "cat_relations c1 = cat_relations c @ [x]" "cat_wf c1" "cat_extensions c1 = cat_extensions c" "relation_ok x"
    and scans: "\<And>rid r. relation_by_id c rid = Some r \<Longrightarrow> ri_kind r = RelTable \<Longrightarrow> view_scan c1 P1 rid = view_scan c P rid"
    and heaps: "same_heaps c1 P1 c' P'" "heap_ok c' P'" and trees: "trees_ok c' P' T'"
    and keep: "\<And>y. y \<in> set (cat_relations c) \<Longrightarrow> T' (ri_id y) = T (ri_id y)"
    and table: "ri_kind x = RelTable \<Longrightarrow> view_scan c1 P1 (ri_id x) = Inr []"
    and index: "\<And>i. ri_storage x = StorageBPlusTree i \<Longrightarrow> index_covers c P i (T' (ri_id x))"
  shows "db_view c' P' T'" "tables_of c' P' =
    (if ri_kind x = RelTable then (tables_of c P)(ri_name x \<mapsto> (ri_columns x, {#})) else tables_of c P)"
proof -
  note v = db_viewD [OF view]
  have schema: "same_schema c1 c'" using heaps(1) by (simp add: same_heaps_def)
  have look: "relation_by_id c1 rid = Some r" if "relation_by_id c rid = Some r" for rid r
    using that by (simp add: relation_by_id_def add(1) find_append)
  have sc1: "view_scan c' P' rid = view_scan c1 P1 rid" if "relation_by_id c1 rid = Some r" "ri_kind r = RelTable" for rid r
    by (rule same_heaps_scan [OF heaps(1) that])
  have sc: "view_scan c' P' rid = view_scan c P rid" if "relation_by_id c rid = Some r" "ri_kind r = RelTable" for rid r
    using sc1 [OF look [OF that(1)] that(2)] scans [OF that] by simp
  have x: "relation_by_id c1 (ri_id x) = Some x" by (rule relation_by_id_wf [OF add(2)]) (simp add: add(1))
  have rows: "\<exists>rows. view_scan c' P' (ri_id r') = Inr rows \<and> list_all (row_typed (ri_columns r')) rows"
    if r': "r' \<in> set (cat_relations c')" "ri_kind r' = RelTable" for r'
  proof -
    from same_schema_mem [OF schema r'(1)] obtain r where r: "r \<in> set (cat_relations c1)" "same_relation r r'" .
    have k: "ri_kind r = RelTable" "ri_columns r' = ri_columns r" "ri_id r' = ri_id r" using r(2) r'(2) by (simp_all add: same_relation_def)
    from r(1) add(1) consider "r = x" | "r \<in> set (cat_relations c)" by auto
    then show ?thesis
    proof cases
      case 1
      with sc1 [OF x] table k show ?thesis by simp
    next
      case 2
      note byid = relation_by_id_wf [OF v(2) 2]
      from rows_okE [OF v(3) byid k(1)] sc [OF byid k(1)] k show ?thesis by metis
    qed
  qed
  have lift: "index_covers c' P' i' tr" if "index_covers c P i tr" "is_table_id i' = is_table_id i" "is_column_name i' = is_column_name i" for i i' tr
  proof (rule index_covers_same [OF that])
    fix r assume r: "relation_by_id c (is_table_id i) = Some r" "ri_kind r = RelTable"
    from same_schema_by_id [OF schema look [OF r(1)]] sc [OF r] relation_by_id_Some(2) [OF r(1)]
    show "\<exists>r'. relation_by_id c' (is_table_id i) = Some r' \<and> same_relation r r' \<and> view_scan c' P' (ri_id r) = view_scan c P (ri_id r)" by auto
  qed simp
  have covers: "index_covers c' P' i' (T' (ri_id y'))" if y': "y' \<in> set (cat_relations c')" "ri_storage y' = StorageBPlusTree i'" for y' i'
  proof -
    from same_schema_mem [OF schema y'(1)] obtain y where y: "y \<in> set (cat_relations c1)" "same_relation y y'" .
    then obtain i where i: "ri_storage y = StorageBPlusTree i" "is_table_id i' = is_table_id i" "is_column_name i' = is_column_name i"
      "ri_id y' = ri_id y" using y'(2) by (auto simp: same_relation_def split: storage_object.splits)
    from y(1) add(1) consider "y = x" | "y \<in> set (cat_relations c)" by auto
    then have "index_covers c P i (T' (ri_id y))"
    proof cases
      case 1
      with index i(1) show ?thesis by simp
    next
      case 2
      with v(5) [OF 2 i(1)] keep show ?thesis by simp
    qed
    from lift [OF this i(2,3)] i(4) show ?thesis by simp
  qed
  have "catalog_ok c1" using v(6) add by (simp add: catalog_ok_def)
  then have "catalog_ok c'" using catalog_ok_schema [OF schema] heaps(2) by (simp add: heap_ok_def)
  then show "db_view c' P' T'" using heaps(2) trees rows covers by (simp add: db_view_def rows_ok_def)
  show "tables_of c' P' = (if ri_kind x = RelTable then (tables_of c P)(ri_name x \<mapsto> (ri_columns x, {#})) else tables_of c P)"
    by (rule tables_of_relation_added [OF v(2) add(1,2) schema sc]) (simp_all add: sc1 [OF x] table)
qed

lemma db_view_same_relations:
  assumes view: "db_view c P T" and rel: "cat_relations c' = cat_relations c" and heap: "heap_ok c' P'" and trees: "trees_ok c' P' T"
    and pages: "\<And>q. q \<noteq> PageId 0 \<Longrightarrow> P' q = P q" and ext: "list_all extension_ok (cat_extensions c')"
  shows "db_view c' P' T" "tables_of c' P' = tables_of c P"
proof -
  note v = db_viewD [OF view]
  have look: "relation_by_id c' = relation_by_id c" "relation_by_name c' = relation_by_name c"
    by (simp_all add: fun_eq_iff relation_by_id_def relation_by_name_def rel)
  have sc: "view_scan c' P' = view_scan c P"
  proof
    fix rid
    show "view_scan c' P' rid = view_scan c P rid"
    proof (rule view_scan_same)
      fix r pid assume "relation_by_id c rid = Some r" "pid \<in> set (relation_heap_pages r)"
      then show "P' pid = P pid" by (intro pages heap_pages_distinct(2) [OF v(2) relation_by_id_Some(1)])
    qed (simp add: look)
  qed
  show "tables_of c' P' = tables_of c P" unfolding tables_of_def [abs_def] look sc ..
  have "catalog_ok c'" using v(6) ext by (simp add: catalog_ok_def rel)
  then show "db_view c' P' T" using view heap trees unfolding db_view_def rows_ok_def index_covers_def rel look sc by simp
qed

section \<open>The specification\<close>

definition spec_column :: "column_def list \<Rightarrow> string \<Rightarrow> nat option" where
  "spec_column cols col = position (\<lambda>c. cd_name c = col) cols"

definition spec_projection :: "column_def list \<Rightarrow> projection \<Rightarrow> nat list option" where
  "spec_projection cols projection = (case projection of
     ProjectAll \<Rightarrow> Some [0..<length cols] | ProjectColumns cs \<Rightarrow> those (map (spec_column cols) cs))"

definition spec_predicate :: "column_def list \<Rightarrow> selection option \<Rightarrow> (sql_value list \<Rightarrow> bool) option" where
  "spec_predicate cols selection = (case selection of
     None \<Rightarrow> Some (\<lambda>_. True)
   | Some s \<Rightarrow> map_option (\<lambda>ci vs. sql_values_equal (vs ! ci) (sel_value s)) (spec_column cols (sel_column s)))"

definition result_columns :: "column_def list \<Rightarrow> nat list \<Rightarrow> column_info list" where
  "result_columns cols idx = map (\<lambda>i. \<lparr>ci_name = cd_name (cols ! i), ci_type_name = cd_type_name (cols ! i)\<rparr>) idx"

inductive sql_step :: "tables \<Rightarrow> statement \<Rightarrow> exec_result \<Rightarrow> tables \<Rightarrow> bool" where
  create_table: "db name = None \<Longrightarrow>
    sql_step db (CreateTable name cols) (StatementComplete 0) (db(name \<mapsto> (cols, {#})))"
| insert: "db table = Some (cols, rows) \<Longrightarrow> coerce_values cols literals = Inr vs \<Longrightarrow>
    sql_step db (Insert table literals) (StatementComplete 1) (db(table \<mapsto> (cols, add_mset vs rows)))"
| create_index: "db table = Some (cols, rows) \<Longrightarrow> spec_column cols col = Some ci \<Longrightarrow>
    sql_step db (CreateIndex name table col) (StatementComplete 0) db"
| load_extension: "sql_step db (LoadExtension name) (StatementComplete 0) db"
| select_function: "call_scalar stdlib_registry name args = Some (Inr v) \<Longrightarrow>
    sql_step db (SelectFunction name args) (Query [info] [[v]]) db"
| select: "db table = Some (cols, rows) \<Longrightarrow> spec_projection cols projection = Some idx \<Longrightarrow> spec_predicate cols selection = Some sat \<Longrightarrow>
    mset out = image_mset (\<lambda>vs. map (\<lambda>i. vs ! i) idx) (filter_mset sat rows) \<Longrightarrow>
    sql_step db (Select projection table selection) (Query (result_columns cols idx) out) db"

inductive_cases sql_step_selectE: "sql_step db (Select projection table selection) res db'"
inductive_cases sql_step_insertE: "sql_step db (Insert table literals) res db'"

definition db_tables :: "transactional_store \<Rightarrow> tables" where
  "db_tables m = tables_of (cs_catalog (ts_store m)) (store_pages (ts_store m))"

text \<open>What a statement may come to: success as specified, or an error; after a crash the tables
  are those from before or those of a specified step. What an error leaves in the running store
  is the subject of \<open>Rdbms_Sql_Fail\<close>.\<close>

definition statement_done :: "transactional_store \<Rightarrow> statement \<Rightarrow> db_error + exec_result \<Rightarrow> transactional_store \<Rightarrow> bool" where
  "statement_done m st r m' \<longleftrightarrow> (case r of
     Inr res \<Rightarrow> db_ok m' \<and> sql_step (db_tables m) st res (db_tables m') \<and> (ts_store m' = ts_store m \<or> data_durable m') \<and>
       crash_ok m m' (\<lambda>c P. tables_of c P = db_tables m') \<and> log_stays m m'
   | Inl e \<Rightarrow>
       crash_ok m m' (\<lambda>c P. tables_of c P = db_tables m \<or> (\<exists>res. sql_step (db_tables m) st res (tables_of c P))))"

lemma statement_done_same:
  assumes "db_ok m"
  shows "statement_done m st (Inl e) m" "sql_step (db_tables m) st res (db_tables m) \<Longrightarrow> statement_done m st (Inr res) m"
proof -
  have "tables_of (cs_catalog (ts_store m)) (store_pages (ts_store m)) = db_tables m" by (simp add: db_tables_def)
  then show "statement_done m st (Inl e) m" "sql_step (db_tables m) st res (db_tables m) \<Longrightarrow> statement_done m st (Inr res) m"
    using assms by (auto simp: statement_done_def intro!: crash_ok_refl)
qed

text \<open>The resources a statement may need: page ids, and keys that fit index pages.\<close>

definition insert_fits :: "transactional_store \<Rightarrow> string \<Rightarrow> sql_value list \<Rightarrow> bool" where
  "insert_fits m table literals = (case relation_by_name (cs_catalog (ts_store m)) table of
     None \<Rightarrow> True
   | Some rel \<Rightarrow> ids_left (cs_catalog (ts_store m)) \<and>
       list_all (\<lambda>ix. case column_of rel ix of Some ci \<Rightarrow> value_good (literals ! ci) | None \<Rightarrow> True)
         (indexes_on_table (cs_catalog (ts_store m)) (ri_id rel)))"

definition index_fits :: "transactional_store \<Rightarrow> string \<Rightarrow> string \<Rightarrow> bool" where
  "index_fits m table col = (case relation_by_name (cs_catalog (ts_store m)) table of
     None \<Rightarrow> True
   | Some rel \<Rightarrow> (case (ts_full_scan m (ri_id rel), column_at rel col) of
        (Inr rows, Some ci) \<Rightarrow> list_all (\<lambda>h. value_good (row_values h ! ci)) rows \<and>
           length rows * (length rows + 2) < spare_pages (cs_catalog (ts_store m))
      | _ \<Rightarrow> True))"

fun statement_fits :: "transactional_store \<Rightarrow> statement \<Rightarrow> bool" where
  "statement_fits m (Insert table literals) = insert_fits m table literals"
| "statement_fits m (CreateIndex name table col) = index_fits m table col"
| "statement_fits m _ = True"

section \<open>Statements that read\<close>

lemma resolve_projection_spec:
  "resolve_projection rel projection = Inr idx \<Longrightarrow> spec_projection (ri_columns rel) projection = Some idx"
proof (cases projection)
  case (ProjectColumns cs)
  assume "resolve_projection rel projection = Inr idx"
  with ProjectColumns have "list_all2 (\<lambda>c i. spec_column (ri_columns rel) c = Some i) cs idx"
    by (simp add: resolve_projection_def collectR_eq_Inr resolve_column column_at_def spec_column_def)
  then have "those (map (spec_column (ri_columns rel)) cs) = Some idx" by (induction rule: list_all2_induct) auto
  with ProjectColumns show ?thesis by (simp add: spec_projection_def)
qed (simp add: resolve_projection_def spec_projection_def)

lemma resolve_selection_spec:
  "resolve_selection rel sel = Inr pred \<Longrightarrow> spec_predicate (ri_columns rel) sel = Some (row_matches pred)"
  by (cases sel) (auto simp: resolve_selection_def spec_predicate_def res_simps resolve_column column_at_def spec_column_def
      row_matches_def fun_eq_iff)

text \<open>A \<open>SELECT\<close> returns the projection of the rows of the scan that satisfy its predicate.\<close>

lemma execute_select_rows:
  assumes ok: "db_ok m" and rel: "relation_by_name (cs_catalog (ts_store m)) table = Some rel" "ri_kind rel = RelTable"
    and idx: "resolve_projection rel projection = Inr idx" and pred: "resolve_selection rel sel = Inr pred"
  obtains rows out where "ts_full_scan m (ri_id rel) = Inr rows" "list_all (row_typed (ri_columns rel)) rows"
    "execute_select m projection table sel = Some (Inr (Query (result_columns (ri_columns rel) idx) out), m)"
    "mset out = mset (map (\<lambda>vs. map (\<lambda>i. vs ! i) idx) (filter (row_matches pred) (map row_values rows)))"
proof -
  have wf: "store_wf (ts_store m)" using ok by (simp add: db_ok_def)
  from ok obtain T where view: "db_view (cs_catalog (ts_store m)) (store_pages (ts_store m)) T" by (auto simp: db_ok_def)
  note v = db_viewD [OF view]
  note byid = relation_by_name_wf(1) [OF v(2) rel(1)]
  from rows_okE [OF v(3) byid rel(2)] obtain rows where
    scan: "view_scan (cs_catalog (ts_store m)) (store_pages (ts_store m)) (ri_id rel) = Inr rows"
    and typed: "list_all (row_typed (ri_columns rel)) rows" .
  have fs: "ts_full_scan m (ri_id rel) = Inr rows" using scan store_full_scan_view [OF wf] by (simp add: ts_full_scan_def)
  from candidate_rows_ok [OF ok byid rel(2) pred fs typed] obtain hs where
    c: "candidate_rows m rel sel = Some (Inr hs, m)" "set hs \<subseteq> set rows"
    "mset (filter (\<lambda>h. row_matches pred (row_values h)) hs) = mset (filter (\<lambda>h. row_matches pred (row_values h)) rows)" .
  define out where "out = map (\<lambda>vs. map (\<lambda>i. vs ! i) idx) (filter (row_matches pred) (map row_values hs))"
  have "list_all (row_typed (ri_columns rel)) hs" using typed c(2) by (auto simp: list_all_iff)
  then have "select_rows rel pred idx hs = Inr out" unfolding out_def by (rule select_rows_ok)
  then have "execute_select m projection table sel = Some (Inr (Query (result_columns (ri_columns rel) idx) out), m)"
    using rel(1) idx pred c(1) by (simp add: execute_select_def lookup_relation_def result_columns_def)
  moreover have "image_mset f (image_mset row_values (mset (filter (\<lambda>h. row_matches pred (row_values h)) hs))) =
      image_mset f (image_mset row_values (mset (filter (\<lambda>h. row_matches pred (row_values h)) rows)))" for f :: "sql_value list \<Rightarrow> sql_value list"
    using c(3) by simp
  then have "mset out = mset (map (\<lambda>vs. map (\<lambda>i. vs ! i) idx) (filter (row_matches pred) (map row_values rows)))"
    by (simp add: out_def filter_map o_def image_mset.compositionality)
  ultimately show thesis using fs typed by (intro that)
qed

lemma execute_select_done:
  assumes ok: "db_ok m"
  shows "\<exists>r m'. execute_select m projection table sel = Some (r, m') \<and> statement_done m (Select projection table sel) r m'"
proof -
  let ?c = "cs_catalog (ts_store m)"
  have wf: "store_wf (ts_store m)" using ok by (simp add: db_ok_def)
  from ok obtain T where view: "db_view ?c (store_pages (ts_store m)) T" by (auto simp: db_ok_def)
  note v = db_viewD [OF view]
  show ?thesis
  proof (cases "bindR (lookup_relation m table) (\<lambda>rel. bindR (resolve_projection rel projection) (\<lambda>projected.
           bindR (resolve_selection rel sel) (\<lambda>predicate. Inr (rel, projected, predicate))))")
    case (Inl e)
    then show ?thesis by (simp add: execute_select_def statement_done_same [OF ok])
  next
    case (Inr x)
    then obtain rel idx pred where x: "x = (rel, idx, pred)" "relation_by_name ?c table = Some rel"
      "resolve_projection rel projection = Inr idx" "resolve_selection rel sel = Inr pred"
      by (auto simp: res_simps lookup_relation_def)
    note byid = relation_by_name_wf [OF v(2) x(2)]
    show ?thesis
    proof (cases "ri_kind rel = RelTable")
      case True
      from execute_select_rows [OF ok x(2) True x(3,4)] obtain rows out where
        o: "ts_full_scan m (ri_id rel) = Inr rows" "execute_select m projection table sel = Some (Inr (Query (result_columns (ri_columns rel) idx) out), m)"
        "mset out = mset (map (\<lambda>vs. map (\<lambda>i. vs ! i) idx) (filter (row_matches pred) (map row_values rows)))" .
      have "view_scan ?c (store_pages (ts_store m)) (ri_id rel) = Inr rows" using o(1) store_full_scan_view [OF wf] by (simp add: ts_full_scan_def)
      from tables_of_table [OF v(2) byid(1) True this] byid(2)
      have "db_tables m table = Some (ri_columns rel, mset (map row_values rows))" by (simp add: db_tables_def)
      from sql_step.select [of "db_tables m", OF this resolve_projection_spec [OF x(3)] resolve_selection_spec [OF x(4)], of out] o(3)
      have "sql_step (db_tables m) (Select projection table sel) (Query (result_columns (ri_columns rel) idx) out) (db_tables m)" by simp
      with o(2) statement_done_same(2) [OF ok] show ?thesis by simp
    next
      case False
      have none: "find_index_on_column m (ri_id rel) col = None" for col
      proof (rule ccontr)
        assume "find_index_on_column m (ri_id rel) col \<noteq> None"
        then obtain ix where "find_index_on_column m (ri_id rel) col = Some ix" by auto
        from find_index_Some [OF this] obtain i where "ix \<in> set (cat_relations ?c)" "ri_storage ix = StorageBPlusTree i" "is_table_id i = ri_id rel" .
        with v(5) byid(1) False show False by (fastforce simp: index_covers_def)
      qed
      have "ts_full_scan m (ri_id rel) = Inl (User (msg_not_heap (ri_id rel)))"
        using False byid(1) by (simp add: ts_full_scan_def store_full_scan_def ensure_heap_relation_def)
      then have "candidate_rows m rel sel = Some (Inl (User (msg_not_heap (ri_id rel))), m)"
        using none by (simp add: candidate_rows_def split: option.splits)
      then show ?thesis using Inr x(1) by (simp add: execute_select_def statement_done_same [OF ok])
    qed
  qed
qed

lemma call_scalar_returns:
  assumes "registry_from_installed_extensions installed = Inr r"
  shows "\<exists>res. call_scalar r name args = Some res"
proof (cases "registry_scalar_function r name")
  case (Some f)
  with installed_function_ok [OF assms Some] show ?thesis by (auto simp: call_scalar_def function_ok_def)
qed (simp add: call_scalar_def)

lemma execute_select_function_done:
  assumes ok: "db_ok m"
  shows "\<exists>r. execute_select_function m name args = Some r \<and> statement_done m (SelectFunction name args) r m"
proof -
  let ?installed = "map (\<lambda>e. (ei_name e, ei_abi_version e, ei_kind e)) (cat_extensions (cs_catalog (ts_store m)))"
  show ?thesis
  proof (cases "registry_from_installed_extensions ?installed")
    case (Inl e)
    then show ?thesis by (simp add: execute_select_function_def statement_done_same [OF ok])
  next
    case (Inr reg)
    from call_scalar_returns [OF Inr] obtain res where res: "call_scalar reg name args = Some res" by blast
    have "reg = stdlib_registry" if "res = Inr v" for v
      using installed_registry [OF Inr] res that
      by (auto simp: call_scalar_def registry_new_def registry_scalar_function_def split: if_splits)
    with res have "\<forall>v. res = Inr v \<longrightarrow> call_scalar stdlib_registry name args = Some (Inr v)" by auto
    then show ?thesis using Inr res ok
      by (cases res; cases "registry_scalar_function reg name")
        (auto simp: execute_select_function_def intro: sql_step.select_function statement_done_same [OF ok])
  qed
qed

section \<open>Statements that write\<close>

lemma value_good_stored: "value_good v \<Longrightarrow> value_good (stored_as c v)"
  by (cases v) (auto simp: stored_as_def value_good_def)

text \<open>From the outcome of a transaction to the outcome of its statement.\<close>

lemma statement_in_transaction:
  assumes ok: "db_ok m"
    and body: "\<And>t T. tx_wf t \<Longrightarrow> tx_staged t \<Longrightarrow> tr_working_catalog t = cs_catalog (ts_store m) \<Longrightarrow> tx_pages t = store_pages (ts_store m) \<Longrightarrow>
      db_view (cs_catalog (ts_store m)) (store_pages (ts_store m)) T \<Longrightarrow>
      \<exists>r t'. f t = Some (r, t') \<and> tx_frame t t' \<and> (\<forall>x. r = Inr x \<longrightarrow> tx_wf t' \<and> tx_staged t' \<and>
        (\<exists>T'. db_view (tr_working_catalog t') (tx_pages t') T') \<and>
        sql_step (db_tables m) st res (tables_of (tr_working_catalog t') (tx_pages t')))"
  shows "\<exists>r m'. bindSO (in_transaction f m) (\<lambda>_ m1. Some (Inr res, m1)) = Some (r, m') \<and> statement_done m st r m'"
proof -
  let ?Q = "\<lambda>c P. sql_step (db_tables m) st res (tables_of c P)"
  from in_transaction_ok [where f = f and Q = "\<lambda>c P _. ?Q c P", OF ok, unfolded simp_thms] body obtain r m' where
    f: "in_transaction f m = Some (r, m')"
    and good: "\<forall>x. r = Inr x \<longrightarrow> db_ok m' \<and> data_durable m' \<and> ?Q (cs_catalog (ts_store m')) (store_pages (ts_store m')) \<and>
      crash_ok m m' (\<lambda>c P. c = cs_catalog (ts_store m') \<and> P = store_pages (ts_store m')) \<and> log_stays m m'"
    and bad: "\<forall>e. r = Inl e \<longrightarrow>
      crash_ok m m' (\<lambda>c P. c = cs_catalog (ts_store m) \<and> P = store_pages (ts_store m) \<or> ?Q c P)" by blast
  show ?thesis
  proof (cases r)
    case (Inl e)
    with bad have "crash_ok m m' (\<lambda>c P. c = cs_catalog (ts_store m) \<and> P = store_pages (ts_store m) \<or> ?Q c P)" by simp
    then have "crash_ok m m' (\<lambda>c P. tables_of c P = db_tables m \<or> (\<exists>res. sql_step (db_tables m) st res (tables_of c P)))"
      by (rule crash_ok_mono) (auto simp: db_tables_def)
    with f bad Inl show ?thesis by (simp add: statement_done_def)
  next
    case (Inr x)
    with good have "crash_ok m m' (\<lambda>c P. c = cs_catalog (ts_store m') \<and> P = store_pages (ts_store m'))" by simp
    then have "crash_ok m m' (\<lambda>c P. tables_of c P = db_tables m')" by (rule crash_ok_mono) (simp add: db_tables_def)
    with f good Inr show ?thesis by (simp add: statement_done_def) (simp add: db_tables_def)
  qed
qed

lemma execute_insert_done:
  assumes ok: "db_ok m" and lits: "list_all text_ok literals" and fits: "insert_fits m table literals"
  shows "\<exists>r m'. execute_insert m table literals = Some (r, m') \<and> statement_done m (Insert table literals) r m'"
proof (cases "bindR (lookup_relation m table) (\<lambda>rel. bindR (coerce_values (ri_columns rel) literals) (\<lambda>vs.
           bindR (encode_row vs) (\<lambda>bytes. Inr (rel, vs, bytes))))")
  case (Inl e)
  then show ?thesis by (simp add: execute_insert_def statement_done_same [OF ok])
next
  case (Inr x)
  let ?c = "cs_catalog (ts_store m)" and ?P = "store_pages (ts_store m)"
  from Inr obtain rel vs bytes where x: "x = (rel, vs, bytes)" "relation_by_name ?c table = Some rel"
    "coerce_values (ri_columns rel) literals = Inr vs" "encode_row vs = Inr bytes"
    by (auto simp: res_simps lookup_relation_def)
  let ?f = "insert_body rel vs bytes (indexes_on_table ?c (ri_id rel))"
  note typed = coerce_values_typed [OF x(3) lits]
  have vg: "\<forall>ix \<in> set (indexes_on_table ?c (ri_id rel)). \<forall>ci. column_of rel ix = Some ci \<longrightarrow> value_good (vs ! ci)"
  proof (intro ballI allI impI)
    fix ix ci assume ix: "ix \<in> set (indexes_on_table ?c (ri_id rel))" "column_of rel ix = Some ci"
    have "ci < length (ri_columns rel)" using ix(2) by (auto simp: column_of_def split: storage_object.splits dest: column_at_length)
    moreover have "value_good (literals ! ci)" using fits ix by (auto simp: insert_fits_def x(2) list_all_iff split: option.splits)
    ultimately show "value_good (vs ! ci)" using coerce_values_Inr(1) [OF x(3)] by (simp add: coerce_values_stored [OF x(3)] value_good_stored)
  qed
  have room: "ids_left ?c" using fits by (simp add: insert_fits_def x(2))
  have "\<exists>r m'. bindSO (in_transaction ?f m) (\<lambda>_ m1. Some (Inr (StatementComplete 1), m1)) = Some (r, m') \<and>
      statement_done m (Insert table literals) r m'"
  proof (rule statement_in_transaction [OF ok])
    fix t T assume t: "tx_wf t" "tx_staged t" "tr_working_catalog t = ?c" "tx_pages t = ?P" "db_view ?c ?P T"
    note byid = relation_by_name_wf [OF db_viewD(2) [OF t(5)] x(2)]
    show "\<exists>r t'. ?f t = Some (r, t') \<and> tx_frame t t' \<and> (\<forall>u. r = Inr u \<longrightarrow> tx_wf t' \<and> tx_staged t' \<and>
      (\<exists>T'. db_view (tr_working_catalog t') (tx_pages t') T') \<and>
      sql_step (db_tables m) (Insert table literals) (StatementComplete 1) (tables_of (tr_working_catalog t') (tx_pages t')))"
    proof (cases "ri_kind rel = RelTable")
      case True
      have step: "sql_step (db_tables m) (Insert table literals) (StatementComplete 1) db'"
        if "tables_of ?c ?P table = Some (ri_columns rel, rows)" "db' = (tables_of ?c ?P)(table \<mapsto> (ri_columns rel, add_mset vs rows))" for rows db'
        using sql_step.insert [of "db_tables m" table "ri_columns rel" rows, OF _ x(3)] that by (simp add: db_tables_def)
      from insert_body_ok [OF t(1,2), unfolded t(3,4), OF t(5) byid(1) True x(4) typed(2,1) vg room] step byid(2)
      show ?thesis by blast
    next
      case False
      obtain r t' where i: "tx_insert_row t (ri_id rel) bytes = (r, t')" by fastforce
      have "r \<noteq> Inr row" for row using tx_insert_row_cases [of t "ri_id rel" bytes row t'] i byid(1) False t(3) by auto
      then obtain e where "r = Inl e" by (cases r) auto
      with i tx_insert_row_frame [of t "ri_id rel" bytes] show ?thesis by (simp add: insert_body_def)
    qed
  qed
  then show ?thesis using Inr x(1) by (simp add: execute_insert_def)
qed

lemma create_index_body_ok:
  assumes t: "tx_wf t" "tx_staged t" and view: "db_view (tr_working_catalog t) (tx_pages t) T"
    and rel: "relation_by_id (tr_working_catalog t) (ri_id rel) = Some rel" "column_at rel col = Some ci" "indexable (ri_columns rel ! ci)"
    and names: "str_ok name" "str_ok col"
    and fits: "\<And>rows. view_scan (tr_working_catalog t) (tx_pages t) (ri_id rel) = Inr rows \<Longrightarrow>
      list_all (\<lambda>h. value_good (row_values h ! ci)) rows \<and> length rows * (length rows + 2) < spare_pages (tr_working_catalog t)"
  shows "\<exists>r t'. create_index_body rel ci name col t = Some (r, t') \<and> tx_frame t t' \<and>
    (\<forall>x. r = Inr x \<longrightarrow> tx_wf t' \<and> tx_staged t' \<and> (\<exists>T'. db_view (tr_working_catalog t') (tx_pages t') T') \<and>
      ri_kind rel = RelTable \<and> tables_of (tr_working_catalog t') (tx_pages t') = tables_of (tr_working_catalog t) (tx_pages t))"
proof -
  let ?c = "tr_working_catalog t"
  note v = db_viewD [OF view]
  obtain r0 t1 where cr: "tx_create_index t name (ri_id rel) col = (r0, t1)" by fastforce
  show ?thesis
  proof (cases r0)
    case (Inl e)
    with cr tx_create_index_frame [of t name "ri_id rel" col] show ?thesis by (simp add: create_index_body_def)
  next
    case (Inr ir)
    obtain rid root where ir: "ir = (rid, root)" by fastforce
    note cr = cr [unfolded Inr ir]
    note l = tx_create_index_layout [OF t(1) v(4) cr]
    let ?c1 = "tr_working_catalog t1"
    have chk: "check_new_index ?c name (ri_id rel) col = Inr ()" using l(5) by (auto simp: create_index_metadata_def split: sum.splits)
    from check_new_index_Inr(2) [OF chk] obtain y where y: "y \<in> set (cat_relations ?c)" "ri_id y = ri_id rel" "ri_kind y = RelTable" by blast
    have "Some y = Some rel" using relation_by_id_wf [OF v(2) y(1), unfolded y(2)] rel(1) by (rule trans [OF sym])
    then have tab: "ri_kind rel = RelTable" using y(3) by simp
    from create_index_metadata_layout [OF v(2) l(5)] obtain x where x: "cat_relations ?c1 = cat_relations ?c @ [x]" "ri_id x = rid" "ri_kind x = RelIndex"
      "ri_storage x = StorageBPlusTree \<lparr>is_table_id = ri_id rel, is_column_name = col, is_root_page_id = root\<rparr>"
      "rid \<notin> ri_id ` set (cat_relations ?c)" "spare_pages ?c = Suc (spare_pages ?c1)" "cat_extensions ?c1 = cat_extensions ?c"
      "ri_name x = name" "ri_columns x = [\<lparr>cd_name = col, cd_type_name = ''INDEX_KEY''\<rparr>]" by metis
    have rok: "relation_ok x" using names x(4,8,9) by (simp add: relation_ok_def storage_ok_def column_ok_def str_ok_ascii)
    have ne: "ri_id y \<noteq> rid" if "y \<in> set (cat_relations ?c)" for y using x(5) that by auto
    from rows_okE [OF v(3) rel(1) tab] obtain rows where rows: "view_scan ?c (tx_pages t) (ri_id rel) = Inr rows" "list_all (row_typed (ri_columns rel)) rows" .
    have scans: "view_scan ?c1 (tx_pages t1) y = view_scan ?c (tx_pages t) y" if "relation_by_id ?c y = Some r" for y r
      using l(6) [of y] ne [OF relation_by_id_Some(1) [OF that]] relation_by_id_Some(2) [OF that] by simp
    have scan1: "tx_full_scan t1 (ri_id rel) = Inr rows" using tx_full_scan_view [OF l(1)] scans [OF rel(1)] rows(1) by simp
    have at: "\<exists>rt. index_at ?c1 rid rt" using create_index_metadata_Inr(1) [OF v(2) l(5)] by blast
    have vg: "\<forall>h \<in> set rows. value_good (row_values h ! ci)" using fits [OF rows(1)] by (simp add: list_all_iff)
    let ?T = "T(rid := BLeaf root [])"
    have room: "length rows * (bt_height (?T rid) + length rows + 2) \<le> spare_pages ?c1" using fits [OF rows(1)] x(6) by simp
    from index_existing_rows_grow [OF l(1,4) at rows(2) vg room] obtain r t' where
      loop: "index_existing_rows rel ci rid rows t1 = Some (r, t')" "tx_frame t1 t'"
      and grow: "r = Inr () \<longrightarrow> (\<exists>T' n. indexes_grow t1 ?T t' T' n \<and> (\<forall>x. x \<noteq> rid \<longrightarrow> T' x = ?T x) \<and>
       mset (tree_entries (T' rid)) = mset (tree_entries (?T rid)) + mset (index_image ci rows))" by blast
    have "create_index_body rel ci name col t = Some (r, t')" using cr scan1 loop(1) by (simp add: create_index_body_def)
    moreover have "tx_frame t t'" using l(3) loop(2) by (rule tx_frame_trans)
    moreover have "tx_wf t' \<and> tx_staged t' \<and> (\<exists>T'. db_view (tr_working_catalog t') (tx_pages t') T') \<and>
      tables_of (tr_working_catalog t') (tx_pages t') = tables_of ?c (tx_pages t)" if "r = Inr u" for u
    proof -
      from grow that obtain T' n where g: "indexes_grow t1 ?T t' T' n" and keep: "\<forall>x. x \<noteq> rid \<longrightarrow> T' x = T x"
        and es: "mset (tree_entries (T' rid)) = mset (index_image ci rows)" by auto
      have sh: "same_heaps ?c1 (tx_pages t1) (tr_working_catalog t') (tx_pages t')" and wf': "tx_wf t'" "tx_staged t'"
        and heap: "heap_ok (tr_working_catalog t') (tx_pages t')" and tr: "trees_ok (tr_working_catalog t') (tx_pages t') T'"
        using g l(2) by (simp_all add: indexes_grow_def tx_wf_def)
      have cwf1: "cat_wf ?c1" using l(1) by (simp add: tx_wf_def heap_ok_def)
      have cov: "index_covers ?c (tx_pages t) i (T' (ri_id x))" if "ri_storage x = StorageBPlusTree i" for i
        using that x(2,4) rel tab rows(1) es by (auto simp: index_covers_def)
      note res = db_view_relation_added [OF view x(1) cwf1 x(7) rok scans sh heap tr _ _ cov]
      have "db_view (tr_working_catalog t') (tx_pages t') T'" by (rule res(1)) (use keep ne x(3) in auto)
      moreover have "tables_of (tr_working_catalog t') (tx_pages t') = tables_of ?c (tx_pages t)"
        by (rule res(2) [THEN trans]) (use keep ne x(3) in auto)
      ultimately show ?thesis using wf' by blast
    qed
    ultimately show ?thesis using tab by blast
  qed
qed

lemma execute_create_index_done:
  assumes ok: "db_ok m" and names: "str_ok name" "str_ok col" and fits: "index_fits m table col"
  shows "\<exists>r m'. execute_create_index m name table col = Some (r, m') \<and> statement_done m (CreateIndex name table col) r m'"
proof (cases "bindR (lookup_relation m table) (\<lambda>rel. bindR (resolve_column_index rel col) (\<lambda>ci.
           bindR (ensure_indexable_column (ri_columns rel ! ci)) (\<lambda>_. Inr (rel, ci))))")
  case (Inl e)
  then show ?thesis by (simp add: execute_create_index_def statement_done_same [OF ok])
next
  case (Inr x)
  let ?c = "cs_catalog (ts_store m)" and ?P = "store_pages (ts_store m)"
  from Inr obtain rel ci where x: "x = (rel, ci)" "relation_by_name ?c table = Some rel" "column_at rel col = Some ci"
    "indexable (ri_columns rel ! ci)"
    by (auto simp: res_simps lookup_relation_def resolve_column ensure_indexable_column_def indexable_def split: if_splits)
  have wf: "store_wf (ts_store m)" using ok by (simp add: db_ok_def)
  have fits': "list_all (\<lambda>h. value_good (row_values h ! ci)) rows \<and> length rows * (length rows + 2) < spare_pages ?c"
    if "view_scan ?c ?P (ri_id rel) = Inr rows" for rows
    using fits that store_full_scan_view [OF wf] by (simp add: index_fits_def x(2,3) ts_full_scan_def)
  have "\<exists>r m'. bindSO (in_transaction (create_index_body rel ci name col) m) (\<lambda>_ m1. Some (Inr (StatementComplete 0), m1)) = Some (r, m') \<and>
      statement_done m (CreateIndex name table col) r m'"
  proof (rule statement_in_transaction [OF ok])
    fix t T assume t: "tx_wf t" "tx_staged t" "tr_working_catalog t = ?c" "tx_pages t = ?P" "db_view ?c ?P T"
    note v = db_viewD [OF t(5)]
    note byid = relation_by_name_wf [OF v(2) x(2)]
    from create_index_body_ok [OF t(1,2), unfolded t(3,4), OF t(5) byid(1) x(3,4) names fits'] obtain r t' where
      r: "create_index_body rel ci name col t = Some (r, t')" "tx_frame t t'"
      and good: "\<forall>x. r = Inr x \<longrightarrow> tx_wf t' \<and> tx_staged t' \<and> (\<exists>T'. db_view (tr_working_catalog t') (tx_pages t') T') \<and>
        ri_kind rel = RelTable \<and> tables_of (tr_working_catalog t') (tx_pages t') = tables_of ?c ?P" by blast
    have "sql_step (db_tables m) (CreateIndex name table col) (StatementComplete 0) (db_tables m)" if "ri_kind rel = RelTable"
    proof -
      from rows_okE [OF v(3) byid(1) that] obtain rows where "view_scan ?c ?P (ri_id rel) = Inr rows" .
      from tables_of_table [OF v(2) byid(1) that this] byid(2) x(3) show ?thesis
        by (intro sql_step.create_index [where cols = "ri_columns rel" and ci = ci]) (auto simp: db_tables_def spec_column_def column_at_def)
    qed
    with r good show "\<exists>r t'. create_index_body rel ci name col t = Some (r, t') \<and> tx_frame t t' \<and> (\<forall>x. r = Inr x \<longrightarrow> tx_wf t' \<and> tx_staged t' \<and>
        (\<exists>T'. db_view (tr_working_catalog t') (tx_pages t') T') \<and>
        sql_step (db_tables m) (CreateIndex name table col) (StatementComplete 0) (tables_of (tr_working_catalog t') (tx_pages t')))"
      by (auto simp: db_tables_def)
  qed
  then show ?thesis using Inr x(1) by (simp add: execute_create_index_def)
qed

lemma autocommit_statement:
  "Some (bindS (autocommit f m) (\<lambda>_ m1. (Inr res, m1))) =
    bindSO (in_transaction (\<lambda>t. Some (f t)) m) (\<lambda>_ m1. Some (Inr res, m1))"
proof -
  obtain r m1 where "autocommit f m = (r, m1)" by fastforce
  then show ?thesis using autocommit_in_transaction [of f m] by (cases r) (auto simp: eq_commute [of _ "in_transaction _ _"])
qed

lemma execute_create_table_done:
  assumes ok: "db_ok m" and names: "str_ok name" "list_all column_ok cols"
  shows "\<exists>r m'. Some (bindS (create_table_autocommit m name cols) (\<lambda>_ m1. (Inr (StatementComplete 0), m1))) = Some (r, m') \<and>
    statement_done m (CreateTable name cols) r m'"
  unfolding create_table_autocommit_def autocommit_statement
proof (rule statement_in_transaction [OF ok])
  let ?c = "cs_catalog (ts_store m)" and ?P = "store_pages (ts_store m)"
  fix t T assume t: "tx_wf t" "tx_staged t" "tr_working_catalog t = ?c" "tx_pages t = ?P" "db_view ?c ?P T"
  note v = db_viewD [OF t(5)]
  obtain r t' where cr: "tx_create_table t name cols = (r, t')" by fastforce
  have fr: "tx_frame t t'" using tx_create_table_frame [of t name cols] cr by simp
  have "tx_wf t' \<and> tx_staged t' \<and> (\<exists>T'. db_view (tr_working_catalog t') (tx_pages t') T') \<and>
      sql_step (db_tables m) (CreateTable name cols) (StatementComplete 0) (tables_of (tr_working_catalog t') (tx_pages t'))" if "r = Inr rid" for rid
  proof -
    note cr = cr [unfolded that]
    note f = tx_create_table_facts [OF t(1) cr] and l = tx_create_table_layout [OF t(1) _ cr, unfolded t(3,4), OF v(4)]
    from l(3) obtain pid where meta: "create_table_metadata ?c name cols = (Inr (rid, pid), tr_working_catalog t')" by blast
    from create_table_metadata_Inr [OF v(2) meta] obtain c: "rid = RelationId (cat_next_relation_id ?c)"
      "cat_relations (tr_working_catalog t') = cat_relations ?c @ [\<lparr>ri_id = rid, ri_name = name, ri_kind = RelTable,
          ri_storage = StorageHeap \<lparr>hs_pages = [pid]\<rparr>, ri_columns = cols\<rparr>]"
      "name \<notin> ri_name ` set (cat_relations ?c)" "cat_wf (tr_working_catalog t')" "cat_extensions (tr_working_catalog t') = cat_extensions ?c" by metis
    have rok: "relation_ok \<lparr>ri_id = rid, ri_name = name, ri_kind = RelTable, ri_storage = StorageHeap \<lparr>hs_pages = [pid]\<rparr>, ri_columns = cols\<rparr>"
      using names by (simp add: relation_ok_def storage_ok_def)
    have heap: "heap_ok (tr_working_catalog t') (tx_pages t')" using f(1) by (simp add: tx_wf_def)
    have scans: "view_scan (tr_working_catalog t') (tx_pages t') y = view_scan ?c ?P y" if "relation_by_id ?c y = Some r" for y r
    proof -
      have "y \<noteq> rid" using fresh_relation_id [OF v(2)] relation_by_id_Some [OF that] c(1) by force
      from f(6) [OF this] show ?thesis by (simp add: tx_full_scan_view [OF f(1)] tx_full_scan_view [OF t(1)] t(3,4))
    qed
    have empty: "view_scan (tr_working_catalog t') (tx_pages t') rid = Inr []" using f(4) by (simp add: tx_full_scan_view [OF f(1)])
    note res = db_view_relation_added [OF t(5) c(2,4,5) rok scans same_heaps_refl heap l(1) refl]
    have "db_view (tr_working_catalog t') (tx_pages t') T" by (rule res(1)) (use empty in simp_all)
    moreover have "tables_of (tr_working_catalog t') (tx_pages t') = (db_tables m)(name \<mapsto> (cols, {#}))"
      by (rule res(2) [THEN trans]) (use empty in \<open>simp_all add: db_tables_def\<close>)
    moreover have "db_tables m name = None" using c(3) by (simp add: db_tables_def tables_of_def relation_by_name_None [THEN iffD2])
    ultimately show ?thesis using f(1,3) by (auto intro: sql_step.create_table)
  qed
  with cr fr show "\<exists>r t'. Some (tx_create_table t name cols) = Some (r, t') \<and> tx_frame t t' \<and> (\<forall>x. r = Inr x \<longrightarrow> tx_wf t' \<and> tx_staged t' \<and>
      (\<exists>T'. db_view (tr_working_catalog t') (tx_pages t') T') \<and>
      sql_step (db_tables m) (CreateTable name cols) (StatementComplete 0) (tables_of (tr_working_catalog t') (tx_pages t')))" by auto
qed

lemma execute_load_extension_done:
  assumes ok: "db_ok m"
  shows "\<exists>r m'. Some (execute_load_extension m name) = Some (r, m') \<and> statement_done m (LoadExtension name) r m'"
proof (cases "builtin_extension_descriptor name")
  case (Inl e)
  then show ?thesis by (simp add: execute_load_extension_def statement_done_same [OF ok])
next
  case (Inr d)
  let ?c = "cs_catalog (ts_store m)" and ?P = "store_pages (ts_store m)"
  let ?f = "\<lambda>t. tx_register_extension t (ed_name d) (ed_abi_version d) (extension_kind_as_str (ed_kind d))"
  have "\<exists>r m'. bindSO (in_transaction (\<lambda>t. Some (?f t)) m) (\<lambda>_ m1. Some (Inr (StatementComplete 0), m1)) = Some (r, m') \<and>
    statement_done m (LoadExtension name) r m'"
  proof (rule statement_in_transaction [OF ok])
    fix t T assume t: "tx_wf t" "tx_staged t" "tr_working_catalog t = ?c" "tx_pages t = ?P" "db_view ?c ?P T"
    note v = db_viewD [OF t(5)]
    obtain r t' where cr: "?f t = (r, t')" by fastforce
    have fr: "tx_frame t t'" using tx_register_extension_frame [of t] cr by (metis snd_conv)
    have "tx_wf t' \<and> tx_staged t' \<and> (\<exists>T'. db_view (tr_working_catalog t') (tx_pages t') T') \<and>
      sql_step (db_tables m) (LoadExtension name) (StatementComplete 0) (tables_of (tr_working_catalog t') (tx_pages t'))" if "r = Inr b" for b
    proof -
      note l = tx_register_extension_layout [OF t(1,2) _ cr [unfolded that], unfolded t(3,4), OF v(4)]
      have heap: "heap_ok (tr_working_catalog t') (tx_pages t')" using l(1) by (simp add: tx_wf_def)
      have "d = STDLIB_EXTENSION" using Inr by (auto simp: builtin_extension_descriptor_def split: if_splits)
      then have "list_all extension_ok (cat_extensions (tr_working_catalog t'))"
        using l(7) v(6) by (auto simp: catalog_ok_def list_all_iff extension_ok_def STDLIB_EXTENSION_def str_ok_ascii)
      from db_view_same_relations [OF t(5) l(5) heap l(4,6) this]
      show ?thesis using l(1,2) by (auto simp: db_tables_def intro: sql_step.load_extension)
    qed
    with cr fr show "\<exists>r t'. Some (?f t) = Some (r, t') \<and> tx_frame t t' \<and> (\<forall>x. r = Inr x \<longrightarrow> tx_wf t' \<and> tx_staged t' \<and>
      (\<exists>T'. db_view (tr_working_catalog t') (tx_pages t') T') \<and>
      sql_step (db_tables m) (LoadExtension name) (StatementComplete 0) (tables_of (tr_working_catalog t') (tx_pages t')))" by auto
  qed
  then show ?thesis using Inr unfolding execute_load_extension_def register_extension_autocommit_def
    by (simp add: autocommit_statement)
qed

lemma value_ok_text: "value_ok v \<Longrightarrow> text_ok v"
  by (cases v) auto

lemma execute_statement_done:
  assumes "db_ok m" "statement_ok st" "statement_fits m st"
  shows "\<exists>r m'. execute_statement m st = Some (r, m') \<and> statement_done m st r m'"
proof (cases st)
  case (Insert table literals)
  then have "list_all text_ok literals" using assms(2) by (auto simp: list_all_iff intro: value_ok_text)
  with execute_insert_done [OF assms(1) this] assms(3) Insert show ?thesis by (simp add: execute_statement_def)
next
  case (SelectFunction name args)
  with execute_select_function_done [OF assms(1), of name args] show ?thesis by (auto simp: execute_statement_def)
next
  case (CreateTable name cols)
  then have "str_ok name" "list_all column_ok cols"
    using assms(2) by (auto simp: list_all_iff column_ok_def column_decl_ok_def SQL_TYPES_def str_ok_ascii intro: name_ok_str)
  with execute_create_table_done [OF assms(1)] CreateTable show ?thesis by (simp add: execute_statement_def)
next
  case (CreateIndex name table col)
  then have "str_ok name" "str_ok col" using assms(2) by (simp_all add: name_ok_str)
  with execute_create_index_done [OF assms(1)] CreateIndex assms(3) show ?thesis by (simp add: execute_statement_def)
qed (use execute_load_extension_done [OF assms(1)] execute_select_done [OF assms(1)] in \<open>simp_all add: execute_statement_def\<close>)

end
