(* ===== verification/Rdbms_Sql_Fail.thy ===== *)
theory Rdbms_Sql_Fail
  imports Rdbms_Sql_Change
begin

text \<open>
  What a failing statement leaves behind, for any disk: nothing is assumed of the answers of
  either file, of the catalog, of the pages or of the indexes. The only way a statement reaches
  the data file is the commit of its transaction, after the log has taken the whole transaction
  and is durable. The proofs follow one invariant through every call on a transaction: its dirty
  pages are full-sized pages over the file it started on.
\<close>

section \<open>Pages keep their size\<close>

lemma insert_record_length:
  assumes "insert_record p bs = (r, p')" "length (page_bytes p) = 4096"
  shows "length (page_bytes p') = 4096"
proof (cases "header p")
  case (Inl e)
  with assms show ?thesis by (auto simp: insert_record_def split: if_splits)
next
  case (Inr h)
  then have h: "unat (h_free_start h) \<le> unat (h_free_end h)" "unat (h_free_end h) \<le> 4096"
    by (auto simp: header_Inr hdr_ok_def hdr_of_def free_end_of_def)
  then have free: "unat (h_free_end h - h_free_start h) = unat (h_free_end h) - unat (h_free_start h)"
    by (intro unat_sub) (simp add: word_le_nat_alt)
  have place: "length (page_bytes (snd (insert_place p h reusable bs))) = 4096" if "length bs \<le> unat (h_free_end h)" for reusable
  proof -
    let ?q = "p\<lparr>page_bytes := write_u16 (put (page_bytes p) (unat (h_free_end h) - length bs) bs) OFF_FREE_END (of_nat (unat (h_free_end h) - length bs))\<rparr>"
    have q: "length (page_bytes ?q) = 4096" using that h assms(2) by (simp add: write_u16_def)
    have "length (page_bytes (snd (insert_take_slot ?q h reusable))) = 4096"
      using q by (auto simp: insert_take_slot_def write_u16_def Let_def split: option.splits)
    moreover have "length (page_bytes (snd (write_slot_entry u i s))) = 4096" if "length (page_bytes u) = 4096" for u i s
      using that by (auto simp: write_slot_entry_def write_u16_def Let_def split: sum.splits)
    moreover have "length (page_bytes (refresh_checksum u)) = 4096" if "length (page_bytes u) = 4096" for u
      using that by (simp add: refresh_checksum_def write_u32_def Let_def)
    ultimately show ?thesis
      unfolding insert_place_def Let_def
      by (intro bindS_inv [where P = "\<lambda>u. length (page_bytes u) = 4096"]) simp_all
  qed
  have "length bs \<le> unat (h_free_end h)" if "\<not> unat (h_free_end h - h_free_start h) < needed" "length bs \<le> needed" for needed
    using that free by linarith
  then have "p' = p \<or> (\<exists>reusable. p' = snd (insert_place p h reusable bs) \<and> length bs \<le> unat (h_free_end h))"
    using assms(1) Inr
    by (auto simp: insert_record_def Let_def checked_add_usize_def split: if_splits sum.splits option.splits) (metis snd_conv le_add1)+
  with assms(2) place show ?thesis by auto
qed

lemma page_new_length [simp]: "length (page_bytes (page_new pid t)) = 4096"
  using page_new_wf [of pid t] by (simp only: page_wf_def PAGE_SIZE_def)

lemma to_page_length: "to_page c = Inr p \<Longrightarrow> length (page_bytes p) = 4096"
  by (erule to_page_Inr) (simp add: page_wf_def)

lemma node_to_page_length: "node_to_page pid n = Inr p \<Longrightarrow> length (page_bytes p) = 4096"
proof -
  assume "node_to_page pid n = Inr p"
  then obtain bs where r: "(case insert_record (page_new pid Index) bs of (Inl e, _) \<Rightarrow> Inl e | (Inr _, p) \<Rightarrow> Inr p) = Inr p"
    by (auto simp: node_to_page_def bindR_eq_Inr)
  obtain res q where q: "insert_record (page_new pid Index) bs = (res, q)" by fastforce
  with r have "q = p" by (cases res) simp_all
  with insert_record_length [OF q] show ?thesis by simp
qed

lemma read_page_length:
  assumes "file_wf (pf_file pf)" "read_page pf pid = Inr p"
  shows "length (page_bytes p) = 4096"
proof -
  let ?off = "unat (page_no pid) * 4096"
  from read_page_pages [OF assms] have "?off + 4096 \<le> length (fl_bytes (pf_file pf))"
    "\<lparr>page_bytes = slice (fl_bytes (pf_file pf)) ?off 4096\<rparr> = p"
    by (simp_all add: pf_pages_def page_at_def Let_def split: if_splits)
  then show ?thesis using arg_cong [of _ p "\<lambda>x. length (page_bytes x)"] by fastforce
qed

section \<open>The invariant of a transaction on any disk\<close>

definition tx_sized :: "transaction \<Rightarrow> bool" where
  "tx_sized t \<longleftrightarrow> pf_wf (tx_file t) \<and> (\<forall>(pid, p) \<in> set (tr_dirty_pages t). length (page_bytes p) = 4096)"

text \<open>What every call keeps, on success and on error.\<close>

definition tx_kept :: "transaction \<Rightarrow> transaction \<Rightarrow> bool" where
  "tx_kept t u \<longleftrightarrow> tx_frame t u \<and> tx_sized u"

lemma tx_kept_refl: "tx_sized t \<Longrightarrow> tx_kept t t"
  by (simp add: tx_kept_def)

lemma tx_kept_trans: "tx_kept t u \<Longrightarrow> tx_kept u v \<Longrightarrow> tx_kept t v"
  unfolding tx_kept_def using tx_frame_trans by blast

lemma put_page_sized: "tx_sized t \<Longrightarrow> length (page_bytes p) = 4096 \<Longrightarrow> tx_sized (tx_put_page t pid p)"
  using set_bmap_insert [of pid p "tr_dirty_pages t"] by (auto simp: tx_sized_def tx_put_page_def tx_file_def)

lemma on_catalog_sized: "tx_sized t \<Longrightarrow> tx_sized (snd (on_catalog f t))"
  by (auto simp: tx_sized_def on_catalog_def tx_file_def split: prod.splits)

lemma mark_catalog_dirty_sized: "tx_sized t \<Longrightarrow> tx_sized (snd (mark_catalog_dirty t))"
  by (auto simp: mark_catalog_dirty_def intro: put_page_sized to_page_length split: sum.splits)

lemma store_node_sized: "tx_sized t \<Longrightarrow> tx_sized (snd (store_node tx_index_store pid n t))"
  by (auto simp: store_node_def tx_index_store_def intro: put_page_sized node_to_page_length split: sum.splits)

lemma load_page_length:
  assumes "tx_sized t" "tx_load_page t pid = Inr p"
  shows "length (page_bytes p) = 4096"
proof (cases "map_of (tr_dirty_pages t) pid")
  case None
  with assms show ?thesis
    by (auto simp: tx_load_page_def bmap_get_def tx_sized_def pf_wf_def tx_file_def intro: read_page_length)
next
  case (Some q)
  with assms show ?thesis by (auto simp: tx_load_page_def bmap_get_def tx_sized_def dest: map_of_SomeD)
qed

lemmas sized_calls = put_page_sized on_catalog_sized mark_catalog_dirty_sized store_node_sized

lemma create_table_sized:
  assumes "tx_sized t"
  shows "tx_sized (snd (tx_create_table t name columns))"
  unfolding tx_create_table_def
  by (rule bindS_inv [where P = tx_sized], simp add: assms, rule bindS_inv [where P = tx_sized], simp add: sized_calls, clarsimp,
      rule bindS_inv [where P = tx_sized]) (simp_all add: sized_calls)

lemma register_extension_sized:
  assumes "tx_sized t"
  shows "tx_sized (snd (tx_register_extension t name v kind))"
  unfolding tx_register_extension_def
  by (rule bindS_inv [where P = tx_sized], simp add: assms, rule bindS_inv [where P = tx_sized], simp add: sized_calls)
    (auto intro!: bindS_inv [where P = tx_sized] mark_catalog_dirty_sized)

lemma create_index_sized:
  assumes "tx_sized t"
  shows "tx_sized (snd (tx_create_index t name tid col))"
  unfolding tx_create_index_def
  by (rule bindS_inv [where P = tx_sized], simp add: assms, rule bindS_inv [where P = tx_sized], simp add: sized_calls, clarsimp,
      rule bindS_inv [where P = tx_sized], simp add: initialize_root_def sized_calls,
      rule bindS_inv [where P = tx_sized]) (simp_all add: sized_calls)

lemma insert_index_entry_sized:
  assumes "tx_sized t" "tx_insert_index_entry t rid key row = Some (r, t')"
  shows "tx_sized t'"
proof (cases "bindR (ensure_active t) (\<lambda>_. index_root (tr_working_catalog t) rid)")
  case (Inl e)
  with assms show ?thesis by (simp add: tx_insert_index_entry_def)
next
  case (Inr root)
  with assms(2) obtain q u where q: "index_insert tx_index_store root key row t = Some (q, u)"
    and k: "bindS (q, u) (finish_index_insert rid root) = (r, t')"
    by (auto simp: tx_insert_index_entry_def)
  have "tx_sized u"
    by (rule index_insert_inv [where P = tx_sized, OF _ store_node_sized _ q assms(1)])
      (auto simp: tx_index_store_def intro: on_catalog_sized)
  moreover have "tx_sized (snd (finish_index_insert rid root nr v))" if "tx_sized v" for nr v
    unfolding finish_index_insert_def by (rule bindS_inv [where P = tx_sized]) (auto intro: sized_calls that)
  ultimately have "tx_sized (snd (bindS (q, u) (finish_index_insert rid root)))"
    by (intro bindS_inv [where P = tx_sized]) auto
  then show ?thesis using k by simp
qed

lemma insert_into_pages_sized: "tx_sized t \<Longrightarrow> tx_sized (snd (tx_insert_into_pages t bytes pids))"
proof (induction t bytes pids rule: tx_insert_into_pages.induct)
  case (2 t bytes pid rest)
  show ?case
  proof (cases "tx_load_page t pid")
    case (Inl e)
    with "2.prems" show ?thesis by simp
  next
    case (Inr p)
    obtain r p' where p': "insert_record p bytes = (r, p')" by fastforce
    have "length (page_bytes p') = 4096" by (rule insert_record_length [OF p' load_page_length [OF "2.prems" Inr]])
    with "2.IH" [OF Inr p' [symmetric]] "2.prems" Inr p' show ?thesis
      by (auto intro: put_page_sized split: sum.splits db_error.splits)
  qed
qed simp

lemma insert_into_new_page_sized:
  assumes "tx_sized t"
  shows "tx_sized (snd (tx_insert_into_new_page t rid bytes))"
  unfolding tx_insert_into_new_page_def
proof (rule bindS_inv [where P = tx_sized])
  fix pid v assume v: "tx_sized v"
  obtain b p where ins: "insert_record (page_new pid Heap) bytes = (b, p)" by fastforce
  then have p: "length (page_bytes p) = 4096" by (rule insert_record_length) simp
  have "tx_sized (snd (bindS (on_catalog (\<lambda>c. append_heap_page c rid pid) v) (\<lambda>_ t2.
       bindS (mark_catalog_dirty (tx_put_page t2 pid p)) (\<lambda>_ t3. (Inr (RowId pid slot), t3)))))" for slot
    by (rule bindS_inv [where P = tx_sized], simp add: sized_calls v, rule bindS_inv [where P = tx_sized])
      (simp_all add: sized_calls p)
  then show "tx_sized (snd (case insert_record (page_new pid Heap) bytes of
       (Inl e, _) \<Rightarrow> (Inl e, v)
     | (Inr slot, p) \<Rightarrow> bindS (on_catalog (\<lambda>c. append_heap_page c rid pid) v) (\<lambda>_ t2.
         bindS (mark_catalog_dirty (tx_put_page t2 pid p)) (\<lambda>_ t3. (Inr (RowId pid slot), t3)))))"
    using ins v by (cases b) simp_all
qed (simp add: sized_calls assms)

lemma insert_row_sized: "tx_sized t \<Longrightarrow> tx_sized (snd (tx_insert_row t rid bytes))"
  unfolding tx_insert_row_def
  by (auto split: sum.splits option.splits
      intro!: bindS_inv [where P = tx_sized] insert_into_pages_sized insert_into_new_page_sized)

section \<open>The bodies of the statements\<close>

lemma add_index_entry_kept:
  assumes "tx_sized t" "add_index_entry rid v row t = Some (r, t')"
  shows "tx_kept t t'"
  using assms insert_index_entry_sized tx_insert_index_entry_frame
  by (auto simp: add_index_entry_def tx_kept_def split: sum.splits option.splits)

lemma bindSO_kept:
  assumes "bindSO m f = Some (r, t')" "\<And>q u. m = Some (q, u) \<Longrightarrow> tx_kept t u"
    "\<And>x u. m = Some (Inr x, u) \<Longrightarrow> f x u = Some (r, t') \<Longrightarrow> tx_kept u t'"
  shows "tx_kept t t'"
proof (cases m)
  case (Some qu)
  obtain q u where qu: "qu = (q, u)" by fastforce
  with Some assms(2) have u: "tx_kept t u" by simp
  show ?thesis
  proof (cases q)
    case (Inl e)
    with Some qu assms(1) u show ?thesis by simp
  next
    case (Inr x)
    with Some qu assms(1) have "f x u = Some (r, t')" by simp
    from assms(3) [OF _ this] Some qu Inr have "tx_kept u t'" by simp
    with u show ?thesis by (rule tx_kept_trans)
  qed
qed (use assms(1) in simp)

lemma insert_index_entries_kept:
  "tx_sized t \<Longrightarrow> insert_index_entries rel vs row ixs t = Some (r, t') \<Longrightarrow> tx_kept t t'"
proof (induction ixs arbitrary: t)
  case (Cons ix ixs)
  show ?case
  proof (cases "bindR (ok_or (relation_index_storage ix) (InternalInvariant msg_no_index_storage)) (\<lambda>st. resolve_column_index rel (is_column_name st))")
    case (Inl e)
    with Cons.prems show ?thesis by (simp add: tx_kept_refl)
  next
    case (Inr ci)
    with Cons.prems(2) have "bindSO (add_index_entry (ri_id ix) (vs ! ci) row t) (\<lambda>_ t1. insert_index_entries rel vs row ixs t1) = Some (r, t')"
      by simp
    then show ?thesis
    proof (rule bindSO_kept)
      fix q u assume "add_index_entry (ri_id ix) (vs ! ci) row t = Some (q, u)"
      with Cons.prems(1) show "tx_kept t u" by (rule add_index_entry_kept)
    next
      fix x u assume a: "add_index_entry (ri_id ix) (vs ! ci) row t = Some (Inr x, u)" and r: "insert_index_entries rel vs row ixs u = Some (r, t')"
      from add_index_entry_kept [OF Cons.prems(1) a] have "tx_sized u" by (simp add: tx_kept_def)
      from Cons.IH [OF this r] show "tx_kept u t'" .
    qed
  qed
qed (simp add: tx_kept_refl)

lemma index_existing_rows_kept:
  "tx_sized t \<Longrightarrow> index_existing_rows rel ci rid rows t = Some (r, t') \<Longrightarrow> tx_kept t t'"
proof (induction rows arbitrary: t)
  case (Cons h rows)
  show ?case
  proof (cases "bindR (decode_row (hr_bytes h)) (\<lambda>vs. bindR (validate_row_width rel vs) (\<lambda>_. Inr vs))")
    case (Inl e)
    with Cons.prems show ?thesis by (simp add: tx_kept_refl)
  next
    case (Inr vs)
    with Cons.prems(2) have "bindSO (add_index_entry rid (vs ! ci) (hr_row_id h) t) (\<lambda>_ t1. index_existing_rows rel ci rid rows t1) = Some (r, t')"
      by simp
    then show ?thesis
    proof (rule bindSO_kept)
      fix q u assume "add_index_entry rid (vs ! ci) (hr_row_id h) t = Some (q, u)"
      with Cons.prems(1) show "tx_kept t u" by (rule add_index_entry_kept)
    next
      fix x u assume a: "add_index_entry rid (vs ! ci) (hr_row_id h) t = Some (Inr x, u)" and r: "index_existing_rows rel ci rid rows u = Some (r, t')"
      from add_index_entry_kept [OF Cons.prems(1) a] have "tx_sized u" by (simp add: tx_kept_def)
      from Cons.IH [OF this r] show "tx_kept u t'" .
    qed
  qed
qed (simp add: tx_kept_refl)

text \<open>A body of a transaction that keeps the invariant, whatever it returns.\<close>

definition body_kept :: "(transaction \<Rightarrow> (transaction, db_error, 'a) stres option) \<Rightarrow> bool" where
  "body_kept f \<longleftrightarrow> (\<forall>t r t'. tx_sized t \<longrightarrow> f t = Some (r, t') \<longrightarrow> tx_kept t t')"

lemma call_body_kept:
  assumes "\<And>t. tx_frame t (snd (f t))" "\<And>t. tx_sized t \<Longrightarrow> tx_sized (snd (f t))"
  shows "body_kept (\<lambda>t. Some (f t))"
  using assms by (simp add: body_kept_def tx_kept_def) (metis snd_conv)

lemma insert_body_kept: "body_kept (insert_body rel vs bytes ixs)"
  unfolding body_kept_def
proof (intro allI impI)
  fix t r t' assume t: "tx_sized t" and "insert_body rel vs bytes ixs t = Some (r, t')"
  then have b: "bindSO (Some (tx_insert_row t (ri_id rel) bytes)) (\<lambda>row t1. insert_index_entries rel vs row ixs t1) = Some (r, t')"
    by (simp add: insert_body_def)
  have k: "tx_kept t u" if "Some (tx_insert_row t (ri_id rel) bytes) = Some (q, u)" for q u
    using that tx_insert_row_frame [of t "ri_id rel" bytes] insert_row_sized [OF t, of "ri_id rel" bytes] by (simp add: tx_kept_def)
  from b k show "tx_kept t t'"
  proof (rule bindSO_kept)
    fix row u assume "Some (tx_insert_row t (ri_id rel) bytes) = Some (Inr row, u)"
    from k [OF this] have "tx_sized u" by (simp add: tx_kept_def)
    then show "insert_index_entries rel vs row ixs u = Some (r, t') \<Longrightarrow> tx_kept u t'" by (rule insert_index_entries_kept)
  qed
qed

lemma create_index_body_kept: "body_kept (create_index_body rel ci name column)"
  unfolding body_kept_def
proof (intro allI impI)
  fix t r t' assume t: "tx_sized t" and b: "create_index_body rel ci name column t = Some (r, t')"
  have k: "tx_kept t u" if "Some (tx_create_index t name (ri_id rel) column) = Some (q, u)" for q u
    using that tx_create_index_frame [of t name "ri_id rel" column] create_index_sized [OF t, of name "ri_id rel" column] by (simp add: tx_kept_def)
  from b [unfolded create_index_body_def] k show "tx_kept t t'"
  proof (rule bindSO_kept)
    fix x u assume "Some (tx_create_index t name (ri_id rel) column) = Some (Inr x, u)"
      and rest: "(case x of (index_id, _) \<Rightarrow> \<lambda>t1. case tx_full_scan t1 (ri_id rel) of
         Inl e \<Rightarrow> Some (Inl e, t1) | Inr rows \<Rightarrow> index_existing_rows rel ci index_id rows t1) u = Some (r, t')"
    from k [OF this(1)] have u: "tx_sized u" by (simp add: tx_kept_def)
    with rest show "tx_kept u t'"
      by (cases x; cases "tx_full_scan u (ri_id rel)") (auto intro: tx_kept_refl index_existing_rows_kept)
  qed
qed

section \<open>A commit that fails\<close>

text \<open>Writing pages to the data file or syncing it afterwards failed with the given error.\<close>

definition install_failed :: "page list \<Rightarrow> page_file \<Rightarrow> db_error \<Rightarrow> page_file \<Rightarrow> bool" where
  "install_failed ps pf e pf' \<longleftrightarrow> for_eachS (\<lambda>p pf. write_page pf p) ps pf = (Inl e, pf') \<or>
     (\<exists>pf1. for_eachS (\<lambda>p pf. write_page pf p) ps pf = (Inr (), pf1) \<and> page_file_sync_data pf1 = (Inl e, pf'))"

text \<open>
  A statement went from \<open>m\<close> to \<open>m'\<close> and failed with \<open>e\<close> after its own transaction was in the log
  for good: the log has grown by exactly the begin record, the images of the pages \<open>ps\<close> and the
  commit record of the id that \<open>m\<close> gives out next, all of it is durable; the error is the one of
  installing \<open>ps\<close> in the data file, which is as that attempt left it, with no other page changed;
  and the catalog is the one of \<open>m\<close>.
\<close>

definition commit_appended :: "transactional_store \<Rightarrow> db_error \<Rightarrow> transactional_store \<Rightarrow> bool" where
  "commit_appended m e m' \<longleftrightarrow> (let tx = TxId (ts_next_tx_id m) in \<exists>ps recs.
     map wr_kind recs = BeginTx tx # map (image_kind tx) ps @ [CommitTx tx] \<and>
     fl_bytes (ts_log m') = fl_bytes (ts_log m) @ concat (map record_bytes recs) \<and>
     fl_durable (ts_log m') = fl_bytes (ts_log m') \<and>
     install_failed ps (ts_file m) e (ts_file m') \<and>
     cs_catalog (ts_store m') = cs_catalog (ts_store m) \<and>
     (\<forall>q. q \<notin> page_id_of ` set ps \<longrightarrow> pf_pages (ts_file m') q = pf_pages (ts_file m) q))"

lemma wal_append_all_bytes:
  assumes "wal_wf w" "\<forall>k \<in> set ks. kind_wf k" "wal_append_all w ks = (Inr (), w')"
  shows "\<exists>recs. map wr_kind recs = ks \<and> fl_bytes (ww_file w') = fl_bytes (ww_file w) @ concat (map record_bytes recs)"
  using assms
proof (induction ks arbitrary: w)
  case (Cons k ks)
  then obtain l w1 where w1: "wal_append w k = (Inr l, w1)" "wal_append_all w1 ks = (Inr (), w')"
    by (auto simp: bindS_eq_Inr)
  have k: "kind_wf k" using Cons.prems(2) by simp
  note a = wal_append_Inr [OF Cons.prems(1) k w1(1)]
  from Cons.IH [OF a(2) _ w1(2)] Cons.prems(2) obtain recs where "map wr_kind recs = ks"
    "fl_bytes (ww_file w') = fl_bytes (ww_file w1) @ concat (map record_bytes recs)" by auto
  with a(4) show ?case by (intro exI [of _ "\<lparr>wr_lsn = wal_next_lsn w, wr_kind = k\<rparr> # recs"]) simp
qed simp

lemma log_page_done:
  assumes "log_page tx p m = (Inr (), m')"
  obtains l w where "wal_append (ts_wal m) (image_kind tx p) = (Inr l, w)" "m' = m\<lparr>ts_wal := w\<rparr>"
proof -
  from assms obtain h u where "header p = Inr h" and h: "ts_append m (PageImage tx (h_page_id h) (page_bytes p)) = (Inr u, m')"
    by (auto simp: log_page_def wal_page_image_def bindS_def bindR_eq_Inr split: sum.splits prod.splits)
  then have "PageImage tx (h_page_id h) (page_bytes p) = image_kind tx p" by (simp add: image_kind_def page_id_of_def header_Inr)
  with h that show thesis by (auto simp: ts_append_def split: prod.splits)
qed

lemma log_pages_done:
  "for_eachS (log_page tx) ps m = (Inr (), m') \<Longrightarrow>
    wal_append_all (ts_wal m) (map (image_kind tx) ps) = (Inr (), ts_wal m') \<and> m' = m\<lparr>ts_wal := ts_wal m'\<rparr>"
proof (induction ps arbitrary: m)
  case (Cons p ps)
  then obtain m1 where m1: "log_page tx p m = (Inr (), m1)" "for_eachS (log_page tx) ps m1 = (Inr (), m')"
    by (auto simp: bindS_eq_Inr)
  from log_page_done [OF m1(1)] obtain l w where w: "wal_append (ts_wal m) (image_kind tx p) = (Inr l, w)" "m1 = m\<lparr>ts_wal := w\<rparr>" .
  with Cons.IH [OF m1(2)] show ?case by simp
qed simp

lemma commit_pages_failed:
  assumes sized: "tx_sized t" and com: "commit_pages t = (Inl e, m')"
  shows "ts_active_writer m' = ts_active_writer (tr_manager t) \<and> (ts_store m' = ts_store (tr_manager t) \<or>
    (\<exists>w. wal_append_all (ts_wal (tr_manager t)) (tx_kinds t) = (Inr (), w) \<and> fl_bytes (ts_log m') = fl_bytes (ww_file w) \<and>
       fl_durable (ts_log m') = fl_bytes (ts_log m') \<and> install_failed (dirty_values t) (tx_file t) e (ts_file m') \<and> cs_catalog (ts_store m') = cs_catalog (ts_store (tr_manager t)) \<and>
       (\<forall>q. q \<notin> page_id_of ` set (dirty_values t) \<longrightarrow> pf_pages (ts_file m') q = pf_pages (tx_file t) q)))"
proof -
  let ?m = "tr_manager t" and ?ps = "bmap_values (tr_dirty_pages t)"
  have len: "\<forall>p \<in> set (dirty_values t). length (page_bytes p) = 4096"
    using sized by (auto simp: tx_sized_def dirty_values_def bmap_values_def)
  have wf: "pf_wf (tx_file t)" using sized by (simp add: tx_sized_def)
  have same: "ts_store n = ts_store ?m \<and> ts_active_writer n = ts_active_writer ?m"
    if "for_eachS (log_page (tr_tx_id t)) ?ps ?m = (r, n)" for r n
  proof -
    have "(\<lambda>n. ts_store n = ts_store ?m \<and> ts_active_writer n = ts_active_writer ?m) (snd (for_eachS (log_page (tr_tx_id t)) ?ps ?m))"
      by (rule for_eachS_inv) (auto simp: log_page_def ts_append_def bindS_def split: sum.splits prod.splits)
    with that show ?thesis by simp
  qed
  have pages: "pf_pages pf q = pf_pages (tx_file t) q"
    if "for_eachS (\<lambda>p pf. write_page pf p) (dirty_values t) (tx_file t) = (v, pf)" "q \<notin> page_id_of ` set (dirty_values t)" for v pf q
    using pf_store.store_all_other [OF _ len that(2) pf_wf_clean [OF wf]] that(1) wf by (simp add: pf_wf_def)
  let ?R = "\<exists>w. wal_append_all (ts_wal ?m) (tx_kinds t) = (Inr (), w) \<and> fl_bytes (ts_log m') = fl_bytes (ww_file w) \<and>
       fl_durable (ts_log m') = fl_bytes (ts_log m') \<and> install_failed (dirty_values t) (tx_file t) e (ts_file m') \<and> cs_catalog (ts_store m') = cs_catalog (ts_store ?m) \<and>
       (\<forall>q. q \<notin> page_id_of ` set (dirty_values t) \<longrightarrow> pf_pages (ts_file m') q = pf_pages (tx_file t) q)"
  from com [unfolded commit_pages_def] consider
      (images) "for_eachS (log_page (tr_tx_id t)) ?ps ?m = (Inl e, m')"
    | (outcome) m1 where "for_eachS (log_page (tr_tx_id t)) ?ps ?m = (Inr (), m1)" "ts_append m1 (CommitTx (tr_tx_id t)) = (Inl e, m')"
    | (later) m1 m2 l where "for_eachS (log_page (tr_tx_id t)) ?ps ?m = (Inr (), m1)" "ts_append m1 (CommitTx (tr_tx_id t)) = (Inr l, m2)"
        "bindS (ts_sync_wal m2) (\<lambda>_ m3. bindS (for_eachS (\<lambda>p m. ts_write_page m p) ?ps m3) (\<lambda>_ m4.
          bindS (ts_sync_store m4) (\<lambda>_ m5. (Inr (), m5\<lparr>ts_store := replace_catalog (ts_store m5) (tr_working_catalog t)\<rparr>)))) = (Inl e, m')"
    by (auto simp: bindS_eq_Inl)
  then show ?thesis
  proof cases
    case images
    from same [OF this] show ?thesis by simp
  next
    case outcome
    from same [OF outcome(1)] outcome(2) show ?thesis by (auto simp: ts_append_def split: prod.splits)
  next
    case later
    note s1 = same [OF later(1)]
    note w1 = log_pages_done [OF later(1)]
    from later(2) obtain w2 where w2: "wal_append (ts_wal m1) (CommitTx (tr_tx_id t)) = (Inr l, w2)" "m2 = m1\<lparr>ts_wal := w2\<rparr>"
      by (auto simp: ts_append_def split: prod.splits)
    have all: "wal_append_all (ts_wal ?m) (tx_kinds t) = (Inr (), w2)"
      using w1 w2(1) by (simp add: tx_kinds_def wal_append_all_append dirty_values_def)
    obtain v w3 where w3: "wal_sync_data w2 = (v, w3)" by fastforce
    let ?m3 = "m2\<lparr>ts_wal := w3\<rparr>"
    have s3: "ts_store ?m3 = ts_store ?m" "ts_active_writer ?m3 = ts_active_writer ?m" "ts_wal ?m3 = w3" using s1 w2(2) by simp_all
    have sy: "ts_sync_wal m2 = (v, ?m3)" using w2(2) w3 by (simp add: ts_sync_wal_def)
    show ?thesis
    proof (cases v)
      case (Inl e')
      with later(3) sy have "m' = ?m3" by simp
      with s3 show ?thesis by simp
    next
      case (Inr u)
      have log: "fl_bytes (ww_file w3) = fl_bytes (ww_file w2)" "fl_durable (ww_file w3) = fl_bytes (ww_file w3)"
        using w3 Inr by (auto simp: wal_sync_data_def vfs_sync_data_def split: list.splits option.splits)
      obtain x pf where wr: "for_eachS (\<lambda>p pf. write_page pf p) ?ps (cs_page_file (ts_store ?m3)) = (x, pf)" by fastforce
      have loop: "for_eachS (\<lambda>p m. ts_write_page m p) ?ps ?m3 = (x, ?m3\<lparr>ts_store := ts_store ?m3\<lparr>cs_page_file := pf\<rparr>\<rparr>)"
        unfolding write_pages_store wr by simp
      obtain y pf' where ds: "page_file_sync_data pf = (y, pf')" by fastforce
      have pp: "pf_pages pf q = pf_pages (tx_file t) q" if "q \<notin> page_id_of ` set (dirty_values t)" for q
        using pages [OF _ that, of x pf] wr s3(1) by (simp add: dirty_values_def tx_file_def)
      have fw: "for_eachS (\<lambda>p pf. write_page pf p) (dirty_values t) (tx_file t) = (x, pf)"
        using wr s3(1) by (simp add: dirty_values_def tx_file_def)
      have fin: "\<exists>pg. m' = ?m3\<lparr>ts_store := ts_store ?m3\<lparr>cs_page_file := pg\<rparr>\<rparr> \<and> pf_pages pg = pf_pages pf \<and>
          install_failed (dirty_values t) (tx_file t) e pg"
      proof (cases x)
        case (Inl e')
        with later(3) sy Inr loop fw show ?thesis by (intro exI [of _ pf]) (simp add: install_failed_def)
      next
        case x: (Inr z)
        with later(3) sy Inr loop ds sync_pages(1) [OF ds] fw show ?thesis
          by (intro exI [of _ pf'] conjI) (auto simp: ts_sync_store_def store_sync_data_def bindS_eq_Inl install_failed_def)
      qed
      then obtain pg where pg: "m' = ?m3\<lparr>ts_store := ts_store ?m3\<lparr>cs_page_file := pg\<rparr>\<rparr>" "pf_pages pg = pf_pages pf"
        "install_failed (dirty_values t) (tx_file t) e pg" by blast
      have "ts_log m' = ww_file w3" "ts_file m' = pg" "cs_catalog (ts_store m') = cs_catalog (ts_store ?m)" "ts_active_writer m' = ts_active_writer ?m"
        using s3 by (simp_all add: pg(1) ts_log_def ts_file_def)
      with all log pp pg(2,3) show ?thesis by auto
    qed
  qed
qed

lemma tx_commit_failed:
  assumes "tr_state t = Active" "tx_sized t" "tx_commit t = (Inl e, m')"
  shows "\<not> ts_active_writer m' \<and> (ts_store m' = ts_store (tr_manager t) \<or>
    (\<exists>w. wal_append_all (ts_wal (tr_manager t)) (tx_kinds t) = (Inr (), w) \<and> fl_bytes (ts_log m') = fl_bytes (ww_file w) \<and>
       fl_durable (ts_log m') = fl_bytes (ts_log m') \<and> install_failed (dirty_values t) (tx_file t) e (ts_file m') \<and> cs_catalog (ts_store m') = cs_catalog (ts_store (tr_manager t)) \<and>
       (\<forall>q. q \<notin> page_id_of ` set (dirty_values t) \<longrightarrow> pf_pages (ts_file m') q = pf_pages (tx_file t) q)))"
proof -
  from tx_commit_cases [OF assms(1,3)] obtain m1 where m1: "commit_pages t = (Inl e, m1)" "ts_store m' = ts_store m1"
    "ts_wal m' = ts_wal m1" "\<not> ts_active_writer m'" .
  from commit_pages_failed [OF assms(2) m1(1)] m1(2-4) show ?thesis by (simp add: ts_log_def ts_file_def)
qed

section \<open>Statements that fail\<close>

definition failed_clean :: "transactional_store \<Rightarrow> db_error \<Rightarrow> transactional_store \<Rightarrow> bool" where
  "failed_clean m e m' \<longleftrightarrow> ts_active_writer m' = ts_active_writer m \<and> (ts_store m' = ts_store m \<or> commit_appended m e m')"

lemma failed_clean_refl [simp]: "failed_clean m e m"
  by (simp add: failed_clean_def)

lemma begin_fails_clean:
  assumes "tx_begin m = (Inl e, m1)"
  shows "failed_clean m e m1"
  using assms begin_Inl(1) [OF assms]
  by (auto simp: failed_clean_def tx_begin_def allocate_tx_id_def ts_append_def bindS_def split: if_splits option.splits prod.splits sum.splits)

lemma in_transaction_fails_clean:
  assumes wal: "wal_wf (ts_wal m)" and pages: "pf_wf (ts_file m)" and body: "body_kept f"
    and fail: "in_transaction f m = Some (Inl e, m')"
  shows "failed_clean m e m'"
proof -
  obtain b m1 where b: "tx_begin m = (b, m1)" by fastforce
  show ?thesis
  proof (cases b)
    case (Inl e')
    with fail b have "m' = m1" "e' = e" by (simp_all add: in_transaction_def)
    with begin_fails_clean b Inl show ?thesis by simp
  next
    case (Inr t0)
    from begin_Inr [OF b [unfolded Inr]] obtain w l n where
      w: "wal_append (ts_wal m) (BeginTx (TxId (ts_next_tx_id m))) = (Inr l, w)" "\<not> ts_active_writer m"
      and m1: "m1 = \<lparr>ts_store = ts_store m, ts_wal = w, ts_next_tx_id = n, ts_active_writer = True\<rparr>"
      and t0: "t0 = \<lparr>tr_manager = m1, tr_tx_id = TxId (ts_next_tx_id m), tr_working_catalog = cs_catalog (ts_store m),
          tr_dirty_pages = [], tr_state = Active\<rparr>" .
    have s0: "tx_sized t0" using pages by (simp add: tx_sized_def tx_file_def ts_file_def t0 m1)
    from fail b Inr obtain r t where f: "f t0 = Some (r, t)" by (auto simp: in_transaction_def split: option.splits)
    from body s0 f have k: "tx_frame t0 t" "tx_sized t" by (auto simp: body_kept_def tx_kept_def)
    then have t: "tr_manager t = m1" "tr_tx_id t = TxId (ts_next_tx_id m)" "tr_state t = Active" by (simp_all add: tx_frame_def t0)
    show ?thesis
    proof (cases r)
      case (Inl e')
      with fail b Inr f have "m' = tx_drop t" by (simp add: in_transaction_def)
      with t w(2) show ?thesis by (simp add: failed_clean_def tx_drop_def finish_writer_def m1)
    next
      case x: (Inr x)
      with fail b Inr f have c: "tx_commit t = (Inl e, m')" by (auto simp: in_transaction_def bindS_eq_Inl)
      have ks: "\<forall>k \<in> set (BeginTx (TxId (ts_next_tx_id m)) # tx_kinds t). kind_wf k"
        using k(2) by (auto simp: tx_sized_def tx_kinds_def image_kind_def kind_wf_def dirty_values_def bmap_values_def)
      have "commit_appended m e m'" if v: "wal_append_all w (tx_kinds t) = (Inr (), v)" "fl_bytes (ts_log m') = fl_bytes (ww_file v)"
        "fl_durable (ts_log m') = fl_bytes (ts_log m')" "install_failed (dirty_values t) (ts_file m) e (ts_file m')" "cs_catalog (ts_store m') = cs_catalog (ts_store m)"
        "\<forall>q. q \<notin> page_id_of ` set (dirty_values t) \<longrightarrow> pf_pages (ts_file m') q = pf_pages (ts_file m) q" for v
      proof -
        have "wal_append_all (ts_wal m) (BeginTx (TxId (ts_next_tx_id m)) # tx_kinds t) = (Inr (), v)" using w(1) v(1) by simp
        from wal_append_all_bytes [OF wal ks this] obtain recs where recs: "map wr_kind recs = BeginTx (TxId (ts_next_tx_id m)) # tx_kinds t"
          "fl_bytes (ww_file v) = fl_bytes (ts_log m) @ concat (map record_bytes recs)" by (elim exE conjE) (rule that, simp_all add: ts_log_def)
        with v(2-6) show ?thesis
          unfolding commit_appended_def Let_def
          by (intro exI [of _ "dirty_values t"] exI [of _ recs] conjI) (simp_all add: tx_kinds_def t(2))
      qed
      moreover have "tx_file t = ts_file m" by (simp add: tx_file_def ts_file_def t(1) m1)
      ultimately show ?thesis
        using tx_commit_failed [OF t(3) k(2) c] w(2) by (auto simp: failed_clean_def t(1) m1)
    qed
  qed
qed

lemma autocommit_fails_clean:
  assumes "wal_wf (ts_wal m)" "pf_wf (ts_file m)" "\<And>t. tx_frame t (snd (f t))" "\<And>t. tx_sized t \<Longrightarrow> tx_sized (snd (f t))"
    "autocommit f m = (Inl e, m')"
  shows "failed_clean m e m'"
  using in_transaction_fails_clean [OF assms(1,2) call_body_kept [where f = f, OF assms(3,4)]] assms(5)
    autocommit_in_transaction [of f m, symmetric] by simp

text \<open>Looking up an index only reads.\<close>

lemma find_leaf_state:
  assumes load: "\<And>pid s. snd (ps_load ops pid s) = s" and "find_leaf ops pid key s = Some (r, s')"
  shows "s' = s"
proof -
  have "ops = ops \<longrightarrow> snd (r, s') = s"
  proof (rule find_leaf.raw_induct [where P = "\<lambda>o' pid key s y. o' = ops \<longrightarrow> snd y = s", OF _ assms(2)], intro impI)
    fix f o' pid key s y
    assume IH: "\<And>o' pid key s y. f o' pid key s = Some y \<Longrightarrow> o' = ops \<longrightarrow> snd y = s"
      and step: "(case ps_load o' pid s of
        (Inl e, s1) \<Rightarrow> Some (Inl e, s1)
      | (Inr p, s1) \<Rightarrow> (case node_from_page p of
           Inl e \<Rightarrow> Some (Inl e, s1)
         | Inr (LeafNode nxt entries) \<Rightarrow> Some (Inr pid, s1)
         | Inr (InternalNode keys children) \<Rightarrow> (case validate_internal_shape keys children of
              Inl e \<Rightarrow> Some (Inl e, s1)
            | Inr _ \<Rightarrow> f o' (children ! child_index_for_key keys key) key s1))) = Some y"
      and o': "o' = ops"
    obtain l s1 where l: "ps_load ops pid s = (l, s1)" by fastforce
    from load [of pid s] l have "s1 = s" by simp
    with step l o' show "snd y = s" using IH by (auto split: sum.splits btree_node.splits)
  qed
  then show ?thesis by simp
qed

lemma lookup_leaves_state:
  assumes load: "\<And>pid s. snd (ps_load ops pid s) = s" and "lookup_leaves ops key pid acc s = Some (r, s')"
  shows "s' = s"
proof -
  have "ops = ops \<longrightarrow> snd (r, s') = s"
  proof (rule lookup_leaves.raw_induct [where P = "\<lambda>o' key pid acc s y. o' = ops \<longrightarrow> snd y = s", OF _ assms(2)], intro impI)
    fix f o' key pid acc s y
    assume IH: "\<And>o' key pid acc s y. f o' key pid acc s = Some y \<Longrightarrow> o' = ops \<longrightarrow> snd y = s"
      and step: "(case ps_load o' pid s of
        (Inl e, s1) \<Rightarrow> Some (Inl e, s1)
      | (Inr p, s1) \<Rightarrow> (case node_from_page p of
           Inl e \<Rightarrow> Some (Inl e, s1)
         | Inr (InternalNode keys children) \<Rightarrow> Some (Inl (Corruption ''B+Tree lookup reached a non-leaf page''), s1)
         | Inr (LeafNode nxt entries) \<Rightarrow>
             (if snd (scan_leaf key acc entries) then Some (Inr (fst (scan_leaf key acc entries)), s1)
              else (case nxt of
                 None \<Rightarrow> Some (Inr (fst (scan_leaf key acc entries)), s1)
               | Some q \<Rightarrow> f o' key q (fst (scan_leaf key acc entries)) s1)))) = Some y"
      and o': "o' = ops"
    obtain l s1 where l: "ps_load ops pid s = (l, s1)" by fastforce
    from load [of pid s] l have "s1 = s" by simp
    with step l o' show "snd y = s" using IH by (auto split: sum.splits btree_node.splits option.splits if_splits)
  qed
  then show ?thesis by simp
qed

lemma lookup_index_state:
  assumes "ts_lookup_index m rid key = Some (r, m')"
  shows "m' = m"
proof (cases "index_root (cs_catalog (ts_store m)) rid")
  case (Inl e)
  with assms show ?thesis by (simp add: ts_lookup_index_def)
next
  case (Inr root)
  have load: "snd (ps_load committed_index_store pid s) = s" for pid s by (simp add: committed_index_store_def)
  have "s' = s" if "index_lookup committed_index_store root key s = Some (q, s')" for q s s'
    using that find_leaf_state [OF load] lookup_leaves_state [OF load]
    by (auto simp: index_lookup_def split: sum.splits bind_splits) blast+
  with assms Inr show ?thesis by (auto simp: ts_lookup_index_def)
qed

lemma select_state:
  assumes "execute_select m projection table selection = Some (r, m')"
  shows "m' = m"
proof -
  have "m1 = m" if "candidate_rows m rel selection = Some (q, m1)" for rel q m1
    using that lookup_index_state
    by (auto simp: candidate_rows_def bindSO_def split: option.splits sum.splits prod.splits)
  with assms show ?thesis
    by (auto simp: execute_select_def bindSO_def split: option.splits sum.splits prod.splits)
qed

text \<open>Every statement, by the call that does its work.\<close>

lemma bindSO_complete:
  assumes "bindSO M (\<lambda>x m1. Some (Inr (g x), m1)) = Some (Inl e, m')"
  shows "M = Some (Inl e, m')"
  using assms by (auto simp: bindSO_def split: option.splits sum.splits prod.splits)

lemma insert_fails_clean:
  assumes "wal_wf (ts_wal m)" "pf_wf (ts_file m)" "execute_insert m table literals = Some (Inl e, m')"
  shows "failed_clean m e m'"
  using assms(3) in_transaction_fails_clean [OF assms(1,2) insert_body_kept]
  by (auto simp: execute_insert_def split: sum.splits dest!: bindSO_complete)

lemma create_index_fails_clean:
  assumes "wal_wf (ts_wal m)" "pf_wf (ts_file m)" "execute_create_index m name table col = Some (Inl e, m')"
  shows "failed_clean m e m'"
  using assms(3) in_transaction_fails_clean [OF assms(1,2) create_index_body_kept]
  by (auto simp: execute_create_index_def split: sum.splits dest!: bindSO_complete)

lemma create_table_fails_clean:
  assumes "wal_wf (ts_wal m)" "pf_wf (ts_file m)" "create_table_autocommit m name columns = (Inl e, m')"
  shows "failed_clean m e m'"
  using autocommit_fails_clean [OF assms(1,2) tx_create_table_frame create_table_sized] assms(3)
  by (simp add: create_table_autocommit_def)

lemma load_extension_fails_clean:
  assumes "wal_wf (ts_wal m)" "pf_wf (ts_file m)" "execute_load_extension m name = (Inl e, m')"
  shows "failed_clean m e m'"
  using assms(3) autocommit_fails_clean [OF assms(1,2) tx_register_extension_frame register_extension_sized]
  by (auto simp: execute_load_extension_def register_extension_autocommit_def bindS_eq_Inl split: sum.splits)

lemma execute_fails_clean:
  assumes "wal_wf (ts_wal m)" "pf_wf (ts_file m)" "execute m sql params = Some (Inl e, m')"
  shows "failed_clean m e m'"
proof (cases "\<exists>st. execute_statement m st = Some (Inl e, m')")
  case True
  then obtain st where st: "execute_statement m st = Some (Inl e, m')" ..
  show ?thesis
  proof (cases st)
    case (CreateTable name columns)
    with st create_table_fails_clean [OF assms(1,2)] show ?thesis by (auto simp: execute_statement_def bindS_eq_Inl)
  next
    case (Insert table literals)
    with st insert_fails_clean [OF assms(1,2)] show ?thesis by (simp add: execute_statement_def)
  next
    case (CreateIndex name table col)
    with st create_index_fails_clean [OF assms(1,2)] show ?thesis by (simp add: execute_statement_def)
  next
    case (LoadExtension name)
    with st load_extension_fails_clean [OF assms(1,2)] show ?thesis by (simp add: execute_statement_def)
  next
    case (SelectFunction name args)
    with st show ?thesis by (auto simp: execute_statement_def)
  next
    case (Select projection table selection)
    with st have "m' = m" by (auto simp: execute_statement_def dest: select_state)
    then show ?thesis by simp
  qed
next
  case False
  with assms(3) have "m' = m" by (auto simp: execute_def split: if_splits option.splits sum.splits)
  then show ?thesis by simp
qed

end
