(* ===== verification/Rdbms_Sql_Props.thy ===== *)
theory Rdbms_Sql_Props
  imports Rdbms_Sql_Spec Rdbms_Sql_Fail
begin

text \<open>
  The properties of the SQL layer: the refinement of the table specification by the executor,
  its invariant, what a failed statement leaves, \<open>SELECT\<close> through an index, rows that are
  found again, and the bounds of integer literals.
\<close>

section \<open>Databases made by statements\<close>

text \<open>A store with an empty catalog, and what successful statements make of it.\<close>

inductive sql_database :: "transactional_store \<Rightarrow> bool" where
  new: "store_wf (ts_store m) \<Longrightarrow> persisted (ts_store m) \<Longrightarrow> log_holds m [] \<Longrightarrow>
    cs_catalog (ts_store m) = catalog_empty \<Longrightarrow> sql_database m"
| run: "sql_database m \<Longrightarrow> str_ok sql \<Longrightarrow> parse_statement sql = Some (Inr st) \<Longrightarrow> statement_fits m st \<Longrightarrow>
    execute m sql [] = Some (Inr res, m') \<Longrightarrow> sql_database m'"

lemma execute_parsed: "parse_statement sql = Some (Inr st) \<Longrightarrow> execute m sql [] = execute_statement m st"
  by (simp add: execute_def)

lemma execute_done:
  assumes "db_ok m" "str_ok sql" "parse_statement sql = Some (Inr st)" "statement_fits m st"
  shows "\<exists>r m'. execute m sql [] = Some (r, m') \<and> statement_done m st r m'"
  using execute_statement_done [OF assms(1) parsed_ok [OF assms(3,2)] assms(4)] by (simp add: execute_parsed [OF assms(3)])

lemma db_ok_files: "db_ok m \<Longrightarrow> wal_wf (ts_wal m) \<and> pf_wf (ts_file m)"
  by (auto simp: db_ok_def log_holds_def store_wf_def ts_file_def)

lemma no_relations_ok:
  assumes "store_wf (ts_store m)" "persisted (ts_store m)" "log_holds m rs" "cs_catalog (ts_store m) = catalog_empty"
  shows "db_ok m"
proof -
  have "heap_ok (cs_catalog (ts_store m)) (store_pages (ts_store m))" using assms(1) by (simp add: store_wf_def)
  then have "db_view (cs_catalog (ts_store m)) (store_pages (ts_store m)) (\<lambda>_. BLeaf (PageId 0) [])"
    using assms(4) by (simp add: catalog_empty_def catalog_ok_def db_view_def rows_ok_def trees_ok_def index_at_def relation_by_id_def)
  with assms(1-3) show ?thesis by (auto simp: db_ok_def)
qed

lemma log_current_Nil: "log_holds m [] \<Longrightarrow> log_current m []"
  by (simp add: log_current_def log_ok_kinds tx_silent_def committed_page_def log_pages_kinds)

lemma crash_okD:
  assumes "crash_ok m m' D" "log_current m rs0" "recovers_to m' pf'"
  obtains s where "store_open pf' = (Inr s, pf')" "db_ok (ts_new s empty_wal)" "D (cs_catalog s) (store_pages s)"
proof -
  from assms obtain c P where c: "reopens pf' c P" "D c P" by (auto simp: crash_ok_def)
  let ?s = "\<lparr>cs_page_file = pf', cs_catalog = c\<rparr>"
  have "db_ok (ts_new ?s empty_wal)" using c(1) by (auto simp: reopens_def db_ok_def ts_new_def log_holds_def ts_log_def store_pages_def)
  with c show thesis by (intro that [of ?s]) (simp_all add: reopens_def store_pages_def)
qed

lemma row_matches_Some: "row_matches (Some (ci, v)) = (\<lambda>vs. sql_values_equal (vs ! ci) v)"
  by (simp add: row_matches_def fun_eq_iff)

section \<open>A sample database\<close>

lemma sample_db_ok:
  assumes "store_wf s" "persisted s" "cs_catalog s = sample_catalog" "store_full_scan s (RelationId 1) = Inr []"
  shows "db_ok (ts_new s empty_wal)" "db_tables (ts_new s empty_wal) ''t'' = Some (sample_columns, {#})"
proof -
  have scan: "view_scan sample_catalog (store_pages s) (RelationId 1) = Inr []" using store_full_scan_view [OF assms(1)] assms(3,4) by simp
  have "db_view sample_catalog (store_pages s) (\<lambda>_. BLeaf (PageId 0) [])"
    using assms(1,3) scan sample_catalog_ok
    by (auto simp: store_wf_def db_view_def rows_ok_def trees_ok_def index_at_def relation_by_id_def sample_catalog_def sample_relation_def)
  with assms(1-3) show "db_ok (ts_new s empty_wal)"
    by (auto simp: db_ok_def ts_new_def log_holds_def ts_log_def)
  show "db_tables (ts_new s empty_wal) ''t'' = Some (sample_columns, {#})"
    using scan assms(3) by (simp add: db_tables_def tables_of_def ts_new_def relation_by_name_def sample_catalog_def sample_relation_def)
qed

definition sample_insert :: statement where
  "sample_insert = Insert ''t'' [Integer 5]"

lemma sample_insert_ok: "statement_ok sample_insert"
  by (simp add: sample_insert_def name_ok_def ident_ok_def is_identifier_start_def is_identifier_continue_def is_ascii_alphabetic_def
      less_eq_char_def to_ascii_lowercase_def ascii_lower_def)

lemma sample_insert_fits: "cs_catalog (ts_store m) = sample_catalog \<Longrightarrow> statement_fits m sample_insert"
  by (simp add: sample_insert_def insert_fits_def relation_by_name_def sample_catalog_def sample_relation_def ids_left_def spare_pages_def
      indexes_on_table_def relation_index_storage_def)

lemma sample_run:
  obtains s m' db pf' where "db_ok (ts_new s empty_wal)" "cs_catalog s = sample_catalog" "db_tables (ts_new s empty_wal) ''t'' = Some (sample_columns, {#})"
    "execute (ts_new s empty_wal) (render_statement sample_insert) [] = Some (Inr (StatementComplete 1), m')"
    "recover_page_file \<lparr>pf_file = quiet_file (fl_bytes (pf_file (ts_file m')))\<rparr> (ts_log m') = (Inr db, pf')"
proof -
  from sample_store obtain s0 s where s0: "store_wf s0" "store_create_table s0 ''t'' sample_columns = (Inr (RelationId 1), s)"
    and s: "store_wf s" "persisted s" "store_writes_ok s" "cs_catalog s = sample_catalog" .
  let ?m = "ts_new s empty_wal"
  note db = sample_db_ok [OF s(1,2,4) store_create_table_Inr(3) [OF s0]]
  obtain bytes where b: "encode_row [Integer 5] = Inr bytes" "length bytes \<le> 4056"
    by (auto simp: encode_row_def write_u16_len_def push_u16_def push_u64_def SQL_ROW_MAGIC_def)
  have m: "ts_store ?m = s" "log_holds ?m []" "writes_ok (ts_log ?m)" "length (fl_bytes (ts_log ?m)) + 16544 \<le> MAX_FILE_SIZE"
    "\<not> ts_active_writer ?m" "unat (ts_next_tx_id ?m) + 1 < 2 ^ 64"
    by (simp_all add: ts_new_def log_holds_def ts_log_def MAX_FILE_SIZE_def)
  have rel: "relation_by_id (cs_catalog s) (RelationId 1) = Some sample_relation" "heap_can_grow (cs_catalog s) (RelationId 1)"
    using sample_relation_by_id sample_can_grow s(4) by simp_all
  from insert_transaction [of ?m, unfolded m(1), OF s(1,2) m(2) s(3) m(3-6) rel(1) sample_relation_by_id(2) b(2) rel(2)]
  obtain t m1 row u l m' where t: "tx_begin ?m = (Inr t, m1)" "tx_insert_row t (RelationId 1) bytes = (Inr row, u)" "tx_commit u = (Inr (), m')"
    and u: "tx_wf u" "tx_fits u" "tr_manager u = m1" "log_holds m1 [\<lparr>wr_lsn = l, wr_kind = BeginTx (TxId (ts_next_tx_id ?m))\<rparr>]"
    unfolding append_Nil by metis
  from sample_recovery [OF u(1,2) _ begin_record_log(3,2,1) t(3)] u(3,4) obtain db pf' where
    rec: "recover_page_file \<lparr>pf_file = quiet_file (fl_bytes (pf_file (ts_file m')))\<rparr> (ts_log m') = (Inr db, pf')" by metis
  from t have "execute_statement ?m sample_insert = Some (Inr (StatementComplete 1), m')"
    using b(1) s(4) m(1)
    by (simp add: sample_insert_def execute_statement_def execute_insert_def lookup_relation_def relation_by_name_def sample_catalog_def
        sample_relation_def sample_columns_def coerce_values_def coerce_value_def in_transaction_def insert_body_def indexes_on_table_def
        relation_index_storage_def)
  then have "execute ?m (render_statement sample_insert) [] = Some (Inr (StatementComplete 1), m')"
    using execute_parsed [OF parse_render [OF sample_insert_ok]] by simp
  from that [OF db(1) s(4) db(2) this rec] show thesis .
qed

lemma sample_insert_text: "str_ok (render_statement sample_insert)" "parse_statement (render_statement sample_insert) = Some (Inr sample_insert)"
  by (rule render_str_ok [OF sample_insert_ok], rule parse_render [OF sample_insert_ok])

text \<open>The same table, created by a statement on an empty database.\<close>

definition sample_create :: statement where
  "sample_create = CreateTable ''t'' sample_columns"

lemma sample_create_text:
  "str_ok (render_statement sample_create)" "parse_statement (render_statement sample_create) = Some (Inr sample_create)"
proof -
  have "statement_ok sample_create"
    by (simp add: sample_create_def sample_columns_def column_decl_ok_def name_ok_def ident_ok_def is_identifier_start_def
        is_identifier_continue_def is_ascii_alphabetic_def less_eq_char_def to_ascii_lowercase_def ascii_lower_def SQL_TYPES_def)
  then show "str_ok (render_statement sample_create)" "parse_statement (render_statement sample_create) = Some (Inr sample_create)"
    by (rule render_str_ok, rule parse_render)
qed

lemma sample_created:
  obtains s m' where "sql_database (ts_new s empty_wal)" "cs_catalog s = catalog_empty" "cs_catalog (ts_store m') = sample_catalog"
    "execute (ts_new s empty_wal) (render_statement sample_create) [] = Some (Inr (StatementComplete 0), m')"
proof -
  from empty_store obtain s where s: "store_wf s" "persisted s" "store_writes_ok s" "cs_catalog s = catalog_empty" .
  let ?m = "ts_new s empty_wal"
  have m: "ts_store ?m = s" "log_holds ?m []" "writes_ok (ts_log ?m)" "length (fl_bytes (ts_log ?m)) = 0" "wal_wf (ts_wal ?m)"
    "\<not> ts_active_writer ?m" "unat (ts_next_tx_id ?m) + 1 < 2 ^ 64" "writes_ok (pf_file (ts_file ?m))"
    using s(3) by (simp_all add: ts_new_def log_holds_def ts_log_def ts_file_def store_writes_ok_def)
  from begin_ok [OF m(6,7,5,3)] m(4) obtain t m1 where beg: "tx_begin ?m = (Inr t, m1)" by (auto simp: MAX_FILE_SIZE_def)
  from begin_facts [of ?m, unfolded m(1), OF s(1,2) m(2) beg] obtain l where
    t: "tx_wf t" "tr_manager t = m1" "log_holds m1 ([] @ [\<lparr>wr_lsn = l, wr_kind = BeginTx (tr_tx_id t)\<rparr>])"
      "tr_working_catalog t = cs_catalog s" "tr_dirty_pages t = []" "tx_file t = ts_file ?m"
      "length (fl_bytes (ts_log m1)) = length (fl_bytes (ts_log ?m)) + 40" "writes_ok (ts_log ?m) \<longrightarrow> writes_ok (ts_log m1)" by metis
  have b: "tx_base t" "tr_state t = Active" using t(1) by (simp_all add: tx_wf_def)
  have oc: "on_catalog (\<lambda>c. create_table_metadata c ''t'' sample_columns) t = (Inr (RelationId 1, PageId 1), t\<lparr>tr_working_catalog := sample_catalog\<rparr>)"
    by (rule on_catalog_eq) (simp add: t(4) s(4) sample_metadata)
  let ?t1 = "t\<lparr>tr_working_catalog := sample_catalog\<rparr>" and ?p = "page_new (PageId 1) Heap"
  let ?t2 = "tx_put_page ?t1 (PageId 1) ?p"
  have b1: "tx_base ?t1" "tx_fits ?t1"
    using on_catalog_facts(3,4) [OF oc] b(1) tx_fits_base [OF b(1) t(5)] by (simp_all add: tx_fits_def)
  have b2: "tx_base ?t2" by (rule tx_put_page_facts(2) [OF b1(1) page_new_wf page_new_id])
  have "page_id_fits (PageId 1)" by (simp add: page_id_fits_def MAX_FILE_SIZE_def)
  note g = put_page_grows [OF b1 this, of ?p]
  obtain q where md: "mark_catalog_dirty ?t2 = (Inr (), tx_put_page ?t2 (PageId 0) q)"
    by (rule mark_catalog_dirty_ok [of ?t2]) (simp_all add: tx_put_page_def sample_catalog_fits)
  let ?t3 = "tx_put_page ?t2 (PageId 0) q"
  have cr: "tx_create_table t ''t'' sample_columns = (Inr (RelationId 1), ?t3)"
    using b(2) oc md by (simp add: tx_create_table_def ensure_active_def)
  note f = tx_create_table_facts [OF t(1) cr] and h = mark_catalog_dirty_grows [OF b2 g(1) md]
  have b3: "tx_base ?t3" "tr_state ?t3 = Active" using f(1) by (simp_all add: tx_wf_def)
  have fr: "tr_manager ?t3 = m1" "tx_file ?t3 = tx_file t" using f(2) t(2) by (simp_all add: tx_frame_def tx_file_def)
  have dirty: "length (tr_dirty_pages ?t3) \<le> 2" using h(2) g(2) t(5) by simp
  have "\<exists>m'. commit_pages ?t3 = (Inr (), m')"
    by (rule commit_pages_ok [OF b3(1)])
      (use t(3,6,7,8) m(3,4,8) fr dirty tx_fits_values [OF b3(1) h(1)] in \<open>simp_all add: log_holds_def MAX_FILE_SIZE_def\<close>)
  then obtain m' where com: "tx_commit ?t3 = (Inr (), m')" using b3(2) by (auto simp: tx_commit_def ensure_active_def)
  have "execute ?m (render_statement sample_create) [] = Some (Inr (StatementComplete 0), m')"
    using beg cr com by (simp add: execute_parsed [OF sample_create_text(2)], simp add: sample_create_def execute_statement_def
        create_table_autocommit_def autocommit_def)
  moreover have "cs_catalog (ts_store m') = sample_catalog"
    using committed_store_wf(3) [OF f(1) _ com] t(3) fr(1) by (auto simp: tx_put_page_def)
  moreover have "sql_database ?m" by (rule sql_database.new) (use s m in simp_all)
  ultimately show thesis using s(4) by (intro that)
qed

text \<open>The sample database with an index on its column.\<close>

lemma sample_indexed:
  obtains m where "db_ok m" "cs_catalog (ts_store m) = sample_index_catalog"
proof -
  from fresh_transaction obtain t m1 l s where t: "tx_wf t" "tr_working_catalog t = sample_catalog" "tr_dirty_pages t = []" "tr_manager t = m1"
    "log_holds m1 [\<lparr>wr_lsn = l, wr_kind = BeginTx (TxId 1)\<rparr>]" "writes_ok (ts_log m1)" "length (fl_bytes (ts_log m1)) = 40"
    "writes_ok (pf_file (tx_file t))" "tx_begin (ts_new s empty_wal) = (Inr t, m1)"
    and s: "store_wf s" "persisted s" "cs_catalog s = sample_catalog" "store_full_scan s (RelationId 1) = Inr []" .
  let ?m = "ts_new s empty_wal" and ?st = "CreateIndex ''i'' ''t'' ''id''"
  have b: "tx_base t" "tr_state t = Active" "cat_wf (tr_working_catalog t)" using t(1) by (simp_all add: tx_wf_def heap_ok_def)
  from sample_index [OF b(1,2) t(2)] obtain t1 where t1: "tx_create_index t ''i'' (RelationId 1) ''id'' = (Inr (RelationId 2, PageId 2), t1)"
    "tr_working_catalog t1 = sample_index_catalog" .
  have "tx_full_scan t (RelationId 1) = store_full_scan s (RelationId 1)"
    using tx_full_scan_view [OF t(1)] store_full_scan_view [OF s(1)] t(2,3) s(3) begin_state(1,4) [OF t(9)]
    by (simp add: tx_pages_def tx_file_def store_pages_def ts_new_def)
  moreover have trees: "trees_ok (tr_working_catalog t) (tx_pages t) (\<lambda>_. BLeaf (PageId 0) [])"
    by (auto simp: t(2) trees_ok_def index_at_def relation_by_id_def sample_catalog_def sample_relation_def)
  note l = tx_create_index_layout [OF t(1) trees t1(1)]
  ultimately have scan: "tx_full_scan t1 (RelationId 1) = Inr []"
    using l(6) [of "RelationId 1"] s(4) by (simp add: tx_full_scan_view [OF l(1)] tx_full_scan_view [OF t(1)])
  have b1: "tx_base t1" "tr_state t1 = Active" using l(1) by (simp_all add: tx_wf_def)
  have fr: "tr_manager t1 = m1" "tx_file t1 = tx_file t" using l(3) t(4) by (simp_all add: tx_frame_def tx_file_def)
  have dirty: "length (tr_dirty_pages t1) \<le> 2" using tx_create_index_dirty [OF t1(1)] t(3) by simp
  have "\<exists>m'. commit_pages t1 = (Inr (), m')"
    by (rule commit_pages_ok [OF b1(1)])
      (use t(5-8) fr dirty tx_fits_values [OF b1(1) sample_index_fits_pages [OF t1(1) b(1,3) tx_fits_base [OF b(1) t(3)]]] in
        \<open>simp_all add: log_holds_def MAX_FILE_SIZE_def\<close>)
  then obtain m' where com: "tx_commit t1 = (Inr (), m')" using b1(2) by (auto simp: tx_commit_def ensure_active_def)
  have ex: "execute_create_index ?m ''i'' ''t'' ''id'' = Some (Inr (StatementComplete 0), m')"
    using s(3) t(9) t1(1) scan com
    by (simp add: execute_create_index_def lookup_relation_def ts_new_def relation_by_name_def sample_catalog_def sample_relation_def
        sample_columns_def resolve_column_index_def ensure_indexable_column_def in_transaction_def create_index_body_def)
  have "index_fits ?m ''t'' ''id''"
    using s(3,4) by (simp add: index_fits_def ts_new_def relation_by_name_def sample_catalog_def sample_relation_def ts_full_scan_def
        spare_pages_def split: option.splits)
  from execute_create_index_done [OF sample_db_ok(1) [OF s] _ _ this, of "''i''"] ex have "db_ok m'" by (auto simp: statement_done_def str_ok_ascii)
  moreover have "cs_catalog (ts_store m') = sample_index_catalog"
    using committed_store_wf(3) [OF l(1) _ com] t(5) fr(1) t1(2) by auto
  ultimately show thesis by (rule that)
qed

lemma select_all:
  assumes ok: "db_ok m" and tab: "db_tables m table = Some (cols, rows)"
  obtains rel out where "relation_by_name (cs_catalog (ts_store m)) table = Some rel" "ri_columns rel = cols"
    "execute_select m ProjectAll table None = Some (Inr (Query (result_columns cols [0..<length cols]) out), m)" "mset out = rows"
proof -
  from tab obtain rel hs where rel: "relation_by_name (cs_catalog (ts_store m)) table = Some rel" "ri_kind rel = RelTable" "ri_columns rel = cols"
    and hs: "view_scan (cs_catalog (ts_store m)) (store_pages (ts_store m)) (ri_id rel) = Inr hs" "rows = mset (map row_values hs)"
    by (auto simp: db_tables_def tables_of_def split: option.splits if_splits sum.splits)
  have "resolve_projection rel ProjectAll = Inr [0..<length cols]" "resolve_selection rel None = Inr None"
    by (simp_all add: resolve_projection_def resolve_selection_def rel(3))
  from execute_select_rows [OF ok rel(1,2) this] obtain hs' out where
    o: "ts_full_scan m (ri_id rel) = Inr hs'" "list_all (row_typed (ri_columns rel)) hs'"
      "execute_select m ProjectAll table None = Some (Inr (Query (result_columns (ri_columns rel) [0..<length cols]) out), m)"
      "mset out = mset (map (\<lambda>vs. map (\<lambda>i. vs ! i) [0..<length cols]) (filter (row_matches None) (map row_values hs')))" .
  have "hs' = hs" using o(1) hs(1) store_full_scan_view [of "ts_store m"] ok by (simp add: ts_full_scan_def db_ok_def)
  moreover have "map (\<lambda>i. vs ! i) [0..<length cols] = vs" if "vs \<in> set (map row_values hs')" for vs
    using that o(2) rel(3) by (auto simp: list_all_iff row_typed_def map_nth dest!: list_all2_lengthD)
  then have "map (\<lambda>vs. map (\<lambda>i. vs ! i) [0..<length cols]) (map row_values hs') = map row_values hs'" by (intro map_idI)
  moreover have "filter (row_matches None) vss = vss" for vss by (rule filter_True) (simp add: row_matches_def)
  ultimately have "mset out = rows" using o(4) hs(2) by (simp only:)
  with rel o(3) show thesis by (intro that) simp_all
qed

section \<open>Properties\<close>

text \<open>C2: The executor refines the table specification. On a consistent database, executing a
  text that parses to a statement returns; if it succeeds, the database is consistent again and
  the tables, as a map from names to columns and multisets of rows, have changed as the
  specification of that statement says, with the result it says. Consistent means that stored
  rows have the types of their columns and every index holds exactly the keys of its table. The
  statement must fit: page ids are left for splits, and indexed texts have at most 987 bytes.\<close>

theorem sql_refines_tables:
  assumes "db_ok m" and "str_ok sql" and "parse_statement sql = Some (Inr st)" and "statement_fits m st"
  shows "\<exists>r m'. execute m sql [] = Some (r, m') \<and>
    (\<forall>res. r = Inr res \<longrightarrow> db_ok m' \<and> sql_step (db_tables m) st res (db_tables m'))"
proof -
  from execute_done [OF assms] obtain r m' where "execute m sql [] = Some (r, m')" "statement_done m st r m'" by blast
  then show ?thesis by (auto simp: statement_done_def)
qed

theorem sql_refines_tables_witness:
  "\<exists>m m'. db_ok m \<and> db_tables m ''t'' = Some (sample_columns, {#}) \<and>
     execute m (render_statement (Insert ''t'' [Integer 5])) [] = Some (Inr (StatementComplete 1), m') \<and>
     sql_step (db_tables m) (Insert ''t'' [Integer 5]) (StatementComplete 1) (db_tables m') \<and>
     db_tables m' ''t'' = Some (sample_columns, {#[Integer 5]#})"
proof -
  from sample_run obtain s m' where s: "db_ok (ts_new s empty_wal)" "cs_catalog s = sample_catalog"
    "db_tables (ts_new s empty_wal) ''t'' = Some (sample_columns, {#})"
    "execute (ts_new s empty_wal) (render_statement sample_insert) [] = Some (Inr (StatementComplete 1), m')" .
  have "statement_fits (ts_new s empty_wal) sample_insert" using s(2) by (intro sample_insert_fits) (simp add: ts_new_def)
  from sql_refines_tables [OF s(1) sample_insert_text this] s(4)
  have step: "sql_step (db_tables (ts_new s empty_wal)) (Insert ''t'' [Integer 5]) (StatementComplete 1) (db_tables m')" by (simp add: sample_insert_def)
  then have "db_tables m' ''t'' = Some (sample_columns, {#[Integer 5]#})"
    using s(3) by (elim sql_step_insertE) (auto simp: coerce_values_def coerce_value_def sample_columns_def)
  with s step show ?thesis unfolding sample_insert_def by blast
qed

text \<open>C8: Every database that successful statements make of an empty one is consistent: all its
  rows decode to values of the types of their columns, and every index tree is a well-formed
  B+Tree in pages of its own whose entries are exactly the keys of the rows of its table. Its
  log agrees with it: the data file holds every committed page of the log, and no record of the
  log uses an id that is still to be given out.\<close>

theorem sql_databases_are_consistent:
  assumes "sql_database m"
  shows "db_ok m \<and> (\<exists>rs. log_current m rs)"
  using assms
proof induction
  case (new m)
  from no_relations_ok [OF new] log_current_Nil [OF new(3)] show ?case by blast
next
  case (run m sql st res m')
  then have ok: "db_ok m" "\<exists>rs. log_current m rs" by simp_all
  from execute_done [OF ok(1) run.hyps(2-4)] run.hyps(5) ok(2) show ?case by (auto simp: statement_done_def log_stays_def)
qed

theorem sql_databases_are_consistent_witness:
  "\<exists>m m'. cs_catalog (ts_store m) = catalog_empty \<and>
     execute m (render_statement (CreateTable ''t'' sample_columns)) [] = Some (Inr (StatementComplete 0), m') \<and>
     cs_catalog (ts_store m') = sample_catalog \<and> db_ok m' \<and> (\<exists>rs. log_current m' rs)"
proof -
  from sample_created obtain s m' where m: "sql_database (ts_new s empty_wal)" "cs_catalog s = catalog_empty" "cs_catalog (ts_store m') = sample_catalog"
    "execute (ts_new s empty_wal) (render_statement sample_create) [] = Some (Inr (StatementComplete 0), m')" .
  have "statement_fits (ts_new s empty_wal) sample_create" by (simp add: sample_create_def)
  from sql_databases_are_consistent [OF sql_database.run [OF m(1) sample_create_text this m(4)]]
  have "db_ok m'" "\<exists>rs. log_current m' rs" by simp_all
  moreover have "cs_catalog (ts_store (ts_new s empty_wal)) = catalog_empty" using m(2) by (simp add: ts_new_def)
  ultimately show ?thesis using m(3,4) unfolding sample_create_def by blast
qed

text \<open>C1: Statements are atomic under crashes, through all layers. Take the bytes that a statement
  left in the log and in the data file, whether it succeeded or stopped at any append, write or
  sync. If a recovery pass over them succeeds, opening the catalog on the recovered file gives a
  consistent database whose tables are those from before the statement or those the
  specification of the statement allows; after a statement that succeeded they are the tables
  it reported. The log must agree with the data file before.\<close>

theorem statement_is_atomic:
  assumes "db_ok m" and "log_current m rs0" and "str_ok sql" and "parse_statement sql = Some (Inr st)" and "statement_fits m st"
    and "execute m sql [] = Some (r, m')"
    and "fl_bytes (pf_file pf) = fl_bytes (pf_file (ts_file m'))" and "reads_ok (pf_file pf)"
    and "recover_page_file pf (ts_log m') = (Inr db, pf')"
  shows "\<exists>s. store_open pf' = (Inr s, pf') \<and> db_ok (ts_new s empty_wal) \<and>
    (db_tables (ts_new s empty_wal) = db_tables m \<or> (\<exists>res. sql_step (db_tables m) st res (db_tables (ts_new s empty_wal)))) \<and>
    (\<forall>res. r = Inr res \<longrightarrow> sql_step (db_tables m) st res (db_tables (ts_new s empty_wal)) \<and>
      db_tables (ts_new s empty_wal) = db_tables m')"
proof -
  have rec: "recovers_to m' pf'" using assms(7-9) by (auto simp: recovers_to_def)
  from execute_done [OF assms(1,3-5)] assms(6) have fin: "statement_done m st r m'" by auto
  show ?thesis
  proof (cases r)
    case (Inl e)
    with fin have "crash_ok m m' (\<lambda>c P. tables_of c P = db_tables m \<or> (\<exists>res. sql_step (db_tables m) st res (tables_of c P)))"
      by (simp add: statement_done_def)
    from crash_okD [OF this assms(2) rec] Inl show ?thesis by (auto simp: db_tables_def ts_new_def)
  next
    case (Inr res)
    with fin have "crash_ok m m' (\<lambda>c P. tables_of c P = db_tables m')" and step: "sql_step (db_tables m) st res (db_tables m')"
      by (simp_all add: statement_done_def)
    from crash_okD [OF this(1) assms(2) rec] obtain s where s: "store_open pf' = (Inr s, pf')" "db_ok (ts_new s empty_wal)"
      "tables_of (cs_catalog s) (store_pages s) = db_tables m'" .
    then have "db_tables (ts_new s empty_wal) = db_tables m'" by (simp add: db_tables_def ts_new_def)
    with s step Inr show ?thesis by auto
  qed
qed

theorem statement_is_atomic_witness:
  "\<exists>m m' db pf' s. execute m (render_statement (Insert ''t'' [Integer 5])) [] = Some (Inr (StatementComplete 1), m') \<and>
     recover_page_file \<lparr>pf_file = quiet_file (fl_bytes (pf_file (ts_file m')))\<rparr> (ts_log m') = (Inr db, pf') \<and>
     store_open pf' = (Inr s, pf') \<and> db_tables (ts_new s empty_wal) ''t'' = Some (sample_columns, {#[Integer 5]#})"
proof -
  from sample_run obtain s m' db pf' where s: "db_ok (ts_new s empty_wal)" "cs_catalog s = sample_catalog"
    "db_tables (ts_new s empty_wal) ''t'' = Some (sample_columns, {#})"
    "execute (ts_new s empty_wal) (render_statement sample_insert) [] = Some (Inr (StatementComplete 1), m')"
    "recover_page_file \<lparr>pf_file = quiet_file (fl_bytes (pf_file (ts_file m')))\<rparr> (ts_log m') = (Inr db, pf')" .
  let ?m = "ts_new s empty_wal"
  have cur: "log_current ?m []" by (rule log_current_Nil) (simp add: log_holds_def ts_new_def ts_log_def)
  have fits: "statement_fits ?m sample_insert" using s(2) by (intro sample_insert_fits) (simp add: ts_new_def)
  from statement_is_atomic [OF s(1) cur sample_insert_text fits s(4) _ _ s(5)] obtain s2 where
    s2: "store_open pf' = (Inr s2, pf')" "sql_step (db_tables ?m) sample_insert (StatementComplete 1) (db_tables (ts_new s2 empty_wal))"
    by (auto simp: quiet_file_def reads_ok_def)
  from s2(2) s(3) have "db_tables (ts_new s2 empty_wal) ''t'' = Some (sample_columns, {#[Integer 5]#})"
    unfolding sample_insert_def by (elim sql_step_insertE) (auto simp: coerce_values_def coerce_value_def sample_columns_def)
  with s(4,5) s2(1) show ?thesis unfolding sample_insert_def by blast
qed

text \<open>C9: A statement that fails, for whatever reason and at whatever point, leaves the writer flag
  as it was and the store exactly as it was: no page, no catalog entry and no byte of the data file
  has changed. The only exception is an error after its own transaction was completely in the durable
  log: then the log has grown by exactly the begin record, the page images and the commit record of
  this statement, the error is the one of writing these pages to the data file or of syncing it,
  the catalog in memory is the old one, and only pages with an image in those records can differ;
  these records are what recovery replays. Nothing is assumed of the answers of the two files,
  of the catalog, the rows or the indexes, so this covers parse errors, unknown names, type
  errors, full heap and index pages, corrupt pages, and reads, writes and syncs that fail. It is
  assumed that the log writer stands at the end of its file, as it does after opening and after every
  complete append, and that the data file consists of whole pages.\<close>

theorem failed_statement_leaves_store:
  assumes "wal_wf (ts_wal m)" and "pf_wf (ts_file m)" and "execute m sql params = Some (Inl e, m')"
  shows "ts_active_writer m' = ts_active_writer m \<and> (ts_store m' = ts_store m \<or> commit_appended m e m')"
  using execute_fails_clean [OF assms] by (simp add: failed_clean_def)

theorem failed_statement_leaves_store_witness:
  "\<exists>m m'. db_ok m \<and> execute m (render_statement (Insert ''t'' [Text ''a''])) [] =
       Some (Inl (type_error \<lparr>cd_name = ''id'', cd_type_name = ''INT''\<rparr> ''integer''), m') \<and> ts_store m' = ts_store m"
proof -
  from sample_run obtain s where s: "db_ok (ts_new s empty_wal)" "cs_catalog s = sample_catalog" .
  let ?m = "ts_new s empty_wal" and ?st = "Insert ''t'' [Text ''a'']"
  have ok: "statement_ok ?st"
    using sample_insert_ok by (simp add: sample_insert_def str_ok_def string_bytes_def word_less_nat_alt)
  have ex: "execute ?m (render_statement ?st) [] = Some (Inl (type_error \<lparr>cd_name = ''id'', cd_type_name = ''INT''\<rparr> ''integer''), ?m)"
    using s(2) by (simp add: execute_parsed [OF parse_render [OF ok]] execute_statement_def execute_insert_def lookup_relation_def ts_new_def
        relation_by_name_def sample_catalog_def sample_relation_def sample_columns_def coerce_values_def coerce_value_def)
  have "wal_wf (ts_wal ?m)" "pf_wf (ts_file ?m)" using db_ok_files [OF s(1)] by simp_all
  from failed_statement_leaves_store [OF this ex] ex s(1) show ?thesis by blast
qed

text \<open>C10: A \<open>SELECT\<close> with a predicate on an indexed column, which reads the index and then
  single rows, returns the same rows, as often, as evaluating the predicate on every row of a
  full scan, and changes nothing.\<close>

theorem select_by_index_equals_scan:
  assumes "db_ok m" and "relation_by_name (cs_catalog (ts_store m)) table = Some rel" and "ri_kind rel = RelTable"
    and "resolve_projection rel projection = Inr idx" and "resolve_column_index rel col = Inr ci"
    and "find_index_on_column m (ri_id rel) col = Some ix"
  shows "\<exists>rows out. ts_full_scan m (ri_id rel) = Inr rows \<and>
    execute_select m projection table (Some \<lparr>sel_column = col, sel_value = v\<rparr>) =
      Some (Inr (Query (map (\<lambda>i. \<lparr>ci_name = cd_name (ri_columns rel ! i), ci_type_name = cd_type_name (ri_columns rel ! i)\<rparr>) idx) out), m) \<and>
    mset out = mset (map (\<lambda>vs. map (\<lambda>i. vs ! i) idx) (filter (\<lambda>vs. sql_values_equal (vs ! ci) v) (map row_values rows)))"
proof -
  let ?sel = "Some \<lparr>sel_column = col, sel_value = v\<rparr>"
  have "resolve_selection rel ?sel = Inr (Some (ci, v))" using assms(5) by (simp add: resolve_selection_def)
  from execute_select_rows [OF assms(1-4) this] obtain rows out where "ts_full_scan m (ri_id rel) = Inr rows"
    "execute_select m projection table ?sel = Some (Inr (Query (result_columns (ri_columns rel) idx) out), m)"
    "mset out = mset (map (\<lambda>vs. map (\<lambda>i. vs ! i) idx) (filter (row_matches (Some (ci, v))) (map row_values rows)))" .
  then show ?thesis unfolding row_matches_Some result_columns_def by blast
qed

theorem select_by_index_equals_scan_witness:
  "\<exists>m rows out. find_index_on_column m (RelationId 1) ''id'' \<noteq> None \<and> ts_full_scan m (RelationId 1) = Inr rows \<and>
     execute_select m ProjectAll ''t'' (Some \<lparr>sel_column = ''id'', sel_value = Integer 5\<rparr>) =
       Some (Inr (Query [\<lparr>ci_name = ''id'', ci_type_name = ''INT''\<rparr>] out), m) \<and>
     mset out = mset (map (\<lambda>vs. map (\<lambda>i. vs ! i) [0]) (filter (\<lambda>vs. sql_values_equal (vs ! 0) (Integer 5)) (map row_values rows)))"
proof -
  from sample_indexed obtain m where m: "db_ok m" "cs_catalog (ts_store m) = sample_index_catalog" .
  have rel: "relation_by_name (cs_catalog (ts_store m)) ''t'' = Some sample_relation" "ri_kind sample_relation = RelTable"
    "ri_id sample_relation = RelationId 1" "ri_columns sample_relation = [\<lparr>cd_name = ''id'', cd_type_name = ''INT''\<rparr>]"
    by (simp_all add: m(2) relation_by_name_def sample_index_catalog_def sample_relation_def sample_columns_def)
  then have idx: "resolve_projection sample_relation ProjectAll = Inr [0]" "resolve_column_index sample_relation ''id'' = Inr 0"
    by (simp_all add: resolve_projection_def resolve_column_index_def)
  obtain ix where ix: "find_index_on_column m (ri_id sample_relation) ''id'' = Some ix"
    by (simp add: find_index_on_column_def indexes_on_table_def m(2) sample_index_catalog_def relation_index_storage_def rel(3) sample_relation_def)
  from select_by_index_equals_scan [OF m(1) rel(1,2) idx ix, of "Integer 5"] ix show ?thesis unfolding rel(3,4) by auto
qed

text \<open>C11: Rows are found again: after a successful \<open>INSERT\<close>, selecting all columns gives the
  rows selected before plus one row, the inserted literals as coerced to the types of the
  columns.\<close>

theorem select_after_insert:
  assumes "db_ok m" and "list_all text_ok literals" and "insert_fits m table literals"
    and "execute_insert m table literals = Some (Inr res, m')"
  shows "\<exists>cols vs out out'. coerce_values (ri_columns (the (relation_by_name (cs_catalog (ts_store m)) table))) literals = Inr vs \<and>
    execute_select m ProjectAll table None = Some (Inr (Query cols out), m) \<and>
    execute_select m' ProjectAll table None = Some (Inr (Query cols out'), m') \<and> mset out' = add_mset vs (mset out)"
proof -
  from execute_insert_done [OF assms(1-3)] assms(4) have d: "db_ok m'" "sql_step (db_tables m) (Insert table literals) res (db_tables m')"
    by (auto simp: statement_done_def)
  from d(2) obtain cols rows vs where t: "db_tables m table = Some (cols, rows)" "coerce_values cols literals = Inr vs"
    "db_tables m' table = Some (cols, add_mset vs rows)" by (elim sql_step_insertE) auto
  from select_all [OF assms(1) t(1)] obtain rel out where
    o: "relation_by_name (cs_catalog (ts_store m)) table = Some rel" "ri_columns rel = cols"
      "execute_select m ProjectAll table None = Some (Inr (Query (result_columns cols [0..<length cols]) out), m)" "mset out = rows" .
  from select_all [OF d(1) t(3)] obtain out' where
    "execute_select m' ProjectAll table None = Some (Inr (Query (result_columns cols [0..<length cols]) out'), m')" "mset out' = add_mset vs rows" .
  with o t(2) show ?thesis by auto
qed

theorem select_after_insert_witness:
  "\<exists>m m' cols out out'. execute_insert m ''t'' [Integer 5] = Some (Inr (StatementComplete 1), m') \<and>
     execute_select m ProjectAll ''t'' None = Some (Inr (Query cols out), m) \<and>
     execute_select m' ProjectAll ''t'' None = Some (Inr (Query cols out'), m') \<and> mset out' = add_mset [Integer 5] (mset out)"
proof -
  from sample_run obtain s m' where s: "db_ok (ts_new s empty_wal)" "cs_catalog s = sample_catalog"
    "execute (ts_new s empty_wal) (render_statement sample_insert) [] = Some (Inr (StatementComplete 1), m')" .
  let ?m = "ts_new s empty_wal"
  have i: "execute_insert ?m ''t'' [Integer 5] = Some (Inr (StatementComplete 1), m')"
    using s(3) by (simp add: execute_parsed [OF sample_insert_text(2)], simp add: sample_insert_def execute_statement_def)
  have fits: "insert_fits ?m ''t'' [Integer 5]" using sample_insert_fits [of ?m] s(2) by (simp add: sample_insert_def ts_new_def)
  have "coerce_values (ri_columns (the (relation_by_name (cs_catalog (ts_store ?m)) ''t''))) [Integer 5] = Inr [Integer 5]"
    using s(2) by (simp add: ts_new_def relation_by_name_def sample_catalog_def sample_relation_def sample_columns_def coerce_values_def coerce_value_def)
  with select_after_insert [OF s(1) _ fits i] obtain cols out out' where "execute_select ?m ProjectAll ''t'' None = Some (Inr (Query cols out), ?m)"
    "execute_select m' ProjectAll ''t'' None = Some (Inr (Query cols out'), m')" "mset out' = add_mset [Integer 5] (mset out)" by auto
  with i show ?thesis by blast
qed

text \<open>C24: Integer literals never wrap around: a sequence of decimal digits, with or without a minus
  sign, is accepted as an integer exactly when its value is in the range of \<open>i64\<close>, and the
  stored 64-bit integer then has exactly that value.\<close>

theorem integer_literals_in_bounds:
  assumes "ds \<noteq> []" and "all_digits ds"
  shows "((\<exists>i. parse_number ds = Inr (Integer i)) \<longleftrightarrow> digits_value ds < 2 ^ 63) \<and>
    ((\<exists>i. parse_number (CHR ''-'' # ds) = Inr (Integer i)) \<longleftrightarrow> digits_value ds \<le> 2 ^ 63) \<and>
    (\<forall>i. parse_number ds = Inr (Integer i) \<longrightarrow> sint i = int (digits_value ds)) \<and>
    (\<forall>i. parse_number (CHR ''-'' # ds) = Inr (Integer i) \<longrightarrow> sint i = - int (digits_value ds))"
proof -
  have dot: "CHR ''.'' \<notin> set ds" using assms(2) by (auto simp: all_digits_def list_all_iff is_ascii_digit_iff)
  have sg: "split_sign ds = (False, ds)" using assms by (cases ds) (auto simp: split_sign_def all_digits_def is_ascii_digit_iff)
  have p: "parse_i64 ds = (if digits_value ds < 2 ^ 63 then Some (of_nat (digits_value ds)) else None)"
    "parse_i64 (CHR ''-'' # ds) = (if digits_value ds \<le> 2 ^ 63 then Some (- of_nat (digits_value ds)) else None)"
    using assms sg by (simp_all add: parse_i64_def split_sign_def)
  have pos: "sint (of_nat n :: u64) = int n" if "n < 2 ^ 63" for n
    using that by (simp add: signed_of_nat signed_take_bit_int_eq_self)
  have neg: "sint (- of_nat n :: u64) = - int n" if "n \<le> 2 ^ 63" for n
    using that signed_of_int [of "- int n", where 'a = int and 'b = 64] by (simp add: signed_take_bit_int_eq_self)
  show ?thesis using dot p pos neg by (auto simp: parse_number_def res_simps split: if_splits)
qed

theorem integer_literals_in_bounds_witness:
  "(\<exists>i. parse_number ''9223372036854775807'' = Inr (Integer i)) \<and> \<not> (\<exists>i. parse_number ''9223372036854775808'' = Inr (Integer i)) \<and>
   (\<exists>i. parse_number (CHR ''-'' # ''9223372036854775808'') = Inr (Integer i))"
  using integer_literals_in_bounds [of "''9223372036854775807''"] integer_literals_in_bounds [of "''9223372036854775808''"]
  by (simp add: all_digits_def is_ascii_digit_iff digits_value_def)

end
