(* ===== verification/Rdbms_Sql_Session.thy ===== *)
theory Rdbms_Sql_Session
  imports Rdbms_Sql_Props
begin

text \<open>
  Sessions: a client sends one statement text after the other to a \<open>SqlSession\<close> and stops at the
  first error. The step from single statements to scripts needs only the contract of a machine
  that simulates a specification, so it is proved once in a locale, which the session meets.
\<close>

section \<open>Scripts\<close>

text \<open>Running commands one after the other up to the first error.\<close>

fun run_script :: "('m \<Rightarrow> 'c \<Rightarrow> ('m, 'e, 'r) stres option) \<Rightarrow> 'm \<Rightarrow> 'c list \<Rightarrow> ('m, 'e, 'r list) stres option" where
  "run_script run m [] = Some (Inr [], m)"
| "run_script run m (c # cs) =
     bindSO (run m c) (\<lambda>x m1. bindSO (run_script run m1 cs) (\<lambda>xs m2. Some (Inr (x # xs), m2)))"

text \<open>Every command that is reached is acceptable in the state it meets.\<close>

fun script_good :: "('m \<Rightarrow> 'c \<Rightarrow> ('m, 'e, 'r) stres option) \<Rightarrow> ('m \<Rightarrow> 'c \<Rightarrow> bool) \<Rightarrow> 'm \<Rightarrow> 'c list \<Rightarrow> bool" where
  "script_good run good m [] = True"
| "script_good run good m (c # cs) =
     (good m c \<and> (case run m c of Some (Inr x, m1) \<Rightarrow> script_good run good m1 cs | _ \<Rightarrow> True))"

text \<open>The specification of a script: one step per command.\<close>

inductive spec_steps :: "('a \<Rightarrow> 'c \<Rightarrow> 'r \<Rightarrow> 'a \<Rightarrow> bool) \<Rightarrow> 'a \<Rightarrow> 'c list \<Rightarrow> 'r list \<Rightarrow> 'a \<Rightarrow> bool"
  for step :: "'a \<Rightarrow> 'c \<Rightarrow> 'r \<Rightarrow> 'a \<Rightarrow> bool" where
  finished: "spec_steps step a [] [] a"
| command: "step a c x b \<Longrightarrow> spec_steps step b cs xs d \<Longrightarrow> spec_steps step a (c # cs) (x # xs) d"

inductive_cases spec_steps_ConsE: "spec_steps step a (c # cs) xs d"
inductive_cases spec_steps_NilE: "spec_steps step a [] xs d"

section \<open>Machines that simulate a specification\<close>

locale simulating_machine =
  fixes run :: "'m \<Rightarrow> 'c \<Rightarrow> ('m, 'e, 'r) stres option"
    and good :: "'m \<Rightarrow> 'c \<Rightarrow> bool"
    and inv :: "'m \<Rightarrow> bool"
    and abs :: "'m \<Rightarrow> 'a"
    and step :: "'a \<Rightarrow> 'c \<Rightarrow> 'r \<Rightarrow> 'a \<Rightarrow> bool"
  assumes returns: "inv m \<Longrightarrow> good m c \<Longrightarrow> run m c \<noteq> None"
    and simulates: "inv m \<Longrightarrow> good m c \<Longrightarrow> run m c = Some (Inr x, m') \<Longrightarrow> inv m' \<and> step (abs m) c x (abs m')"
begin

lemma script_simulates:
  "inv m \<Longrightarrow> script_good run good m cs \<Longrightarrow>
    \<exists>r m'. run_script run m cs = Some (r, m') \<and> (\<forall>xs. r = Inr xs \<longrightarrow> inv m' \<and> spec_steps step (abs m) cs xs (abs m'))"
proof (induction cs arbitrary: m)
  case Nil
  then show ?case by (auto intro: spec_steps.finished)
next
  case (Cons c cs)
  then have g: "good m c" by simp
  from returns [OF Cons.prems(1) g] obtain r m1 where r: "run m c = Some (r, m1)" by auto
  show ?case
  proof (cases r)
    case (Inl e)
    with r show ?thesis by simp
  next
    case (Inr x)
    note s = simulates [OF Cons.prems(1) g r [unfolded Inr]]
    from Cons.prems(2) r Inr have "script_good run good m1 cs" by simp
    from Cons.IH [OF conjunct1 [OF s] this] obtain q m2 where q: "run_script run m1 cs = Some (q, m2)"
      "\<forall>xs. q = Inr xs \<longrightarrow> inv m2 \<and> spec_steps step (abs m1) cs xs (abs m2)" by blast
    with r Inr s show ?thesis by (cases q) (auto intro: spec_steps.command)
  qed
qed

lemma script_error_prefix:
  assumes "inv m" "script_good run good m cs" "run_script run m cs = Some (Inl e, m')"
  shows "\<exists>ds c rest xs m1. cs = ds @ c # rest \<and> run_script run m ds = Some (Inr xs, m1) \<and> inv m1 \<and>
    spec_steps step (abs m) ds xs (abs m1) \<and> good m1 c \<and> run m1 c = Some (Inl e, m')"
  using assms
proof (induction cs arbitrary: m)
  case (Cons c cs)
  then have g: "good m c" by simp
  from returns [OF Cons.prems(1) g] obtain r m1 where r: "run m c = Some (r, m1)" by auto
  show ?case
  proof (cases r)
    case (Inl e')
    with r Cons.prems(1,3) g show ?thesis
      by (intro exI [of _ "[]"] exI [of _ c] exI [of _ cs] exI [of _ "[]"] exI [of _ m]) (auto intro: spec_steps.finished)
  next
    case (Inr x)
    note s = simulates [OF Cons.prems(1) g r [unfolded Inr]]
    have sg: "script_good run good m1 cs" using Cons.prems(2) r Inr by simp
    have "run_script run m1 cs = Some (Inl e, m')"
      using Cons.prems(3) r Inr by (cases "run_script run m1 cs") (auto simp: bindSO_def split: sum.splits)
    from Cons.IH [OF conjunct1 [OF s] sg this] obtain ds d rest xs m2 where
      d: "cs = ds @ d # rest" "run_script run m1 ds = Some (Inr xs, m2)" "inv m2" "spec_steps step (abs m1) ds xs (abs m2)"
      "good m2 d" "run m2 d = Some (Inl e, m')" by blast
    have "run_script run m (c # ds) = Some (Inr (x # xs), m2)" using r Inr d(2) by simp
    moreover have "spec_steps step (abs m) (c # ds) (x # xs) (abs m2)" using s d(4) by (auto intro: spec_steps.command)
    ultimately show ?thesis using d(1,3,5,6) by (metis append_Cons)
  qed
qed simp

end

section \<open>The session\<close>

text \<open>A text the session accepts: its characters are valid and, if it parses, its statement fits.\<close>

definition text_fits :: "sql_session \<Rightarrow> string \<Rightarrow> bool" where
  "text_fits s sql \<longleftrightarrow> str_ok sql \<and> (\<forall>st. parse_statement sql = Some (Inr st) \<longrightarrow> statement_fits (ss_store s) st)"

definition text_step :: "tables \<Rightarrow> string \<Rightarrow> exec_result \<Rightarrow> tables \<Rightarrow> bool" where
  "text_step db sql res db' \<longleftrightarrow> (\<exists>st. parse_statement sql = Some (Inr st) \<and> sql_step db st res db')"

lemma session_outcome:
  assumes "db_ok (ss_store s)" "text_fits s sql"
  shows "\<exists>r s'. session_execute s sql [] = Some (r, s') \<and>
    (\<forall>res. r = Inr res \<longrightarrow> db_ok (ss_store s') \<and> text_step (db_tables (ss_store s)) sql res (db_tables (ss_store s'))) \<and>
    (\<forall>e. r = Inl e \<longrightarrow> failed_clean (ss_store s) e (ss_store s'))"
proof -
  from parse_total [of sql] obtain p where p: "parse_statement sql = Some p" by blast
  show ?thesis
  proof (cases p)
    case (Inl e)
    with p show ?thesis by (simp add: session_execute_def execute_def)
  next
    case (Inr st)
    with assms p have "str_ok sql" "statement_fits (ss_store s) st" by (simp_all add: text_fits_def)
    from execute_done [OF assms(1) this(1) p [unfolded Inr] this(2)] obtain r m' where
      m': "execute (ss_store s) sql [] = Some (r, m')" "statement_done (ss_store s) st r m'" by blast
    moreover have "failed_clean (ss_store s) e m'" if "r = Inl e" for e
      using execute_fails_clean [of "ss_store s" sql "[]" e m'] db_ok_files [OF assms(1)] m'(1) that by simp
    ultimately show ?thesis using p Inr by (cases r) (auto simp: session_execute_def statement_done_def text_step_def)
  qed
qed

interpretation session: simulating_machine "\<lambda>s sql. session_execute s sql []" text_fits "\<lambda>s. db_ok (ss_store s)"
  "\<lambda>s. db_tables (ss_store s)" text_step
proof
  fix s sql assume "db_ok (ss_store s)" "text_fits s sql"
  from session_outcome [OF this] show "session_execute s sql [] \<noteq> None" by auto
next
  fix s sql res s' assume "db_ok (ss_store s)" "text_fits s sql" "session_execute s sql [] = Some (Inr res, s')"
  from session_outcome [OF this(1,2)] this(3)
  show "db_ok (ss_store s') \<and> text_step (db_tables (ss_store s)) sql res (db_tables (ss_store s'))" by auto
qed

section \<open>Properties\<close>

text \<open>C7: A session refines the table specification over whole scripts. Sending texts one after
  the other and stopping at the first error always returns. When all succeed, the results and the
  final tables are those of one specified step per statement. When one fails, the statements before
  it have run to a session \<open>s\<close> with the specified results and tables, the failing statement was
  executed on \<open>s\<close>, and the store is exactly the one of \<open>s\<close>, unless the error came after the
  transaction of this very statement was completely in the durable log, in which case the log has
  grown by exactly its records, the error is the one of installing its pages in the data file and
  only these pages differ (\<open>commit_appended\<close>).
  As for single statements, the texts must be valid, the statements fit and reads work.\<close>

theorem session_refines_tables:
  assumes "db_ok m" and "script_good (\<lambda>s sql. session_execute s sql []) text_fits (session_new m) sqls"
  shows "\<exists>r s'. run_script (\<lambda>s sql. session_execute s sql []) (session_new m) sqls = Some (r, s') \<and>
    (\<forall>results. r = Inr results \<longrightarrow> db_ok (into_store s') \<and> spec_steps text_step (db_tables m) sqls results (db_tables (into_store s'))) \<and>
    (\<forall>e. r = Inl e \<longrightarrow> (\<exists>before sql after results s. sqls = before @ sql # after \<and>
      run_script (\<lambda>s sql. session_execute s sql []) (session_new m) before = Some (Inr results, s) \<and>
      db_ok (into_store s) \<and> spec_steps text_step (db_tables m) before results (db_tables (into_store s)) \<and>
      session_execute s sql [] = Some (Inl e, s') \<and> ts_active_writer (into_store s') = ts_active_writer (into_store s) \<and>
      (ts_store (into_store s') = ts_store (into_store s) \<or> commit_appended (into_store s) e (into_store s'))))"
proof -
  have ok: "db_ok (ss_store (session_new m))" "db_tables (ss_store (session_new m)) = db_tables m"
    using assms(1) by (simp_all add: session_new_def)
  from session.script_simulates [OF ok(1) assms(2)] obtain r s' where
    r: "run_script (\<lambda>s sql. session_execute s sql []) (session_new m) sqls = Some (r, s')"
    and good: "\<forall>results. r = Inr results \<longrightarrow> db_ok (into_store s') \<and> spec_steps text_step (db_tables m) sqls results (db_tables (into_store s'))"
    unfolding ok(2) into_store_def by blast
  have "\<exists>before sql after results s. sqls = before @ sql # after \<and>
      run_script (\<lambda>s sql. session_execute s sql []) (session_new m) before = Some (Inr results, s) \<and>
      db_ok (into_store s) \<and> spec_steps text_step (db_tables m) before results (db_tables (into_store s)) \<and>
      session_execute s sql [] = Some (Inl e, s') \<and> failed_clean (into_store s) e (into_store s')" if "r = Inl e" for e
  proof -
    from session.script_error_prefix [OF ok(1) assms(2) r [unfolded that]] obtain before sql after results s where
      p: "sqls = before @ sql # after" "run_script (\<lambda>s sql. session_execute s sql []) (session_new m) before = Some (Inr results, s)"
      "db_ok (ss_store s)" "spec_steps text_step (db_tables m) before results (db_tables (ss_store s))"
      and f: "text_fits s sql" "session_execute s sql [] = Some (Inl e, s')" unfolding ok(2) by blast
    from session_outcome [OF p(3) f(1)] f(2) have "failed_clean (ss_store s) e (ss_store s')" by auto
    with p f(2) show ?thesis unfolding into_store_def by blast
  qed
  with r good show ?thesis unfolding failed_clean_def by blast
qed

theorem session_refines_tables_witness:
  "\<exists>m s'. db_ok m \<and> run_script (\<lambda>s sql. session_execute s sql []) (session_new m) [render_statement (Insert ''t'' [Integer 5])] =
       Some (Inr [StatementComplete 1], s') \<and> db_tables (into_store s') ''t'' = Some (sample_columns, {#[Integer 5]#})"
proof -
  from sample_run obtain s m' where s: "db_ok (ts_new s empty_wal)" "cs_catalog s = sample_catalog"
    "db_tables (ts_new s empty_wal) ''t'' = Some (sample_columns, {#})"
    "execute (ts_new s empty_wal) (render_statement sample_insert) [] = Some (Inr (StatementComplete 1), m')" .
  let ?m = "ts_new s empty_wal" and ?sql = "render_statement sample_insert"
  have ex: "session_execute (session_new ?m) ?sql [] = Some (Inr (StatementComplete 1), \<lparr>ss_store = m'\<rparr>)"
    using s(4) by (simp add: session_execute_def session_new_def)
  have "statement_fits ?m sample_insert" using s(2) by (intro sample_insert_fits) (simp add: ts_new_def)
  then have "text_fits (session_new ?m) ?sql" using sample_insert_text by (simp add: text_fits_def session_new_def)
  then have "script_good (\<lambda>s sql. session_execute s sql []) text_fits (session_new ?m) [?sql]" using ex by simp
  from session_refines_tables [OF s(1) this] ex
  have steps: "spec_steps text_step (db_tables ?m) [?sql] [StatementComplete 1] (db_tables m')" by (simp add: into_store_def)
  then have "sql_step (db_tables ?m) sample_insert (StatementComplete 1) (db_tables m')"
    using sample_insert_text(2) by (auto simp: text_step_def elim!: spec_steps_ConsE spec_steps_NilE)
  then have "db_tables m' ''t'' = Some (sample_columns, {#[Integer 5]#})"
    using s(3) unfolding sample_insert_def by (elim sql_step_insertE) (auto simp: coerce_values_def coerce_value_def sample_columns_def)
  with s(1) ex show ?thesis unfolding sample_insert_def by (auto simp: into_store_def)
qed

end
