(* ===== verification/Rdbms_Entry.thy ===== *)
theory Rdbms_Entry
  imports Rdbms_Core
begin

text \<open>
  The entry points around the engine: the exported functions of the mobile library
  (\<open>rdbms_android\<close>), whose addition clamps instead of wrapping, and the message of the command
  line (\<open>rdbms_cli\<close>). Neither opens a database.
\<close>

type_synonym i32 = "32 word"

section \<open>rdbms\_android\<close>

definition ANDROID_PORT_STAGE :: i32 where
  "ANDROID_PORT_STAGE = 10"

definition ANDROID_SMOKE_ABI_VERSION :: i32 where
  "ANDROID_SMOKE_ABI_VERSION = 1"

definition android_port_stage :: i32 where
  "android_port_stage = ANDROID_PORT_STAGE"

definition android_smoke_abi_version :: i32 where
  "android_smoke_abi_version = ANDROID_SMOKE_ABI_VERSION"

text \<open>The names that the compiler gives the two types are parameters.\<close>

definition android_smoke_banner :: "string \<Rightarrow> string \<Rightarrow> string" where
  "android_smoke_banner result_type parser_type = ''rdbms-android-stage-10:'' @ result_type @ '':'' @ parser_type"

text \<open>\<open>i32::saturating_add\<close> of the standard library.\<close>

definition saturating_add_i32 :: "i32 \<Rightarrow> i32 \<Rightarrow> i32" where
  "saturating_add_i32 a b =
     (let s = sint a + sint b in
      if s < - (2 ^ 31) then word_of_int (- (2 ^ 31)) else if 2 ^ 31 - 1 < s then word_of_int (2 ^ 31 - 1) else word_of_int s)"

text \<open>The exported symbols; the two handles are never read.\<close>

definition Java_dev_rdbms_NativeSmoke_stage :: "'env \<Rightarrow> 'cls \<Rightarrow> i32" where
  "Java_dev_rdbms_NativeSmoke_stage env cls = android_port_stage"

definition Java_dev_rdbms_NativeSmoke_abiVersion :: "'env \<Rightarrow> 'cls \<Rightarrow> i32" where
  "Java_dev_rdbms_NativeSmoke_abiVersion env cls = android_smoke_abi_version"

definition Java_dev_rdbms_NativeSmoke_add :: "'env \<Rightarrow> 'cls \<Rightarrow> i32 \<Rightarrow> i32 \<Rightarrow> i32" where
  "Java_dev_rdbms_NativeSmoke_add env cls left right = saturating_add_i32 left right"

section \<open>rdbms\_cli\<close>

text \<open>What \<open>main\<close> prints.\<close>

definition cli_main :: string where
  "cli_main = ''RDBMS reboot: storage/page/WAL/catalog milestones come before SQL shell'' @ [CHR 0x0A]"

section \<open>Bounds of the exported addition\<close>

lemma sint_word_of_int_i32: "- (2 ^ 31) \<le> s \<Longrightarrow> s < 2 ^ 31 \<Longrightarrow> sint (word_of_int s :: i32) = s"
  by (simp add: signed_of_int signed_take_bit_int_eq_self)

text \<open>The exported addition gives the exact sum when it fits into 32 bits and the nearest bound
  otherwise: it never wraps around.\<close>

theorem native_add_clamps:
  "sint (Java_dev_rdbms_NativeSmoke_add env cls a b) = max (- (2 ^ 31)) (min (2 ^ 31 - 1) (sint a + sint b))"
proof -
  have "sint (saturating_add_i32 a b) = max (- (2 ^ 31)) (min (2 ^ 31 - 1) (sint a + sint b))"
    using sint_word_of_int_i32 [of "- (2 ^ 31)"] sint_word_of_int_i32 [of "2 ^ 31 - 1"] sint_word_of_int_i32 [of "sint a + sint b"]
    unfolding saturating_add_i32_def Let_def by (auto simp: max_def min_def)
  then show ?thesis by (simp only: Java_dev_rdbms_NativeSmoke_add_def)
qed

end
