(* ===== verification/Rdbms_Legacy.thy ===== *)
theory Rdbms_Legacy
  imports Rdbms_Core
begin

text \<open>
  The archived prototype under \<open>docs/legacy/RDBMS-master\<close>: its in-memory tables and the
  dispatcher of query texts. A call that runs into \<open>todo!()\<close> panics, which is \<open>None\<close>. The
  function that writes a database as a JSON file is never called and is left out.
\<close>

section \<open>Data\<close>

datatype legacy_data_type = LText | LInteger | LDouble

datatype legacy_value = LTextValue string | LIntegerValue u64 | LDoubleValue u64

record legacy_column =
  lc_name :: string
  lc_data_type :: legacy_data_type

record legacy_row =
  lr_values :: "legacy_value list"

record legacy_table =
  lt_name :: string
  lt_columns :: "legacy_column list"
  lt_rows :: "legacy_row list"

record legacy_database =
  ld_tables :: "legacy_table list"

datatype query_type = QSelect | QShow | QCreate | QUse | QDrop | QDelete | QInsert | QError

datatype sql_result = RDb legacy_database | RRows "legacy_row list" | RColumns "legacy_column list"
  | RTable legacy_table | RError string

definition legacy_database_new :: legacy_database where
  "legacy_database_new = \<lparr>ld_tables = []\<rparr>"

definition legacy_table_new :: "string \<Rightarrow> legacy_column list \<Rightarrow> legacy_table" where
  "legacy_table_new name flds = \<lparr>lt_name = name, lt_columns = flds, lt_rows = []\<rparr>"

definition new_table :: "legacy_database \<Rightarrow> string \<Rightarrow> legacy_column list \<Rightarrow> legacy_database" where
  "new_table db name flds = db\<lparr>ld_tables := ld_tables db @ [legacy_table_new name flds]\<rparr>"

section \<open>Queries\<close>

fun split_spaces :: "string \<Rightarrow> string list" where
  "split_spaces [] = [[]]"
| "split_spaces (c # cs) = (if c = CHR '' '' then [] # split_spaces cs
     else case split_spaces cs of [] \<Rightarrow> [[c]] | w # ws \<Rightarrow> (c # w) # ws)"

text \<open>\<open>str::split_terminator\<close> drops a last empty piece.\<close>

definition split_terminator :: "string \<Rightarrow> string list" where
  "split_terminator s = (let ws = split_spaces s in if last ws = [] then butlast ws else ws)"

definition starts_with :: "string \<Rightarrow> string \<Rightarrow> bool" where
  "starts_with s p \<longleftrightarrow> take (length p) s = p"

definition get_query_type :: "string \<Rightarrow> query_type" where
  "get_query_type q =
     (if starts_with q ''SELECT'' then QSelect
      else if starts_with q ''SHOW'' then QShow
      else if starts_with q ''USE'' then QUse
      else if starts_with q ''DROP'' then QDrop
      else if starts_with q ''DELETE'' then QDelete
      else if starts_with q ''INSERT'' then QInsert
      else QError)"

definition legacy_create_database :: "string \<Rightarrow> sql_result" where
  "legacy_create_database name = RDb legacy_database_new"

definition legacy_create_table :: "string \<Rightarrow> legacy_database \<Rightarrow> sql_result" where
  "legacy_create_table name current_db = RDb (new_table current_db name [])"

text \<open>The messages are Russian texts in UTF-8.\<close>

definition msg_bad_create :: string where
  "msg_bad_create = map (char_of :: nat \<Rightarrow> char)
     [0xD0, 0x9D, 0xD0, 0xB5, 0xD0, 0xBA, 0xD0, 0xBE, 0xD1, 0x80, 0xD1, 0x80, 0xD0, 0xB5, 0xD0, 0xBA, 0xD1, 0x82,
      0xD0, 0xBD, 0xD1, 0x8B, 0xD0, 0xB9, 0x20, 0x43, 0x52, 0x45, 0x41, 0x54, 0x45, 0x20, 0xD0, 0xB7, 0xD0, 0xB0,
      0xD0, 0xBF, 0xD1, 0x80, 0xD0, 0xBE, 0xD1, 0x81]"

definition msg_bad_delete :: string where
  "msg_bad_delete = map (char_of :: nat \<Rightarrow> char)
     [0xD0, 0x9D, 0xD0, 0xB5, 0xD0, 0xBA, 0xD0, 0xBE, 0xD1, 0x80, 0xD1, 0x80, 0xD0, 0xB5, 0xD0, 0xBA, 0xD1, 0x82,
      0xD0, 0xBD, 0xD1, 0x8B, 0xD0, 0xB9, 0x20, 0x44, 0x45, 0x4C, 0x45, 0x54, 0x45, 0x20, 0xD0, 0xB7, 0xD0, 0xB0,
      0xD0, 0xBF, 0xD1, 0x80, 0xD0, 0xBE, 0xD1, 0x81]"

definition msg_unknown_query :: string where
  "msg_unknown_query = map (char_of :: nat \<Rightarrow> char)
     [0xD0, 0x9E, 0xD1, 0x88, 0xD0, 0xB8, 0xD0, 0xB1, 0xD0, 0xBA, 0xD0, 0xB0, 0x20, 0xD1, 0x80, 0xD0, 0xB0, 0xD1,
      0x81, 0xD0, 0xBF, 0xD0, 0xBE, 0xD0, 0xB7, 0xD0, 0xBD, 0xD0, 0xBE, 0xD0, 0xB2, 0xD0, 0xB0, 0xD0, 0xBD, 0xD0,
      0xB8, 0xD1, 0x8F, 0x20, 0xD0, 0xB7, 0xD0, 0xB0, 0xD0, 0xBF, 0xD1, 0x80, 0xD0, 0xBE, 0xD1, 0x81, 0xD0, 0xB0]"

definition msg_table_outside :: string where
  "msg_table_outside = map (char_of :: nat \<Rightarrow> char)
     [0xD1, 0x81, 0xD0, 0xBE, 0xD0, 0xB7, 0xD0, 0xB4, 0xD0, 0xB0, 0xD0, 0xBD, 0xD0, 0xB8, 0xD0, 0xB5, 0x20, 0xD1,
      0x82, 0xD0, 0xB0, 0xD0, 0xB1, 0xD0, 0xBB, 0xD0, 0xB8, 0xD1, 0x86, 0xD1, 0x8B, 0x20, 0xD0, 0xB2, 0xD0, 0xBD,
      0xD0, 0xB5, 0x20, 0xD0, 0xB2, 0xD1, 0x8B, 0xD0, 0xB1, 0xD1, 0x80, 0xD0, 0xB0, 0xD0, 0xBD, 0xD0, 0xBD, 0xD0,
      0xBE, 0xD0, 0xB9, 0x20, 0xD0, 0x91, 0xD0, 0x94]"

definition msg_table_without_db :: string where
  "msg_table_without_db = map (char_of :: nat \<Rightarrow> char)
     [0xD1, 0x81, 0xD0, 0xBE, 0xD0, 0xB7, 0xD0, 0xB4, 0xD0, 0xB0, 0xD0, 0xBD, 0xD0, 0xB8, 0xD0, 0xB5, 0x20, 0xD1,
      0x82, 0xD0, 0xB0, 0xD0, 0xB1, 0xD0, 0xBB, 0xD0, 0xB8, 0xD1, 0x86, 0xD1, 0x8B, 0x20, 0xD0, 0xB1, 0xD0, 0xB5,
      0xD0, 0xB7, 0x20, 0xD0, 0x91, 0xD0, 0x94]"

definition msg_bad_argument :: string where
  "msg_bad_argument = map (char_of :: nat \<Rightarrow> char)
     [0xD0, 0xBD, 0xD0, 0xB5, 0xD0, 0xBA, 0xD0, 0xBE, 0xD1, 0x80, 0xD1, 0x80, 0xD0, 0xB5, 0xD0, 0xBA, 0xD1, 0x82,
      0xD0, 0xBD, 0xD1, 0x8B, 0xD0, 0xB9, 0x20, 0xD0, 0xB0, 0xD1, 0x80, 0xD0, 0xB3, 0xD1, 0x83, 0xD0, 0xBC, 0xD0,
      0xB5, 0xD0, 0xBD, 0xD1, 0x82, 0x20, 0xD0, 0xB7, 0xD0, 0xB0, 0xD0, 0xBF, 0xD1, 0x80, 0xD0, 0xBE, 0xD1, 0x81,
      0xD0, 0xB0]"

text \<open>The check for a table inside a selected database is the constant \<open>false\<close>, and the check
  that a file was made is the constant \<open>true\<close>.\<close>

definition create_distribute :: "string \<Rightarrow> string \<Rightarrow> legacy_database option \<Rightarrow> sql_result" where
  "create_distribute arg name db =
     (if arg = ''DBRAM'' then legacy_create_database name
      else if arg = ''TABLE'' then
        (case db of
           Some d \<Rightarrow> let check = False in if check then legacy_create_table name d else RError msg_table_outside
         | None \<Rightarrow> RError msg_table_without_db)
      else if arg = ''DB'' then legacy_create_database name
      else RError msg_bad_argument)"

definition sql_distribute :: "legacy_database \<Rightarrow> string \<Rightarrow> sql_result option" where
  "sql_distribute db query =
     (case get_query_type query of
        QCreate \<Rightarrow>
          (let parts = split_terminator query in
           if 3 < length parts \<or> length parts < 2 then Some (RError msg_bad_create)
           else if length parts = 2 then Some (create_distribute (parts ! 1) ''defDBname'' None)
           else Some (create_distribute (parts ! 1) (parts ! 2) None))
      | QDelete \<Rightarrow> if length (split_terminator query) \<noteq> 2 then Some (RError msg_bad_delete) else None
      | QDrop \<Rightarrow> None
      | QInsert \<Rightarrow> None
      | QSelect \<Rightarrow> None
      | QShow \<Rightarrow> None
      | QUse \<Rightarrow> None
      | QError \<Rightarrow> Some (RError msg_unknown_query))"

text \<open>The result of the dispatcher is dropped and the call reports success.\<close>

definition legacy_sql_execute :: "legacy_database \<Rightarrow> string \<Rightarrow> ((string + unit) \<times> legacy_database) option" where
  "legacy_sql_execute db query = map_option (\<lambda>_. (Inr (), db)) (sql_distribute db query)"

section \<open>What the dispatcher can do\<close>

text \<open>No query is recognised as a \<open>CREATE\<close>: the whole branch that makes databases is never taken,
  and every query either panics or ends in an error that the caller does not see.\<close>

theorem legacy_create_is_unreachable:
  "get_query_type q \<noteq> QCreate \<and>
   (sql_distribute db q = None \<or> (\<exists>msg. sql_distribute db q = Some (RError msg))) \<and>
   (legacy_sql_execute db q = None \<or> legacy_sql_execute db q = Some (Inr (), db))"
  by (simp add: legacy_sql_execute_def sql_distribute_def get_query_type_def)

text \<open>A \<open>CREATE\<close> query is reported as an unknown query.\<close>

lemma legacy_create_refused: "starts_with q ''CREATE'' \<Longrightarrow> sql_distribute db q = Some (RError msg_unknown_query)"
proof -
  assume "starts_with q ''CREATE''"
  then obtain r where "q = ''CREATE'' @ r" by (metis append_take_drop_id starts_with_def)
  then show ?thesis by (simp add: sql_distribute_def get_query_type_def starts_with_def)
qed

end
