(* ===== verification/Spec2Isabelle.thy ===== *)
theory Spec2Isabelle
  imports Rdbms_Recovery Rdbms_Heap_Spec Rdbms_Tx_Reuse Rdbms_Sql_Session Rdbms_Entry Rdbms_Legacy
begin

text \<open>
  \<^bold>\<open>A verification of the RDBMS workspace.\<close>

  The program is an embedded relational database in Rust, a workspace of small crates under
  \<open>src/crates\<close>. From the bottom up: \<open>rdbms_core\<close> has the identifiers, errors and SQL values;
  \<open>rdbms_page\<close> a slotted page of 4096 bytes; \<open>rdbms_vfs\<close> random-access files and files of
  pages; \<open>rdbms_wal\<close> a log of page images with begin, commit and abort records;
  \<open>rdbms_recovery\<close> the pass that replays committed images; \<open>rdbms_catalog\<close> the catalog, kept on
  page 0, and heap tables; \<open>rdbms_index\<close> a B+Tree over any page store; \<open>rdbms_tx\<close>
  single-writer transactions that stage pages, log them and install them; \<open>rdbms_extension\<close>
  and \<open>rdbms_ext_abi\<close> scalar functions; \<open>rdbms_sql\<close> the parser and the executor. A statement
  is parsed, resolved against the catalog, run in one transaction on heap pages and index
  trees, logged, synced, written to the data file and synced again; after a crash the recovery
  pass runs over log and data file and the catalog is opened on the result.

  \<^bold>\<open>Conventions.\<close> A Rust \<open>Result\<close> is a sum with the error on the left; a call that also changes
  something through \<open>&mut self\<close> returns the sum together with the new state, on errors too
  (\<open>stres\<close>, sequenced by \<open>bindS\<close>). \<open>None\<close> around such a result means that the call does not
  return: a panic, or a loop that does not end. Machine integers are words, with checked and
  wrapping arithmetic as in the source; \<open>usize\<close> is a natural number with the 64-bit bound
  written out. Texts are lists of bytes; \<open>str_ok\<close> says that they are valid UTF-8, as the type
  \<open>String\<close> guarantees. Doubles are their 64 bits. The operating system is a script in each file:
  short transfers, interrupts, failures and failed syncs of writes come in the order of the lists
  \<open>fl_writes\<close> and \<open>fl_syncs\<close>, which each call consumes; \<open>fl_reads\<close> gives the answers to a read by
  its offset and length, so the same read is always answered alike. Writing beyond the signed
  64-bit range fails with \<open>EFBIG\<close>. \<open>fl_durable\<close> are the bytes a power loss keeps: they change in a
  successful sync only, so written bytes that were not synced count as lost. A theorem without an
  assumption on the script holds for every such behaviour of the disk; \<open>reads_ok\<close> and \<open>writes_ok\<close>
  say that the disk works. \<open>reads_ok\<close> is also part of \<open>store_wf\<close>, \<open>log_holds\<close> and so of \<open>db_ok\<close>:
  theorems with these assumptions are about disks whose reads work, while writes and syncs may
  fail.

  \<^bold>\<open>Storage.\<close>
  \<^item> \<open>Rdbms_Prelude\<close>, \<open>Rdbms_Core\<close>: results, slices, little-endian integers; the types of
    \<open>rdbms_core\<close> with their orders.
  \<^item> \<open>Rdbms_Page\<close>, \<open>Rdbms_Page_Spec\<close>: every operation of \<open>Page\<close> on its bytes. The locale
    \<open>slotted_page\<close> is the contract of an array of slots; \<open>insert_record\<close> refines it with an exact
    success condition, pages built through the interface validate and compact, any single
    changed byte is detected.
  \<^item> \<open>Rdbms_Vfs\<close>: the retry loops of \<open>StdVfsFile\<close> and \<open>PageFile\<close>; locales
    \<open>random_access_file\<close>, \<open>page_store\<close> and \<open>reliable_page_store\<close>. The loops transfer exactly the
    requested bytes; a failed page write changes no other page.
  \<^item> \<open>Rdbms_Wal\<close>, \<open>Rdbms_Wal_Spec\<close>: record envelope, writer, reader, redo. Appended records are
    read back in order, torn or changed records are detected, redo replays exactly the images
    of committed and never aborted transactions.
  \<^item> \<open>Rdbms_Recovery\<close>: the recovery pass; it installs the last committed image of every page,
    durably, and can be repeated after an interruption.
  \<^item> \<open>Rdbms_Codec\<close>: the byte codec of catalog, index and rows, which the source repeats per
    crate, with the locale \<open>codec\<close> that all encoders meet.

  \<^bold>\<open>Catalog, tables, index.\<close>
  \<^item> \<open>Rdbms_Catalog\<close>, \<open>Rdbms_Catalog_Spec\<close>, \<open>Rdbms_Catalog_Inv\<close>: \<open>Catalog\<close>, its record and
    \<open>CatalogStore\<close>; round trips, and the invariant of ids, names and pages. \<open>append_heap_page\<close>
    and \<open>set_index_root_page\<close> do not check the page id they are given, so the invariant holds when
    their callers pass allocated ids that are not in use, as those in the program do.
  \<^item> \<open>Rdbms_Heap_View\<close>, \<open>Rdbms_Heap\<close>, \<open>Rdbms_Heap_Spec\<close>: tables seen through a catalog and a
    map of pages. \<open>insert_row\<close> adds one row to one table, and what a failed \<open>create_table\<close>
    leaves behind.
  \<^item> \<open>Rdbms_Index\<close>, \<open>Rdbms_Index_Codec\<close>, \<open>Rdbms_Index_Tree\<close>, \<open>Rdbms_Index_Spec\<close>,
    \<open>Rdbms_Index_Props\<close>: the B+Tree. \<open>forest\<close> relates pages to trees; the locales
    \<open>index_reader\<close> and \<open>index_store\<close> are the trait \<open>BPlusTreePageStore\<close> with what the tree
    relies on. The descent and the leaf chain are partial functions, proved to return on a
    tree; an index behaves as a multimap.

  \<^bold>\<open>Transactions.\<close>
  \<^item> \<open>Rdbms_Tx\<close>, \<open>Rdbms_Tx_View\<close>, \<open>Rdbms_Tx_Index\<close>: \<open>TransactionalStore\<close> and \<open>Transaction\<close>; the
    view of a transaction is the data file overlaid with its dirty pages, and it meets the
    contract of the index.
  \<^item> \<open>Rdbms_Tx_Commit\<close>, \<open>Rdbms_Tx_Spec\<close>: every point where a commit can stop. Commits are
    atomic under recovery, the log is durable before data is written, a commit publishes
    what the transaction saw, abandoned transactions leave no trace, there is one writer.
  \<^item> \<open>Rdbms_Tx_Reuse\<close>: transaction ids start again at 1 in every session while the log is
    kept; two theorems show what that costs.

  \<^bold>\<open>SQL.\<close>
  \<^item> \<open>Rdbms_Text\<close>, \<open>Rdbms_F64\<close>: characters and numbers of Rust texts; parsing and printing of
    doubles are exact rational arithmetic with one rounding.
  \<^item> \<open>Rdbms_Sql_Parse\<close>, \<open>Rdbms_Sql_Parse_Spec\<close>, \<open>Rdbms_Sql_Print\<close>, \<open>Rdbms_Sql_Round\<close>: lexer and
    parser. Parsing returns on every text, inverts a printer of statements (a reference
    definition), and gives only well-formed statements.
  \<^item> \<open>Rdbms_Extension\<close>: descriptors, registry and the built-in functions; calls are well typed.
  \<^item> \<open>Rdbms_Sql\<close>, \<open>Rdbms_Sql_Row\<close>: one definition per statement with the whole transaction
    around it, coercions, and the row codec.
  \<^item> \<open>Rdbms_Sql_Trees\<close>, \<open>Rdbms_Sql_State\<close>: heaps and index trees in one page space, and the
    consistent databases \<open>db_ok\<close>: typed rows, and every index holding exactly the keys of its
    table.
  \<^item> \<open>Rdbms_Sql_Crash\<close>: what recovery and reopening find after a transaction that stopped
    anywhere, and logs that agree with their data file.
  \<^item> \<open>Rdbms_Sql_Fail\<close>: what a failing statement leaves, for every behaviour of the disk and any
    contents of the files: the store as it was, or a transaction that is completely in the
    durable log.
  \<^item> \<open>Rdbms_Sql_Change\<close>, \<open>Rdbms_Sql_Spec\<close>: the specification \<open>sql_step\<close> on maps from table names
    to columns and multisets of rows, and that every statement implements it.
  \<^item> \<open>Rdbms_Sql_Props\<close>, \<open>Rdbms_Sql_Session\<close>: the properties of statements and of sessions: crash
    atomicity through all layers, refinement, consistency, errors, index scans against full
    scans. The locale \<open>simulating_machine\<close> lifts single statements to scripts.

  \<^bold>\<open>Around the engine.\<close> \<open>Rdbms_Entry\<close> has the exported functions of \<open>rdbms_android\<close> and the message
  of \<open>rdbms_cli\<close>; \<open>Rdbms_Legacy\<close> the dispatcher of the archived prototype under \<open>docs/legacy\<close>.

  \<^bold>\<open>Bounds.\<close> Page ids are 64-bit and never reused, so the theorems on statements ask that some are
  left: for \<open>INSERT\<close> (\<open>ids_left\<close>) a page per relation and tree level, the height of a tree being
  below the number of pages; for \<open>CREATE INDEX\<close> on \<open>n\<close> rows \<open>n * (n + 2)\<close> ids. Nodes are split by
  their number of entries, not by their size, so indexed texts must have at most 987 bytes
  (\<open>key_good\<close>): four such keys fit one page. A longer text can make an \<open>INSERT\<close> fail with a
  full page although the row itself fits; such failures are outside \<open>statement_fits\<close>, but what
  they leave is covered by \<open>failed_statement_leaves_store\<close>, which has none of these bounds. \<open>log_current\<close>, the agreement of log and data file, holds in
  a database made from an empty one and is kept by every successful statement; it can be lost
  by reopening over an old log, as \<open>Rdbms_Tx_Reuse\<close> shows. Recovery does not repair a log that ends
  in a torn record: it reports corruption and leaves the data file alone.

  \<^bold>\<open>Not modelled.\<close> The C-layout tables of \<open>rdbms_ext_abi\<close>, declarations that no code uses; the
  variants of \<open>read_at\<close> and \<open>write_at\<close> for other platforms; \<open>create_db_file\<close> of the archived
  prototype, which writes JSON through a third-party crate and is never called; getters, which are record
  fields; the test modules. The escaping of non-ASCII characters by Rust's \<open>Debug\<close> output in error
  texts is not modelled: such characters pass through. Running out of memory is not modelled: a
  corrupt catalog record with a huge count makes \<open>decode_catalog\<close> fail in the model, where
  \<open>Vec::with_capacity\<close> may abort the process.
\<close>

end
